(* ===== verification/Prelude.thy ===== *)
theory Prelude
  imports Main "HOL-Library.Word"
begin

text \<open>
  Shared vocabulary of the development: the machine integer types of the C++ sources
  (\<open>uint8_t\<close>, \<open>uint16_t\<close>, \<open>uint32_t\<close>, \<open>uint64_t\<close>/\<open>size_t\<close>, all at their width),
  byte strings (\<open>std::string\<close>, \<open>std::string_view\<close>), C++ exceptions as values, the
  size of a container as a \<open>size_t\<close>, and the lemmas on words, lists and runs of a
  state machine that several components use.
\<close>

unbundle bit_operations_syntax

section \<open>Types\<close>

type_synonym u8 = "8 word"
type_synonym u16 = "16 word"
type_synonym u32 = "32 word"
type_synonym u64 = "64 word"

type_synonym byte = u8
type_synonym bytes = "byte list"

text \<open>The moduli of the widths, as literals, so that the simplifier sees one normal form.\<close>

abbreviation W64 :: nat where "W64 \<equiv> 18446744073709551616"
abbreviation W32 :: nat where "W32 \<equiv> 4294967296"
abbreviation W31 :: nat where "W31 \<equiv> 2147483648"
abbreviation W16 :: nat where "W16 \<equiv> 65536"

text \<open>
  The exceptions the sources throw, with the message they carry; the errors of system calls and of
  the resolver carry what was attempted and the error code.
\<close>

datatype exn =
  Out_of_range string | Invalid_argument string | Length_error string | Runtime_error string
| Unix_error string int | Gai_error string int

type_synonym 'a res = "exn + 'a"

section \<open>Collections of rewrite rules\<close>

named_theorems size_simps \<open>sizes of containers read as natural numbers\<close>
named_theorems frame_simps \<open>fields an operation does not write\<close>

section \<open>Sizes\<close>

text \<open>\<open>x.size()\<close> of a container, a 64-bit \<open>size_t\<close>.\<close>

definition ssize :: "'a list \<Rightarrow> u64" where
  "ssize xs = of_nat (length xs)"

lemma unat_of_nat_less: "n < 2 ^ LENGTH('a::len) \<Longrightarrow> unat (of_nat n :: 'a word) = n"
  by (simp add: unat_of_nat take_bit_nat_eq_self)

lemma unat_ssize [size_simps]: "length xs < W64 \<Longrightarrow> unat (ssize xs) = length xs"
  by (simp add: ssize_def unat_of_nat_less)

lemma unat_ssize_mod: "unat (ssize xs) = length xs mod W64"
  by (simp add: ssize_def unat_of_nat take_bit_eq_mod)

lemma ssize_Nil [simp]: "ssize [] = 0"
  by (simp add: ssize_def)

lemma ssize_append: "ssize (xs @ ys) = ssize xs + ssize ys"
  by (simp add: ssize_def)

lemma ssize_eq_0_iff: "length xs < W64 \<Longrightarrow> ssize xs = 0 \<longleftrightarrow> xs = []"
  by (metis length_0_conv ssize_Nil unat_0 unat_ssize)

lemma ssize_pos_iff: "length xs < W64 \<Longrightarrow> 0 < ssize xs \<longleftrightarrow> xs \<noteq> []"
  by (simp add: ssize_eq_0_iff word_gt_0)

section \<open>Words as natural numbers\<close>

lemma unat_add_less:
  fixes a b :: "'a::len word"
  shows "unat a + unat b < 2 ^ LENGTH('a) \<Longrightarrow> unat (a + b) = unat a + unat b"
  by (simp add: unat_word_ariths)

lemma unat_diff_le:
  fixes a b :: "'a::len word"
  shows "b \<le> a \<Longrightarrow> unat (a - b) = unat a - unat b"
  by (simp add: unat_sub)

lemma unat_lt_2p: "unat (x :: 'a::len word) < 2 ^ LENGTH('a)"
  by (rule unsigned_less)

lemmas unat_u64_lt = unat_lt_2p [where 'a = 64, simplified]
lemmas unat_u32_lt = unat_lt_2p [where 'a = 32, simplified]
lemmas unat_u16_lt = unat_lt_2p [where 'a = 16, simplified]
lemmas unat_u8_lt = unat_lt_2p [where 'a = 8, simplified]

lemma unat_ucast_up:
  fixes x :: "'a::len word"
  shows "LENGTH('a) \<le> LENGTH('b) \<Longrightarrow> unat (ucast x :: 'b::len word) = unat x"
  by (simp add: unsigned_ucast_eq take_bit_nat_eq_self order_less_le_trans [OF unsigned_less])

section \<open>Segments of a list\<close>

lemma drop_take_append:
  assumes "R \<le> F0" "F0 \<le> F" "F0 \<le> length S"
  shows "drop R (take F0 S) @ drop F0 (take F S) = drop R (take F S)"
proof -
  have "take F S = take F0 S @ drop F0 (take F S)"
    using assms(2) append_take_drop_id [of F0 "take F S"] by (simp add: min_def)
  then have "drop R (take F S) = drop R (take F0 S @ drop F0 (take F S))" by (rule arg_cong)
  then show ?thesis using assms by simp
qed

section \<open>Runs of a state machine\<close>

text \<open>
  An object driven by its owner is a state and a step per call. The locale collects what
  every such component proves once: a guarded invariant holds along every run whose
  calls meet the guard in the state they are made in.
\<close>

fun guarded :: "('s \<Rightarrow> 'e \<Rightarrow> bool) \<Rightarrow> ('s \<Rightarrow> 'e \<Rightarrow> 's) \<Rightarrow> 's \<Rightarrow> 'e list \<Rightarrow> bool" where
  "guarded ok stp s [] = True"
| "guarded ok stp s (e # es) = (ok s e \<and> guarded ok stp (stp s e) es)"

locale machine =
  fixes stp :: "'s \<Rightarrow> 'e \<Rightarrow> 's"
    and ok :: "'s \<Rightarrow> 'e \<Rightarrow> bool"
    and inv :: "'s \<Rightarrow> bool"
  assumes step_inv: "inv s \<Longrightarrow> ok s e \<Longrightarrow> inv (stp s e)"
begin

lemma run_inv: "inv s \<Longrightarrow> guarded ok stp s es \<Longrightarrow> inv (foldl stp s es)"
  by (induction es arbitrary: s) (auto intro: step_inv)

lemma guarded_append:
  "guarded ok stp s (es @ fs) \<longleftrightarrow> guarded ok stp s es \<and> guarded ok stp (foldl stp s es) fs"
  by (induction es arbitrary: s) auto

end

end
