(* ===== verification/Buffers.thy ===== *)
theory Buffers
  imports Prelude
begin

text \<open>
  \<open>libsponge/util/buffer.{hh,cc}\<close>: reference-counted byte strings that can discard bytes from
  the front. The storage behind a \<open>Buffer\<close> is shared but never written after construction, so a
  copy of the handle is a copy of the value and no store is needed in the model. The three
  classes implement one interface, the locale \<open>byte_seq\<close>: a sequence of bytes with a size from
  which a prefix can be removed, and an exception when the prefix is too long.
\<close>

section \<open>Buffer\<close>

record Buffer =
  storage :: "bytes option"
  starting_offset :: u64

definition Buffer_empty :: Buffer where
  "Buffer_empty = \<lparr>storage = None, starting_offset = 0\<rparr>"

definition Buffer_of_string :: "bytes \<Rightarrow> Buffer" where
  "Buffer_of_string str = \<lparr>storage = Some str, starting_offset = 0\<rparr>"

definition Buffer_str :: "Buffer \<Rightarrow> bytes" where
  "Buffer_str b = (case storage b of None \<Rightarrow> [] | Some s \<Rightarrow> drop (unat (starting_offset b)) s)"

definition Buffer_size :: "Buffer \<Rightarrow> u64" where
  "Buffer_size b = ssize (Buffer_str b)"

definition Buffer_at :: "Buffer \<Rightarrow> u64 \<Rightarrow> byte res" where
  "Buffer_at b n =
     (if n < Buffer_size b then Inr (Buffer_str b ! unat n)
      else Inl (Out_of_range ''basic_string_view::at''))"

definition Buffer_copy :: "Buffer \<Rightarrow> bytes" where
  "Buffer_copy b = Buffer_str b"

definition Buffer_remove_prefix :: "u64 \<Rightarrow> Buffer \<Rightarrow> Buffer res" where
  "Buffer_remove_prefix n b =
     (if n > ssize (Buffer_str b) then Inl (Out_of_range ''Buffer::remove_prefix'')
      else let b = b\<lparr>starting_offset := starting_offset b + n\<rparr>
           in case storage b of
                None \<Rightarrow> Inr b
              | Some s \<Rightarrow> if starting_offset b = ssize s then Inr (b\<lparr>storage := None\<rparr>) else Inr b)"

section \<open>BufferList\<close>

type_synonym BufferList = "Buffer list"

definition BufferList_of_string :: "bytes \<Rightarrow> BufferList" where
  "BufferList_of_string str = [Buffer_of_string str]"

definition BufferList_append :: "BufferList \<Rightarrow> BufferList \<Rightarrow> BufferList" where
  "BufferList_append self other = foldl (\<lambda>bufs buf. bufs @ [buf]) self other"

text \<open>The conversion operator to \<open>Buffer\<close>, which throws unless the list is contiguous.\<close>

definition BufferList_Buffer :: "BufferList \<Rightarrow> Buffer res" where
  "BufferList_Buffer bufs =
     (case bufs of
        [] \<Rightarrow> Inr Buffer_empty
      | [b] \<Rightarrow> Inr b
      | _ \<Rightarrow> Inl (Runtime_error ''BufferList: please use concatenate() to combine a multi-Buffer BufferList into one Buffer''))"

definition BufferList_concatenate :: "BufferList \<Rightarrow> bytes" where
  "BufferList_concatenate bufs = foldl (\<lambda>ret buf. ret @ Buffer_str buf) [] bufs"

definition BufferList_size :: "BufferList \<Rightarrow> u64" where
  "BufferList_size bufs = foldl (\<lambda>ret buf. ret + Buffer_size buf) 0 bufs"

fun BufferList_remove_prefix :: "u64 \<Rightarrow> BufferList \<Rightarrow> BufferList res" where
  "BufferList_remove_prefix n [] =
     (if n > 0 then Inl (Out_of_range ''BufferList::remove_prefix'') else Inr [])"
| "BufferList_remove_prefix n (front # bufs) =
     (if n > 0
      then if n < ssize (Buffer_str front)
           then (case Buffer_remove_prefix n front of Inl e \<Rightarrow> Inl e | Inr b \<Rightarrow> Inr (b # bufs))
           else BufferList_remove_prefix (n - ssize (Buffer_str front)) bufs
      else Inr (front # bufs))"

section \<open>BufferViewList\<close>

type_synonym BufferViewList = "bytes list"

definition BufferViewList_of_string :: "bytes \<Rightarrow> BufferViewList" where
  "BufferViewList_of_string str = [str]"

definition BufferViewList_of_BufferList :: "BufferList \<Rightarrow> BufferViewList" where
  "BufferViewList_of_BufferList bufs = foldl (\<lambda>views x. views @ [Buffer_str x]) [] bufs"

fun BufferViewList_remove_prefix :: "u64 \<Rightarrow> BufferViewList \<Rightarrow> BufferViewList res" where
  "BufferViewList_remove_prefix n [] =
     (if n > 0 then Inl (Out_of_range ''BufferListView::remove_prefix'') else Inr [])"
| "BufferViewList_remove_prefix n (front # views) =
     (if n > 0
      then if n < ssize front
           then Inr (drop (unat n) front # views)
           else BufferViewList_remove_prefix (n - ssize front) views
      else Inr (front # views))"

definition BufferViewList_size :: "BufferViewList \<Rightarrow> u64" where
  "BufferViewList_size views = foldl (\<lambda>ret buf. ret + ssize buf) 0 views"

text \<open>An \<open>iovec\<close> is a pointer and a length; the pointer stands for the bytes it points to.\<close>

definition BufferViewList_as_iovecs :: "BufferViewList \<Rightarrow> (bytes \<times> u64) list" where
  "BufferViewList_as_iovecs views = foldl (\<lambda>ret x. ret @ [(x, ssize x)]) [] views"

section \<open>The interface\<close>

locale byte_seq =
  fixes content :: "'b \<Rightarrow> bytes"
    and sz :: "'b \<Rightarrow> u64"
    and remove_prefix :: "u64 \<Rightarrow> 'b \<Rightarrow> 'b res"
    and ok :: "'b \<Rightarrow> bool"
  assumes sz_content: "sz b = ssize (content b)"
    and ok_length: "ok b \<Longrightarrow> length (content b) < W64"
    and remove_le: "ok b \<Longrightarrow> unat n \<le> length (content b) \<Longrightarrow>
      \<exists>b'. remove_prefix n b = Inr b' \<and> ok b' \<and> content b' = drop (unat n) (content b)"
    and remove_gt: "ok b \<Longrightarrow> length (content b) < unat n \<Longrightarrow> \<exists>e. remove_prefix n b = Inl (Out_of_range e)"
begin

lemma unat_sz: "ok b \<Longrightarrow> unat (sz b) = length (content b)"
  by (simp add: sz_content unat_ssize ok_length)

lemma remove_Inr:
  assumes "ok b" "remove_prefix n b = Inr b'"
  shows "unat n \<le> length (content b) \<and> ok b' \<and> content b' = drop (unat n) (content b)"
  using assms remove_le [of b n] remove_gt [of b n] by (cases "unat n \<le> length (content b)") auto

lemma remove_total: "ok b \<Longrightarrow> n \<le> sz b \<Longrightarrow> \<exists>b'. remove_prefix n b = Inr b'"
  using remove_le [of b n] unat_sz [of b] by (auto simp: word_le_nat_alt)

text \<open>Removing two prefixes in turn is removing their sum.\<close>

lemma remove_remove:
  assumes "ok b" "remove_prefix n b = Inr b'" "remove_prefix m b' = Inr b''"
  shows "content b'' = drop (unat n + unat m) (content b)"
  using remove_Inr [OF assms(1,2)] remove_Inr [OF _ assms(3)] by (simp add: add.commute)

lemma remove_all:
  assumes "ok b" "remove_prefix (sz b) b = Inr b'"
  shows "content b' = []"
  using remove_Inr [OF assms] unat_sz [OF assms(1)] by simp

end

section \<open>Buffer implements the interface\<close>

definition Buffer_ok :: "Buffer \<Rightarrow> bool" where
  "Buffer_ok b =
     (case storage b of None \<Rightarrow> True
      | Some s \<Rightarrow> length s < W64 \<and> unat (starting_offset b) \<le> length s)"

lemma Buffer_ok_length: "Buffer_ok b \<Longrightarrow> length (Buffer_str b) < W64"
  by (auto simp: Buffer_ok_def Buffer_str_def split: option.splits)

lemma Buffer_str_simps [simp]:
  "Buffer_str (Buffer_of_string s) = s" "Buffer_str Buffer_empty = []"
  by (simp_all add: Buffer_str_def Buffer_of_string_def Buffer_empty_def)

lemma Buffer_ok_of_string [simp]: "length s < W64 \<Longrightarrow> Buffer_ok (Buffer_of_string s)"
  by (simp add: Buffer_ok_def Buffer_of_string_def)

lemma Buffer_ok_empty [simp]: "Buffer_ok Buffer_empty"
  by (simp add: Buffer_ok_def Buffer_empty_def)

lemma Buffer_remove_prefix_le:
  assumes "Buffer_ok b" "unat n \<le> length (Buffer_str b)"
  shows "\<exists>b'. Buffer_remove_prefix n b = Inr b' \<and> Buffer_ok b'
    \<and> Buffer_str b' = drop (unat n) (Buffer_str b)"
proof (cases "storage b")
  case None
  with assms show ?thesis
    by (auto simp: Buffer_remove_prefix_def Buffer_str_def Buffer_ok_def word_less_nat_alt)
next
  case (Some s)
  have s: "length s < W64" "unat (starting_offset b) \<le> length s"
    using assms(1) Some by (simp_all add: Buffer_ok_def)
  have le: "unat n + unat (starting_offset b) \<le> length s"
    using assms(2) s(2) Some by (simp add: Buffer_str_def)
  then have u: "unat (starting_offset b + n) = unat n + unat (starting_offset b)"
    using s by (subst unat_add_less) auto
  have "\<not> ssize (Buffer_str b) < n"
    using assms(2) Buffer_ok_length [OF assms(1)] by (simp add: word_less_nat_alt unat_ssize)
  moreover have "starting_offset b + n = ssize s \<longleftrightarrow> unat n + unat (starting_offset b) = length s"
    using s by (simp add: word_unat_eq_iff u unat_ssize)
  ultimately show ?thesis
    using Some le u s
    by (auto simp: Buffer_remove_prefix_def Buffer_str_def Buffer_ok_def Let_def)
qed

lemma Buffer_remove_prefix_gt:
  assumes "Buffer_ok b" "length (Buffer_str b) < unat n"
  shows "Buffer_remove_prefix n b = Inl (Out_of_range ''Buffer::remove_prefix'')"
  using assms Buffer_ok_length [OF assms(1)]
  by (simp add: Buffer_remove_prefix_def word_less_nat_alt unat_ssize)

interpretation buf: byte_seq Buffer_str Buffer_size Buffer_remove_prefix Buffer_ok
  by unfold_locales
    (auto simp: Buffer_size_def Buffer_remove_prefix_gt
      intro: Buffer_ok_length Buffer_remove_prefix_le)

section \<open>BufferList implements the interface\<close>

lemma BufferList_append_eq [simp]: "BufferList_append self other = self @ other"
  unfolding BufferList_append_def by (induction other arbitrary: self) auto

lemma BufferList_concatenate_eq: "BufferList_concatenate bufs = concat (map Buffer_str bufs)"
proof -
  have "foldl (\<lambda>ret buf. ret @ Buffer_str buf) acc bufs = acc @ concat (map Buffer_str bufs)" for acc
    by (induction bufs arbitrary: acc) auto
  then show ?thesis by (simp add: BufferList_concatenate_def)
qed

lemma BufferList_concatenate_simps [simp]:
  "BufferList_concatenate [] = []"
  "BufferList_concatenate (b # bs) = Buffer_str b @ BufferList_concatenate bs"
  "BufferList_concatenate (as @ bs) = BufferList_concatenate as @ BufferList_concatenate bs"
  by (simp_all add: BufferList_concatenate_eq)

lemma BufferList_size_eq: "BufferList_size bufs = ssize (BufferList_concatenate bufs)"
proof -
  have "foldl (\<lambda>ret buf. ret + Buffer_size buf) acc bufs
    = acc + ssize (BufferList_concatenate bufs)" for acc
    by (induction bufs arbitrary: acc) (auto simp: Buffer_size_def ssize_append)
  then show ?thesis by (simp add: BufferList_size_def)
qed

definition BufferList_ok :: "BufferList \<Rightarrow> bool" where
  "BufferList_ok bufs = (list_all Buffer_ok bufs \<and> length (BufferList_concatenate bufs) < W64)"

lemma BufferList_remove_prefix_le:
  assumes "list_all Buffer_ok bufs" "unat n \<le> length (BufferList_concatenate bufs)"
  shows "\<exists>bufs'. BufferList_remove_prefix n bufs = Inr bufs' \<and> list_all Buffer_ok bufs'
    \<and> BufferList_concatenate bufs' = drop (unat n) (BufferList_concatenate bufs)"
  using assms
proof (induction n bufs rule: BufferList_remove_prefix.induct)
  case (1 n)
  then show ?case by (simp add: word_gt_0 unat_eq_zero)
next
  case (2 n front bufs)
  have f: "Buffer_ok front" "unat (ssize (Buffer_str front)) = length (Buffer_str front)"
    using 2 by (simp_all add: unat_ssize Buffer_ok_length)
  consider "n = 0" | "0 < n" "n < ssize (Buffer_str front)" | "0 < n" "ssize (Buffer_str front) \<le> n"
    by (metis linorder_not_le word_gt_0)
  then show ?case
  proof cases
    case 1
    with 2 show ?thesis by simp
  next
    case c: 2
    then have "unat n < length (Buffer_str front)" by (simp add: word_less_nat_alt f(2))
    with c Buffer_remove_prefix_le [OF f(1), of n] "2.prems" show ?thesis by auto
  next
    case c: 3
    then have "unat (n - ssize (Buffer_str front)) = unat n - length (Buffer_str front)"
      by (simp add: unat_diff_le f(2))
    moreover have "length (Buffer_str front) \<le> unat n"
      using c by (simp add: word_le_nat_alt f(2))
    ultimately show ?thesis using "2.IH" "2.prems" c by auto
  qed
qed

lemma BufferList_remove_prefix_gt:
  assumes "list_all Buffer_ok bufs" "length (BufferList_concatenate bufs) < unat n"
  shows "BufferList_remove_prefix n bufs = Inl (Out_of_range ''BufferList::remove_prefix'')"
  using assms
proof (induction n bufs rule: BufferList_remove_prefix.induct)
  case (1 n)
  then show ?case by (simp add: word_gt_0 unat_gt_0)
next
  case (2 n front bufs)
  have u: "unat (ssize (Buffer_str front)) = length (Buffer_str front)"
    using 2 by (simp add: unat_ssize Buffer_ok_length)
  then have le: "ssize (Buffer_str front) \<le> n" "0 < n"
    using "2.prems" by (auto simp: word_le_nat_alt word_less_nat_alt)
  moreover have "unat (n - ssize (Buffer_str front)) = unat n - length (Buffer_str front)"
    using le by (simp add: unat_diff_le u)
  ultimately show ?case using "2.IH" "2.prems" by (auto simp: not_less)
qed

interpretation bufs: byte_seq
  BufferList_concatenate BufferList_size BufferList_remove_prefix BufferList_ok
proof unfold_locales
  show "BufferList_ok b \<Longrightarrow> unat n \<le> length (BufferList_concatenate b) \<Longrightarrow>
      \<exists>b'. BufferList_remove_prefix n b = Inr b' \<and> BufferList_ok b'
        \<and> BufferList_concatenate b' = drop (unat n) (BufferList_concatenate b)" for b n
    using BufferList_remove_prefix_le [of b n] by (auto simp: BufferList_ok_def)
qed (auto simp: BufferList_size_eq BufferList_ok_def BufferList_remove_prefix_gt)

section \<open>BufferViewList implements the interface\<close>

lemma BufferViewList_of_BufferList_eq:
  "BufferViewList_of_BufferList bufs = map Buffer_str bufs"
proof -
  have "foldl (\<lambda>views x. views @ [Buffer_str x]) acc bufs = acc @ map Buffer_str bufs" for acc
    by (induction bufs arbitrary: acc) auto
  then show ?thesis by (simp add: BufferViewList_of_BufferList_def)
qed

lemma BufferViewList_as_iovecs_eq:
  "BufferViewList_as_iovecs views = map (\<lambda>x. (x, ssize x)) views"
proof -
  have "foldl (\<lambda>ret x. ret @ [(x, ssize x)]) acc views = acc @ map (\<lambda>x. (x, ssize x)) views" for acc
    by (induction views arbitrary: acc) auto
  then show ?thesis by (simp add: BufferViewList_as_iovecs_def)
qed

lemma BufferViewList_size_eq: "BufferViewList_size views = ssize (concat views)"
proof -
  have "foldl (\<lambda>ret buf. ret + ssize buf) acc views = acc + ssize (concat views)" for acc
    by (induction views arbitrary: acc) (auto simp: ssize_append)
  then show ?thesis by (simp add: BufferViewList_size_def)
qed

text \<open>A view list behaves as the buffer list with the same pieces.\<close>

lemma BufferViewList_remove_prefix_sim:
  "list_all (\<lambda>v. length v < W64) views \<Longrightarrow>
   (case BufferViewList_remove_prefix n views of
      Inl _ \<Rightarrow> \<exists>e. BufferList_remove_prefix n (map Buffer_of_string views) = Inl (Out_of_range e)
    | Inr views' \<Rightarrow> \<exists>bufs'. BufferList_remove_prefix n (map Buffer_of_string views) = Inr bufs'
        \<and> map Buffer_str bufs' = views' \<and> list_all (\<lambda>v. length v < W64) views')"
proof (induction n views rule: BufferViewList_remove_prefix.induct)
  case (1 n)
  then show ?case by simp
next
  case (2 n front views)
  have "0 < n \<Longrightarrow> n < ssize front \<Longrightarrow> \<exists>b'. Buffer_remove_prefix n (Buffer_of_string front) = Inr b'
      \<and> Buffer_str b' = drop (unat n) front"
    using Buffer_remove_prefix_le [of "Buffer_of_string front" n] 2(2)
    by (auto simp: word_less_nat_alt unat_ssize)
  then show ?case using 2 by (auto simp: comp_def split: sum.splits)
qed

definition BufferViewList_ok :: "BufferViewList \<Rightarrow> bool" where
  "BufferViewList_ok views = (length (concat views) < W64)"

lemma BufferViewList_ok_pieces:
  "BufferViewList_ok views \<Longrightarrow> list_all (\<lambda>v. length v < W64) views"
  by (induction views) (auto simp: BufferViewList_ok_def)

lemma concatenate_of_strings [simp]:
  "BufferList_concatenate (map Buffer_of_string views) = concat views"
  "BufferViewList_ok views \<Longrightarrow> BufferList_ok (map Buffer_of_string views)"
  using BufferViewList_ok_pieces [of views]
  by (auto simp: BufferList_concatenate_eq comp_def BufferList_ok_def BufferViewList_ok_def
      list_all_iff)

interpretation views: byte_seq
  concat BufferViewList_size BufferViewList_remove_prefix BufferViewList_ok
proof unfold_locales
  fix b n
  assume ok: "BufferViewList_ok b"
  note sim = BufferViewList_remove_prefix_sim [OF BufferViewList_ok_pieces [OF ok], of n]
  show "length (concat b) < W64" using ok by (simp add: BufferViewList_ok_def)
  show "\<exists>b'. BufferViewList_remove_prefix n b = Inr b' \<and> BufferViewList_ok b'
      \<and> concat b' = drop (unat n) (concat b)" if le: "unat n \<le> length (concat b)"
  proof -
    obtain bufs where "BufferList_remove_prefix n (map Buffer_of_string b) = Inr bufs"
        "BufferList_concatenate bufs = drop (unat n) (concat b)"
      using bufs.remove_le [of "map Buffer_of_string b" n] ok le by auto
    then show ?thesis
      using sim ok by (auto simp: BufferViewList_ok_def BufferList_concatenate_eq split: sum.splits)
  qed
  show "\<exists>e. BufferViewList_remove_prefix n b = Inl (Out_of_range e)"
    if gt: "length (concat b) < unat n"
  proof -
    have "\<exists>e. BufferList_remove_prefix n (map Buffer_of_string b) = Inl (Out_of_range e)"
      using bufs.remove_gt [of "map Buffer_of_string b" n] ok gt by auto
    then obtain e where "BufferViewList_remove_prefix n b = Inl e"
      using sim by (auto split: sum.splits)
    moreover have "BufferViewList_remove_prefix n b = Inl e \<Longrightarrow> \<exists>m. e = Out_of_range m"
      by (induction n b rule: BufferViewList_remove_prefix.induct) (auto split: if_splits)
    ultimately show ?thesis by auto
  qed
qed (simp add: BufferViewList_size_eq)

section \<open>Properties\<close>

lemma buffer_list_remove_prefix:
  assumes "BufferList_ok bufs"
  shows "(case BufferList_remove_prefix n bufs of
      Inr bufs' \<Rightarrow> n \<le> BufferList_size bufs
        \<and> BufferList_concatenate bufs' = drop (unat n) (BufferList_concatenate bufs)
    | Inl e \<Rightarrow> n > BufferList_size bufs \<and> e = Out_of_range ''BufferList::remove_prefix'')"
proof (cases "unat n \<le> length (BufferList_concatenate bufs)")
  case True
  then have "n \<le> BufferList_size bufs" using bufs.unat_sz [OF assms] by (simp add: word_le_nat_alt)
  with True bufs.remove_le [OF assms True] show ?thesis by auto
next
  case False
  then have "n > BufferList_size bufs" using bufs.unat_sz [OF assms] by (simp add: word_less_nat_alt)
  moreover have "BufferList_remove_prefix n bufs = Inl (Out_of_range ''BufferList::remove_prefix'')"
    using assms False by (intro BufferList_remove_prefix_gt) (simp_all add: BufferList_ok_def)
  ultimately show ?thesis by simp
qed

end
