(* ===== verification/Net_Parser.thy ===== *)
theory Net_Parser
  imports Buffers
begin

text \<open>
  \<open>libsponge/util/parser.{hh,cc}\<close>: the big-endian integer reader \<open>NetParser\<close> with its sticky
  error, and the writer \<open>NetUnparser\<close>. The locale \<open>codec\<close> is the contract between a writer and a
  reader of one kind of field; the header formats rest on its three interpretations.
\<close>

section \<open>Model\<close>

datatype ParseResult =
  NoError | BadChecksum | PacketTooShort | WrongIPVersion | HeaderTooShort | TruncatedPacket
  | Unsupported

text \<open>
  \<open>as_string\<close> indexes a table of six names with the enumerator's number; \<open>None\<close> is the read past
  the end of the table.
\<close>

definition ParseResult_index :: "ParseResult \<Rightarrow> nat" where
  "ParseResult_index r =
     (case r of NoError \<Rightarrow> 0 | BadChecksum \<Rightarrow> 1 | PacketTooShort \<Rightarrow> 2 | WrongIPVersion \<Rightarrow> 3
      | HeaderTooShort \<Rightarrow> 4 | TruncatedPacket \<Rightarrow> 5 | Unsupported \<Rightarrow> 6)"

definition as_string :: "ParseResult \<Rightarrow> string option" where
  "as_string r =
     (let names = [''NoError'', ''BadChecksum'', ''PacketTooShort'', ''WrongIPVersion'',
                   ''HeaderTooShort'', ''TruncatedPacket'']
      in if ParseResult_index r < length names then Some (names ! ParseResult_index r) else None)"

record NetParser =
  np_buffer :: Buffer
  np_error :: ParseResult

definition NetParser_new :: "Buffer \<Rightarrow> NetParser" where
  "NetParser_new buffer = \<lparr>np_buffer = buffer, np_error = NoError\<rparr>"

definition NetParser_error :: "NetParser \<Rightarrow> bool" where
  "NetParser_error p = (np_error p \<noteq> NoError)"

definition NetParser_check_size :: "u64 \<Rightarrow> NetParser \<Rightarrow> NetParser" where
  "NetParser_check_size n p =
     (if n > Buffer_size (np_buffer p) then p\<lparr>np_error := PacketTooShort\<rparr> else p)"

text \<open>
  \<open>_parse_int<T>\<close>: the width of \<open>T\<close> is the width of the result word. The size check precedes
  \<open>at\<close> and \<open>remove_prefix\<close>, so their exceptions are dead branches here.
\<close>

definition NetParser_parse_int :: "NetParser \<Rightarrow> 'a::len word \<times> NetParser" where
  "NetParser_parse_int p =
     (let len = LENGTH('a) div 8;
          p = NetParser_check_size (of_nat len) p
      in if NetParser_error p then (0, p)
         else let ret = foldl (\<lambda>ret i. push_bit 8 ret +
                          ucast (case Buffer_at (np_buffer p) (of_nat i) of Inr c \<Rightarrow> c | Inl _ \<Rightarrow> 0))
                        0 [0..<len]
              in (ret, case Buffer_remove_prefix (of_nat len) (np_buffer p) of
                         Inr b \<Rightarrow> p\<lparr>np_buffer := b\<rparr> | Inl _ \<Rightarrow> p))"

definition NetParser_u32 :: "NetParser \<Rightarrow> u32 \<times> NetParser" where
  "NetParser_u32 p = NetParser_parse_int p"

definition NetParser_u16 :: "NetParser \<Rightarrow> u16 \<times> NetParser" where
  "NetParser_u16 p = NetParser_parse_int p"

definition NetParser_u8 :: "NetParser \<Rightarrow> u8 \<times> NetParser" where
  "NetParser_u8 p = NetParser_parse_int p"

definition NetParser_remove_prefix :: "u64 \<Rightarrow> NetParser \<Rightarrow> NetParser" where
  "NetParser_remove_prefix n p =
     (let p = NetParser_check_size n p
      in if NetParser_error p then p
         else case Buffer_remove_prefix n (np_buffer p) of
                Inr b \<Rightarrow> p\<lparr>np_buffer := b\<rparr> | Inl _ \<Rightarrow> p)"

definition NetUnparser_unparse_int :: "bytes \<Rightarrow> 'a::len word \<Rightarrow> bytes" where
  "NetUnparser_unparse_int s val =
     (let len = LENGTH('a) div 8
      in foldl (\<lambda>s i. s @ [ucast (drop_bit ((len - i - 1) * 8) val AND 0xFF)]) s [0..<len])"

definition NetUnparser_u32 :: "bytes \<Rightarrow> u32 \<Rightarrow> bytes" where
  "NetUnparser_u32 s val = NetUnparser_unparse_int s val"

definition NetUnparser_u16 :: "bytes \<Rightarrow> u16 \<Rightarrow> bytes" where
  "NetUnparser_u16 s val = NetUnparser_unparse_int s val"

definition NetUnparser_u8 :: "bytes \<Rightarrow> u8 \<Rightarrow> bytes" where
  "NetUnparser_u8 s val = NetUnparser_unparse_int s val"

text \<open>\<open>std::string::resize\<close>, filling with NUL.\<close>

definition string_resize :: "nat \<Rightarrow> bytes \<Rightarrow> bytes" where
  "string_resize n s = take n s @ replicate (n - length s) 0"

lemma string_resize_extend: "length s \<le> n \<Longrightarrow> string_resize n s = s @ replicate (n - length s) 0"
  by (simp add: string_resize_def)

section \<open>What a writer appends\<close>

definition be_bytes :: "'a::len word \<Rightarrow> bytes" where
  "be_bytes val = map (\<lambda>i. ucast (drop_bit ((LENGTH('a) div 8 - i - 1) * 8) val AND 0xFF))
     [0..<LENGTH('a) div 8]"

lemma unparse_int_eq: "NetUnparser_unparse_int s val = s @ be_bytes val"
proof -
  have "foldl (\<lambda>s i. s @ [f i]) s xs = s @ map f xs" for f :: "nat \<Rightarrow> byte" and xs
    by (induction xs arbitrary: s) auto
  then show ?thesis by (simp add: NetUnparser_unparse_int_def be_bytes_def Let_def)
qed

lemma NetUnparser_eqs [simp]:
  "NetUnparser_u32 s v32 = s @ be_bytes v32"
  "NetUnparser_u16 s v16 = s @ be_bytes v16"
  "NetUnparser_u8 s v8 = s @ be_bytes v8"
  by (simp_all add: NetUnparser_u32_def NetUnparser_u16_def NetUnparser_u8_def unparse_int_eq)

lemma length_be_bytes [simp]: "length (be_bytes (v :: 'a::len word)) = LENGTH('a) div 8"
  by (simp add: be_bytes_def)

lemma unat_byte_of: "unat (ucast (drop_bit k (v :: 'a::len word) AND 0xFF) :: u8) = unat v div 2 ^ k mod 256"
proof -
  have "drop_bit k v AND 0xFF = take_bit 8 (drop_bit k v)"
    by (simp add: take_bit_eq_mask mask_eq_exp_minus_1)
  then show ?thesis
    by (simp add: unsigned_ucast_eq unsigned_take_bit_eq unsigned_drop_bit_eq)
      (simp add: take_bit_eq_mod drop_bit_eq_div)
qed

lemma unat_drop_bit: "unat (drop_bit k (v :: 'a::len word)) = unat v div 2 ^ k"
  by (simp add: unsigned_drop_bit_eq) (simp add: drop_bit_eq_div take_bit_nat_eq_self)

lemmas unat_byte_of_0 = unat_byte_of [of 0, simplified]

lemma be_bytes_u8 [simp]: "be_bytes (v :: u8) = [v]"
  using unat_byte_of [of 0 v] unat_u8_lt [of v] by (simp add: be_bytes_def word_unat_eq_iff)

section \<open>What a reader consumes\<close>

text \<open>The parser is in good order and \<open>bs\<close> is what is left to read.\<close>

definition np_at :: "NetParser \<Rightarrow> bytes \<Rightarrow> bool" where
  "np_at p bs = (np_error p = NoError \<and> Buffer_ok (np_buffer p) \<and> Buffer_str (np_buffer p) = bs)"

definition be_val :: "bytes \<Rightarrow> 'a::len word" where
  "be_val bs = foldl (\<lambda>ret c. push_bit 8 ret + ucast c) 0 bs"

lemma np_at_length: "np_at p bs \<Longrightarrow> length bs < W64"
  by (auto simp: np_at_def Buffer_ok_length)

lemma np_at_new: "length bs < W64 \<Longrightarrow> np_at (NetParser_new (Buffer_of_string bs)) bs"
  by (simp add: np_at_def NetParser_new_def)

lemma foldl_map_upt: "foldl (\<lambda>r i. g r (xs ! i)) a [0..<length xs] = foldl g a xs"
proof -
  have "foldl (\<lambda>r i. g r (xs ! i)) a [0..<length xs] = foldl g a (map ((!) xs) [0..<length xs])"
    by (simp only: foldl_map)
  then show ?thesis by (simp only: map_nth)
qed

lemma Buffer_at_lt:
  "Buffer_ok b \<Longrightarrow> i < length (Buffer_str b) \<Longrightarrow> Buffer_at b (of_nat i) = Inr (Buffer_str b ! i)"
  using Buffer_ok_length [of b]
  by (simp add: Buffer_at_def Buffer_size_def word_less_nat_alt unat_ssize unat_of_nat_less)

lemma parse_int_at:
  assumes "np_at p (bs @ rest)" "length bs = LENGTH('a) div 8"
  shows "\<exists>p'. NetParser_parse_int p = (be_val bs :: 'a::len word, p') \<and> np_at p' rest"
proof -
  let ?b = "np_buffer p" and ?len = "LENGTH('a) div 8"
  have b: "np_error p = NoError" "Buffer_ok ?b" "Buffer_str ?b = bs @ rest"
    using assms(1) by (simp_all add: np_at_def)
  have lt: "length bs < W64" using np_at_length [OF assms(1)] by simp
  have u: "unat (of_nat ?len :: u64) = ?len" using lt assms(2) by (simp add: unat_of_nat_less)
  have c: "NetParser_check_size (of_nat ?len) p = p"
    using b assms(2) Buffer_ok_length [OF b(2)]
    by (simp add: NetParser_check_size_def Buffer_size_def word_less_nat_alt u unat_ssize)
  have f: "foldl (\<lambda>ret i. push_bit 8 ret +
        ucast (case Buffer_at ?b (of_nat i) of Inr c \<Rightarrow> c | Inl _ \<Rightarrow> 0)) 0 [0..<?len]
      = (be_val bs :: 'a word)"
  proof -
    have "foldl (\<lambda>ret i. push_bit 8 ret +
          ucast (case Buffer_at ?b (of_nat i) of Inr c \<Rightarrow> c | Inl _ \<Rightarrow> 0)) 0 [0..<?len]
        = foldl (\<lambda>ret i. push_bit 8 ret + ucast (bs ! i)) (0 :: 'a word) [0..<length bs]"
      using b assms(2) by (intro foldl_cong) (auto simp: Buffer_at_lt nth_append)
    then show ?thesis
      by (simp only: be_val_def foldl_map_upt [of "\<lambda>ret c. push_bit 8 ret + ucast c"])
  qed
  obtain b' where b': "Buffer_remove_prefix (of_nat ?len) ?b = Inr b'" "Buffer_ok b'"
      "Buffer_str b' = rest"
    using Buffer_remove_prefix_le [OF b(2), of "of_nat ?len"] b(3) assms(2) u by auto
  show ?thesis
    using b c f b' by (simp add: NetParser_parse_int_def Let_def NetParser_error_def np_at_def)
qed

text \<open>Too little data: the error is recorded, the value is 0 and nothing is consumed.\<close>

lemma parse_int_short:
  assumes "np_at p bs" "length bs < LENGTH('a) div 8" "LENGTH('a) div 8 < W64"
  shows "NetParser_parse_int p = (0 :: 'a::len word, p\<lparr>np_error := PacketTooShort\<rparr>)"
proof -
  have "ssize bs < of_nat (LENGTH('a) div 8)"
    using assms np_at_length [OF assms(1)]
    by (simp add: word_less_nat_alt unat_ssize unat_of_nat_less)
  then show ?thesis
    using assms by (auto simp: NetParser_parse_int_def Let_def NetParser_check_size_def
        Buffer_size_def NetParser_error_def np_at_def)
qed

text \<open>The error is sticky: after it nothing is consumed any more.\<close>

lemma parse_int_error:
  "NetParser_error p \<Longrightarrow> \<exists>p'. NetParser_parse_int p = (0, p') \<and> NetParser_error p'
    \<and> np_buffer p' = np_buffer p"
  by (auto simp: NetParser_parse_int_def Let_def NetParser_check_size_def NetParser_error_def)

lemma remove_prefix_at:
  assumes "np_at p bs" "unat n \<le> length bs"
  shows "np_at (NetParser_remove_prefix n p) (drop (unat n) bs)"
proof -
  have b: "np_error p = NoError" "Buffer_ok (np_buffer p)" "Buffer_str (np_buffer p) = bs"
    using assms(1) by (simp_all add: np_at_def)
  have "\<not> Buffer_size (np_buffer p) < n"
    using assms b by (simp add: Buffer_size_def word_less_nat_alt unat_ssize np_at_length)
  with b Buffer_remove_prefix_le [OF b(2), of n] assms(2) show ?thesis
    by (auto simp: NetParser_remove_prefix_def NetParser_check_size_def Let_def NetParser_error_def
        np_at_def)
qed

lemma remove_prefix_short:
  assumes "np_at p bs" "length bs < unat n"
  shows "NetParser_remove_prefix n p = p\<lparr>np_error := PacketTooShort\<rparr>"
proof -
  have "Buffer_size (np_buffer p) < n"
    using assms np_at_length [OF assms(1)]
    by (simp add: np_at_def Buffer_size_def word_less_nat_alt unat_ssize)
  then show ?thesis
    by (simp add: NetParser_remove_prefix_def NetParser_check_size_def Let_def NetParser_error_def)
qed

section \<open>Reading back what was written\<close>

lemma be_val_u8: "be_val [a] = (ucast a :: u8)"
  by (simp add: be_val_def)

text \<open>Appending a byte multiplies by 256: the value of a byte string as a number.\<close>

definition nat_of_be :: "bytes \<Rightarrow> nat" where
  "nat_of_be bs = foldl (\<lambda>n c. 256 * n + unat c) 0 bs"

lemma unat_be_val:
  assumes "8 \<le> LENGTH('a)"
  shows "unat (be_val bs :: 'a::len word) = nat_of_be bs mod 2 ^ LENGTH('a)"
proof -
  have step: "unat (push_bit 8 r + ucast c :: 'a word) = (256 * unat r + unat c) mod 2 ^ LENGTH('a)"
    for r and c :: byte
  proof -
    have "(2 :: nat) ^ 8 \<le> 2 ^ LENGTH('a)" using assms by (intro power_increasing) auto
    then have "unat (ucast c :: 'a word) = unat c" using assms by (simp add: unat_ucast_up)
    moreover have "push_bit 8 r = 256 * r" by (simp add: push_bit_eq_mult)
    ultimately show ?thesis
      by (simp only: unat_word_ariths) (simp add: unat_numeral take_bit_eq_mod mod_simps)
  qed
  have "unat (foldl (\<lambda>ret c. push_bit 8 ret + ucast c) r bs :: 'a word)
      = foldl (\<lambda>n c. 256 * n + unat c) n bs mod 2 ^ LENGTH('a)"
    if "unat r = n mod 2 ^ LENGTH('a)" for r n
    using that
  proof (induction bs arbitrary: r n)
    case (Cons c bs)
    have "unat (push_bit 8 r + ucast c :: 'a word) = (256 * n + unat c) mod 2 ^ LENGTH('a)"
      unfolding step Cons.prems by (metis mod_add_left_eq mod_mult_right_eq)
    from Cons.IH [OF this] show ?case by simp
  qed simp
  then show ?thesis by (simp add: be_val_def nat_of_be_def)
qed

lemma be_val_be_bytes [simp]:
  "be_val (be_bytes (v8 :: u8)) = v8"
  "be_val (be_bytes (v16 :: u16)) = v16"
  "be_val (be_bytes (v32 :: u32)) = v32"
proof -
  show "be_val (be_bytes v8) = v8" by (simp add: be_val_def)
  have "nat_of_be (be_bytes v16) = 256 * (unat v16 div 256) + unat v16 mod 256"
    using unat_u16_lt [of v16] by (simp add: be_bytes_def nat_of_be_def unat_byte_of_0 upt_rec unat_drop_bit)
  also have "\<dots> = unat v16" by (rule mult_div_mod_eq)
  finally have "unat (be_val (be_bytes v16) :: u16) = unat v16"
    using unat_u16_lt [of v16] by (subst unat_be_val) auto
  then show "be_val (be_bytes v16) = v16" by (simp add: word_unat_eq_iff)
  let ?n = "unat v32"
  have d: "?n div 16777216 mod 256 = ?n div 16777216" using unat_u32_lt [of v32] by simp
  have "nat_of_be (be_bytes v32)
      = 256 * (256 * (256 * (?n div 16777216) + ?n div 65536 mod 256) + ?n div 256 mod 256) + ?n mod 256"
    by (simp add: be_bytes_def nat_of_be_def unat_byte_of_0 upt_rec unat_drop_bit d)
  also have "256 * (?n div 16777216) + ?n div 65536 mod 256 = ?n div 65536"
    using mult_div_mod_eq [of 256 "?n div 65536"] by (simp add: div_mult2_eq [symmetric])
  also have "256 * (?n div 65536) + ?n div 256 mod 256 = ?n div 256"
    using mult_div_mod_eq [of 256 "?n div 256"] by (simp add: div_mult2_eq [symmetric])
  finally have "nat_of_be (be_bytes v32) = ?n" by simp
  then have "unat (be_val (be_bytes v32) :: u32) = ?n"
    using unat_u32_lt [of v32] by (subst unat_be_val) auto
  then show "be_val (be_bytes v32) = v32" by (simp add: word_unat_eq_iff)
qed

text \<open>A field is there if its bytes are; its value is read off them.\<close>

lemma field_at:
  assumes "np_at p bs" "LENGTH('a) div 8 \<le> length bs"
  shows "\<exists>p'. NetParser_parse_int p = (be_val (take (LENGTH('a) div 8) bs) :: 'a::len word, p')
    \<and> np_at p' (drop (LENGTH('a) div 8) bs)"
  using parse_int_at [where 'a = 'a, of p "take (LENGTH('a) div 8) bs" "drop (LENGTH('a) div 8) bs"]
    assms by simp

text \<open>Fewer than \<open>n\<close> bytes are left, or that has been noticed already.\<close>

definition np_short :: "NetParser \<Rightarrow> nat \<Rightarrow> bool" where
  "np_short p n = (NetParser_error p \<or> (\<exists>bs. np_at p bs \<and> length bs < n))"

lemma np_short_0: "np_short p 0 = NetParser_error p"
  by (simp add: np_short_def)

lemma np_short_parse_int:
  assumes "np_short p n" "LENGTH('a) < W64"
  shows "np_short (snd (NetParser_parse_int p :: 'a::len word \<times> NetParser)) (n - LENGTH('a) div 8)"
proof (cases "NetParser_error p")
  case True
  then show ?thesis using parse_int_error [OF True, where 'a = 'a] by (auto simp: np_short_def)
next
  case False
  then obtain bs where bs: "np_at p bs" "length bs < n" using assms(1) by (auto simp: np_short_def)
  show ?thesis
  proof (cases "LENGTH('a) div 8 \<le> length bs")
    case True
    then show ?thesis using field_at [OF bs(1) True] bs(2) by (fastforce simp: np_short_def)
  next
    case False
    then have "length bs < LENGTH('a) div 8" by simp
    from parse_int_short [OF bs(1) this] assms(2) show ?thesis
      by (auto simp: np_short_def NetParser_error_def)
  qed
qed

lemmas np_short_steps =
  np_short_parse_int [where 'a = 8, folded NetParser_u8_def, simplified]
  np_short_parse_int [where 'a = 16, folded NetParser_u16_def, simplified]
  np_short_parse_int [where 'a = 32, folded NetParser_u32_def, simplified]

lemma field_off:
  assumes "np_at p (drop k bs)" "k + LENGTH('a) div 8 \<le> length bs"
  shows "\<exists>p'. NetParser_parse_int p = (be_val (take (LENGTH('a) div 8) (drop k bs)) :: 'a::len word, p')
    \<and> np_at p' (drop (k + LENGTH('a) div 8) bs)"
  using field_at [where 'a = 'a, OF assms(1)] assms(2) by (simp add: add.commute)

lemma field_steps:
  "np_at p (drop k bs) \<Longrightarrow> n = k + 1 \<Longrightarrow> n \<le> length bs \<Longrightarrow>
   \<exists>p'. NetParser_u8 p = (be_val (take 1 (drop k bs)), p') \<and> np_at p' (drop n bs)"
  "np_at p (drop k bs) \<Longrightarrow> n = k + 2 \<Longrightarrow> n \<le> length bs \<Longrightarrow>
   \<exists>p'. NetParser_u16 p = (be_val (take 2 (drop k bs)), p') \<and> np_at p' (drop n bs)"
  "np_at p (drop k bs) \<Longrightarrow> n = k + 4 \<Longrightarrow> n \<le> length bs \<Longrightarrow>
   \<exists>p'. NetParser_u32 p = (be_val (take 4 (drop k bs)), p') \<and> np_at p' (drop n bs)"
  using field_off [where 'a = 8, of p k bs] field_off [where 'a = 16, of p k bs]
    field_off [where 'a = 32, of p k bs]
  by (simp_all add: NetParser_u8_def NetParser_u16_def NetParser_u32_def)

section \<open>The contract of a field\<close>

primrec parse_n :: "(NetParser \<Rightarrow> 'a \<times> NetParser) \<Rightarrow> nat \<Rightarrow> NetParser \<Rightarrow> 'a list \<times> NetParser" where
  "parse_n f 0 p = ([], p)"
| "parse_n f (Suc n) p = (let (x, p) = f p; (xs, p) = parse_n f n p in (x # xs, p))"

locale codec =
  fixes parse :: "NetParser \<Rightarrow> 'a \<times> NetParser"
    and unparse :: "'a \<Rightarrow> bytes"
  assumes parse_unparse: "np_at p (unparse x @ rest) \<Longrightarrow> \<exists>p'. parse p = (x, p') \<and> np_at p' rest"
begin

text \<open>The parser after reading a field that is there, as a function, so that fields chain.\<close>

lemma parse_fst: "np_at p (unparse x @ rest) \<Longrightarrow> fst (parse p) = x"
  using parse_unparse [of p x rest] by auto

lemma parse_snd: "np_at p (unparse x @ rest) \<Longrightarrow> np_at (snd (parse p)) rest"
  using parse_unparse [of p x rest] by auto

lemma parse_n_unparse:
  "np_at p (concat (map unparse xs) @ rest) \<Longrightarrow>
   \<exists>p'. parse_n parse (length xs) p = (xs, p') \<and> np_at p' rest"
proof (induction xs arbitrary: p)
  case (Cons x xs)
  then have a: "np_at p (unparse x @ concat (map unparse xs) @ rest)" by simp
  obtain p1 where p1: "parse p = (x, p1)" "np_at p1 (concat (map unparse xs) @ rest)"
    using parse_unparse [OF a] by blast
  from Cons.IH [OF p1(2)] p1(1) show ?case by auto
qed simp

end

lemma parse_int_unparse:
  assumes "np_at p (NetUnparser_unparse_int [] x @ rest)" "be_val (be_bytes x) = (x :: 'a::len word)"
  shows "\<exists>p'. NetParser_parse_int p = (x, p') \<and> np_at p' rest"
  using parse_int_at [where 'a = 'a, of p "be_bytes x" rest] assms by (simp add: unparse_int_eq)

interpretation u8: codec NetParser_u8 "NetUnparser_u8 []"
  by unfold_locales
    (simp only: NetParser_u8_def NetUnparser_u8_def parse_int_unparse be_val_be_bytes)

interpretation u16: codec NetParser_u16 "NetUnparser_u16 []"
  by unfold_locales
    (simp only: NetParser_u16_def NetUnparser_u16_def parse_int_unparse be_val_be_bytes)

interpretation u32: codec NetParser_u32 "NetUnparser_u32 []"
  by unfold_locales
    (simp only: NetParser_u32_def NetUnparser_u32_def parse_int_unparse be_val_be_bytes)

lemmas u8_at = u8.parse_unparse [simplified]
lemmas u16_at = u16.parse_unparse [simplified]
lemmas u32_at = u32.parse_unparse [simplified]

end
