(* ===== verification/Text_Format.thy ===== *)
theory Text_Format
  imports Prelude
begin

text \<open>
  What the sources use of the C++ and C libraries to print numbers (\<open>std::to_string\<close>, \<open>std::hex\<close>,
  \<open>setw\<close> with \<open>setfill\<close>, \<open>boolalpha\<close>, \<open>inet_ntoa\<close>), and \<open>hexdump\<close> of \<open>libsponge/util/util.cc\<close>.
  Printing is shown to lose nothing: digits, hexadecimal bytes and dotted quads can be read back.
\<close>

section \<open>Model\<close>

definition digit :: "nat \<Rightarrow> char" where
  "digit d = ''0123456789abcdef'' ! d"

fun digits :: "nat \<Rightarrow> nat \<Rightarrow> string" where
  "digits b n = (if b < 2 \<or> n < b then [digit n] else digits b (n div b) @ [digit (n mod b)])"

declare digits.simps [simp del]

definition dec :: "nat \<Rightarrow> string" where "dec n = digits 10 n"
definition hexa :: "nat \<Rightarrow> string" where "hexa n = digits 16 n"

text \<open>\<open>setw(w)\<close> with the fill character \<open>c\<close>.\<close>

definition pad :: "nat \<Rightarrow> char \<Rightarrow> string \<Rightarrow> string" where
  "pad w c s = replicate (w - length s) c @ s"

definition boolalpha :: "bool \<Rightarrow> string" where
  "boolalpha b = (if b then ''true'' else ''false'')"

text \<open>\<open>inet_ntoa({htobe32(ip)})\<close>.\<close>

definition inet_ntoa :: "u32 \<Rightarrow> string" where
  "inet_ntoa ip =
     dec (unat ip div 16777216) @ ''.'' @ dec (unat ip div 65536 mod 256) @ ''.'' @
     dec (unat ip div 256 mod 256) @ ''.'' @ dec (unat ip mod 256)"

text \<open>
  One iteration of \<open>hexdump\<close>: the text printed so far, what the column of characters holds and the
  counter. \<open>pchars\<close> is a string stream that starts with one blank and is then written from its
  beginning, so the first character replaces the blank.
\<close>

definition hexdump_step :: "nat \<Rightarrow> string \<times> string \<times> nat \<Rightarrow> byte \<Rightarrow> string \<times> string \<times> nat" where
  "hexdump_step indent st d =
     (let (out, pchars, printed) = st;
          (out, pchars) =
            (if printed mod 16 = 0
             then let (out, pchars) = (if printed \<noteq> 0 then (out @ ''    '' @ (if pchars = [] then '' '' else pchars) @ [CHR 0x0A], [])
                                       else (out, pchars))
                  in (out @ replicate indent (CHR '' '') @ pad 8 (CHR ''0'') (hexa printed) @ '':    '', pchars)
             else if printed mod 2 = 0 then (out @ '' '', pchars) else (out, pchars));
          out = out @ pad 2 (CHR ''0'') (hexa (unat d));
          pchars = pchars @ [if 32 \<le> d \<and> d < 127 then char_of (unat d) else CHR ''.'']
      in (out, pchars, printed + 1))"

definition hexdump :: "bytes \<Rightarrow> nat \<Rightarrow> string" where
  "hexdump data indent =
     (let (out, pchars, printed) = foldl (hexdump_step indent) ([], [], 0) data;
          print_rem = (16 - printed mod 16) mod 16
      in out @ replicate (2 * print_rem + print_rem div 2 + 4) (CHR '' '') @
         (if pchars = [] then '' '' else pchars) @ [CHR 0x0A, CHR 0x0A])"

section \<open>Reading back\<close>

definition digit_val :: "char \<Rightarrow> nat" where
  "digit_val c = (if c \<in> set ''abcdef'' then of_char c - 87 else of_char c - 48)"

lemma digit_val_digit: "d < 16 \<Longrightarrow> digit_val (digit d) = d"
proof -
  have "list_all (\<lambda>d. digit_val (digit d) = d) [0..<16]" by code_simp
  then show "d < 16 \<Longrightarrow> digit_val (digit d) = d" by (simp add: list_all_iff)
qed

lemma digit_plain: "d < 16 \<Longrightarrow> digit d \<in> set ''0123456789abcdef''"
  unfolding digit_def by (rule nth_mem) simp

fun digits_val :: "nat \<Rightarrow> string \<Rightarrow> nat" where
  "digits_val b s = foldl (\<lambda>n c. b * n + digit_val c) 0 s"

lemma digits_val_append: "foldl (\<lambda>n c. b * n + digit_val c) 0 (s @ [c]) = b * digits_val b s + digit_val c"
  by simp

lemma digits_val_digits: "2 \<le> b \<Longrightarrow> b \<le> 16 \<Longrightarrow> digits_val b (digits b n) = n"
proof (induction b n rule: digits.induct)
  case (1 b n)
  show ?case
  proof (cases "n < b")
    case True
    then show ?thesis using 1(3) by (simp add: digits.simps [of b n] digit_val_digit)
  next
    case False
    then have "digits_val b (digits b (n div b)) = n div b" using 1 by simp
    moreover have "n mod b < 16" using 1(2,3) by (intro order_less_le_trans [OF mod_less_divisor]) simp_all
    ultimately show ?thesis
      using False 1(2) digits_val_append by (simp add: digits.simps [of b n] digit_val_digit)
  qed
qed

lemma digits_inj: "2 \<le> b \<Longrightarrow> b \<le> 16 \<Longrightarrow> digits b n = digits b m \<Longrightarrow> n = m"
  by (metis digits_val_digits)

lemma digits_plain: "2 \<le> b \<Longrightarrow> b \<le> 16 \<Longrightarrow> set (digits b n) \<subseteq> set ''0123456789abcdef''"
proof (induction b n rule: digits.induct)
  case (1 b n)
  have "n mod b < 16" using 1(2,3) by (intro order_less_le_trans [OF mod_less_divisor]) simp_all
  then show ?case
    using 1 digit_plain [of n] digit_plain [of "n mod b"] by (subst digits.simps) (auto split: if_splits)
qed

text \<open>A byte takes two hexadecimal digits, and can be read back.\<close>

definition hex_byte :: "byte \<Rightarrow> string" where
  "hex_byte d = pad 2 (CHR ''0'') (hexa (unat d))"

lemma length_digits_le: "2 \<le> b \<Longrightarrow> n < b ^ Suc k \<Longrightarrow> length (digits b n) \<le> Suc k"
proof (induction k arbitrary: n)
  case 0
  then show ?case by (simp add: digits.simps [of b n])
next
  case (Suc k)
  have "n div b < b ^ Suc k" using Suc.prems by (simp add: less_mult_imp_div_less mult.commute)
  with Suc.IH [of "n div b"] Suc.prems(1) show ?case by (simp add: digits.simps [of b n])
qed

lemma length_hex_byte [simp]: "length (hex_byte d) = 2"
  using length_digits_le [of 16 "unat d" 1] unat_u8_lt [of d] by (simp add: hex_byte_def pad_def hexa_def)

lemma digits_val_pad: "digits_val b (pad w (CHR ''0'') s) = digits_val b s"
proof -
  have "foldl (\<lambda>n c. b * n + digit_val c) 0 (replicate k (CHR ''0'')) = 0" for k
    by (induction k) (simp_all add: digit_val_def)
  then show ?thesis by (simp add: pad_def)
qed

lemma hex_byte_inj: "hex_byte d = hex_byte e \<longleftrightarrow> d = e"
proof
  assume "hex_byte d = hex_byte e"
  then have "digits_val 16 (hexa (unat d)) = digits_val 16 (hexa (unat e))"
    using digits_val_pad unfolding hex_byte_def by metis
  then show "d = e" using digits_val_digits [of 16] by (simp add: hexa_def word_unat_eq_iff del: digits_val.simps)
qed simp

text \<open>A dotted quad can be split at its dots.\<close>

lemma dec_inj: "dec n = dec m \<longleftrightarrow> n = m"
  using digits_inj [of 10] by (auto simp: dec_def)

lemma dec_no_dot: "CHR ''.'' \<notin> set (dec n)"
  using digits_plain [of 10 n] by (auto simp: dec_def)

lemma split_unique:
  assumes "x \<notin> set as" "x \<notin> set bs" "as @ x # cs = bs @ x # ds"
  shows "as = bs \<and> cs = ds"
  using assms
proof (induction as arbitrary: bs)
  case Nil
  then show ?case by (cases bs) auto
next
  case (Cons a as)
  then show ?case by (cases bs) auto
qed

lemma quad_sum:
  "n = 256 * a + r \<Longrightarrow> a = 256 * b + s \<Longrightarrow> b = 256 * c + t \<Longrightarrow>
   n = 16777216 * c + (65536 * t + (256 * s + r))" for n a b c r s t :: nat
  by simp

lemma quad_number:
  "n = 16777216 * (n div 16777216) + (65536 * (n div 65536 mod 256) + (256 * (n div 256 mod 256) + n mod 256))"
  for n :: nat
proof (rule quad_sum)
  show "n = 256 * (n div 256) + n mod 256" "n div 256 = 256 * (n div 65536) + n div 256 mod 256"
    "n div 65536 = 256 * (n div 16777216) + n div 65536 mod 256"
    using mult_div_mod_eq [of 256 n] mult_div_mod_eq [of 256 "n div 256"] mult_div_mod_eq [of 256 "n div 65536"]
    by (simp_all only: div_mult2_eq [symmetric]) simp_all
qed

lemma inet_ntoa_inj: "inet_ntoa ip = inet_ntoa ip' \<longleftrightarrow> ip = ip'"
proof
  assume "inet_ntoa ip = inet_ntoa ip'"
  then have 1: "dec (unat ip div 16777216) = dec (unat ip' div 16777216)"
    and r1: "dec (unat ip div 65536 mod 256) @ CHR ''.'' # dec (unat ip div 256 mod 256) @ CHR ''.'' # dec (unat ip mod 256)
      = dec (unat ip' div 65536 mod 256) @ CHR ''.'' # dec (unat ip' div 256 mod 256) @ CHR ''.'' # dec (unat ip' mod 256)"
    unfolding inet_ntoa_def using split_unique [OF dec_no_dot dec_no_dot] by fastforce+
  from split_unique [OF dec_no_dot dec_no_dot r1]
  have 2: "dec (unat ip div 65536 mod 256) = dec (unat ip' div 65536 mod 256)"
    and r2: "dec (unat ip div 256 mod 256) @ CHR ''.'' # dec (unat ip mod 256)
      = dec (unat ip' div 256 mod 256) @ CHR ''.'' # dec (unat ip' mod 256)" by simp_all
  from split_unique [OF dec_no_dot dec_no_dot r2] 1 2
  have q: "unat ip div 16777216 = unat ip' div 16777216" "unat ip div 65536 mod 256 = unat ip' div 65536 mod 256"
    "unat ip div 256 mod 256 = unat ip' div 256 mod 256" "unat ip mod 256 = unat ip' mod 256"
    by (simp_all add: dec_inj)
  have "unat ip = 16777216 * (unat ip div 16777216) + (65536 * (unat ip div 65536 mod 256)
      + (256 * (unat ip div 256 mod 256) + unat ip mod 256))"
    by (rule quad_number)
  also have "\<dots> = unat ip'" unfolding q by (rule quad_number [symmetric])
  finally have "unat ip = unat ip'" .
  then show "ip = ip'" by (simp add: word_unat_eq_iff)
qed simp

end
