(* ===== verification/Address.thy ===== *)
theory Address
  imports Net_Parser Text_Format
begin

text \<open>
  \<open>libsponge/util/address.{hh,cc}\<close>: socket addresses as the bytes of a \<open>sockaddr_storage\<close> on Linux with
  a little-endian processor. The resolver (\<open>getaddrinfo\<close>) and its inverse (\<open>getnameinfo\<close>) are
  parameters; what is relied on is that they handle numeric addresses as documented.
\<close>

section \<open>Model\<close>

definition AF_INET :: int where "AF_INET = 2"
definition AI_NUMERICHOST :: int where "AI_NUMERICHOST = 4"
definition AI_ALL :: int where "AI_ALL = 16"
definition AI_NUMERICSERV :: int where "AI_NUMERICSERV = 1024"

record Address =
  ad_size :: u32
  ad_storage :: bytes

definition sizeof_sockaddr_storage :: u64 where "sizeof_sockaddr_storage = 128"
definition sizeof_sockaddr_in :: u64 where "sizeof_sockaddr_in = 16"

text \<open>A \<open>sockaddr_in\<close>: family in host order, port and address in network order, eight bytes of padding.\<close>

definition sockaddr_in :: "u32 \<Rightarrow> u16 \<Rightarrow> bytes" where
  "sockaddr_in ip port = [2, 0] @ be_bytes port @ be_bytes ip @ replicate 8 0"

definition Address_of_sockaddr :: "bytes \<Rightarrow> u64 \<Rightarrow> Address res" where
  "Address_of_sockaddr addr len =
     (if len > sizeof_sockaddr_storage then Inl (Runtime_error ''invalid sockaddr size'')
      else Inr \<lparr>ad_size = ucast len, ad_storage = string_resize 128 (take (unat len) addr)\<rparr>)"

record addrinfo_hints =
  ai_flags :: int
  ai_family :: int

definition make_hints :: "int \<Rightarrow> int \<Rightarrow> addrinfo_hints" where
  "make_hints flags family = \<lparr>ai_flags = flags, ai_family = family\<rparr>"

text \<open>
  \<open>getaddrinfo\<close>: an error code, or the first entry of the list of results if there is one, as the
  bytes of its address and their number.
\<close>

type_synonym getaddrinfo = "string \<Rightarrow> string \<Rightarrow> addrinfo_hints \<Rightarrow> int + (bytes \<times> u64) option"

definition Address_resolve :: "getaddrinfo \<Rightarrow> string \<Rightarrow> string \<Rightarrow> addrinfo_hints \<Rightarrow> Address res" where
  "Address_resolve gai node service hints =
     (case gai node service hints of
        Inl gai_ret \<Rightarrow> Inl (Gai_error (''getaddrinfo('' @ node @ '', '' @ service @ '')'') gai_ret)
      | Inr None \<Rightarrow> Inl (Runtime_error ''getaddrinfo returned successfully but with no results'')
      | Inr (Some (addr, addrlen)) \<Rightarrow> Address_of_sockaddr addr addrlen)"

definition Address_of_host :: "getaddrinfo \<Rightarrow> string \<Rightarrow> string \<Rightarrow> Address res" where
  "Address_of_host gai hostname service = Address_resolve gai hostname service (make_hints AI_ALL AF_INET)"

definition Address_of_ip :: "getaddrinfo \<Rightarrow> string \<Rightarrow> u16 \<Rightarrow> Address res" where
  "Address_of_ip gai ip port =
     Address_resolve gai ip (dec (unat port)) (make_hints (AI_NUMERICHOST + AI_NUMERICSERV) AF_INET)"

text \<open>\<open>std::stoi\<close>: blanks, a sign, then as many digits as there are.\<close>

definition is_digit :: "char \<Rightarrow> bool" where
  "is_digit c = (c \<in> set ''0123456789'')"

definition stoi :: "string \<Rightarrow> int res" where
  "stoi s =
     (let s = dropWhile (\<lambda>c. c \<in> set [CHR '' '', CHR 0x09, CHR 0x0A, CHR 0x0B, CHR 0x0C, CHR 0x0D]) s;
          (negative, s) = (case s of CHR ''-'' # t \<Rightarrow> (True, t) | CHR ''+'' # t \<Rightarrow> (False, t) | _ \<Rightarrow> (False, s));
          ds = takeWhile is_digit s;
          v = (if negative then - int (digits_val 10 ds) else int (digits_val 10 ds))
      in if ds = [] then Inl (Invalid_argument ''stoi'')
         else if v < - 2147483648 \<or> v > 2147483647 then Inl (Out_of_range ''stoi'') else Inr v)"

text \<open>\<open>getnameinfo\<close> with both NUMERIC flags: an error code, or host and service as strings.\<close>

type_synonym getnameinfo = "bytes \<Rightarrow> int + (string \<times> string)"

definition Address_ip_port :: "getnameinfo \<Rightarrow> Address \<Rightarrow> (string \<times> u16) res" where
  "Address_ip_port gni a =
     (case gni (take (unat (ad_size a)) (ad_storage a)) of
        Inl gni_ret \<Rightarrow> Inl (Gai_error ''getnameinfo'' gni_ret)
      | Inr (ip, port) \<Rightarrow> (case stoi port of Inl e \<Rightarrow> Inl e | Inr v \<Rightarrow> Inr (ip, of_int v)))"

definition Address_ip :: "getnameinfo \<Rightarrow> Address \<Rightarrow> string res" where
  "Address_ip gni a = map_sum id fst (Address_ip_port gni a)"

definition Address_port :: "getnameinfo \<Rightarrow> Address \<Rightarrow> u16 res" where
  "Address_port gni a = map_sum id snd (Address_ip_port gni a)"

definition Address_to_string :: "getnameinfo \<Rightarrow> Address \<Rightarrow> string res" where
  "Address_to_string gni a =
     (case Address_ip_port gni a of Inl e \<Rightarrow> Inl e | Inr (ip, port) \<Rightarrow> Inr (ip @ '':'' @ dec (unat port)))"

definition Address_ipv4_numeric :: "Address \<Rightarrow> u32 res" where
  "Address_ipv4_numeric a =
     (if take 2 (ad_storage a) \<noteq> [2, 0] \<or> ad_size a \<noteq> ucast sizeof_sockaddr_in
      then Inl (Runtime_error ''ipv4_numeric called on non-IPV4 address'')
      else Inr (be_val (take 4 (drop 4 (ad_storage a)))))"

definition Address_from_ipv4_numeric :: "u32 \<Rightarrow> Address res" where
  "Address_from_ipv4_numeric ip_address = Address_of_sockaddr (sockaddr_in ip_address 0) sizeof_sockaddr_in"

definition Address_eq :: "Address \<Rightarrow> Address \<Rightarrow> bool" where
  "Address_eq a other =
     (ad_size a = ad_size other
      \<and> take (unat (ad_size a)) (ad_storage a) = take (unat (ad_size a)) (ad_storage other))"

section \<open>Internet addresses\<close>

definition ipv4_address :: "u32 \<Rightarrow> u16 \<Rightarrow> Address" where
  "ipv4_address ip port = \<lparr>ad_size = 16, ad_storage = sockaddr_in ip port @ replicate 112 0\<rparr>"

lemma length_sockaddr_in [simp]: "length (sockaddr_in ip port) = 16"
  by (simp add: sockaddr_in_def)

lemma Address_of_sockaddr_in: "Address_of_sockaddr (sockaddr_in ip port) sizeof_sockaddr_in = Inr (ipv4_address ip port)"
  by (simp add: Address_of_sockaddr_def sizeof_sockaddr_in_def sizeof_sockaddr_storage_def ipv4_address_def
      string_resize_extend)

lemma ipv4_numeric_address [simp]: "Address_ipv4_numeric (ipv4_address ip port) = Inr ip"
  by (simp add: Address_ipv4_numeric_def ipv4_address_def sockaddr_in_def sizeof_sockaddr_in_def)

lemma from_ipv4_numeric [simp]: "Address_from_ipv4_numeric ip = Inr (ipv4_address ip 0)"
  by (simp add: Address_from_ipv4_numeric_def Address_of_sockaddr_in)

lemma be_bytes_inj: "be_bytes x = be_bytes y \<longleftrightarrow> x = y" if "be_val (be_bytes x) = x" "be_val (be_bytes y) = y"
  for x y :: "'a::len word"
  using that by metis

lemma Address_eq_ipv4: "Address_eq (ipv4_address ip port) (ipv4_address ip' port') \<longleftrightarrow> ip = ip' \<and> port = port'"
  by (auto simp: Address_eq_def ipv4_address_def sockaddr_in_def be_bytes_inj)

text \<open>Numeric hosts and services, as the manual pages of the two functions describe them.\<close>

definition resolves_numeric :: "getaddrinfo \<Rightarrow> bool" where
  "resolves_numeric gai =
     (\<forall>ip port. gai (inet_ntoa ip) (dec (unat port)) (make_hints (AI_NUMERICHOST + AI_NUMERICSERV) AF_INET)
        = Inr (Some (sockaddr_in ip port, sizeof_sockaddr_in)))"

definition names_numeric :: "getnameinfo \<Rightarrow> bool" where
  "names_numeric gni = (\<forall>ip port. gni (sockaddr_in ip port) = Inr (inet_ntoa ip, dec (unat port)))"

lemma Address_of_ip_numeric:
  "resolves_numeric gai \<Longrightarrow> Address_of_ip gai (inet_ntoa ip) port = Inr (ipv4_address ip port)"
  by (simp add: Address_of_ip_def Address_resolve_def resolves_numeric_def Address_of_sockaddr_in)

lemma digit_dec: "d < 10 \<Longrightarrow> is_digit (digit d)"
proof -
  have "list_all (\<lambda>d. is_digit (digit d)) [0..<10]" by code_simp
  then show "d < 10 \<Longrightarrow> is_digit (digit d)" by (simp add: list_all_iff)
qed

lemma dec_digits: "list_all is_digit (dec n)" "dec n \<noteq> []"
proof -
  have "b = 10 \<Longrightarrow> list_all is_digit (digits b n) \<and> digits b n \<noteq> []" for b
  proof (induction b n rule: digits.induct)
    case (1 b n)
    then show ?case using digit_dec [of n] digit_dec [of "n mod 10"] by (subst (1 2) digits.simps) auto
  qed
  then show "list_all is_digit (dec n)" "dec n \<noteq> []" by (simp_all add: dec_def)
qed

lemma stoi_dec: "n \<le> 2147483647 \<Longrightarrow> stoi (dec n) = Inr (int n)"
proof -
  assume n: "n \<le> 2147483647"
  obtain c cs where d: "dec n = c # cs" using dec_digits(2) [of n] by (cases "dec n") auto
  have dig: "is_digit c" "list_all is_digit cs" using dec_digits(1) [of n] by (simp_all add: d)
  then have c: "c \<notin> set [CHR '' '', CHR 0x09, CHR 0x0A, CHR 0x0B, CHR 0x0C, CHR 0x0D]" "c \<noteq> CHR ''-''" "c \<noteq> CHR ''+''"
    by (auto simp: is_digit_def)
  have t: "takeWhile is_digit (c # cs) = c # cs" using dig by (simp add: list_all_iff)
  have v: "digits_val 10 (c # cs) = n" using digits_val_digits [of 10 n] by (simp only: dec_def [symmetric] d)
  have m: "(case c # cs of CHR ''-'' # t \<Rightarrow> (True, t) | CHR ''+'' # t \<Rightarrow> (False, t) | _ \<Rightarrow> (False, c # cs)) = (False, c # cs)"
    using c(2,3) by (auto split: char.split bool.split)
  have w: "dropWhile (\<lambda>c. c \<in> set [CHR '' '', CHR 0x09, CHR 0x0A, CHR 0x0B, CHR 0x0C, CHR 0x0D]) (c # cs) = c # cs"
    using c(1) by (simp only: dropWhile.simps if_False)
  show ?thesis
    unfolding stoi_def d w Let_def m prod.case t v using n by simp
qed

lemma ip_port_ipv4:
  assumes "names_numeric gni"
  shows "Address_ip_port gni (ipv4_address ip port) = Inr (inet_ntoa ip, port)"
    "Address_port gni (ipv4_address ip port) = Inr port" "Address_ip gni (ipv4_address ip port) = Inr (inet_ntoa ip)"
proof -
  have "stoi (dec (unat port)) = Inr (int (unat port))" using unat_u16_lt [of port] by (intro stoi_dec) simp
  then show p: "Address_ip_port gni (ipv4_address ip port) = Inr (inet_ntoa ip, port)"
    using assms by (simp add: Address_ip_port_def names_numeric_def ipv4_address_def)
  then show "Address_port gni (ipv4_address ip port) = Inr port" "Address_ip gni (ipv4_address ip port) = Inr (inet_ntoa ip)"
    by (simp_all add: Address_port_def Address_ip_def)
qed

section \<open>Properties\<close>

text \<open>The textual form of an Internet address names it.\<close>

lemma address_text_roundtrip:
  assumes "resolves_numeric gai" "names_numeric gni" "a = ipv4_address ip port"
  shows "\<exists>text p b. Address_ip gni a = Inr text \<and> Address_port gni a = Inr p
    \<and> Address_of_ip gai text p = Inr b \<and> Address_eq b a \<and> Address_ipv4_numeric b = Inr ip"
  using assms ip_port_ipv4 [OF assms(2)] Address_of_ip_numeric [OF assms(1)] by (simp add: Address_eq_ipv4)

text \<open>A resolver and its inverse for numeric addresses only.\<close>

definition numeric_gni :: getnameinfo where
  "numeric_gni addr =
     (if length addr = 16 \<and> take 2 addr = [2, 0]
      then Inr (inet_ntoa (be_val (take 4 (drop 4 addr))), dec (unat (be_val (take 2 (drop 2 addr)) :: u16)))
      else Inl (- 6))"

primrec dots :: "string \<Rightarrow> string \<Rightarrow> string list" where
  "dots acc [] = [acc]"
| "dots acc (c # cs) = (if c = CHR ''.'' then acc # dots [] cs else dots (acc @ [c]) cs)"

definition numeric_gai :: getaddrinfo where
  "numeric_gai node service hints =
     (case map (digits_val 10) (dots [] node) of
        [a, b, c, d] \<Rightarrow> Inr (Some (sockaddr_in (of_nat (16777216 * a + (65536 * b + (256 * c + d))))
                                       (of_nat (digits_val 10 service)), sizeof_sockaddr_in))
      | _ \<Rightarrow> Inl (- 2))"

lemma dots_append: "CHR ''.'' \<notin> set s \<Longrightarrow> dots acc (s @ rest) = dots (acc @ s) rest"
  by (induction s arbitrary: acc) auto

lemma dots_end: "CHR ''.'' \<notin> set s \<Longrightarrow> dots acc s = [acc @ s]"
  using dots_append [of s acc "[]"] by simp

lemma numeric_gni_ok: "names_numeric numeric_gni"
  by (simp add: names_numeric_def numeric_gni_def sockaddr_in_def)

lemma numeric_gai_ok: "resolves_numeric numeric_gai"
  unfolding resolves_numeric_def
proof (intro allI)
  fix ip :: u32 and port :: u16
  let ?n = "unat ip"
  have v: "digits_val 10 (dec n) = n" for n unfolding dec_def by (rule digits_val_digits) simp_all
  have "dots [] (inet_ntoa ip)
      = [dec (?n div 16777216), dec (?n div 65536 mod 256), dec (?n div 256 mod 256), dec (?n mod 256)]"
    by (simp add: inet_ntoa_def dots_append dots_end dec_no_dot)
  moreover have "of_nat (16777216 * (?n div 16777216) + (65536 * (?n div 65536 mod 256)
      + (256 * (?n div 256 mod 256) + ?n mod 256))) = ip"
    unfolding quad_number [symmetric] by simp
  ultimately show "numeric_gai (inet_ntoa ip) (dec (unat port)) (make_hints (AI_NUMERICHOST + AI_NUMERICSERV) AF_INET)
      = Inr (Some (sockaddr_in ip port, sizeof_sockaddr_in))"
    by (simp add: numeric_gai_def v del: digits_val.simps of_nat_add of_nat_mult)
qed

end
