(* ===== verification/Ethernet.thy ===== *)
theory Ethernet
  imports Net_Parser Text_Format
begin

text \<open>
  \<open>libsponge/tcp_helpers/ethernet_header.{hh,cc}\<close> and \<open>ethernet_frame.{hh,cc}\<close>: the header with its
  two six-byte addresses and the type, and the frame around a payload.
\<close>

section \<open>Model\<close>

text \<open>\<open>std::array<uint8_t, 6>\<close>; \<open>eth_addr\<close> says that a list has that size.\<close>

type_synonym EthernetAddress = bytes

definition eth_addr :: "EthernetAddress \<Rightarrow> bool" where
  "eth_addr a = (length a = 6)"

definition ETHERNET_BROADCAST :: EthernetAddress where
  "ETHERNET_BROADCAST = [0xff, 0xff, 0xff, 0xff, 0xff, 0xff]"

record EthernetHeader =
  eh_dst :: EthernetAddress
  eh_src :: EthernetAddress
  eh_type :: u16

definition EthernetHeader_LENGTH :: u64 where "EthernetHeader_LENGTH = 14"
definition EthernetHeader_TYPE_IPv4 :: u16 where "EthernetHeader_TYPE_IPv4 = 0x800"
definition EthernetHeader_TYPE_ARP :: u16 where "EthernetHeader_TYPE_ARP = 0x806"

definition EthernetHeader_new :: EthernetHeader where
  "EthernetHeader_new = \<lparr>eh_dst = replicate 6 0, eh_src = replicate 6 0, eh_type = 0\<rparr>"

text \<open>The loops \<open>for (auto &byte : dst) { byte = p.u8(); }\<close> and \<open>for (auto &byte : dst) { u8(ret, byte); }\<close>.\<close>

definition parse_bytes :: "nat \<Rightarrow> NetParser \<Rightarrow> bytes \<times> NetParser" where
  "parse_bytes n p = parse_n NetParser_u8 n p"

definition unparse_bytes :: "bytes \<Rightarrow> bytes \<Rightarrow> bytes" where
  "unparse_bytes ret bs = foldl NetUnparser_u8 ret bs"

definition EthernetHeader_parse :: "NetParser \<Rightarrow> EthernetHeader \<Rightarrow> ParseResult \<times> EthernetHeader \<times> NetParser" where
  "EthernetHeader_parse p h =
     (if Buffer_size (np_buffer p) < EthernetHeader_LENGTH then (PacketTooShort, h, p)
      else let (dst, p) = parse_bytes 6 p;
               (src, p) = parse_bytes 6 p;
               (type, p) = NetParser_u16 p
           in (np_error p, \<lparr>eh_dst = dst, eh_src = src, eh_type = type\<rparr>, p))"

definition EthernetHeader_serialize :: "EthernetHeader \<Rightarrow> bytes" where
  "EthernetHeader_serialize h =
     (let ret = unparse_bytes [] (eh_dst h);
          ret = unparse_bytes ret (eh_src h)
      in NetUnparser_u16 ret (eh_type h))"

fun EthernetAddress_to_string :: "EthernetAddress \<Rightarrow> string" where
  "EthernetAddress_to_string [] = []"
| "EthernetAddress_to_string [b] = hex_byte b"
| "EthernetAddress_to_string (b # bs) = hex_byte b @ '':'' @ EthernetAddress_to_string bs"

definition EthernetHeader_to_string :: "EthernetHeader \<Rightarrow> string" where
  "EthernetHeader_to_string h =
     ''dst='' @ EthernetAddress_to_string (eh_dst h) @ '', src='' @ EthernetAddress_to_string (eh_src h) @ '', type='' @
     (if eh_type h = EthernetHeader_TYPE_IPv4 then ''IPv4''
      else if eh_type h = EthernetHeader_TYPE_ARP then ''ARP''
      else ''[unknown type '' @ hexa (unat (eh_type h)) @ ''!]'')"

record EthernetFrame =
  ef_header :: EthernetHeader
  ef_payload :: BufferList

definition EthernetFrame_new :: EthernetFrame where
  "EthernetFrame_new = \<lparr>ef_header = EthernetHeader_new, ef_payload = []\<rparr>"

text \<open>The result of the header's \<open>parse\<close> is not used; only the parser's own error is.\<close>

definition EthernetFrame_parse :: "Buffer \<Rightarrow> EthernetFrame \<Rightarrow> ParseResult \<times> EthernetFrame" where
  "EthernetFrame_parse buffer f =
     (let (_, header, p) = EthernetHeader_parse (NetParser_new buffer) (ef_header f)
      in (np_error p, \<lparr>ef_header = header, ef_payload = [np_buffer p]\<rparr>))"

definition EthernetFrame_serialize :: "EthernetFrame \<Rightarrow> BufferList" where
  "EthernetFrame_serialize f =
     (let ret = BufferList_append [] (BufferList_of_string (EthernetHeader_serialize (ef_header f)))
      in BufferList_append ret (ef_payload f))"

section \<open>Reading back what was written\<close>

lemma unparse_bytes_eq [simp]: "unparse_bytes ret bs = ret @ bs"
  by (induction bs arbitrary: ret) (simp_all add: unparse_bytes_def)

lemma parse_bytes_at:
  "np_at p (bs @ rest) \<Longrightarrow> length bs = n \<Longrightarrow> \<exists>p'. parse_bytes n p = (bs, p') \<and> np_at p' rest"
proof -
  have "concat (map (NetUnparser_u8 []) bs) = bs" by (induction bs) simp_all
  then show "np_at p (bs @ rest) \<Longrightarrow> length bs = n \<Longrightarrow> \<exists>p'. parse_bytes n p = (bs, p') \<and> np_at p' rest"
    using u8.parse_n_unparse [of p bs rest] by (auto simp: parse_bytes_def)
qed

definition eth_header_ok :: "EthernetHeader \<Rightarrow> bool" where
  "eth_header_ok h = (eth_addr (eh_dst h) \<and> eth_addr (eh_src h))"

lemma EthernetHeader_serialize_eq:
  "EthernetHeader_serialize h = eh_dst h @ eh_src h @ be_bytes (eh_type h)"
  by (simp add: EthernetHeader_serialize_def)

lemma EthernetHeader_parse_at:
  assumes "np_at p (EthernetHeader_serialize h @ rest)" "eth_header_ok h"
  shows "\<exists>p'. EthernetHeader_parse p self = (NoError, h, p') \<and> np_at p' rest"
proof -
  have l: "length (eh_dst h) = 6" "length (eh_src h) = 6" using assms(2) by (simp_all add: eth_header_ok_def eth_addr_def)
  obtain p1 where 1: "parse_bytes 6 p = (eh_dst h, p1)" "np_at p1 (eh_src h @ be_bytes (eh_type h) @ rest)"
    using parse_bytes_at [of p "eh_dst h" _ 6] assms(1) l by (fastforce simp: EthernetHeader_serialize_eq)
  obtain p2 where 2: "parse_bytes 6 p1 = (eh_src h, p2)" "np_at p2 (be_bytes (eh_type h) @ rest)"
    using parse_bytes_at [OF 1(2) l(2)] by auto
  obtain p3 where 3: "NetParser_u16 p2 = (eh_type h, p3)" "np_at p3 rest"
    using u16_at [OF 2(2)] by auto
  have "\<not> Buffer_size (np_buffer p) < EthernetHeader_LENGTH"
    using assms(1) l np_at_length [OF assms(1)]
    by (simp add: np_at_def Buffer_size_def EthernetHeader_LENGTH_def EthernetHeader_serialize_eq word_less_nat_alt unat_ssize)
  with 1 2 3 show ?thesis by (auto simp: EthernetHeader_parse_def np_at_def)
qed

lemma length_parse_bytes: "length (fst (parse_bytes n p)) = n"
proof -
  have "length (fst (parse_n f n p)) = n" for f :: "NetParser \<Rightarrow> byte \<times> NetParser"
    by (induction n arbitrary: p) (simp_all add: split_beta)
  then show ?thesis by (simp add: parse_bytes_def)
qed

lemma frame_parse_serialized:
  assumes "eth_header_ok (ef_header f)" "length (BufferList_concatenate (EthernetFrame_serialize f)) < W64"
  shows "\<exists>pl. EthernetFrame_parse (Buffer_of_string (BufferList_concatenate (EthernetFrame_serialize f))) self
      = (NoError, \<lparr>ef_header = ef_header f, ef_payload = [pl]\<rparr>)
    \<and> Buffer_ok pl \<and> Buffer_str pl = BufferList_concatenate (ef_payload f)"
proof -
  let ?bs = "BufferList_concatenate (EthernetFrame_serialize f)"
  have cat: "?bs = EthernetHeader_serialize (ef_header f) @ BufferList_concatenate (ef_payload f)"
    by (simp add: EthernetFrame_serialize_def BufferList_of_string_def)
  have "np_at (NetParser_new (Buffer_of_string ?bs)) ?bs" by (rule np_at_new [OF assms(2)])
  with cat EthernetHeader_parse_at [of _ "ef_header f" _ "ef_header self"] assms(1)
  obtain p' where "EthernetHeader_parse (NetParser_new (Buffer_of_string ?bs)) (ef_header self) = (NoError, ef_header f, p')"
      "np_at p' (BufferList_concatenate (ef_payload f))"
    by metis
  then show ?thesis by (simp add: EthernetFrame_parse_def np_at_def)
qed

lemma length_frame:
  "eth_header_ok (ef_header f) \<Longrightarrow>
   length (BufferList_concatenate (EthernetFrame_serialize f)) = 14 + length (BufferList_concatenate (ef_payload f))"
  by (simp add: EthernetFrame_serialize_def BufferList_of_string_def EthernetHeader_serialize_eq eth_header_ok_def eth_addr_def)

section \<open>Properties\<close>

text \<open>
  An Ethernet frame that is serialized and parsed again comes back with the same header and
  payload.
\<close>

lemma ethernet_frame_roundtrip:
  assumes "eth_header_ok (ef_header f)" "length (BufferList_concatenate (EthernetFrame_serialize f)) < W64"
  shows "\<exists>pl. EthernetFrame_parse (Buffer_of_string (BufferList_concatenate (EthernetFrame_serialize f))) self
      = (NoError, \<lparr>ef_header = ef_header f, ef_payload = [pl]\<rparr>)
    \<and> Buffer_str pl = BufferList_concatenate (ef_payload f)"
  using frame_parse_serialized [OF assms] by blast

text \<open>
  A frame too short for a header is accepted: the header keeps its old contents and all bytes become
  payload.
\<close>

lemma short_frame_accepted:
  assumes "length bs < 14"
  shows "EthernetFrame_parse (Buffer_of_string bs) f = (NoError, f\<lparr>ef_payload := [Buffer_of_string bs]\<rparr>)"
proof -
  have "Buffer_size (np_buffer (NetParser_new (Buffer_of_string bs))) < EthernetHeader_LENGTH"
    using assms by (simp add: NetParser_new_def Buffer_size_def EthernetHeader_LENGTH_def word_less_nat_alt unat_ssize)
  then show ?thesis by (simp add: EthernetFrame_parse_def EthernetHeader_parse_def NetParser_new_def)
qed

text \<open>
  The printed form of an address, two hexadecimal digits per byte with colons between them,
  determines the address.
\<close>

lemma ethernet_address_text_unique:
  assumes "eth_addr a" "eth_addr b"
  shows "EthernetAddress_to_string a = EthernetAddress_to_string b \<longleftrightarrow> a = b"
proof -
  have uniq: "EthernetAddress_to_string xs = EthernetAddress_to_string ys \<Longrightarrow> length xs = length ys \<Longrightarrow> xs = ys"
    for xs ys
  proof (induction xs arbitrary: ys rule: EthernetAddress_to_string.induct)
    case (2 x)
    then obtain y where "ys = [y]" by (cases ys) auto
    with 2 show ?case by (simp add: hex_byte_inj)
  next
    case (3 x x' xs)
    then obtain y y' ys' where ys: "ys = y # y' # ys'" by (cases ys; cases "tl ys") auto
    have "hex_byte x = hex_byte y \<and> EthernetAddress_to_string (x' # xs) = EthernetAddress_to_string (y' # ys')"
      using "3.prems"(1) by (simp add: ys append_eq_append_conv)
    with "3.IH" [of "y' # ys'"] "3.prems"(2) show ?case by (simp add: ys hex_byte_inj)
  qed simp
  show ?thesis using assms uniq by (auto simp: eth_addr_def)
qed

end
