(* ===== verification/Arp.thy ===== *)
theory Arp
  imports Ethernet
begin

text \<open>
  \<open>libsponge/tcp_helpers/arp_message.{hh,cc}\<close>: requests and replies of the Address Resolution
  Protocol for IPv4 over Ethernet.
\<close>

section \<open>Model\<close>

record ARPMessage =
  am_hardware_type :: u16
  am_protocol_type :: u16
  am_hardware_address_size :: u8
  am_protocol_address_size :: u8
  am_opcode :: u16
  am_sender_ethernet_address :: EthernetAddress
  am_sender_ip_address :: u32
  am_target_ethernet_address :: EthernetAddress
  am_target_ip_address :: u32

definition ARPMessage_LENGTH :: u64 where "ARPMessage_LENGTH = 28"
definition ARPMessage_TYPE_ETHERNET :: u16 where "ARPMessage_TYPE_ETHERNET = 1"
definition ARPMessage_OPCODE_REQUEST :: u16 where "ARPMessage_OPCODE_REQUEST = 1"
definition ARPMessage_OPCODE_REPLY :: u16 where "ARPMessage_OPCODE_REPLY = 2"

text \<open>\<open>sizeof(EthernetHeader::src)\<close> is 6 and \<open>sizeof(IPv4Header::src)\<close> is 4.\<close>

definition ARPMessage_new :: ARPMessage where
  "ARPMessage_new =
     \<lparr>am_hardware_type = ARPMessage_TYPE_ETHERNET, am_protocol_type = EthernetHeader_TYPE_IPv4,
      am_hardware_address_size = 6, am_protocol_address_size = 4, am_opcode = 0,
      am_sender_ethernet_address = replicate 6 0, am_sender_ip_address = 0,
      am_target_ethernet_address = replicate 6 0, am_target_ip_address = 0\<rparr>"

definition ARPMessage_supported :: "ARPMessage \<Rightarrow> bool" where
  "ARPMessage_supported m =
     (am_hardware_type m = ARPMessage_TYPE_ETHERNET \<and> am_protocol_type m = EthernetHeader_TYPE_IPv4
      \<and> am_hardware_address_size m = 6 \<and> am_protocol_address_size m = 4
      \<and> (am_opcode m = ARPMessage_OPCODE_REQUEST \<or> am_opcode m = ARPMessage_OPCODE_REPLY))"

definition ARPMessage_parse :: "Buffer \<Rightarrow> ARPMessage \<Rightarrow> ParseResult \<times> ARPMessage" where
  "ARPMessage_parse buffer m =
     (let p = NetParser_new buffer
      in if Buffer_size (np_buffer p) < ARPMessage_LENGTH then (PacketTooShort, m)
         else
           let (hardware_type, p) = NetParser_u16 p;
               (protocol_type, p) = NetParser_u16 p;
               (hardware_address_size, p) = NetParser_u8 p;
               (protocol_address_size, p) = NetParser_u8 p;
               (opcode, p) = NetParser_u16 p;
               m = m\<lparr>am_hardware_type := hardware_type, am_protocol_type := protocol_type,
                     am_hardware_address_size := hardware_address_size,
                     am_protocol_address_size := protocol_address_size, am_opcode := opcode\<rparr>
           in if \<not> ARPMessage_supported m then (Unsupported, m)
              else
                let (sender_ethernet_address, p) = parse_bytes 6 p;
                    (sender_ip_address, p) = NetParser_u32 p;
                    (target_ethernet_address, p) = parse_bytes 6 p;
                    (target_ip_address, p) = NetParser_u32 p
                in (np_error p,
                    m\<lparr>am_sender_ethernet_address := sender_ethernet_address, am_sender_ip_address := sender_ip_address,
                      am_target_ethernet_address := target_ethernet_address, am_target_ip_address := target_ip_address\<rparr>))"

definition ARPMessage_serialize :: "ARPMessage \<Rightarrow> bytes res" where
  "ARPMessage_serialize m =
     (if \<not> ARPMessage_supported m
      then Inl (Runtime_error ''ARPMessage::serialize(): unsupported field combination (must be Ethernet/IP, and request or reply)'')
      else let ret = [];
               ret = NetUnparser_u16 ret (am_hardware_type m);
               ret = NetUnparser_u16 ret (am_protocol_type m);
               ret = NetUnparser_u8 ret (am_hardware_address_size m);
               ret = NetUnparser_u8 ret (am_protocol_address_size m);
               ret = NetUnparser_u16 ret (am_opcode m);
               ret = unparse_bytes ret (am_sender_ethernet_address m);
               ret = NetUnparser_u32 ret (am_sender_ip_address m);
               ret = unparse_bytes ret (am_target_ethernet_address m)
           in Inr (NetUnparser_u32 ret (am_target_ip_address m)))"

definition ARPMessage_to_string :: "ARPMessage \<Rightarrow> string" where
  "ARPMessage_to_string m =
     (let opcode_str = ''(unknown type)'';
          opcode_str = (if am_opcode m = ARPMessage_OPCODE_REQUEST then ''REQUEST'' else opcode_str);
          opcode_str = (if am_opcode m = ARPMessage_OPCODE_REPLY then ''REPLY'' else opcode_str)
      in ''opcode='' @ opcode_str @ '', sender='' @ EthernetAddress_to_string (am_sender_ethernet_address m) @ ''/'' @
         inet_ntoa (am_sender_ip_address m) @ '', target='' @ EthernetAddress_to_string (am_target_ethernet_address m) @
         ''/'' @ inet_ntoa (am_target_ip_address m))"

section \<open>Reading back what was written\<close>

definition arp_ok :: "ARPMessage \<Rightarrow> bool" where
  "arp_ok m = (ARPMessage_supported m \<and> eth_addr (am_sender_ethernet_address m) \<and> eth_addr (am_target_ethernet_address m))"

definition arp_bytes :: "ARPMessage \<Rightarrow> bytes" where
  "arp_bytes m =
     be_bytes (am_hardware_type m) @ be_bytes (am_protocol_type m) @
     [am_hardware_address_size m, am_protocol_address_size m] @ be_bytes (am_opcode m) @
     am_sender_ethernet_address m @ be_bytes (am_sender_ip_address m) @ am_target_ethernet_address m @
     be_bytes (am_target_ip_address m)"

lemma ARPMessage_serialize_eq: "ARPMessage_supported m \<Longrightarrow> ARPMessage_serialize m = Inr (arp_bytes m)"
  by (simp add: ARPMessage_serialize_def arp_bytes_def)

lemma arp_bytes_length: "arp_ok m \<Longrightarrow> length (arp_bytes m) = 28"
  by (simp add: arp_ok_def eth_addr_def arp_bytes_def)

lemma arp_parse_serialized:
  assumes "arp_ok m" "Buffer_ok b" "Buffer_str b = arp_bytes m"
  shows "ARPMessage_parse b self = (NoError, m)"
proof -
  let ?p = "NetParser_new b" and ?se = "am_sender_ethernet_address m" and ?te = "am_target_ethernet_address m"
  have l: "length ?se = 6" "length ?te = 6" using assms(1) by (simp_all add: arp_ok_def eth_addr_def)
  have at: "np_at ?p (arp_bytes m)" using assms(2,3) by (simp add: np_at_def NetParser_new_def)
  then obtain p1 where 1: "NetParser_u16 ?p = (am_hardware_type m, p1)" and "np_at p1 (drop 2 (arp_bytes m))"
    using u16_at [of ?p "am_hardware_type m"] by (auto simp: arp_bytes_def)
  then obtain p2 where 2: "NetParser_u16 p1 = (am_protocol_type m, p2)" and "np_at p2 (drop 4 (arp_bytes m))"
    using u16_at [of p1 "am_protocol_type m"] by (auto simp: arp_bytes_def)
  then obtain p3 where 3: "NetParser_u8 p2 = (am_hardware_address_size m, p3)" and "np_at p3 (drop 5 (arp_bytes m))"
    using u8_at [of p2 "am_hardware_address_size m"] by (auto simp: arp_bytes_def)
  then obtain p4 where 4: "NetParser_u8 p3 = (am_protocol_address_size m, p4)" and "np_at p4 (drop 6 (arp_bytes m))"
    using u8_at [of p3 "am_protocol_address_size m"] by (auto simp: arp_bytes_def)
  then obtain p5 where 5: "NetParser_u16 p4 = (am_opcode m, p5)"
    and "np_at p5 (?se @ be_bytes (am_sender_ip_address m) @ ?te @ be_bytes (am_target_ip_address m))"
    using u16_at [of p4 "am_opcode m"] by (auto simp: arp_bytes_def)
  then obtain p6 where 6: "parse_bytes 6 p5 = (?se, p6)"
    and "np_at p6 (be_bytes (am_sender_ip_address m) @ ?te @ be_bytes (am_target_ip_address m))"
    using parse_bytes_at [of p5 ?se _ 6] l(1) by blast
  then obtain p7 where 7: "NetParser_u32 p6 = (am_sender_ip_address m, p7)"
    and "np_at p7 (?te @ be_bytes (am_target_ip_address m))"
    using u32_at [of p6 "am_sender_ip_address m"] by blast
  then obtain p8 where 8: "parse_bytes 6 p7 = (?te, p8)" and "np_at p8 (be_bytes (am_target_ip_address m))"
    using parse_bytes_at [of p7 ?te _ 6] l(2) by blast
  then obtain p9 where 9: "NetParser_u32 p8 = (am_target_ip_address m, p9)" and "np_at p9 []"
    using u32_at [of p8 "am_target_ip_address m" "[]"] by auto
  moreover have "\<not> Buffer_size (np_buffer ?p) < ARPMessage_LENGTH"
    using at np_at_length [OF at] arp_bytes_length [OF assms(1)]
    by (simp add: np_at_def Buffer_size_def ARPMessage_LENGTH_def word_less_nat_alt unat_ssize)
  moreover have "ARPMessage_supported (self\<lparr>am_hardware_type := am_hardware_type m, am_protocol_type := am_protocol_type m,
       am_hardware_address_size := am_hardware_address_size m,
       am_protocol_address_size := am_protocol_address_size m, am_opcode := am_opcode m\<rparr>)"
    using assms(1) by (simp add: arp_ok_def ARPMessage_supported_def)
  ultimately show ?thesis
    by (simp add: ARPMessage_parse_def Let_def 1 2 3 4 5 6 7 8 np_at_def)
qed

text \<open>
  A request or reply is serialized in 28 bytes and parsed back unchanged; any other combination
  of types is refused by \<open>serialize\<close> with an exception.
\<close>

lemma arp_roundtrip:
  assumes "eth_addr (am_sender_ethernet_address m)" "eth_addr (am_target_ethernet_address m)"
  shows "case ARPMessage_serialize m of
      Inl e \<Rightarrow> \<not> ARPMessage_supported m
    | Inr bs \<Rightarrow> ARPMessage_supported m \<and> length bs = 28 \<and> ARPMessage_parse (Buffer_of_string bs) self = (NoError, m)"
proof (cases "ARPMessage_supported m")
  case True
  then have ok: "arp_ok m" using assms by (simp add: arp_ok_def)
  then have "Buffer_ok (Buffer_of_string (arp_bytes m))"
    using arp_bytes_length [OF ok] by (intro Buffer_ok_of_string) simp
  with arp_parse_serialized [OF ok this] show ?thesis
    using True arp_bytes_length [OF ok] by (simp add: ARPMessage_serialize_eq)
qed (simp add: ARPMessage_serialize_def)

end
