(* ===== verification/Checksum.thy ===== *)
theory Checksum
  imports Net_Parser
begin

text \<open>
  \<open>InternetChecksum\<close> of \<open>libsponge/util/util.{hh,cc}\<close>: the 32-bit accumulator with its byte parity,
  and the end-around-carry loop of \<open>value\<close>. The closed form of the loop on natural numbers gives
  what the protocols rely on: a field filled with the checksum verifies, and a corrupted byte does
  not.
\<close>

section \<open>Model\<close>

record InternetChecksum =
  ck_sum :: u32
  ck_parity :: bool

definition InternetChecksum_new :: "u32 \<Rightarrow> InternetChecksum" where
  "InternetChecksum_new initial_sum = \<lparr>ck_sum = initial_sum, ck_parity = False\<rparr>"

definition InternetChecksum_add_byte :: "InternetChecksum \<Rightarrow> byte \<Rightarrow> InternetChecksum" where
  "InternetChecksum_add_byte c d =
     (let val = (ucast d :: u16);
          val = (if \<not> ck_parity c then push_bit 8 val else val)
      in c\<lparr>ck_sum := ck_sum c + ucast val, ck_parity := \<not> ck_parity c\<rparr>)"

definition InternetChecksum_add :: "bytes \<Rightarrow> InternetChecksum \<Rightarrow> InternetChecksum" where
  "InternetChecksum_add data c = foldl InternetChecksum_add_byte c data"

lemma unat_end_around:
  fixes r :: u32
  shows "unat (drop_bit 16 r + (r AND 0xFFFF)) = unat r div W16 + unat r mod W16"
proof -
  have a: "unat (r AND 0xFFFF) = unat r mod W16"
  proof -
    have "r AND 0xFFFF = take_bit 16 r" by (simp add: take_bit_eq_mask mask_eq_exp_minus_1)
    then show ?thesis by (simp add: unsigned_take_bit_eq) (simp add: take_bit_eq_mod)
  qed
  have "unat r div W16 < W16" using unat_u32_lt [of r] by (simp add: less_mult_imp_div_less)
  moreover have "unat r mod W16 < W16" by simp
  ultimately have s: "unat r div W16 + unat r mod W16 < W32" by linarith
  then show ?thesis by (subst unat_add_less) (simp_all add: a unat_drop_bit)
qed

text \<open>The loop \<open>while (ret > 0xffff)\<close> of \<open>value\<close>.\<close>

function InternetChecksum_fold :: "u32 \<Rightarrow> u32" where
  "InternetChecksum_fold ret =
     (if ret > 0xFFFF then InternetChecksum_fold (drop_bit 16 ret + (ret AND 0xFFFF)) else ret)"
  by pat_completeness auto

termination InternetChecksum_fold
proof (relation "measure unat")
  fix ret :: u32
  assume "0xFFFF < ret"
  then have "W16 \<le> unat ret" by (simp add: word_less_nat_alt)
  then have "1 \<le> unat ret div W16" by (simp add: div_greater_zero_iff Suc_le_eq)
  then have "unat ret div W16 < W16 * (unat ret div W16)" by simp
  then show "(drop_bit 16 ret + (ret AND 0xFFFF), ret) \<in> measure unat"
    using mult_div_mod_eq [of W16 "unat ret"] by (simp only: in_measure unat_end_around)
qed simp

declare InternetChecksum_fold.simps [simp del]

definition InternetChecksum_value :: "InternetChecksum \<Rightarrow> u16" where
  "InternetChecksum_value c = ucast (NOT (InternetChecksum_fold (ck_sum c)))"

section \<open>The sum\<close>

fun bsum :: "bool \<Rightarrow> bytes \<Rightarrow> nat" where
  "bsum p [] = 0"
| "bsum p (b # bs) = (if p then unat b else 256 * unat b) + bsum (\<not> p) bs"

lemma bsum_append: "bsum p (xs @ ys) = bsum p xs + bsum (p \<noteq> odd (length xs)) ys"
proof (induction xs arbitrary: p)
  case (Cons x xs)
  then show ?case by (cases p) simp_all
qed simp

lemma InternetChecksum_add_eq:
  "InternetChecksum_add data c =
     c\<lparr>ck_sum := ck_sum c + of_nat (bsum (ck_parity c) data),
       ck_parity := (ck_parity c \<noteq> odd (length data))\<rparr>"
proof (induction data arbitrary: c)
  case (Cons d data)
  have "unat (ucast (push_bit 8 (ucast d :: u16)) :: u32) = 256 * unat d"
  proof -
    have "256 * unat d < W16" using unat_u8_lt [of d] by simp
    moreover have "push_bit 8 (ucast d :: u16) = 256 * ucast d" by (simp add: push_bit_eq_mult)
    ultimately show ?thesis by (simp add: unat_ucast_up unat_word_ariths)
  qed
  then have hi: "ucast (push_bit 8 (ucast d :: u16)) = (of_nat (256 * unat d) :: u32)"
    using unat_u8_lt [of d] by (simp only: word_unat_eq_iff) (subst unat_of_nat_less; simp)
  have lo: "ucast (ucast d :: u16) = (of_nat (unat d) :: u32)"
    using unat_u8_lt [of d] by (simp only: word_unat_eq_iff) (simp add: unat_ucast_up)
  show ?case
    using Cons.IH [of "InternetChecksum_add_byte c d"]
    by (simp add: InternetChecksum_add_def InternetChecksum_add_byte_def Let_def hi lo)
qed (simp add: InternetChecksum_add_def)

lemma InternetChecksum_add_append:
  "InternetChecksum_add (xs @ ys) c = InternetChecksum_add ys (InternetChecksum_add xs c)"
  by (simp add: InternetChecksum_add_def)

section \<open>The end-around carry\<close>

definition ones_sum :: "nat \<Rightarrow> nat" where
  "ones_sum n = (if n = 0 then 0 else (n - 1) mod 65535 + 1)"

lemma ones_sum_end_around: "ones_sum (n div W16 + n mod W16) = ones_sum n"
proof (cases "n = 0")
  case False
  let ?q = "n div W16" and ?r = "n mod W16"
  have n: "n = ?q * 65535 + (?q + ?r)" using mult_div_mod_eq [of W16 n] by linarith
  have pos: "0 < ?q + ?r"
  proof (rule ccontr)
    assume "\<not> 0 < ?q + ?r"
    then have "?q = 0" "?r = 0" by simp_all
    with n False show False by simp
  qed
  then have "n - 1 = (?q + ?r - 1) + ?q * 65535" using n by linarith
  then have "(n - 1) mod 65535 = (?q + ?r - 1) mod 65535" by (simp only: mod_mult_self1)
  with pos False show ?thesis by (simp add: ones_sum_def)
qed (simp add: ones_sum_def)

lemma unat_fold: "unat (InternetChecksum_fold r) = ones_sum (unat r)"
proof (induction r rule: InternetChecksum_fold.induct)
  case (1 r)
  show ?case
  proof (cases "r > 0xFFFF")
    case True
    then show ?thesis
      using 1 [OF True]
      by (subst InternetChecksum_fold.simps) (simp add: unat_end_around ones_sum_end_around)
  next
    case False
    then have "unat r \<le> 65535" by (simp add: word_less_nat_alt)
    with False show ?thesis
      by (subst InternetChecksum_fold.simps) (auto simp: ones_sum_def)
  qed
qed

lemma ones_sum_le: "ones_sum n \<le> 65535"
  by (simp add: ones_sum_def Suc_le_eq)

lemma unat_value: "unat (InternetChecksum_value c) = 65535 - ones_sum (unat (ck_sum c))"
proof -
  let ?f = "InternetChecksum_fold (ck_sum c)"
  have le: "unat ?f \<le> 65535" using ones_sum_le by (simp add: unat_fold)
  have "unat (NOT ?f) = W32 - 1 - unat ?f"
  proof -
    have "NOT ?f = - 1 - ?f" by (simp add: not_eq_complement)
    moreover have "unat (- 1 :: u32) = W32 - 1" by (simp add: unsigned_minus_1_eq_mask mask_eq_exp_minus_1)
    ultimately show ?thesis by (simp add: unat_sub)
  qed
  then have "unat (ucast (NOT ?f) :: u16) = (W32 - 1 - unat ?f) mod W16"
    by (simp add: unsigned_ucast_eq take_bit_eq_mod)
  also have "W32 - 1 - unat ?f = (65535 - unat ?f) + 65535 * W16" using le by linarith
  also have "\<dots> mod W16 = 65535 - unat ?f" by (simp only: mod_mult_self2 mod_mult_self1) simp
  finally show ?thesis by (simp add: InternetChecksum_value_def unat_fold)
qed

lemma value_eq_0_iff: "InternetChecksum_value c = 0 \<longleftrightarrow> ones_sum (unat (ck_sum c)) = 65535"
  using ones_sum_le [of "unat (ck_sum c)"] by (auto simp: word_unat_eq_iff unat_value)

lemma ones_sum_full_iff: "ones_sum n = 65535 \<longleftrightarrow> n \<noteq> 0 \<and> n mod 65535 = 0"
proof (cases "n = 0")
  case False
  then obtain m where m: "n = Suc m" by (cases n) auto
  have "m mod 65535 = 65534 \<longleftrightarrow> Suc m mod 65535 = 0" by (simp add: mod_Suc)
  then show ?thesis by (simp add: ones_sum_def m)
qed (simp add: ones_sum_def)

lemma ones_sum_mod: "(n + (65535 - ones_sum n)) mod 65535 = 0"
proof (cases "n = 0")
  case False
  let ?m = "(n - 1) mod 65535"
  have "?m \<le> 65534" by (simp add: less_Suc_eq_le [symmetric])
  moreover have "n - 1 = 65535 * ((n - 1) div 65535) + ?m" by simp
  ultimately have "n + (65535 - (?m + 1)) = 65535 * ((n - 1) div 65535) + 65535"
    using False by linarith
  then show ?thesis using False by (simp add: ones_sum_def)
qed (simp add: ones_sum_def)

lemma bsum_be_bytes: "bsum False (be_bytes (v :: u16)) = unat v"
  using unat_u16_lt [of v] mult_div_mod_eq [of 256 "unat v"]
  by (simp add: be_bytes_def upt_rec unat_byte_of_0 unat_drop_bit)

lemma unat_sum_add:
  assumes "unat (ck_sum c) + bsum (ck_parity c) data < W32"
  shows "unat (ck_sum (InternetChecksum_add data c)) = unat (ck_sum c) + bsum (ck_parity c) data"
proof -
  have "unat (of_nat (bsum (ck_parity c) data) :: u32) = bsum (ck_parity c) data"
    using assms by (intro unat_of_nat_less) simp
  then show ?thesis using assms by (simp add: InternetChecksum_add_eq unat_add_less)
qed

section \<open>Verification of a message\<close>

text \<open>The bytes of a message weigh less than a full word each, which bounds the accumulator.\<close>

lemma bsum_bound: "2 * bsum p data \<le> 65536 * (length data + 1)"
proof -
  have "bsum p data \<le> (if p then 255 else 0) + 32768 * length data + (if p then 0 else 32767)"
  proof (induction data arbitrary: p)
    case (Cons d data)
    show ?case using Cons.IH [of "\<not> p"] unat_u8_lt [of d] by (auto split: if_splits)
  qed simp
  then show ?thesis by (auto split: if_splits)
qed

lemma filled_checksum_verifies:
  assumes even: "even (length pre)" and par: "\<not> ck_parity c"
    and v: "v = InternetChecksum_value (InternetChecksum_add (pre @ be_bytes (0 :: u16) @ post) c)"
    and fit: "unat (ck_sum c) + bsum False pre + bsum False post + 65535 < W32"
  shows "InternetChecksum_value (InternetChecksum_add (pre @ be_bytes v @ post) c) = 0"
proof -
  let ?n = "unat (ck_sum c) + bsum False pre + bsum False post"
  have b: "bsum False (pre @ be_bytes w @ post) = bsum False pre + unat w + bsum False post" for w :: u16
    using even by (simp add: bsum_append bsum_be_bytes)
  have "unat (ck_sum (InternetChecksum_add (pre @ be_bytes (0 :: u16) @ post) c)) = ?n"
    using fit par by (subst unat_sum_add) (simp_all add: b)
  then have v': "unat v = 65535 - ones_sum ?n" by (simp add: v unat_value)
  have "unat (ck_sum (InternetChecksum_add (pre @ be_bytes v @ post) c)) = ?n + (65535 - ones_sum ?n)"
    using fit par by (subst unat_sum_add) (simp_all add: b v')
  moreover have "?n + (65535 - ones_sum ?n) \<noteq> 0" by (cases "?n = 0") (auto simp: ones_sum_def)
  ultimately show ?thesis
    using ones_sum_mod [of ?n] by (simp only: value_eq_0_iff ones_sum_full_iff) blast
qed

lemma mod_neq_near:
  fixes a b m :: nat
  assumes "a < b" "b < a + m"
  shows "a mod m \<noteq> b mod m"
proof
  assume "a mod m = b mod m"
  then have "m dvd b - a" using assms(1) mod_eq_dvd_iff_nat [of a b m] by simp
  then have "m \<le> b - a" using assms(1) by (intro dvd_imp_le) auto
  then show False using assms by linarith
qed

lemma corrupted_byte_detected:
  assumes "InternetChecksum_value (InternetChecksum_add (pre @ x # post) c) = 0"
    and "x \<noteq> y"
    and "unat (ck_sum c) + bsum (ck_parity c) (pre @ x # post) < W32"
    and "unat (ck_sum c) + bsum (ck_parity c) (pre @ y # post) < W32"
  shows "InternetChecksum_value (InternetChecksum_add (pre @ y # post) c) \<noteq> 0"
proof -
  define p where "p = (ck_parity c \<noteq> odd (length pre))"
  define n where "n = unat (ck_sum c) + bsum (ck_parity c) pre + bsum (\<not> p) post"
  let ?k = "if p then 1 else 256 :: nat"
  have s: "unat (ck_sum c) + bsum (ck_parity c) (pre @ z # post) = n + ?k * unat z" for z
    by (simp add: bsum_append p_def n_def)
  have "unat x \<noteq> unat y" using assms(2) by (simp add: word_unat_eq_iff)
  then have "(n + ?k * unat x) mod 65535 \<noteq> (n + ?k * unat y) mod 65535"
    using mod_neq_near [of "n + ?k * unat x" "n + ?k * unat y" 65535]
      mod_neq_near [of "n + ?k * unat y" "n + ?k * unat x" 65535]
      unat_u8_lt [of x] unat_u8_lt [of y]
    by (cases "unat x < unat y") (auto split: if_splits)
  then show ?thesis
    using assms(1) unat_sum_add [OF assms(3)] unat_sum_add [OF assms(4)]
    by (simp add: value_eq_0_iff ones_sum_full_iff s)
qed

end
