(* ===== verification/Ipv4.thy ===== *)
theory Ipv4
  imports Checksum Text_Format
begin

text \<open>
  \<open>libsponge/tcp_helpers/ipv4_header.{hh,cc}\<close> and \<open>ipv4_datagram.{hh,cc}\<close>: the Internet header with
  its checksum, the pseudo-header sum that TCP uses, and the datagram around a payload.
\<close>

section \<open>Model\<close>

record IPv4Header =
  ih_ver :: u8
  ih_hlen :: u8
  ih_tos :: u8
  ih_len :: u16
  ih_id :: u16
  ih_df :: bool
  ih_mf :: bool
  ih_offset :: u16
  ih_ttl :: u8
  ih_proto :: u8
  ih_cksum :: u16
  ih_src :: u32
  ih_dst :: u32

definition IPv4Header_LENGTH :: u64 where "IPv4Header_LENGTH = 20"
definition IPv4Header_DEFAULT_TTL :: u8 where "IPv4Header_DEFAULT_TTL = 128"
definition IPv4Header_PROTO_TCP :: u8 where "IPv4Header_PROTO_TCP = 6"

definition IPv4Header_new :: IPv4Header where
  "IPv4Header_new =
     \<lparr>ih_ver = 4, ih_hlen = ucast (IPv4Header_LENGTH div 4), ih_tos = 0, ih_len = 0, ih_id = 0, ih_df = True,
      ih_mf = False, ih_offset = 0, ih_ttl = IPv4Header_DEFAULT_TTL, ih_proto = IPv4Header_PROTO_TCP, ih_cksum = 0,
      ih_src = 0, ih_dst = 0\<rparr>"

definition IPv4Header_parse :: "NetParser \<Rightarrow> IPv4Header \<Rightarrow> ParseResult \<times> IPv4Header \<times> NetParser" where
  "IPv4Header_parse p h =
     (let original_serialized_version = np_buffer p;
          data_size = Buffer_size (np_buffer p)
      in if data_size < IPv4Header_LENGTH then (PacketTooShort, h, p)
         else
           let (first_byte, p) = NetParser_u8 p;
               ver = drop_bit 4 first_byte;
               hlen = first_byte AND 0x0f;
               (tos, p) = NetParser_u8 p;
               (len, p) = NetParser_u16 p;
               (id, p) = NetParser_u16 p;
               (fo_val, p) = NetParser_u16 p;
               (ttl, p) = NetParser_u8 p;
               (proto, p) = NetParser_u8 p;
               (cksum, p) = NetParser_u16 p;
               (src, p) = NetParser_u32 p;
               (dst, p) = NetParser_u32 p;
               h = \<lparr>ih_ver = ver, ih_hlen = hlen, ih_tos = tos, ih_len = len, ih_id = id,
                    ih_df = (fo_val AND 0x4000 \<noteq> 0), ih_mf = (fo_val AND 0x2000 \<noteq> 0), ih_offset = fo_val AND 0x1fff,
                    ih_ttl = ttl, ih_proto = proto, ih_cksum = cksum, ih_src = src, ih_dst = dst\<rparr>
           in if data_size < 4 * ucast hlen then (PacketTooShort, h, p)
              else if ver \<noteq> 4 then (WrongIPVersion, h, p)
              else if hlen < 5 then (HeaderTooShort, h, p)
              else if data_size \<noteq> ucast len then (TruncatedPacket, h, p)
              else let p = NetParser_remove_prefix (ucast hlen * 4 - IPv4Header_LENGTH) p
                   in if NetParser_error p then (np_error p, h, p)
                      else let check = InternetChecksum_add
                                 (take (4 * unat hlen) (Buffer_str original_serialized_version)) (InternetChecksum_new 0)
                           in if InternetChecksum_value check \<noteq> 0 then (BadChecksum, h, p)
                              else (NoError, h, p))"

definition IPv4Header_serialize :: "IPv4Header \<Rightarrow> bytes res" where
  "IPv4Header_serialize h =
     (if ih_ver h \<noteq> 4 then Inl (Runtime_error ''wrong IP version'')
      else if 4 * ucast (ih_hlen h) < IPv4Header_LENGTH then Inl (Runtime_error ''IP header too short'')
      else let ret = [];
               first_byte = push_bit 4 (ih_ver h) OR (ih_hlen h AND 0xf);
               ret = NetUnparser_u8 ret first_byte;
               ret = NetUnparser_u8 ret (ih_tos h);
               ret = NetUnparser_u16 ret (ih_len h);
               ret = NetUnparser_u16 ret (ih_id h);
               fo_val = (if ih_df h then 0x4000 else 0) OR (if ih_mf h then 0x2000 else 0) OR (ih_offset h AND 0x1fff);
               ret = NetUnparser_u16 ret fo_val;
               ret = NetUnparser_u8 ret (ih_ttl h);
               ret = NetUnparser_u8 ret (ih_proto h);
               ret = NetUnparser_u16 ret (ih_cksum h);
               ret = NetUnparser_u32 ret (ih_src h);
               ret = NetUnparser_u32 ret (ih_dst h)
           in Inr (string_resize (4 * unat (ih_hlen h)) ret))"

text \<open>The subtraction is done in \<open>int\<close> and cut to sixteen bits.\<close>

definition IPv4Header_payload_length :: "IPv4Header \<Rightarrow> u16" where
  "IPv4Header_payload_length h = ucast (ucast (ih_len h) - 4 * ucast (ih_hlen h) :: u32)"

definition IPv4Header_pseudo_cksum :: "IPv4Header \<Rightarrow> u32" where
  "IPv4Header_pseudo_cksum h =
     (let pcksum = drop_bit 16 (ih_src h) + (ih_src h AND 0xffff);
          pcksum = pcksum + (drop_bit 16 (ih_dst h) + (ih_dst h AND 0xffff));
          pcksum = pcksum + ucast (ih_proto h)
      in pcksum + ucast (IPv4Header_payload_length h))"

definition IPv4Header_to_string :: "IPv4Header \<Rightarrow> string" where
  "IPv4Header_to_string h =
     ''IP version: '' @ hexa (unat (ih_ver h)) @ [CHR 0x0A] @
     ''IP hdr len: '' @ hexa (unat (ih_hlen h)) @ [CHR 0x0A] @
     ''IP tos: '' @ hexa (unat (ih_tos h)) @ [CHR 0x0A] @
     ''IP dgram len: '' @ hexa (unat (ih_len h)) @ [CHR 0x0A] @
     ''IP id: '' @ hexa (unat (ih_id h)) @ [CHR 0x0A] @
     ''Flags: df: '' @ boolalpha (ih_df h) @ '' mf: '' @ boolalpha (ih_mf h) @ [CHR 0x0A] @
     ''Offset: '' @ hexa (unat (ih_offset h)) @ [CHR 0x0A] @
     ''TTL: '' @ hexa (unat (ih_ttl h)) @ [CHR 0x0A] @
     ''Protocol: '' @ hexa (unat (ih_proto h)) @ [CHR 0x0A] @
     ''Checksum: '' @ hexa (unat (ih_cksum h)) @ [CHR 0x0A] @
     ''Src addr: '' @ hexa (unat (ih_src h)) @ [CHR 0x0A] @
     ''Dst addr: '' @ hexa (unat (ih_dst h)) @ [CHR 0x0A]"

definition IPv4Header_summary :: "IPv4Header \<Rightarrow> string" where
  "IPv4Header_summary h =
     ''IPv'' @ hexa (unat (ih_ver h)) @ '', len='' @ hexa (unat (ih_len h)) @ '', protocol='' @
     hexa (unat (ih_proto h)) @ '', '' @ (if ih_ttl h \<ge> 10 then '''' else ''ttl='' @ dec (unat (ih_ttl h)) @ '', '') @
     ''src='' @ inet_ntoa (ih_src h) @ '', dst='' @ inet_ntoa (ih_dst h)"

record IPv4Datagram =
  id_header :: IPv4Header
  id_payload :: BufferList

type_synonym InternetDatagram = IPv4Datagram

definition IPv4Datagram_new :: IPv4Datagram where
  "IPv4Datagram_new = \<lparr>id_header = IPv4Header_new, id_payload = []\<rparr>"

text \<open>The result of the header's \<open>parse\<close> is not used; only the parser's own error is.\<close>

definition IPv4Datagram_parse :: "Buffer \<Rightarrow> IPv4Datagram \<Rightarrow> ParseResult \<times> IPv4Datagram" where
  "IPv4Datagram_parse buffer d =
     (let (_, header, p) = IPv4Header_parse (NetParser_new buffer) (id_header d);
          d = \<lparr>id_header = header, id_payload = [np_buffer p]\<rparr>
      in if BufferList_size (id_payload d) \<noteq> ucast (IPv4Header_payload_length header) then (PacketTooShort, d)
         else (np_error p, d))"

definition IPv4Datagram_serialize :: "IPv4Datagram \<Rightarrow> BufferList res" where
  "IPv4Datagram_serialize d =
     (if BufferList_size (id_payload d) \<noteq> ucast (IPv4Header_payload_length (id_header d))
      then Inl (Runtime_error ''IPv4Datagram::serialize: payload is wrong size'')
      else let header_out = (id_header d)\<lparr>ih_cksum := 0\<rparr>
           in case IPv4Header_serialize header_out of
                Inl e \<Rightarrow> Inl e
              | Inr header_zero_checksum \<Rightarrow>
                  let check = InternetChecksum_add header_zero_checksum (InternetChecksum_new 0);
                      header_out = header_out\<lparr>ih_cksum := InternetChecksum_value check\<rparr>
                  in case IPv4Header_serialize header_out of
                       Inl e \<Rightarrow> Inl e
                     | Inr hdr \<Rightarrow>
                         let ret = BufferList_append [] (BufferList_of_string hdr)
                         in Inr (BufferList_append ret (id_payload d)))"

section \<open>The header on the wire\<close>

definition first_byte :: "IPv4Header \<Rightarrow> u8" where
  "first_byte h = push_bit 4 (ih_ver h) OR (ih_hlen h AND 0xf)"

definition fo_val :: "IPv4Header \<Rightarrow> u16" where
  "fo_val h = (if ih_df h then 0x4000 else 0) OR (if ih_mf h then 0x2000 else 0) OR (ih_offset h AND 0x1fff)"

definition ip_header_bytes :: "IPv4Header \<Rightarrow> bytes" where
  "ip_header_bytes h =
     [first_byte h, ih_tos h] @ be_bytes (ih_len h) @ be_bytes (ih_id h) @ be_bytes (fo_val h)
       @ [ih_ttl h, ih_proto h] @ be_bytes (ih_cksum h) @ be_bytes (ih_src h) @ be_bytes (ih_dst h)
       @ replicate (4 * unat (ih_hlen h) - 20) 0"

text \<open>The fields hold what their bit widths allow.\<close>

definition ip_header_ok :: "IPv4Header \<Rightarrow> bool" where
  "ip_header_ok h = (ih_ver h = 4 \<and> 5 \<le> unat (ih_hlen h) \<and> unat (ih_hlen h) < 16 \<and> ih_offset h AND 0x1fff = ih_offset h)"

lemma hlen_words:
  assumes "unat (hlen :: u8) < 16"
  shows "unat (4 * ucast hlen :: u64) = 4 * unat hlen" "unat (ucast hlen * 4 :: u64) = 4 * unat hlen"
    "unat (4 * ucast hlen :: u32) = 4 * unat hlen"
  using assms by (simp_all add: unat_word_ariths unat_ucast_up)

lemma IPv4Header_serialize_eq:
  assumes "ip_header_ok h"
  shows "IPv4Header_serialize h = Inr (ip_header_bytes h)"
proof -
  have "\<not> 4 * ucast (ih_hlen h) < IPv4Header_LENGTH"
    using assms by (simp add: ip_header_ok_def word_less_nat_alt hlen_words IPv4Header_LENGTH_def)
  moreover define b where "b = [first_byte h, ih_tos h] @ be_bytes (ih_len h) @ be_bytes (ih_id h) @ be_bytes (fo_val h)
    @ [ih_ttl h, ih_proto h] @ be_bytes (ih_cksum h) @ be_bytes (ih_src h) @ be_bytes (ih_dst h)"
  have "length b = 20" by (simp add: b_def)
  then have "string_resize (4 * unat (ih_hlen h)) b = ip_header_bytes h"
    using assms by (subst string_resize_extend) (simp_all add: ip_header_ok_def ip_header_bytes_def b_def)
  moreover have "ih_ver h = 4" using assms by (simp add: ip_header_ok_def)
  ultimately show ?thesis
    unfolding IPv4Header_serialize_def Let_def b_def first_byte_def [symmetric] fo_val_def [symmetric]
    by simp
qed

lemma length_ip_header_bytes: "ip_header_ok h \<Longrightarrow> length (ip_header_bytes h) = 4 * unat (ih_hlen h)"
  by (auto simp: ip_header_bytes_def ip_header_ok_def)

lemma first_byte_roundtrip:
  assumes "ip_header_ok h"
  shows "drop_bit 4 (first_byte h) = 4" "first_byte h AND 0x0f = ih_hlen h"
proof -
  have "list_all (\<lambda>k. drop_bit 4 (push_bit 4 (4 :: u8) OR (of_nat k AND 0xf)) = 4
      \<and> (push_bit 4 (4 :: u8) OR (of_nat k AND 0xf)) AND 0x0f = of_nat k) [0..<16]"
    by code_simp
  then have "drop_bit 4 (push_bit 4 (4 :: u8) OR (of_nat (unat (ih_hlen h)) AND 0xf)) = 4
      \<and> (push_bit 4 (4 :: u8) OR (of_nat (unat (ih_hlen h)) AND 0xf)) AND 0x0f = of_nat (unat (ih_hlen h))"
    using assms unfolding list_all_iff by (elim bspec) (simp add: ip_header_ok_def)
  then show "drop_bit 4 (first_byte h) = 4" "first_byte h AND 0x0f = ih_hlen h"
    using assms by (simp_all add: first_byte_def ip_header_ok_def)
qed

lemma fo_val_roundtrip:
  "(fo_val h AND 0x4000 \<noteq> 0) = ih_df h" "(fo_val h AND 0x2000 \<noteq> 0) = ih_mf h"
  "fo_val h AND 0x1fff = ih_offset h AND 0x1fff"
  by (cases "ih_df h"; cases "ih_mf h"; simp add: fo_val_def bit.conj_disj_distrib2 and.assoc)+

text \<open>The fields of any twenty bytes, and where the parser then stands.\<close>

definition ip_fields :: "bytes \<Rightarrow> IPv4Header" where
  "ip_fields bs =
     (let fo = be_val (take 2 (drop 6 bs)) :: u16
      in \<lparr>ih_ver = drop_bit 4 (bs ! 0), ih_hlen = bs ! 0 AND 0x0f, ih_tos = bs ! 1, ih_len = be_val (take 2 (drop 2 bs)),
          ih_id = be_val (take 2 (drop 4 bs)), ih_df = (fo AND 0x4000 \<noteq> 0), ih_mf = (fo AND 0x2000 \<noteq> 0),
          ih_offset = fo AND 0x1fff, ih_ttl = bs ! 8, ih_proto = bs ! 9, ih_cksum = be_val (take 2 (drop 10 bs)),
          ih_src = be_val (take 4 (drop 12 bs)), ih_dst = be_val (take 4 (drop 16 bs))\<rparr>)"

text \<open>The tests of \<open>parse\<close> before it skips the options.\<close>

definition ip_regular :: "bytes \<Rightarrow> bool" where
  "ip_regular bs =
     (let h = ip_fields bs
      in 4 * unat (ih_hlen h) \<le> length bs \<and> ih_ver h = 4 \<and> 5 \<le> unat (ih_hlen h) \<and> length bs = unat (ih_len h))"

definition ip_header_end :: "bytes \<Rightarrow> nat" where
  "ip_header_end bs = (if ip_regular bs then 4 * unat (ih_hlen (ip_fields bs)) else 20)"

lemma byte_at: "k < length bs \<Longrightarrow> be_val (take 1 (drop k bs)) = bs ! k" for bs :: bytes
  by (simp add: take_Suc_conv_app_nth be_val_def)

lemma nibble_bound: "unat (x AND 0x0f :: u8) < 16"
proof -
  have "x AND 0x0f = take_bit 4 x" by (simp add: take_bit_eq_mask mask_eq_exp_minus_1)
  then show ?thesis by (simp add: unsigned_take_bit_eq) (simp add: take_bit_eq_mod)
qed

lemma IPv4Header_parse_any:
  assumes "np_at p bs" "20 \<le> length bs"
  shows "\<exists>r p'. IPv4Header_parse p self = (r, ip_fields bs, p') \<and> np_at p' (drop (ip_header_end bs) bs)
    \<and> (r = NoError \<longleftrightarrow> ip_regular bs
        \<and> InternetChecksum_value (InternetChecksum_add (take (4 * unat (ih_hlen (ip_fields bs))) bs) (InternetChecksum_new 0)) = 0)"
proof -
  obtain p1 where 1: "NetParser_u8 p = (bs ! 0, p1)" and "np_at p1 (drop 1 bs)"
    using field_steps(1) [of p 0 bs 1] byte_at [of 0 bs] assms by (cases bs) auto
  then obtain p2 where 2: "NetParser_u8 p1 = (bs ! 1, p2)" and "np_at p2 (drop 2 bs)"
    using field_steps(1) [of p1 1 bs 2] byte_at [of 1 bs] assms(2) by auto
  then obtain p3 where 3: "NetParser_u16 p2 = (be_val (take 2 (drop 2 bs)), p3)" and "np_at p3 (drop 4 bs)"
    using field_steps(2) [of p2 2 bs 4] assms(2) by auto
  then obtain p4 where 4: "NetParser_u16 p3 = (be_val (take 2 (drop 4 bs)), p4)" and "np_at p4 (drop 6 bs)"
    using field_steps(2) [of p3 4 bs 6] assms(2) by auto
  then obtain p5 where 5: "NetParser_u16 p4 = (be_val (take 2 (drop 6 bs)), p5)" and "np_at p5 (drop 8 bs)"
    using field_steps(2) [of p4 6 bs 8] assms(2) by auto
  then obtain p6 where 6: "NetParser_u8 p5 = (bs ! 8, p6)" and "np_at p6 (drop 9 bs)"
    using field_steps(1) [of p5 8 bs 9] byte_at [of 8 bs] assms(2) by auto
  then obtain p7 where 7: "NetParser_u8 p6 = (bs ! 9, p7)" and "np_at p7 (drop 10 bs)"
    using field_steps(1) [of p6 9 bs 10] byte_at [of 9 bs] assms(2) by auto
  then obtain p8 where 8: "NetParser_u16 p7 = (be_val (take 2 (drop 10 bs)), p8)" and "np_at p8 (drop 12 bs)"
    using field_steps(2) [of p7 10 bs 12] assms(2) by auto
  then obtain p9 where 9: "NetParser_u32 p8 = (be_val (take 4 (drop 12 bs)), p9)" and "np_at p9 (drop 16 bs)"
    using field_steps(3) [of p8 12 bs 16] assms(2) by auto
  then obtain q where 10: "NetParser_u32 p9 = (be_val (take 4 (drop 16 bs)), q)" and q: "np_at q (drop 20 bs)"
    using field_steps(3) [of p9 16 bs 20] assms(2) by auto
  let ?hl = "bs ! 0 AND 0x0f" and ?len = "be_val (take 2 (drop 2 bs)) :: u16" and ?size = "Buffer_size (np_buffer p)"
  have hl: "unat ?hl < 16" by (rule nibble_bound)
  have sz: "unat ?size = length bs"
    using assms(1) np_at_length [OF assms(1)] by (simp add: np_at_def Buffer_size_def unat_ssize)
  define h where "h = ip_fields bs"
  define reg where "reg = (4 * unat ?hl \<le> length bs \<and> drop_bit 4 (bs ! 0) = 4 \<and> 5 \<le> unat ?hl \<and> length bs = unat ?len)"
  have reg: "ip_regular bs = reg" by (simp add: reg_def ip_regular_def ip_fields_def Let_def)
  have tests: "?size < IPv4Header_LENGTH \<longleftrightarrow> False" "?size < 4 * ucast ?hl \<longleftrightarrow> \<not> 4 * unat ?hl \<le> length bs"
    "?hl < 5 \<longleftrightarrow> \<not> 5 \<le> unat ?hl" "?size \<noteq> ucast ?len \<longleftrightarrow> length bs \<noteq> unat ?len"
    using sz assms(2) hl hlen_words(1) [OF hl]
    by (auto simp: word_less_nat_alt word_unat_eq_iff IPv4Header_LENGTH_def unat_ucast_up not_le)
  define p' where "p' = NetParser_remove_prefix (ucast ?hl * 4 - IPv4Header_LENGTH) q"
  have p': "np_at p' (drop (4 * unat ?hl) bs)" "\<not> NetParser_error p'" if reg
  proof -
    have r: "5 \<le> unat ?hl" "4 * unat ?hl \<le> length bs" using that unfolding reg_def by blast+
    have n: "unat (ucast ?hl * 4 - IPv4Header_LENGTH) = 4 * unat ?hl - 20"
      using hlen_words(2) [OF hl] r(1)
      by (subst unat_diff_le) (simp_all add: IPv4Header_LENGTH_def word_le_nat_alt)
    have "np_at p' (drop (4 * unat ?hl - 20) (drop 20 bs))"
      unfolding p'_def n [symmetric] by (rule remove_prefix_at [OF q]) (use r(2) in \<open>simp add: n\<close>)
    then show "np_at p' (drop (4 * unat ?hl) bs)" using r(1) by simp
    then show "\<not> NetParser_error p'" by (simp add: np_at_def NetParser_error_def)
  qed
  let ?ck = "InternetChecksum_value (InternetChecksum_add (take (4 * unat ?hl) bs) (InternetChecksum_new 0))"
  have bs: "Buffer_str (np_buffer p) = bs" using assms(1) by (simp add: np_at_def)
  define A B C D where d: "A = (4 * unat ?hl \<le> length bs)" "B = (drop_bit 4 (bs ! 0) = 4)" "C = (5 \<le> unat ?hl)"
    "D = (length bs = unat ?len)"
  have par: "IPv4Header_parse p self = (if \<not> A then (PacketTooShort, h, q) else if \<not> B then (WrongIPVersion, h, q)
      else if \<not> C then (HeaderTooShort, h, q) else if \<not> D then (TruncatedPacket, h, q)
      else if NetParser_error p' then (np_error p', h, p') else if ?ck \<noteq> 0 then (BadChecksum, h, p') else (NoError, h, p'))"
    by (simp only: IPv4Header_parse_def Let_def 1 2 3 4 5 6 7 8 9 10 prod.case tests bs p'_def [symmetric] if_False
        h_def ip_fields_def d)
  have rABCD: "reg = (A \<and> B \<and> C \<and> D)" by (simp only: reg_def d)
  have e: "ip_header_end bs = (if reg then 4 * unat ?hl else 20)" "ih_hlen h = ?hl"
    by (simp_all add: ip_header_end_def reg ip_fields_def Let_def h_def)
  show ?thesis
  proof (cases reg)
    case True
    then show ?thesis
      using par p' unfolding reg h_def [symmetric] e rABCD by (cases "?ck = 0") simp_all
  next
    case False
    then have "\<exists>r. r \<noteq> NoError \<and> IPv4Header_parse p self = (r, h, q)"
      unfolding par rABCD by (cases A; cases B; cases C; simp)
    with False q show ?thesis unfolding reg h_def [symmetric] e by auto
  qed
qed

lemma IPv4Header_parse_tiny:
  assumes "np_at p bs" "length bs < 20"
  shows "IPv4Header_parse p self = (PacketTooShort, self, p)"
proof -
  have "Buffer_size (np_buffer p) < IPv4Header_LENGTH"
    using assms np_at_length [OF assms(1)]
    by (simp add: np_at_def Buffer_size_def IPv4Header_LENGTH_def word_less_nat_alt unat_ssize)
  then show ?thesis by (simp add: IPv4Header_parse_def Let_def)
qed

lemma ip_fields_bytes:
  assumes "ip_header_ok h"
  shows "ip_fields (ip_header_bytes h @ rest) = h"
proof -
  have "(ip_header_bytes h @ rest) ! 0 = first_byte h" "(ip_header_bytes h @ rest) ! 1 = ih_tos h"
    "take 2 (drop 2 (ip_header_bytes h @ rest)) = be_bytes (ih_len h)"
    "take 2 (drop 4 (ip_header_bytes h @ rest)) = be_bytes (ih_id h)"
    "take 2 (drop 6 (ip_header_bytes h @ rest)) = be_bytes (fo_val h)"
    "(ip_header_bytes h @ rest) ! 8 = ih_ttl h" "(ip_header_bytes h @ rest) ! 9 = ih_proto h"
    "take 2 (drop 10 (ip_header_bytes h @ rest)) = be_bytes (ih_cksum h)"
    "take 4 (drop 12 (ip_header_bytes h @ rest)) = be_bytes (ih_src h)"
    "take 4 (drop 16 (ip_header_bytes h @ rest)) = be_bytes (ih_dst h)"
    by (simp_all add: ip_header_bytes_def nth_append)
  then show ?thesis
    using assms first_byte_roundtrip [OF assms] fo_val_roundtrip [of h]
    by (simp add: ip_fields_def Let_def ip_header_ok_def)
qed

section \<open>The datagram on the wire\<close>

text \<open>The length field agrees with the header length and the payload.\<close>

definition datagram_ok :: "IPv4Datagram \<Rightarrow> bool" where
  "datagram_ok d =
     (ip_header_ok (id_header d)
      \<and> 4 * unat (ih_hlen (id_header d)) + length (BufferList_concatenate (id_payload d)) = unat (ih_len (id_header d)))"

lemma unat_payload_length:
  assumes "unat (ih_hlen h) < 16" "4 * unat (ih_hlen h) \<le> unat (ih_len h)"
  shows "unat (IPv4Header_payload_length h) = unat (ih_len h) - 4 * unat (ih_hlen h)"
proof -
  have l: "unat (ucast (ih_len h) :: u32) = unat (ih_len h)" by (simp add: unat_ucast_up)
  have "unat (ucast (ih_len h) - 4 * ucast (ih_hlen h) :: u32) = unat (ih_len h) - 4 * unat (ih_hlen h)"
    using assms(2) hlen_words(3) [OF assms(1)] l by (subst unat_diff_le) (simp_all add: word_le_nat_alt)
  moreover have "unat (ih_len h) - 4 * unat (ih_hlen h) < 65536" using unat_u16_lt [of "ih_len h"] by linarith
  ultimately show ?thesis
    by (simp add: IPv4Header_payload_length_def unsigned_ucast_eq) (simp add: take_bit_eq_mod)
qed

lemma payload_size_ok:
  assumes "datagram_ok d"
  shows "BufferList_size (id_payload d) = ucast (IPv4Header_payload_length (id_header d))"
proof -
  let ?h = "id_header d"
  have "unat (IPv4Header_payload_length ?h) = length (BufferList_concatenate (id_payload d))"
    using assms by (subst unat_payload_length) (auto simp: datagram_ok_def ip_header_ok_def)
  moreover from this have "length (BufferList_concatenate (id_payload d)) < W64"
    using unat_u16_lt [of "IPv4Header_payload_length ?h"] by linarith
  ultimately show ?thesis by (simp add: word_unat_eq_iff BufferList_size_eq unat_ssize unat_ucast_up)
qed

definition ip_sealed :: "IPv4Header \<Rightarrow> IPv4Header" where
  "ip_sealed h = h\<lparr>ih_cksum := InternetChecksum_value
     (InternetChecksum_add (ip_header_bytes (h\<lparr>ih_cksum := 0\<rparr>)) (InternetChecksum_new 0))\<rparr>"

lemma ip_header_ok_cksum [simp]: "ip_header_ok (h\<lparr>ih_cksum := c\<rparr>) = ip_header_ok h"
  by (simp add: ip_header_ok_def)

lemma ip_sealed_ok [simp]: "ip_header_ok (ip_sealed h) = ip_header_ok h"
  by (simp add: ip_sealed_def)

lemma ip_sealed_frame [simp]:
  "ih_hlen (ip_sealed h) = ih_hlen h" "ih_len (ip_sealed h) = ih_len h" "ih_ver (ip_sealed h) = ih_ver h"
  "ih_src (ip_sealed h) = ih_src h" "ih_dst (ip_sealed h) = ih_dst h" "ih_proto (ip_sealed h) = ih_proto h"
  by (simp_all add: ip_sealed_def)

lemma IPv4Datagram_serialize_eq:
  assumes "datagram_ok d"
  shows "IPv4Datagram_serialize d
    = Inr (Buffer_of_string (ip_header_bytes (ip_sealed (id_header d))) # id_payload d)"
proof -
  have "ip_header_ok (id_header d)" using assms by (simp add: datagram_ok_def)
  then show ?thesis
    using payload_size_ok [OF assms]
    by (simp add: IPv4Datagram_serialize_def Let_def IPv4Header_serialize_eq ip_sealed_def BufferList_of_string_def)
qed

definition datagram_bytes :: "IPv4Datagram \<Rightarrow> bytes" where
  "datagram_bytes d = ip_header_bytes (ip_sealed (id_header d)) @ BufferList_concatenate (id_payload d)"

lemma length_datagram_bytes: "datagram_ok d \<Longrightarrow> length (datagram_bytes d) = unat (ih_len (id_header d))"
  by (simp add: datagram_bytes_def datagram_ok_def length_ip_header_bytes)

lemma datagram_fields: "datagram_ok d \<Longrightarrow> ip_fields (datagram_bytes d) = ip_sealed (id_header d)"
  by (simp add: datagram_bytes_def ip_fields_bytes datagram_ok_def)

lemma datagram_regular:
  assumes "datagram_ok d"
  shows "ip_regular (datagram_bytes d)" "20 \<le> length (datagram_bytes d)"
    "ip_header_end (datagram_bytes d) = 4 * unat (ih_hlen (id_header d))"
proof -
  show r: "ip_regular (datagram_bytes d)" "20 \<le> length (datagram_bytes d)"
    using assms length_datagram_bytes [OF assms]
    by (auto simp: ip_regular_def datagram_fields Let_def datagram_ok_def ip_header_ok_def)
  show "ip_header_end (datagram_bytes d) = 4 * unat (ih_hlen (id_header d))"
    using r(1) by (simp add: ip_header_end_def datagram_fields [OF assms])
qed

lemma datagram_parse_serialized:
  assumes "datagram_ok d" "Buffer_ok b" "Buffer_str b = datagram_bytes d"
  shows "\<exists>pl. IPv4Datagram_parse b self = (NoError, \<lparr>id_header = ip_sealed (id_header d), id_payload = [pl]\<rparr>)
    \<and> Buffer_ok pl \<and> Buffer_str pl = BufferList_concatenate (id_payload d)"
proof -
  have "np_at (NetParser_new b) (datagram_bytes d)" using assms(2,3) by (simp add: np_at_def NetParser_new_def)
  from IPv4Header_parse_any [OF this datagram_regular(2) [OF assms(1)], of "id_header self"]
  obtain r p' where p: "IPv4Header_parse (NetParser_new b) (id_header self) = (r, ip_sealed (id_header d), p')"
      "np_at p' (drop (4 * unat (ih_hlen (id_header d))) (datagram_bytes d))"
    by (auto simp: datagram_regular [OF assms(1)] datagram_fields [OF assms(1)])
  have "drop (4 * unat (ih_hlen (id_header d))) (datagram_bytes d) = BufferList_concatenate (id_payload d)"
    using assms(1) by (simp add: datagram_bytes_def datagram_ok_def length_ip_header_bytes)
  with p(2) have b: "Buffer_ok (np_buffer p')" "Buffer_str (np_buffer p') = BufferList_concatenate (id_payload d)"
      "np_error p' = NoError"
    by (simp_all add: np_at_def)
  have "BufferList_size [np_buffer p'] = BufferList_size (id_payload d)" by (simp add: BufferList_size_eq b(2))
  with payload_size_ok [OF assms(1)] p(1) b show ?thesis
    by (simp add: IPv4Datagram_parse_def IPv4Header_payload_length_def)
qed

lemma ip_header_bytes_cksum:
  "ip_header_bytes (h\<lparr>ih_cksum := c\<rparr>) =
     ([first_byte h, ih_tos h] @ be_bytes (ih_len h) @ be_bytes (ih_id h) @ be_bytes (fo_val h) @ [ih_ttl h, ih_proto h])
     @ be_bytes c @ (be_bytes (ih_src h) @ be_bytes (ih_dst h) @ replicate (4 * unat (ih_hlen h) - 20) 0)"
  by (simp add: ip_header_bytes_def first_byte_def fo_val_def)

lemma short_sum_fits: "length bs \<le> 60 \<Longrightarrow> bsum False bs + 65535 < W32"
  using bsum_bound [of False bs] by simp

lemma ip_checksum_zero:
  assumes "ip_header_ok h"
  shows "InternetChecksum_value (InternetChecksum_add (ip_header_bytes (ip_sealed h)) (InternetChecksum_new 0)) = 0"
proof -
  define pre post where "pre = [first_byte h, ih_tos h] @ be_bytes (ih_len h) @ be_bytes (ih_id h)
      @ be_bytes (fo_val h) @ [ih_ttl h, ih_proto h]"
    and "post = be_bytes (ih_src h) @ be_bytes (ih_dst h) @ replicate (4 * unat (ih_hlen h) - 20) 0"
  note split = ip_header_bytes_cksum [where h = h, folded pre_def post_def]
  have "even (length pre)" by (simp add: pre_def)
  moreover have "length (pre @ post) \<le> 60"
    using length_ip_header_bytes [of "h\<lparr>ih_cksum := 0\<rparr>"] assms by (simp add: split) (simp add: ip_header_ok_def)
  then have "bsum False (pre @ post) + 65535 < W32" by (rule short_sum_fits)
  with \<open>even (length pre)\<close> have "bsum False pre + bsum False post + 65535 < W32" by (simp add: bsum_append)
  ultimately show ?thesis
    unfolding ip_sealed_def split
    by (intro filled_checksum_verifies) (simp_all add: InternetChecksum_new_def split)
qed

section \<open>Properties\<close>

text \<open>
  C24: an Internet datagram whose length field is right is serialized, and parsed back with the same
  header (up to the checksum that was filled in) and payload.
\<close>

theorem ipv4_datagram_roundtrip:
  assumes "datagram_ok d"
  shows "\<exists>bl cksum pl. IPv4Datagram_serialize d = Inr bl
    \<and> IPv4Datagram_parse (Buffer_of_string (BufferList_concatenate bl)) self
        = (NoError, \<lparr>id_header = (id_header d)\<lparr>ih_cksum := cksum\<rparr>, id_payload = [pl]\<rparr>)
    \<and> Buffer_str pl = BufferList_concatenate (id_payload d)"
proof -
  have ser: "IPv4Datagram_serialize d = Inr (Buffer_of_string (ip_header_bytes (ip_sealed (id_header d))) # id_payload d)"
    by (rule IPv4Datagram_serialize_eq [OF assms])
  have cat: "BufferList_concatenate (Buffer_of_string (ip_header_bytes (ip_sealed (id_header d))) # id_payload d)
      = datagram_bytes d"
    by (simp add: datagram_bytes_def)
  have "Buffer_ok (Buffer_of_string (datagram_bytes d))"
    using length_datagram_bytes [OF assms] unat_u16_lt [of "ih_len (id_header d)"]
    by (intro Buffer_ok_of_string) linarith
  from datagram_parse_serialized [OF assms this] ser cat show ?thesis by (fastforce simp: ip_sealed_def)
qed

definition demo_datagram :: IPv4Datagram where
  "demo_datagram =
     \<lparr>id_header = IPv4Header_new\<lparr>ih_len := 23, ih_src := 0x0a000001, ih_dst := 0x0a000002\<rparr>,
      id_payload = [Buffer_of_string [1, 2, 3]]\<rparr>"

lemma demo_datagram_ok: "datagram_ok demo_datagram"
  by (simp add: datagram_ok_def ip_header_ok_def demo_datagram_def IPv4Header_new_def IPv4Header_LENGTH_def)

theorem ipv4_datagram_roundtrip_witness:
  "\<exists>bl cksum pl. IPv4Datagram_serialize demo_datagram = Inr bl
    \<and> IPv4Datagram_parse (Buffer_of_string (BufferList_concatenate bl)) IPv4Datagram_new
        = (NoError, \<lparr>id_header = (id_header demo_datagram)\<lparr>ih_cksum := cksum\<rparr>, id_payload = [pl]\<rparr>)
    \<and> Buffer_str pl = [1, 2, 3]"
  using ipv4_datagram_roundtrip [OF demo_datagram_ok, of IPv4Datagram_new] by (simp add: demo_datagram_def)

lemma damaged_datagram_bytes:
  assumes "datagram_ok d" "0 < i" "i < 4 * unat (ih_hlen (id_header d))" "x \<noteq> datagram_bytes d ! i"
  shows "fst (IPv4Header_parse (NetParser_new (Buffer_of_string (datagram_bytes d))) self) = NoError
    \<and> fst (IPv4Header_parse (NetParser_new (Buffer_of_string ((datagram_bytes d)[i := x]))) self) \<noteq> NoError"
proof -
  let ?bs = "datagram_bytes d" and ?n = "4 * unat (ih_hlen (id_header d))" and ?c = "InternetChecksum_new 0"
  have len: "length ?bs < W64" "?n \<le> length ?bs" "?n \<le> 60" "20 \<le> length ?bs"
    using length_datagram_bytes [OF assms(1)] unat_u16_lt [of "ih_len (id_header d)"] assms(1) datagram_regular(2) [OF assms(1)]
    by (auto simp: datagram_ok_def ip_header_ok_def)
  have hd: "take ?n ?bs = ip_header_bytes (ip_sealed (id_header d))"
    using assms(1) by (simp add: datagram_bytes_def datagram_ok_def length_ip_header_bytes)
  have zero: "InternetChecksum_value (InternetChecksum_add (take ?n ?bs) ?c) = 0"
    unfolding hd using assms(1) by (intro ip_checksum_zero) (simp add: datagram_ok_def)
  have "fst (IPv4Header_parse (NetParser_new (Buffer_of_string ?bs)) self) = NoError"
    using IPv4Header_parse_any [OF np_at_new [OF len(1)] len(4), of self] datagram_regular(1) [OF assms(1)] zero
    by (auto simp: datagram_fields [OF assms(1)])
  moreover have "fst (IPv4Header_parse (NetParser_new (Buffer_of_string (?bs[i := x]))) self) \<noteq> NoError"
  proof
    let ?bs' = "?bs[i := x]"
    assume "fst (IPv4Header_parse (NetParser_new (Buffer_of_string ?bs')) self) = NoError"
    moreover have "length ?bs' < W64" "20 \<le> length ?bs'" using len by simp_all
    ultimately have r: "ip_regular ?bs'"
        "InternetChecksum_value (InternetChecksum_add (take (4 * unat (ih_hlen (ip_fields ?bs'))) ?bs') ?c) = 0"
      using IPv4Header_parse_any [OF np_at_new, of ?bs' self] by auto
    have hl: "ih_hlen (ip_fields ?bs') = ih_hlen (id_header d)"
      using assms(2) datagram_fields [OF assms(1)] by (auto simp: ip_fields_def Let_def dest: arg_cong [where f = ih_hlen])
    let ?pre = "take i (take ?n ?bs)" and ?post = "drop (Suc i) (take ?n ?bs)"
    have il: "i < length (take ?n ?bs)" using assms(3) len(2) by simp
    have sp: "take ?n ?bs = ?pre @ ?bs ! i # ?post"
      using id_take_nth_drop [OF il] by (simp only: nth_take [OF assms(3)])
    have sp': "take ?n ?bs' = ?pre @ x # ?post"
      using upd_conv_take_nth_drop [OF il, of x] by (simp only: take_update_swap)
    have fit: "unat (ck_sum ?c) + bsum (ck_parity ?c) (?pre @ y # ?post) < W32" for y
    proof -
      have "length (?pre @ y # ?post) \<le> 60" using len(2,3) assms(3) by simp
      from short_sum_fits [OF this] show ?thesis by (simp add: InternetChecksum_new_def)
    qed
    have "InternetChecksum_value (InternetChecksum_add (?pre @ x # ?post) ?c) \<noteq> 0"
    proof (rule corrupted_byte_detected)
      show "InternetChecksum_value (InternetChecksum_add (?pre @ ?bs ! i # ?post) ?c) = 0"
        using zero by (simp only: sp [symmetric])
      show "?bs ! i \<noteq> x" using assms(4) by blast
    qed (rule fit)+
    then show False using r(2) by (simp only: hl sp')
  qed
  ultimately show ?thesis by blast
qed

text \<open>
  C25: the header's own parser detects damage. A well-formed datagram is serialized with a header that
  \<open>IPv4Header::parse\<close> accepts, and after any change of any one byte of that header behind the first (which
  holds the version and the header length) it does not return \<open>NoError\<close>.
\<close>

theorem damaged_ip_header_detected:
  assumes "datagram_ok d"
  shows "\<exists>bl. IPv4Datagram_serialize d = Inr bl
    \<and> fst (IPv4Header_parse (NetParser_new (Buffer_of_string (BufferList_concatenate bl))) self) = NoError
    \<and> (\<forall>i x. 0 < i \<and> i < 4 * unat (ih_hlen (id_header d)) \<and> x \<noteq> BufferList_concatenate bl ! i \<longrightarrow>
         fst (IPv4Header_parse (NetParser_new (Buffer_of_string ((BufferList_concatenate bl)[i := x]))) self) \<noteq> NoError)"
proof -
  have cat: "BufferList_concatenate (Buffer_of_string (ip_header_bytes (ip_sealed (id_header d))) # id_payload d) = datagram_bytes d"
    by (simp add: datagram_bytes_def)
  have "1 < 4 * unat (ih_hlen (id_header d))" using assms by (simp add: datagram_ok_def ip_header_ok_def)
  then have "fst (IPv4Header_parse (NetParser_new (Buffer_of_string (datagram_bytes d))) self) = NoError"
    using damaged_datagram_bytes [OF assms, of 1 "datagram_bytes d ! 1 + 1" self] by simp
  then show ?thesis
    using IPv4Datagram_serialize_eq [OF assms] damaged_datagram_bytes [OF assms] unfolding cat [symmetric] by blast
qed

theorem damaged_ip_header_detected_witness:
  "\<exists>bl. IPv4Datagram_serialize demo_datagram = Inr bl
    \<and> fst (IPv4Header_parse (NetParser_new (Buffer_of_string ((BufferList_concatenate bl)[12 := 11]))) IPv4Header_new) \<noteq> NoError"
proof -
  obtain bl where bl: "IPv4Datagram_serialize demo_datagram = Inr bl"
      "\<And>i x. 0 < i \<and> i < 4 * unat (ih_hlen (id_header demo_datagram)) \<and> x \<noteq> BufferList_concatenate bl ! i \<Longrightarrow>
         fst (IPv4Header_parse (NetParser_new (Buffer_of_string ((BufferList_concatenate bl)[i := x]))) IPv4Header_new) \<noteq> NoError"
    using damaged_ip_header_detected [OF demo_datagram_ok, of IPv4Header_new] by blast
  have "BufferList_concatenate bl = datagram_bytes demo_datagram"
    using bl(1) IPv4Datagram_serialize_eq [OF demo_datagram_ok] by (auto simp: datagram_bytes_def)
  moreover have "datagram_bytes demo_datagram ! 12 = 10" "12 < 4 * unat (ih_hlen (id_header demo_datagram))" by code_simp+
  ultimately show ?thesis using bl(1) bl(2) [of 12 11] by auto
qed

text \<open>
  C40: what \<open>IPv4Datagram::parse\<close> accepts. From twenty bytes on it looks at the length only: they are
  accepted exactly if what follows the header is as long as the header says, whatever the checksum, the
  version or the declared header length. Fewer bytes are no header: the object keeps the one it had,
  and they are accepted exactly if that one announces a payload of their length.
\<close>

theorem ipv4_datagram_accepted_iff:
  assumes "length bs < W64"
  shows "let short = length bs < 20;
             header = (if short then id_header self else ip_fields bs);
             start = (if short then 0 else ip_header_end bs);
             (result, d) = IPv4Datagram_parse (Buffer_of_string bs) self
         in (result = NoError \<longleftrightarrow> length bs - start = unat (IPv4Header_payload_length header))
            \<and> id_header d = header \<and> BufferList_concatenate (id_payload d) = drop start bs"
proof -
  let ?short = "length bs < 20"
  define header start where "header = (if ?short then id_header self else ip_fields bs)"
    and "start = (if ?short then 0 else ip_header_end bs)"
  obtain r p' where p: "IPv4Header_parse (NetParser_new (Buffer_of_string bs)) (id_header self) = (r, header, p')"
      "np_at p' (drop start bs)"
  proof (cases ?short)
    case True
    then have "Buffer_size (np_buffer (NetParser_new (Buffer_of_string bs))) < IPv4Header_LENGTH"
      using assms by (simp add: NetParser_new_def Buffer_size_def IPv4Header_LENGTH_def word_less_nat_alt unat_ssize)
    then show ?thesis
      using that True np_at_new [OF assms] by (simp add: IPv4Header_parse_def Let_def header_def start_def)
  next
    case False
    then show ?thesis
      using that IPv4Header_parse_any [OF np_at_new [OF assms], of "id_header self"] by (auto simp: header_def start_def)
  qed
  have "length bs - start < W64" using assms by simp
  then have "BufferList_size [np_buffer p'] = ucast (IPv4Header_payload_length header)
      \<longleftrightarrow> length bs - start = unat (IPv4Header_payload_length header)"
    using p(2) by (simp add: word_unat_eq_iff BufferList_size_eq np_at_def unat_ssize unat_ucast_up)
  with p show ?thesis
    unfolding header_def [symmetric] start_def [symmetric] Let_def by (auto simp: IPv4Datagram_parse_def np_at_def)
qed

text \<open>The address of the example damaged on the way, and a datagram of version 5.\<close>

theorem ipv4_datagram_accepted_iff_witness:
  "fst (IPv4Datagram_parse (Buffer_of_string ((datagram_bytes demo_datagram)[12 := 11])) IPv4Datagram_new) = NoError
   \<and> fst (IPv4Datagram_parse (Buffer_of_string ((datagram_bytes demo_datagram)[0 := 0x55])) IPv4Datagram_new) = NoError
   \<and> fst (IPv4Datagram_parse (Buffer_of_string [1, 2, 3]) demo_datagram) = NoError"
proof -
  have "length (datagram_bytes demo_datagram) = 23"
    using length_datagram_bytes [OF demo_datagram_ok] by (simp add: demo_datagram_def)
  moreover have "ip_header_end ((datagram_bytes demo_datagram)[12 := 11]) = 20"
    "unat (IPv4Header_payload_length (ip_fields ((datagram_bytes demo_datagram)[12 := 11]))) = 3"
    "ip_header_end ((datagram_bytes demo_datagram)[0 := 0x55]) = 20"
    "unat (IPv4Header_payload_length (ip_fields ((datagram_bytes demo_datagram)[0 := 0x55]))) = 3"
    "unat (IPv4Header_payload_length (id_header demo_datagram)) = 3"
    by code_simp+
  ultimately show ?thesis
    using ipv4_datagram_accepted_iff [of "(datagram_bytes demo_datagram)[12 := 11]" IPv4Datagram_new]
      ipv4_datagram_accepted_iff [of "(datagram_bytes demo_datagram)[0 := 0x55]" IPv4Datagram_new]
      ipv4_datagram_accepted_iff [of "[1, 2, 3]" demo_datagram]
    by (simp add: Let_def split: prod.splits)
qed

text \<open>The pseudo-header sum stays far below the width of the checksum accumulator.\<close>

lemma half_words: "unat (drop_bit 16 x) < 65536" "unat (x AND 0xffff) < 65536" for x :: u32
proof -
  have "x AND 0xffff = take_bit 16 x" by (simp add: take_bit_eq_mask mask_eq_exp_minus_1)
  then show "unat (x AND 0xffff) < 65536" by (simp add: unsigned_take_bit_eq) (simp add: take_bit_eq_mod)
  show "unat (drop_bit 16 x) < 65536" using unat_u32_lt [of x] by (simp add: unat_drop_bit less_mult_imp_div_less)
qed

lemma pseudo_cksum_bound: "unat (IPv4Header_pseudo_cksum h) < 2 ^ 30"
proof -
  have add: "unat (a + b) \<le> unat a + unat b" for a b :: u32 by (simp add: unat_word_ariths)
  have "unat (IPv4Header_pseudo_cksum h) \<le> unat (drop_bit 16 (ih_src h)) + unat (ih_src h AND 0xffff)
      + (unat (drop_bit 16 (ih_dst h)) + unat (ih_dst h AND 0xffff)) + unat (ucast (ih_proto h) :: u32)
      + unat (ucast (IPv4Header_payload_length h) :: u32)"
    unfolding IPv4Header_pseudo_cksum_def Let_def by (intro order_trans [OF add] add_mono order_refl)
  then show ?thesis
    using half_words [of "ih_src h"] half_words [of "ih_dst h"] unat_u8_lt [of "ih_proto h"]
      unat_u16_lt [of "IPv4Header_payload_length h"]
    by (simp add: unat_ucast_up)
qed

end
