(* ===== verification/Network_Interface.thy ===== *)
theory Network_Interface
  imports Address Arp Ipv4
begin

text \<open>
  \<open>libsponge/network_interface.{hh,cc}\<close>: the interface between Internet datagrams and Ethernet frames,
  with its ARP table, the requests it waits for and the datagrams that wait for an answer. The ARP
  table is a map; the pending requests are a list of pairs, in the order in which the loop of \<open>tick\<close>
  visits them (the source leaves that order to \<open>std::unordered_map\<close>). An exception is \<open>Inl\<close>; the
  state it leaves behind is not modelled. What the constructor prints is left out.
\<close>

section \<open>Model\<close>

record ARP_Entry =
  ae_eth_addr :: EthernetAddress
  ae_ttl :: u64

record NetworkInterface =
  ni_ethernet_address :: EthernetAddress
  ni_ip_address :: Address
  ni_frames_out :: "EthernetFrame list"
  ni_arp_table :: "u32 \<rightharpoonup> ARP_Entry"
  ni_waiting_arp_response_ip_addr :: "(u32 \<times> u64) list"
  ni_waiting_arp_internet_datagrams :: "(Address \<times> InternetDatagram) list"

definition arp_entry_default_ttl :: u64 where "arp_entry_default_ttl = 30 * 1000"
definition arp_response_default_ttl :: u64 where "arp_response_default_ttl = 5 * 1000"

definition NetworkInterface_new :: "EthernetAddress \<Rightarrow> Address \<Rightarrow> NetworkInterface" where
  "NetworkInterface_new ethernet_address ip_address =
     \<lparr>ni_ethernet_address = ethernet_address, ni_ip_address = ip_address, ni_frames_out = [],
      ni_arp_table = (\<lambda>_. None), ni_waiting_arp_response_ip_addr = [], ni_waiting_arp_internet_datagrams = []\<rparr>"

text \<open>The ARP request for \<open>ip\<close> in its broadcast frame, which \<open>send_datagram\<close> and \<open>tick\<close> both build.\<close>

definition NetworkInterface_arp_request :: "u32 \<Rightarrow> NetworkInterface \<Rightarrow> EthernetFrame res" where
  "NetworkInterface_arp_request ip ni =
     (case Address_ipv4_numeric (ni_ip_address ni) of
        Inl e \<Rightarrow> Inl e
      | Inr own_ip \<Rightarrow>
          let arp_request = ARPMessage_new\<lparr>am_opcode := ARPMessage_OPCODE_REQUEST,
                am_sender_ethernet_address := ni_ethernet_address ni, am_sender_ip_address := own_ip,
                am_target_ethernet_address := replicate 6 0, am_target_ip_address := ip\<rparr>;
              header = \<lparr>eh_dst = ETHERNET_BROADCAST, eh_src = ni_ethernet_address ni, eh_type = EthernetHeader_TYPE_ARP\<rparr>
          in case ARPMessage_serialize arp_request of
               Inl e \<Rightarrow> Inl e
             | Inr bs \<Rightarrow> Inr \<lparr>ef_header = header, ef_payload = BufferList_of_string bs\<rparr>)"

definition NetworkInterface_send_datagram ::
    "InternetDatagram \<Rightarrow> Address \<Rightarrow> NetworkInterface \<Rightarrow> NetworkInterface res" where
  "NetworkInterface_send_datagram dgram next_hop ni =
     (case Address_ipv4_numeric next_hop of
        Inl e \<Rightarrow> Inl e
      | Inr next_hop_ip \<Rightarrow>
          (case ni_arp_table ni next_hop_ip of
             None \<Rightarrow>
               let queue = (\<lambda>ni. ni\<lparr>ni_waiting_arp_internet_datagrams :=
                     ni_waiting_arp_internet_datagrams ni @ [(next_hop, dgram)]\<rparr>)
               in if map_of (ni_waiting_arp_response_ip_addr ni) next_hop_ip = None
                  then (case NetworkInterface_arp_request next_hop_ip ni of
                          Inl e \<Rightarrow> Inl e
                        | Inr eth_frame \<Rightarrow>
                            Inr (queue (ni\<lparr>ni_frames_out := ni_frames_out ni @ [eth_frame],
                              ni_waiting_arp_response_ip_addr :=
                                ni_waiting_arp_response_ip_addr ni @ [(next_hop_ip, arp_response_default_ttl)]\<rparr>)))
                  else Inr (queue ni)
           | Some entry \<Rightarrow>
               let header = \<lparr>eh_dst = ae_eth_addr entry, eh_src = ni_ethernet_address ni,
                     eh_type = EthernetHeader_TYPE_IPv4\<rparr>
               in (case IPv4Datagram_serialize dgram of
                     Inl e \<Rightarrow> Inl e
                   | Inr payload \<Rightarrow>
                       Inr (ni\<lparr>ni_frames_out := ni_frames_out ni @ [\<lparr>ef_header = header, ef_payload = payload\<rparr>]\<rparr>))))"

text \<open>
  The loop of \<open>recv_frame\<close> over the waiting datagrams: \<open>kept\<close> is what it has passed and not erased.
  \<open>send_datagram\<close> finds the entry just learned and does not touch the list.
\<close>

primrec NetworkInterface_flush ::
    "u32 \<Rightarrow> (Address \<times> InternetDatagram) list \<Rightarrow> (Address \<times> InternetDatagram) list \<Rightarrow> NetworkInterface \<Rightarrow>
     NetworkInterface res" where
  "NetworkInterface_flush src_ip_addr [] kept ni = Inr (ni\<lparr>ni_waiting_arp_internet_datagrams := kept\<rparr>)"
| "NetworkInterface_flush src_ip_addr (x # rest) kept ni =
     (case Address_ipv4_numeric (fst x) of
        Inl e \<Rightarrow> Inl e
      | Inr ip \<Rightarrow>
          if ip = src_ip_addr
          then (case NetworkInterface_send_datagram (snd x) (fst x) ni of
                  Inl e \<Rightarrow> Inl e
                | Inr ni \<Rightarrow> NetworkInterface_flush src_ip_addr rest kept ni)
          else NetworkInterface_flush src_ip_addr rest (kept @ [x]) ni)"

definition NetworkInterface_arp_reply :: "ARPMessage \<Rightarrow> NetworkInterface \<Rightarrow> EthernetFrame res" where
  "NetworkInterface_arp_reply arp_msg ni =
     (case Address_ipv4_numeric (ni_ip_address ni) of
        Inl e \<Rightarrow> Inl e
      | Inr own_ip \<Rightarrow>
          let arp_reply = ARPMessage_new\<lparr>am_opcode := ARPMessage_OPCODE_REPLY,
                am_sender_ethernet_address := ni_ethernet_address ni,
                am_target_ethernet_address := am_sender_ethernet_address arp_msg, am_sender_ip_address := own_ip,
                am_target_ip_address := am_sender_ip_address arp_msg\<rparr>;
              header = \<lparr>eh_dst = am_sender_ethernet_address arp_msg, eh_src = ni_ethernet_address ni,
                eh_type = EthernetHeader_TYPE_ARP\<rparr>
          in case ARPMessage_serialize arp_reply of
               Inl e \<Rightarrow> Inl e
             | Inr bs \<Rightarrow> Inr \<lparr>ef_header = header, ef_payload = BufferList_of_string bs\<rparr>)"

text \<open>\<open>recv_frame\<close> behind the parsing of an ARP message; the own address is read for requests only.\<close>

definition NetworkInterface_recv_arp :: "ARPMessage \<Rightarrow> NetworkInterface \<Rightarrow> NetworkInterface res" where
  "NetworkInterface_recv_arp arp_msg ni =
     (let src_ip_addr = am_sender_ip_address arp_msg;
          src_eth_addr = am_sender_ethernet_address arp_msg
      in case (if am_opcode arp_msg = ARPMessage_OPCODE_REQUEST
               then map_sum id (\<lambda>own_ip. am_target_ip_address arp_msg = own_ip) (Address_ipv4_numeric (ni_ip_address ni))
               else Inr False) of
           Inl e \<Rightarrow> Inl e
         | Inr is_valid_arp_request \<Rightarrow>
             let is_valid_arp_reply = (am_opcode arp_msg = ARPMessage_OPCODE_REPLY
                   \<and> am_target_ethernet_address arp_msg = ni_ethernet_address ni)
             in case (if is_valid_arp_request
                      then (case NetworkInterface_arp_reply arp_msg ni of
                              Inl e \<Rightarrow> Inl e
                            | Inr eth_frame \<Rightarrow> Inr (ni\<lparr>ni_frames_out := ni_frames_out ni @ [eth_frame]\<rparr>))
                      else Inr ni) of
                  Inl e \<Rightarrow> Inl e
                | Inr ni \<Rightarrow>
                    if is_valid_arp_reply \<or> is_valid_arp_request
                    then let ni = ni\<lparr>ni_arp_table := (ni_arp_table ni)
                               (src_ip_addr \<mapsto> \<lparr>ae_eth_addr = src_eth_addr, ae_ttl = arp_entry_default_ttl\<rparr>)\<rparr>
                         in (case NetworkInterface_flush src_ip_addr (ni_waiting_arp_internet_datagrams ni) [] ni of
                               Inl e \<Rightarrow> Inl e
                             | Inr ni \<Rightarrow>
                                 Inr (ni\<lparr>ni_waiting_arp_response_ip_addr :=
                                   filter (\<lambda>x. fst x \<noteq> src_ip_addr) (ni_waiting_arp_response_ip_addr ni)\<rparr>))
                    else Inr ni)"

definition NetworkInterface_recv_frame ::
    "EthernetFrame \<Rightarrow> NetworkInterface \<Rightarrow> (InternetDatagram option \<times> NetworkInterface) res" where
  "NetworkInterface_recv_frame frame ni =
     (let header = ef_header frame
      in if eh_dst header \<noteq> ni_ethernet_address ni \<and> eh_dst header \<noteq> ETHERNET_BROADCAST then Inr (None, ni)
         else if eh_type header = EthernetHeader_TYPE_IPv4
         then (case BufferList_Buffer (ef_payload frame) of
                 Inl e \<Rightarrow> Inl e
               | Inr buffer \<Rightarrow>
                   let (result, datagram) = IPv4Datagram_parse buffer IPv4Datagram_new
                   in if result \<noteq> NoError then Inr (None, ni) else Inr (Some datagram, ni))
         else if eh_type header = EthernetHeader_TYPE_ARP
         then (case BufferList_Buffer (ef_payload frame) of
                 Inl e \<Rightarrow> Inl e
               | Inr buffer \<Rightarrow>
                   let (result, arp_msg) = ARPMessage_parse buffer ARPMessage_new
                   in if result \<noteq> NoError then Inr (None, ni)
                      else (case NetworkInterface_recv_arp arp_msg ni of Inl e \<Rightarrow> Inl e | Inr ni \<Rightarrow> Inr (None, ni)))
         else Inr (None, ni))"

text \<open>The first loop of \<open>tick\<close>, over the ARP table.\<close>

definition NetworkInterface_age_table :: "u64 \<Rightarrow> (u32 \<rightharpoonup> ARP_Entry) \<Rightarrow> (u32 \<rightharpoonup> ARP_Entry)" where
  "NetworkInterface_age_table ms table =
     (\<lambda>ip. case table ip of
         None \<Rightarrow> None
       | Some entry \<Rightarrow> if ae_ttl entry \<le> ms then None else Some (entry\<lparr>ae_ttl := ae_ttl entry - ms\<rparr>))"

text \<open>
  The second loop of \<open>tick\<close>, over the pending requests: the branch that repeats a request sets the
  time to live and leaves the iterator where it is. \<open>None\<close> is a loop that does not end.
\<close>

partial_function (option) NetworkInterface_tick_requests ::
    "u64 \<Rightarrow> (u32 \<times> u64) list \<Rightarrow> (u32 \<times> u64) list \<Rightarrow> NetworkInterface \<Rightarrow> NetworkInterface res option" where
  "NetworkInterface_tick_requests ms pending passed ni =
     (case pending of
        [] \<Rightarrow> Some (Inr (ni\<lparr>ni_waiting_arp_response_ip_addr := passed\<rparr>))
      | x # rest \<Rightarrow>
          if snd x \<le> ms
          then (case NetworkInterface_arp_request (fst x) ni of
                  Inl e \<Rightarrow> Some (Inl e)
                | Inr eth_frame \<Rightarrow>
                    NetworkInterface_tick_requests ms ((fst x, arp_response_default_ttl) # rest) passed
                      (ni\<lparr>ni_frames_out := ni_frames_out ni @ [eth_frame]\<rparr>))
          else NetworkInterface_tick_requests ms rest (passed @ [(fst x, snd x - ms)]) ni)"

definition NetworkInterface_tick :: "u64 \<Rightarrow> NetworkInterface \<Rightarrow> NetworkInterface res option" where
  "NetworkInterface_tick ms_since_last_tick ni =
     (let ni = ni\<lparr>ni_arp_table := NetworkInterface_age_table ms_since_last_tick (ni_arp_table ni)\<rparr>
      in NetworkInterface_tick_requests ms_since_last_tick (ni_waiting_arp_response_ip_addr ni) [] ni)"

section \<open>The invariant\<close>

text \<open>
  The interface has proper addresses, its table holds Ethernet addresses, and every datagram that
  waits can be serialized, has no entry in the table and a request on the way; no address is asked
  for twice.
\<close>

definition ni_waits :: "NetworkInterface \<Rightarrow> Address \<times> InternetDatagram \<Rightarrow> bool" where
  "ni_waits ni x = (datagram_ok (snd x) \<and> (\<exists>ip. Address_ipv4_numeric (fst x) = Inr ip
     \<and> ni_arp_table ni ip = None \<and> ip \<in> fst ` set (ni_waiting_arp_response_ip_addr ni)))"

definition ni_ok :: "NetworkInterface \<Rightarrow> bool" where
  "ni_ok ni =
     (eth_addr (ni_ethernet_address ni) \<and> (\<exists>own. Address_ipv4_numeric (ni_ip_address ni) = Inr own)
      \<and> (\<forall>ip entry. ni_arp_table ni ip = Some entry \<longrightarrow> eth_addr (ae_eth_addr entry))
      \<and> (\<forall>x \<in> set (ni_waiting_arp_internet_datagrams ni). ni_waits ni x)
      \<and> distinct (map fst (ni_waiting_arp_response_ip_addr ni))
      \<and> (\<forall>x \<in> set (ni_waiting_arp_response_ip_addr ni). snd x \<le> arp_response_default_ttl))"

lemma ni_ok_new:
  "eth_addr ea \<Longrightarrow> Address_ipv4_numeric a = Inr own \<Longrightarrow> ni_ok (NetworkInterface_new ea a)"
  by (simp add: ni_ok_def NetworkInterface_new_def)

definition request_frame :: "EthernetAddress \<Rightarrow> u32 \<Rightarrow> u32 \<Rightarrow> EthernetFrame" where
  "request_frame ea own ip =
     \<lparr>ef_header = \<lparr>eh_dst = ETHERNET_BROADCAST, eh_src = ea, eh_type = EthernetHeader_TYPE_ARP\<rparr>,
      ef_payload = [Buffer_of_string (arp_bytes (ARPMessage_new\<lparr>am_opcode := ARPMessage_OPCODE_REQUEST,
        am_sender_ethernet_address := ea, am_sender_ip_address := own,
        am_target_ethernet_address := replicate 6 0, am_target_ip_address := ip\<rparr>))]\<rparr>"

lemma arp_request_eq:
  "Address_ipv4_numeric (ni_ip_address ni) = Inr own \<Longrightarrow>
   NetworkInterface_arp_request ip ni = Inr (request_frame (ni_ethernet_address ni) own ip)"
  by (simp add: NetworkInterface_arp_request_def ARPMessage_serialize_eq ARPMessage_supported_def ARPMessage_new_def
      request_frame_def BufferList_of_string_def)

definition datagram_frame :: "EthernetAddress \<Rightarrow> EthernetAddress \<Rightarrow> InternetDatagram \<Rightarrow> EthernetFrame" where
  "datagram_frame ea dst d =
     \<lparr>ef_header = \<lparr>eh_dst = dst, eh_src = ea, eh_type = EthernetHeader_TYPE_IPv4\<rparr>,
      ef_payload = Buffer_of_string (ip_header_bytes (ip_sealed (id_header d))) # id_payload d\<rparr>"

lemma send_datagram_cases:
  assumes "Address_ipv4_numeric (ni_ip_address ni) = Inr own" "datagram_ok d" "Address_ipv4_numeric hop = Inr ip"
  shows "NetworkInterface_send_datagram d hop ni = Inr
    (case ni_arp_table ni ip of
       Some entry \<Rightarrow> ni\<lparr>ni_frames_out := ni_frames_out ni @ [datagram_frame (ni_ethernet_address ni) (ae_eth_addr entry) d]\<rparr>
     | None \<Rightarrow>
         (if ip \<in> fst ` set (ni_waiting_arp_response_ip_addr ni)
          then ni\<lparr>ni_waiting_arp_internet_datagrams := ni_waiting_arp_internet_datagrams ni @ [(hop, d)]\<rparr>
          else ni\<lparr>ni_frames_out := ni_frames_out ni @ [request_frame (ni_ethernet_address ni) own ip],
                  ni_waiting_arp_response_ip_addr := ni_waiting_arp_response_ip_addr ni @ [(ip, arp_response_default_ttl)],
                  ni_waiting_arp_internet_datagrams := ni_waiting_arp_internet_datagrams ni @ [(hop, d)]\<rparr>))"
  using assms
  by (auto simp: NetworkInterface_send_datagram_def Let_def arp_request_eq IPv4Datagram_serialize_eq datagram_frame_def
      map_of_eq_None_iff split: option.split)

lemma ni_ok_step:
  assumes "ni_ok ni" "ni_ethernet_address ni' = ni_ethernet_address ni" "ni_ip_address ni' = ni_ip_address ni"
    and table: "ni_arp_table ni' = ni_arp_table ni"
    and req: "fst ` set (ni_waiting_arp_response_ip_addr ni) \<subseteq> fst ` set (ni_waiting_arp_response_ip_addr ni')"
    and "distinct (map fst (ni_waiting_arp_response_ip_addr ni'))"
    and "\<forall>x \<in> set (ni_waiting_arp_response_ip_addr ni'). snd x \<le> arp_response_default_ttl"
    and dat: "set (ni_waiting_arp_internet_datagrams ni') \<subseteq> set (ni_waiting_arp_internet_datagrams ni) \<union> {x. ni_waits ni' x}"
  shows "ni_ok ni'"
proof -
  have "ni_waits ni' x" if "x \<in> set (ni_waiting_arp_internet_datagrams ni')" for x
  proof (cases "x \<in> set (ni_waiting_arp_internet_datagrams ni)")
    case True
    then have "ni_waits ni x" using assms(1) by (simp add: ni_ok_def)
    then show ?thesis unfolding ni_waits_def table using req by blast
  next
    case False
    then show ?thesis using that dat by blast
  qed
  then show ?thesis using assms by (simp add: ni_ok_def)
qed

lemma send_datagram_ok:
  assumes "ni_ok ni" "datagram_ok d" "Address_ipv4_numeric hop = Inr ip"
  shows "\<exists>ni'. NetworkInterface_send_datagram d hop ni = Inr ni' \<and> ni_ok ni'"
proof -
  obtain own where own: "Address_ipv4_numeric (ni_ip_address ni) = Inr own" using assms(1) by (auto simp: ni_ok_def)
  note C = send_datagram_cases [OF own assms(2,3)]
  have ttl: "\<forall>x \<in> set (ni_waiting_arp_response_ip_addr ni). snd x \<le> arp_response_default_ttl"
    "distinct (map fst (ni_waiting_arp_response_ip_addr ni))"
    using assms(1) by (simp_all add: ni_ok_def)
  show ?thesis
  proof (cases "ni_arp_table ni ip")
    case (Some entry)
    then show ?thesis unfolding C using ttl by (simp, intro ni_ok_step [OF assms(1)]) simp_all
  next
    case None
    show ?thesis
    proof (cases "ip \<in> fst ` set (ni_waiting_arp_response_ip_addr ni)")
      case True
      let ?n = "ni\<lparr>ni_waiting_arp_internet_datagrams := ni_waiting_arp_internet_datagrams ni @ [(hop, d)]\<rparr>"
      have "ni_waits ?n (hop, d)" using True None assms(2,3) by (simp add: ni_waits_def)
      then have "ni_ok ?n" using ttl by (intro ni_ok_step [OF assms(1)]) simp_all
      with True None show ?thesis unfolding C by simp
    next
      case False
      then show ?thesis unfolding C using None ttl assms(2,3)
        by (simp, intro ni_ok_step [OF assms(1)]) (auto simp: ni_waits_def)
    qed
  qed
qed

lemma flush_ok:
  assumes own: "Address_ipv4_numeric (ni_ip_address ni) = Inr own" and entry: "ni_arp_table ni ip = Some entry"
    and w: "\<forall>x \<in> set w. datagram_ok (snd x) \<and> (\<exists>k. Address_ipv4_numeric (fst x) = Inr k)"
  shows "NetworkInterface_flush ip w kept ni = Inr
    (ni\<lparr>ni_frames_out := ni_frames_out ni
           @ map (\<lambda>x. datagram_frame (ni_ethernet_address ni) (ae_eth_addr entry) (snd x))
               (filter (\<lambda>x. Address_ipv4_numeric (fst x) = Inr ip) w),
        ni_waiting_arp_internet_datagrams := kept @ filter (\<lambda>x. Address_ipv4_numeric (fst x) \<noteq> Inr ip) w\<rparr>)"
  using assms
proof (induction w arbitrary: kept ni)
  case (Cons x w)
  obtain k where k: "Address_ipv4_numeric (fst x) = Inr k" "datagram_ok (snd x)" using Cons.prems(3) by auto
  show ?case
  proof (cases "k = ip")
    case True
    define n1 where "n1 = ni\<lparr>ni_frames_out := ni_frames_out ni
      @ [datagram_frame (ni_ethernet_address ni) (ae_eth_addr entry) (snd x)]\<rparr>"
    have "NetworkInterface_send_datagram (snd x) (fst x) ni = Inr n1"
      using send_datagram_cases [OF Cons.prems(1) k(2,1)] Cons.prems(2) True by (simp add: n1_def)
    moreover have "NetworkInterface_flush ip w kept n1 = Inr
      (n1\<lparr>ni_frames_out := ni_frames_out n1
           @ map (\<lambda>x. datagram_frame (ni_ethernet_address n1) (ae_eth_addr entry) (snd x))
               (filter (\<lambda>x. Address_ipv4_numeric (fst x) = Inr ip) w),
        ni_waiting_arp_internet_datagrams := kept @ filter (\<lambda>x. Address_ipv4_numeric (fst x) \<noteq> Inr ip) w\<rparr>)"
      using Cons.prems by (intro Cons.IH) (simp_all add: n1_def)
    ultimately show ?thesis using True k by (simp add: n1_def)
  next
    case False
    with Cons.IH [OF Cons.prems(1,2), of "kept @ [x]"] Cons.prems(3) k show ?thesis by simp
  qed
qed simp

text \<open>What an ARP message does that is for this interface: learn, answer a request, send what waited.\<close>

definition reply_frame :: "EthernetAddress \<Rightarrow> u32 \<Rightarrow> ARPMessage \<Rightarrow> EthernetFrame" where
  "reply_frame ea own m =
     \<lparr>ef_header = \<lparr>eh_dst = am_sender_ethernet_address m, eh_src = ea, eh_type = EthernetHeader_TYPE_ARP\<rparr>,
      ef_payload = [Buffer_of_string (arp_bytes (ARPMessage_new\<lparr>am_opcode := ARPMessage_OPCODE_REPLY,
        am_sender_ethernet_address := ea, am_target_ethernet_address := am_sender_ethernet_address m,
        am_sender_ip_address := own, am_target_ip_address := am_sender_ip_address m\<rparr>))]\<rparr>"

definition arp_for :: "u32 \<Rightarrow> ARPMessage \<Rightarrow> NetworkInterface \<Rightarrow> bool" where
  "arp_for own m ni =
     (am_opcode m = ARPMessage_OPCODE_REQUEST \<and> am_target_ip_address m = own
      \<or> am_opcode m = ARPMessage_OPCODE_REPLY \<and> am_target_ethernet_address m = ni_ethernet_address ni)"

definition ni_learned :: "u32 \<Rightarrow> ARPMessage \<Rightarrow> NetworkInterface \<Rightarrow> NetworkInterface" where
  "ni_learned own m ni =
     (let ip = am_sender_ip_address m; ea = am_sender_ethernet_address m
      in ni\<lparr>ni_frames_out := ni_frames_out ni
              @ (if am_opcode m = ARPMessage_OPCODE_REQUEST then [reply_frame (ni_ethernet_address ni) own m] else [])
              @ map (\<lambda>x. datagram_frame (ni_ethernet_address ni) ea (snd x))
                  (filter (\<lambda>x. Address_ipv4_numeric (fst x) = Inr ip) (ni_waiting_arp_internet_datagrams ni)),
           ni_arp_table := (ni_arp_table ni)(ip \<mapsto> \<lparr>ae_eth_addr = ea, ae_ttl = arp_entry_default_ttl\<rparr>),
           ni_waiting_arp_response_ip_addr := filter (\<lambda>x. fst x \<noteq> ip) (ni_waiting_arp_response_ip_addr ni),
           ni_waiting_arp_internet_datagrams :=
             filter (\<lambda>x. Address_ipv4_numeric (fst x) \<noteq> Inr ip) (ni_waiting_arp_internet_datagrams ni)\<rparr>)"

lemma arp_opcodes: "ARPMessage_OPCODE_REPLY \<noteq> ARPMessage_OPCODE_REQUEST"
  by (simp add: ARPMessage_OPCODE_REPLY_def ARPMessage_OPCODE_REQUEST_def)

lemma arp_reply_eq:
  "Address_ipv4_numeric (ni_ip_address ni) = Inr own \<Longrightarrow>
   NetworkInterface_arp_reply m ni = Inr (reply_frame (ni_ethernet_address ni) own m)"
  by (simp add: NetworkInterface_arp_reply_def ARPMessage_serialize_eq ARPMessage_supported_def ARPMessage_new_def
      reply_frame_def BufferList_of_string_def)

lemma recv_arp_eq:
  assumes "ni_ok ni" "Address_ipv4_numeric (ni_ip_address ni) = Inr own"
  shows "NetworkInterface_recv_arp m ni = Inr (if arp_for own m ni then ni_learned own m ni else ni)"
proof (cases "arp_for own m ni")
  case False
  then show ?thesis
    using assms(2) arp_opcodes by (auto simp: NetworkInterface_recv_arp_def arp_for_def Let_def)
next
  case True
  let ?ip = "am_sender_ip_address m" and ?ea = "am_sender_ethernet_address m"
  let ?req = "am_opcode m = ARPMessage_OPCODE_REQUEST"
  define n1 where "n1 = ni\<lparr>ni_frames_out := ni_frames_out ni
      @ (if ?req then [reply_frame (ni_ethernet_address ni) own m] else []),
    ni_arp_table := (ni_arp_table ni)(?ip \<mapsto> \<lparr>ae_eth_addr = ?ea, ae_ttl = arp_entry_default_ttl\<rparr>)\<rparr>"
  have w: "\<forall>x \<in> set (ni_waiting_arp_internet_datagrams ni). datagram_ok (snd x) \<and> (\<exists>k. Address_ipv4_numeric (fst x) = Inr k)"
    using assms(1) by (auto simp: ni_ok_def ni_waits_def)
  have "NetworkInterface_flush ?ip (ni_waiting_arp_internet_datagrams ni) [] n1 = Inr
    (n1\<lparr>ni_frames_out := ni_frames_out n1 @ map (\<lambda>x. datagram_frame (ni_ethernet_address n1) ?ea (snd x))
               (filter (\<lambda>x. Address_ipv4_numeric (fst x) = Inr ?ip) (ni_waiting_arp_internet_datagrams ni)),
        ni_waiting_arp_internet_datagrams :=
          [] @ filter (\<lambda>x. Address_ipv4_numeric (fst x) \<noteq> Inr ?ip) (ni_waiting_arp_internet_datagrams ni)\<rparr>)"
    using flush_ok [of n1 own ?ip "\<lparr>ae_eth_addr = ?ea, ae_ttl = arp_entry_default_ttl\<rparr>" _ "[]", OF _ _ w] assms(2)
    by (simp add: n1_def)
  then show ?thesis
    using True assms(2) arp_opcodes arp_reply_eq [OF assms(2), of m]
    by (cases ?req) (auto simp: NetworkInterface_recv_arp_def arp_for_def Let_def ni_learned_def n1_def)
qed

lemma ni_learned_ok:
  assumes "ni_ok ni" "eth_addr (am_sender_ethernet_address m)"
  shows "ni_ok (ni_learned own m ni)"
proof -
  let ?n = "ni_learned own m ni"
  have "ni_waits ?n x" if "x \<in> set (ni_waiting_arp_internet_datagrams ?n)" for x
  proof -
    have x: "x \<in> set (ni_waiting_arp_internet_datagrams ni)" "Address_ipv4_numeric (fst x) \<noteq> Inr (am_sender_ip_address m)"
      using that by (simp_all add: ni_learned_def Let_def)
    then obtain ip where ip: "Address_ipv4_numeric (fst x) = Inr ip" "datagram_ok (snd x)" "ni_arp_table ni ip = None"
        "ip \<in> fst ` set (ni_waiting_arp_response_ip_addr ni)"
      using assms(1) unfolding ni_ok_def ni_waits_def by blast
    then show ?thesis using x(2) by (force simp: ni_waits_def ni_learned_def Let_def)
  qed
  moreover have "\<forall>ip entry. ni_arp_table ?n ip = Some entry \<longrightarrow> eth_addr (ae_eth_addr entry)"
    using assms by (simp add: ni_ok_def ni_learned_def Let_def)
  ultimately show ?thesis using assms(1) by (simp add: ni_ok_def ni_learned_def Let_def distinct_map_filter)
qed

lemma ARPMessage_parse_sender: "ARPMessage_parse b self = (NoError, m) \<Longrightarrow> eth_addr (am_sender_ethernet_address m)"
  by (auto simp: ARPMessage_parse_def Let_def split_beta eth_addr_def length_parse_bytes split: if_splits)

lemma recv_frame_ok:
  assumes "ni_ok ni" "length (ef_payload f) \<le> 1"
  shows "\<exists>d ni'. NetworkInterface_recv_frame f ni = Inr (d, ni') \<and> ni_ok ni'"
proof -
  obtain own where own: "Address_ipv4_numeric (ni_ip_address ni) = Inr own" using assms(1) by (auto simp: ni_ok_def)
  obtain b where b: "BufferList_Buffer (ef_payload f) = Inr b"
    using assms(2) by (cases "ef_payload f") (auto simp: BufferList_Buffer_def)
  obtain r d where d: "IPv4Datagram_parse b IPv4Datagram_new = (r, d)" by force
  obtain q m where m: "ARPMessage_parse b ARPMessage_new = (q, m)" by force
  show ?thesis
    using assms(1) b d m recv_arp_eq [OF assms(1) own, of m] ni_learned_ok [OF assms(1), of m own]
      ARPMessage_parse_sender [of b ARPMessage_new m]
    by (cases q) (auto simp: NetworkInterface_recv_frame_def Let_def)
qed

section \<open>The clock\<close>

definition tick_frames :: "u64 \<Rightarrow> u32 \<Rightarrow> (u32 \<times> u64) list \<Rightarrow> NetworkInterface \<Rightarrow> EthernetFrame list" where
  "tick_frames ms own pending ni =
     map (\<lambda>x. request_frame (ni_ethernet_address ni) own (fst x)) (filter (\<lambda>x. snd x \<le> ms) pending)"

definition tick_ttl :: "u64 \<Rightarrow> u64 \<Rightarrow> u64" where
  "tick_ttl ms ttl = (if ttl \<le> ms then arp_response_default_ttl - ms else ttl - ms)"

lemma tick_requests_eq:
  assumes "Address_ipv4_numeric (ni_ip_address ni) = Inr own"
    and "ms < arp_response_default_ttl \<or> (\<forall>x \<in> set pending. ms < snd x)"
  shows "NetworkInterface_tick_requests ms pending passed ni = Some (Inr
    (ni\<lparr>ni_frames_out := ni_frames_out ni @ tick_frames ms own pending ni,
        ni_waiting_arp_response_ip_addr := passed @ map (map_prod id (tick_ttl ms)) pending\<rparr>))"
  using assms
proof (induction pending arbitrary: passed ni)
  case Nil
  then show ?case by (subst NetworkInterface_tick_requests.simps) (simp add: tick_frames_def)
next
  case (Cons x rest)
  have step: "NetworkInterface_tick_requests ms ((k, ttl) # rest) passed ni
      = NetworkInterface_tick_requests ms rest (passed @ [(k, ttl - ms)]) ni" if "ms < ttl" for k ttl ni
    using that by (subst NetworkInterface_tick_requests.simps) (simp add: not_le [THEN iffD2])
  show ?case
  proof (cases "ms < snd x")
    case True
    with Cons.IH [of ni "passed @ [(fst x, snd x - ms)]"] Cons.prems step [of "snd x" "fst x" ni] show ?thesis
      by (cases x) (auto simp: tick_frames_def tick_ttl_def)
  next
    case False
    then have ms: "snd x \<le> ms" "ms < arp_response_default_ttl" using Cons.prems(2) by auto
    define n1 where "n1 = ni\<lparr>ni_frames_out := ni_frames_out ni @ [request_frame (ni_ethernet_address ni) own (fst x)]\<rparr>"
    have "NetworkInterface_tick_requests ms (x # rest) passed ni
        = NetworkInterface_tick_requests ms ((fst x, arp_response_default_ttl) # rest) passed n1"
      using ms(1) arp_request_eq [OF Cons.prems(1)]
      by (subst NetworkInterface_tick_requests.simps) (simp add: n1_def)
    also have "\<dots> = NetworkInterface_tick_requests ms rest (passed @ [(fst x, arp_response_default_ttl - ms)]) n1"
      by (rule step [OF ms(2)])
    finally show ?thesis
      using Cons.IH [of n1 "passed @ [(fst x, arp_response_default_ttl - ms)]"] Cons.prems ms
      by (cases x) (simp add: n1_def tick_frames_def tick_ttl_def)
  qed
qed

lemma tick_requests_stuck:
  assumes "NetworkInterface_tick_requests ms pending passed ni = Some r"
    "Address_ipv4_numeric (ni_ip_address ni) = Inr own" "arp_response_default_ttl \<le> ms"
  shows "\<forall>x \<in> set pending. ms < snd x"
proof -
  have "Address_ipv4_numeric (ni_ip_address ni) = Inr own \<longrightarrow> arp_response_default_ttl \<le> ms \<longrightarrow> (\<forall>x \<in> set pending. ms < snd x)"
  proof (rule NetworkInterface_tick_requests.raw_induct [of
        "\<lambda>ms pending passed ni r. Address_ipv4_numeric (ni_ip_address ni) = Inr own \<longrightarrow> arp_response_default_ttl \<le> ms
          \<longrightarrow> (\<forall>x \<in> set pending. ms < snd x)", OF _ assms(1)], goal_cases)
    case (1 F ms pending passed ni r)
    show ?case
    proof (cases pending)
      case (Cons x rest)
      show ?thesis
      proof (cases "snd x \<le> ms")
        case True
        then show ?thesis
          using 1(1) [of ms "(fst x, arp_response_default_ttl) # rest" passed
              "ni\<lparr>ni_frames_out := ni_frames_out ni @ [request_frame (ni_ethernet_address ni) own (fst x)]\<rparr>" r]
            1(2) Cons arp_request_eq [of ni own "fst x"]
          by (auto simp: not_le)
      next
        case False
        then show ?thesis using 1(1) [of ms rest "passed @ [(fst x, snd x - ms)]" ni r] 1(2) Cons by auto
      qed
    qed simp
  qed
  with assms(2,3) show ?thesis by simp
qed

lemma tick_eq:
  assumes "Address_ipv4_numeric (ni_ip_address ni) = Inr own"
    "ms < arp_response_default_ttl \<or> (\<forall>x \<in> set (ni_waiting_arp_response_ip_addr ni). ms < snd x)"
  shows "NetworkInterface_tick ms ni = Some (Inr
    (ni\<lparr>ni_frames_out := ni_frames_out ni @ tick_frames ms own (ni_waiting_arp_response_ip_addr ni) ni,
        ni_arp_table := NetworkInterface_age_table ms (ni_arp_table ni),
        ni_waiting_arp_response_ip_addr :=
          map (map_prod id (tick_ttl ms)) (ni_waiting_arp_response_ip_addr ni)\<rparr>))"
  using assms by (simp add: NetworkInterface_tick_def Let_def tick_requests_eq [where own = own] tick_frames_def)

lemma age_table_None: "table ip = None \<Longrightarrow> NetworkInterface_age_table ms table ip = None"
  by (simp add: NetworkInterface_age_table_def)

lemma ni_tick_ok:
  assumes "ni_ok ni" "ms < arp_response_default_ttl"
  shows "\<exists>ni'. NetworkInterface_tick ms ni = Some (Inr ni') \<and> ni_ok ni'"
proof -
  obtain own where own: "Address_ipv4_numeric (ni_ip_address ni) = Inr own" using assms(1) by (auto simp: ni_ok_def)
  define n1 where "n1 = ni\<lparr>ni_frames_out := ni_frames_out ni @ tick_frames ms own (ni_waiting_arp_response_ip_addr ni) ni,
        ni_arp_table := NetworkInterface_age_table ms (ni_arp_table ni),
        ni_waiting_arp_response_ip_addr :=
          map (map_prod id (tick_ttl ms)) (ni_waiting_arp_response_ip_addr ni)\<rparr>"
  have "ni_waits n1 x" if "x \<in> set (ni_waiting_arp_internet_datagrams ni)" for x
  proof -
    have "fst ` set (ni_waiting_arp_response_ip_addr n1) = fst ` set (ni_waiting_arp_response_ip_addr ni)"
      by (simp add: n1_def image_image)
    moreover have "ni_waits ni x" using that assms(1) by (simp add: ni_ok_def)
    ultimately show ?thesis unfolding ni_waits_def by (auto simp: n1_def age_table_None)
  qed
  moreover have "tick_ttl ms ttl \<le> arp_response_default_ttl" if "ttl \<le> arp_response_default_ttl" for ttl
    using that assms(2) by (auto simp: tick_ttl_def word_le_sub1 word_le_nat_alt word_less_nat_alt unat_sub)
  moreover have "eth_addr (ae_eth_addr entry)" if "NetworkInterface_age_table ms (ni_arp_table ni) ip = Some entry" for ip entry
    using that assms(1) by (auto simp: NetworkInterface_age_table_def ni_ok_def split: option.splits if_splits)
  moreover have "fst \<circ> map_prod id (tick_ttl ms) = fst" by auto
  ultimately have "ni_ok n1" using assms(1) by (auto simp: ni_ok_def n1_def)
  with tick_eq [OF own] assms(2) show ?thesis by (simp add: n1_def)
qed

section \<open>Properties\<close>

text \<open>An operation of the interface; a frame comes from the wire, in one buffer.\<close>

datatype ni_op = NI_send InternetDatagram Address | NI_recv EthernetFrame | NI_tick u64

fun ni_step :: "ni_op \<Rightarrow> NetworkInterface \<Rightarrow> NetworkInterface res option" where
  "ni_step (NI_send d hop) ni = Some (NetworkInterface_send_datagram d hop ni)"
| "ni_step (NI_recv f) ni = Some (map_sum id snd (NetworkInterface_recv_frame f ni))"
| "ni_step (NI_tick ms) ni = NetworkInterface_tick ms ni"

primrec ni_run :: "ni_op list \<Rightarrow> NetworkInterface \<Rightarrow> NetworkInterface res option" where
  "ni_run [] ni = Some (Inr ni)"
| "ni_run (x # xs) ni = (case ni_step x ni of Some (Inr ni) \<Rightarrow> ni_run xs ni | r \<Rightarrow> r)"

fun ni_op_ok :: "ni_op \<Rightarrow> bool" where
  "ni_op_ok (NI_send d hop) \<longleftrightarrow> datagram_ok d \<and> \<not> isl (Address_ipv4_numeric hop)"
| "ni_op_ok (NI_recv f) \<longleftrightarrow> length (ef_payload f) \<le> 1"
| "ni_op_ok (NI_tick ms) \<longleftrightarrow> ms < arp_response_default_ttl"

lemma ni_step_ok: "ni_ok ni \<Longrightarrow> ni_op_ok x \<Longrightarrow> \<exists>ni'. ni_step x ni = Some (Inr ni') \<and> ni_ok ni'"
proof (cases x)
  case (NI_send d hop)
  then show "ni_ok ni \<Longrightarrow> ni_op_ok x \<Longrightarrow> ?thesis"
    using send_datagram_ok [of ni d hop] by (cases "Address_ipv4_numeric hop") auto
next
  case (NI_recv f)
  then show "ni_ok ni \<Longrightarrow> ni_op_ok x \<Longrightarrow> ?thesis" using recv_frame_ok [of ni f] by force
next
  case (NI_tick ms)
  then show "ni_ok ni \<Longrightarrow> ni_op_ok x \<Longrightarrow> ?thesis" using ni_tick_ok [of ni ms] by simp
qed

lemma ni_run_ok: "ni_ok ni \<Longrightarrow> list_all ni_op_ok xs \<Longrightarrow> \<exists>ni'. ni_run xs ni = Some (Inr ni') \<and> ni_ok ni'"
proof (induction xs arbitrary: ni)
  case (Cons x xs)
  with ni_step_ok [of ni x] show ?case by fastforce
qed simp

text \<open>
  C19: whatever well-formed datagrams it is given for next hops that are IPv4 addresses, whatever
  frames arrive from the wire (each payload in one buffer, as \<open>EthernetFrame::parse\<close> leaves it) and however
  the clock moves in steps below five seconds, the interface neither throws nor hangs, and of every
  datagram it holds back the next hop is unknown and exactly one ARP request for it is pending.
\<close>

theorem network_interface_run:
  assumes "eth_addr ea" "Address_ipv4_numeric a = Inr own" "list_all ni_op_ok ops"
  shows "\<exists>ni. ni_run ops (NetworkInterface_new ea a) = Some (Inr ni)
    \<and> (\<forall>x \<in> set (ni_waiting_arp_internet_datagrams ni). \<exists>ip. Address_ipv4_numeric (fst x) = Inr ip
         \<and> ni_arp_table ni ip = None \<and> ip \<in> fst ` set (ni_waiting_arp_response_ip_addr ni))
    \<and> distinct (map fst (ni_waiting_arp_response_ip_addr ni))"
proof -
  obtain ni where ni: "ni_run ops (NetworkInterface_new ea a) = Some (Inr ni)" "ni_ok ni"
    using ni_run_ok [OF ni_ok_new [OF assms(1,2)] assms(3)] by blast
  then have "\<forall>x \<in> set (ni_waiting_arp_internet_datagrams ni). ni_waits ni x"
      "distinct (map fst (ni_waiting_arp_response_ip_addr ni))"
    by (simp_all add: ni_ok_def)
  with ni(1) show ?thesis unfolding ni_waits_def by blast
qed

definition demo_ni_ops :: "ni_op list" where
  "demo_ni_ops = [NI_send demo_datagram (ipv4_address 7 0), NI_tick 4999, NI_recv (request_frame (replicate 6 9) 7 5), NI_tick 2]"

theorem network_interface_run_witness:
  "\<exists>ni. ni_run demo_ni_ops (NetworkInterface_new (replicate 6 2) (ipv4_address 5 0)) = Some (Inr ni)
    \<and> (\<forall>x \<in> set (ni_waiting_arp_internet_datagrams ni). \<exists>ip. Address_ipv4_numeric (fst x) = Inr ip
         \<and> ni_arp_table ni ip = None \<and> ip \<in> fst ` set (ni_waiting_arp_response_ip_addr ni))
    \<and> distinct (map fst (ni_waiting_arp_response_ip_addr ni))"
  by (rule network_interface_run [of _ _ 5])
    (simp_all add: demo_ni_ops_def demo_datagram_ok eth_addr_def request_frame_def arp_response_default_ttl_def)

text \<open>
  C20: \<open>tick\<close> returns exactly when less than five seconds have passed or no pending request is due:
  the loop that repeats a due request sets its time to live to five seconds and looks at it again.
\<close>

theorem tick_returns_iff:
  assumes "Address_ipv4_numeric (ni_ip_address ni) = Inr own"
  shows "NetworkInterface_tick ms ni \<noteq> None
    \<longleftrightarrow> unat ms < 5000 \<or> list_all (\<lambda>x. ms < snd x) (ni_waiting_arp_response_ip_addr ni)"
proof -
  have "unat ms < 5000 \<longleftrightarrow> ms < arp_response_default_ttl"
    by (simp add: arp_response_default_ttl_def word_less_nat_alt)
  moreover have "ms < arp_response_default_ttl \<or> (\<forall>x \<in> set (ni_waiting_arp_response_ip_addr ni). ms < snd x)"
    if "NetworkInterface_tick ms ni = Some r" for r
    using that tick_requests_stuck [of ms "ni_waiting_arp_response_ip_addr ni" "[]"] assms
    by (force simp: NetworkInterface_tick_def Let_def not_le)
  ultimately show ?thesis using tick_eq [OF assms, of ms] by (auto simp: list_all_iff)
qed

theorem tick_returns_iff_witness:
  "NetworkInterface_tick 5000 (NetworkInterface_new (replicate 6 2) (ipv4_address 5 0)
     \<lparr>ni_waiting_arp_response_ip_addr := [(7, 5000)]\<rparr>) = None"
  using tick_returns_iff [of "NetworkInterface_new (replicate 6 2) (ipv4_address 5 0)
     \<lparr>ni_waiting_arp_response_ip_addr := [(7, 5000)]\<rparr>" 5 5000]
  by (simp add: NetworkInterface_new_def)

section \<open>Two interfaces on a wire\<close>

text \<open>What arrives when a frame is written to the wire as bytes and read back.\<close>

definition wire :: "EthernetFrame \<Rightarrow> EthernetFrame" where
  "wire f = snd (EthernetFrame_parse (Buffer_of_string (BufferList_concatenate (EthernetFrame_serialize f))) EthernetFrame_new)"

lemma wire_eq:
  assumes "eth_header_ok (ef_header f)" "length (BufferList_concatenate (ef_payload f)) < 70000"
  shows "\<exists>pl. wire f = \<lparr>ef_header = ef_header f, ef_payload = [pl]\<rparr> \<and> Buffer_ok pl
    \<and> Buffer_str pl = BufferList_concatenate (ef_payload f)"
  using frame_parse_serialized [OF assms(1), of EthernetFrame_new] assms(2) length_frame [OF assms(1)]
  by (auto simp: wire_def)

lemma recv_arp_wire:
  assumes "arp_ok m" "eth_addr src" "eth_addr dst" "ni_ok ni" "Address_ipv4_numeric (ni_ip_address ni) = Inr own"
    "dst = ni_ethernet_address ni \<or> dst = ETHERNET_BROADCAST" "arp_for own m ni"
  shows "NetworkInterface_recv_frame (wire \<lparr>ef_header = \<lparr>eh_dst = dst, eh_src = src, eh_type = EthernetHeader_TYPE_ARP\<rparr>,
      ef_payload = [Buffer_of_string (arp_bytes m)]\<rparr>) ni = Inr (None, ni_learned own m ni)"
proof -
  let ?f = "\<lparr>ef_header = \<lparr>eh_dst = dst, eh_src = src, eh_type = EthernetHeader_TYPE_ARP\<rparr>,
    ef_payload = [Buffer_of_string (arp_bytes m)]\<rparr>"
  obtain pl where pl: "wire ?f = \<lparr>ef_header = ef_header ?f, ef_payload = [pl]\<rparr>" "Buffer_ok pl" "Buffer_str pl = arp_bytes m"
    using wire_eq [of ?f] assms(2,3) arp_bytes_length [OF assms(1)] by (auto simp: eth_header_ok_def)
  from arp_parse_serialized [OF assms(1) pl(2,3)] recv_arp_eq [OF assms(4,5), of m] assms(6,7) pl(1) show ?thesis
    by (auto simp: NetworkInterface_recv_frame_def Let_def BufferList_Buffer_def EthernetHeader_TYPE_ARP_def
        EthernetHeader_TYPE_IPv4_def)
qed

lemma recv_datagram_wire:
  assumes "datagram_ok d" "eth_addr src" "eth_addr (ni_ethernet_address ni)"
  shows "\<exists>pl. NetworkInterface_recv_frame (wire (datagram_frame src (ni_ethernet_address ni) d)) ni
      = Inr (Some \<lparr>id_header = ip_sealed (id_header d), id_payload = [pl]\<rparr>, ni)
    \<and> Buffer_str pl = BufferList_concatenate (id_payload d)"
proof -
  let ?f = "datagram_frame src (ni_ethernet_address ni) d"
  have cat: "BufferList_concatenate (ef_payload ?f) = datagram_bytes d"
    by (simp add: datagram_frame_def datagram_bytes_def)
  moreover have "length (datagram_bytes d) < 70000"
    using length_datagram_bytes [OF assms(1)] unat_u16_lt [of "ih_len (id_header d)"] by simp
  ultimately obtain b where b: "wire ?f = \<lparr>ef_header = ef_header ?f, ef_payload = [b]\<rparr>" "Buffer_ok b" "Buffer_str b = datagram_bytes d"
    using wire_eq [of ?f] assms(2,3) by (auto simp: eth_header_ok_def datagram_frame_def)
  from datagram_parse_serialized [OF assms(1) b(2,3), of IPv4Datagram_new] b(1) show ?thesis
    by (auto simp: NetworkInterface_recv_frame_def Let_def BufferList_Buffer_def datagram_frame_def)
qed

text \<open>
  C18: a datagram for a neighbour whose Ethernet address is not known yet reaches it: the interface
  broadcasts an ARP request; the neighbour answers it; on the answer the interface sends the datagram
  it held back and nothing else; and the neighbour hands up the datagram, with the same payload and
  the same header apart from the checksum.
\<close>

theorem arp_resolution_delivers:
  assumes "ni_ok A" "ni_ok B" "Address_ipv4_numeric (ni_ip_address B) = Inr ipb" "Address_ipv4_numeric hop = Inr ipb"
    "ni_arp_table A ipb = None" "ipb \<notin> fst ` set (ni_waiting_arp_response_ip_addr A)" "datagram_ok d"
  shows "\<exists>A1 req B1 rep more A2 fr pl cksum.
      NetworkInterface_send_datagram d hop A = Inr A1 \<and> ni_frames_out A1 = ni_frames_out A @ [req]
    \<and> NetworkInterface_recv_frame (wire req) B = Inr (None, B1) \<and> ni_frames_out B1 = ni_frames_out B @ rep # more
    \<and> NetworkInterface_recv_frame (wire rep) A1 = Inr (None, A2) \<and> ni_frames_out A2 = ni_frames_out A1 @ [fr]
    \<and> NetworkInterface_recv_frame (wire fr) B1
        = Inr (Some \<lparr>id_header = (id_header d)\<lparr>ih_cksum := cksum\<rparr>, id_payload = [pl]\<rparr>, B1)
    \<and> Buffer_str pl = BufferList_concatenate (id_payload d)"
proof -
  obtain ipa where ipa: "Address_ipv4_numeric (ni_ip_address A) = Inr ipa" using assms(1) by (auto simp: ni_ok_def)
  let ?ea = "ni_ethernet_address A" and ?eb = "ni_ethernet_address B"
  have ea: "eth_addr ?ea" "eth_addr ?eb" using assms(1,2) by (simp_all add: ni_ok_def)
  define q where "q = ARPMessage_new\<lparr>am_opcode := ARPMessage_OPCODE_REQUEST, am_sender_ethernet_address := ?ea,
    am_sender_ip_address := ipa, am_target_ethernet_address := replicate 6 0, am_target_ip_address := ipb\<rparr>"
  define r where "r = ARPMessage_new\<lparr>am_opcode := ARPMessage_OPCODE_REPLY, am_sender_ethernet_address := ?eb,
    am_target_ethernet_address := ?ea, am_sender_ip_address := ipb, am_target_ip_address := ipa\<rparr>"
  have m: "arp_ok q" "arp_ok r"
    using ea by (simp_all add: q_def r_def arp_ok_def ARPMessage_supported_def ARPMessage_new_def eth_addr_def)
  define A1 where "A1 = A\<lparr>ni_frames_out := ni_frames_out A @ [request_frame ?ea ipa ipb],
    ni_waiting_arp_response_ip_addr := ni_waiting_arp_response_ip_addr A @ [(ipb, arp_response_default_ttl)],
    ni_waiting_arp_internet_datagrams := ni_waiting_arp_internet_datagrams A @ [(hop, d)]\<rparr>"
  have s: "NetworkInterface_send_datagram d hop A = Inr A1"
    using send_datagram_cases [OF ipa assms(7,4)] assms(5,6) by (simp add: A1_def)
  with send_datagram_ok [OF assms(1,7,4)] have A1: "ni_ok A1" by simp
  have none: "filter (\<lambda>x. Address_ipv4_numeric (fst x) = Inr ipb) (ni_waiting_arp_internet_datagrams A) = []"
    using assms(1,6) unfolding filter_empty_conv ni_ok_def ni_waits_def by force
  have 1: "NetworkInterface_recv_frame (wire (request_frame ?ea ipa ipb)) B = Inr (None, ni_learned ipb q B)"
    unfolding request_frame_def q_def [symmetric]
    by (rule recv_arp_wire) (use m ea assms in \<open>simp_all add: q_def arp_for_def ETHERNET_BROADCAST_def eth_addr_def\<close>)
  have rep: "reply_frame ?eb ipb q = \<lparr>ef_header = \<lparr>eh_dst = ?ea, eh_src = ?eb, eh_type = EthernetHeader_TYPE_ARP\<rparr>,
      ef_payload = [Buffer_of_string (arp_bytes r)]\<rparr>"
    by (simp add: reply_frame_def q_def r_def)
  have 2: "NetworkInterface_recv_frame (wire (reply_frame ?eb ipb q)) A1 = Inr (None, ni_learned ipa r A1)"
    unfolding rep by (rule recv_arp_wire) (use m ea A1 ipa in \<open>simp_all add: r_def A1_def arp_for_def\<close>)
  have 3: "ni_frames_out (ni_learned ipa r A1) = ni_frames_out A1 @ [datagram_frame ?ea ?eb d]"
    using none assms(4) arp_opcodes by (simp add: ni_learned_def r_def A1_def Let_def)
  have 4: "ni_ethernet_address (ni_learned ipb q B) = ?eb" by (simp add: ni_learned_def Let_def)
  obtain more where 5: "ni_frames_out (ni_learned ipb q B) = ni_frames_out B @ reply_frame ?eb ipb q # more"
    by (simp add: ni_learned_def Let_def q_def)
  obtain pl where "NetworkInterface_recv_frame (wire (datagram_frame ?ea ?eb d)) (ni_learned ipb q B)
      = Inr (Some \<lparr>id_header = ip_sealed (id_header d), id_payload = [pl]\<rparr>, ni_learned ipb q B)"
      "Buffer_str pl = BufferList_concatenate (id_payload d)"
    using recv_datagram_wire [OF assms(7) ea(1), of "ni_learned ipb q B"] 4 ea(2) by auto
  moreover have "ni_frames_out A1 = ni_frames_out A @ [request_frame ?ea ipa ipb]" by (simp add: A1_def)
  ultimately show ?thesis using s 1 2 3 5 unfolding ip_sealed_def by blast
qed

theorem arp_resolution_delivers_witness:
  "\<exists>A1 req B1 rep more A2 fr pl cksum.
      NetworkInterface_send_datagram demo_datagram (ipv4_address 7 0) (NetworkInterface_new (replicate 6 2) (ipv4_address 5 0)) = Inr A1
    \<and> ni_frames_out A1 = [req]
    \<and> NetworkInterface_recv_frame (wire req) (NetworkInterface_new (replicate 6 3) (ipv4_address 7 0)) = Inr (None, B1)
    \<and> ni_frames_out B1 = rep # more
    \<and> NetworkInterface_recv_frame (wire rep) A1 = Inr (None, A2) \<and> ni_frames_out A2 = ni_frames_out A1 @ [fr]
    \<and> NetworkInterface_recv_frame (wire fr) B1
        = Inr (Some \<lparr>id_header = (id_header demo_datagram)\<lparr>ih_cksum := cksum\<rparr>, id_payload = [pl]\<rparr>, B1)
    \<and> Buffer_str pl = BufferList_concatenate (id_payload demo_datagram)"
  using arp_resolution_delivers [of "NetworkInterface_new (replicate 6 2) (ipv4_address 5 0)"
      "NetworkInterface_new (replicate 6 3) (ipv4_address 7 0)" 7 "ipv4_address 7 0" demo_datagram]
    ni_ok_new [of "replicate 6 2" "ipv4_address 5 0" 5] ni_ok_new [of "replicate 6 3" "ipv4_address 7 0" 7] demo_datagram_ok
  by (simp add: eth_addr_def NetworkInterface_new_def)

end
