(* ===== verification/Router.thy ===== *)
theory Router
  imports Network_Interface
begin

text \<open>
  \<open>libsponge/router.{hh,cc}\<close>: interfaces that queue the datagrams they receive, and the router that
  forwards them by the longest matching prefix. What \<open>add_route\<close> prints is left out. A prefix length
  above 32 makes the shift of the matching undefined in C++; the properties assume lengths up to 32.
\<close>

section \<open>Model\<close>

record AsyncNetworkInterface =
  ani_interface :: NetworkInterface
  ani_datagrams_out :: "InternetDatagram list"

definition AsyncNetworkInterface_of :: "NetworkInterface \<Rightarrow> AsyncNetworkInterface" where
  "AsyncNetworkInterface_of interface = \<lparr>ani_interface = interface, ani_datagrams_out = []\<rparr>"

definition AsyncNetworkInterface_recv_frame :: "EthernetFrame \<Rightarrow> AsyncNetworkInterface \<Rightarrow> AsyncNetworkInterface res" where
  "AsyncNetworkInterface_recv_frame frame a =
     (case NetworkInterface_recv_frame frame (ani_interface a) of
        Inl e \<Rightarrow> Inl e
      | Inr (None, ni) \<Rightarrow> Inr (a\<lparr>ani_interface := ni\<rparr>)
      | Inr (Some dgram, ni) \<Rightarrow>
          Inr (a\<lparr>ani_interface := ni, ani_datagrams_out := ani_datagrams_out a @ [dgram]\<rparr>))"

record route_item =
  ri_route_prefix :: u32
  ri_prefix_length :: u8
  ri_next_hop :: "Address option"
  ri_interface_num :: u64

record Router =
  rt_interfaces :: "AsyncNetworkInterface list"
  rt_route_table :: "route_item list"

definition Router_add_interface :: "AsyncNetworkInterface \<Rightarrow> Router \<Rightarrow> u64 \<times> Router" where
  "Router_add_interface interface r =
     (let r = r\<lparr>rt_interfaces := rt_interfaces r @ [interface]\<rparr>
      in (ssize (rt_interfaces r) - 1, r))"

definition Router_interface :: "u64 \<Rightarrow> Router \<Rightarrow> AsyncNetworkInterface res" where
  "Router_interface n r =
     (if n < ssize (rt_interfaces r) then Inr (rt_interfaces r ! unat n) else Inl (Out_of_range ''vector::at''))"

definition Router_add_route :: "u32 \<Rightarrow> u8 \<Rightarrow> Address option \<Rightarrow> u64 \<Rightarrow> Router \<Rightarrow> Router" where
  "Router_add_route route_prefix prefix_length next_hop interface_num r =
     r\<lparr>rt_route_table := rt_route_table r @
         [\<lparr>ri_route_prefix = route_prefix, ri_prefix_length = prefix_length, ri_next_hop = next_hop,
           ri_interface_num = interface_num\<rparr>]\<rparr>"

unbundle bit_operations_syntax

definition route_matches :: "u32 \<Rightarrow> route_item \<Rightarrow> bool" where
  "route_matches dst_ip_addr item =
     (ri_prefix_length item = 0
      \<or> drop_bit (32 - unat (ri_prefix_length item)) (ri_route_prefix item XOR dst_ip_addr) = 0)"

text \<open>The loop over the table; \<open>None\<close> is \<open>_route_table.end()\<close>.\<close>

primrec match_loop :: "u32 \<Rightarrow> route_item list \<Rightarrow> route_item option \<Rightarrow> route_item option" where
  "match_loop dst_ip_addr [] match_entry = match_entry"
| "match_loop dst_ip_addr (item # rest) match_entry =
     match_loop dst_ip_addr rest
       (if route_matches dst_ip_addr item
           \<and> (case match_entry of None \<Rightarrow> True | Some m \<Rightarrow> ri_prefix_length m < ri_prefix_length item)
        then Some item else match_entry)"

definition Router_send :: "u64 \<Rightarrow> InternetDatagram \<Rightarrow> Address \<Rightarrow> Router \<Rightarrow> Router res" where
  "Router_send n dgram next_hop r =
     (case Router_interface n r of
        Inl e \<Rightarrow> Inl e
      | Inr a \<Rightarrow>
          (case NetworkInterface_send_datagram dgram next_hop (ani_interface a) of
             Inl e \<Rightarrow> Inl e
           | Inr ni \<Rightarrow> Inr (r\<lparr>rt_interfaces := (rt_interfaces r)[unat n := a\<lparr>ani_interface := ni\<rparr>]\<rparr>)))"

definition Router_route_one_datagram :: "InternetDatagram \<Rightarrow> Router \<Rightarrow> Router res" where
  "Router_route_one_datagram dgram r =
     (let dst_ip_addr = ih_dst (id_header dgram);
          ttl = ih_ttl (id_header dgram)
      in case match_loop dst_ip_addr (rt_route_table r) None of
           None \<Rightarrow> Inr r
         | Some item \<Rightarrow>
             let dgram = dgram\<lparr>id_header := (id_header dgram)\<lparr>ih_ttl := ttl - 1\<rparr>\<rparr>
             in if ttl > 1
                then (case ri_next_hop item of
                        Some next_hop \<Rightarrow> Router_send (ri_interface_num item) dgram next_hop r
                      | None \<Rightarrow>
                          (case Address_from_ipv4_numeric dst_ip_addr of
                             Inl e \<Rightarrow> Inl e
                           | Inr hop \<Rightarrow> Router_send (ri_interface_num item) dgram hop r))
                else Inr r)"

definition Router_pop :: "nat \<Rightarrow> Router \<Rightarrow> Router" where
  "Router_pop i r = r\<lparr>rt_interfaces := (rt_interfaces r)
     [i := (rt_interfaces r ! i)\<lparr>ani_datagrams_out := tl (ani_datagrams_out (rt_interfaces r ! i))\<rparr>]\<rparr>"

lemma Router_send_frame:
  assumes "Router_send n d hop r = Inr r'"
  shows "rt_route_table r' = rt_route_table r"
    "map ani_datagrams_out (rt_interfaces r') = map ani_datagrams_out (rt_interfaces r)"
  using assms
  by (auto simp: Router_send_def Router_interface_def map_update list_update_same_conv word_less_nat_alt unat_ssize_mod
      split: sum.splits if_splits)

function Router_route_queue :: "nat \<Rightarrow> Router \<Rightarrow> Router res" where
  "Router_route_queue i r =
     (if i < length (rt_interfaces r) \<and> ani_datagrams_out (rt_interfaces r ! i) \<noteq> []
      then (case Router_route_one_datagram (hd (ani_datagrams_out (rt_interfaces r ! i))) r of
              Inl e \<Rightarrow> Inl e
            | Inr r \<Rightarrow> Router_route_queue i (Router_pop i r))
      else Inr r)"
  by pat_completeness auto

lemma route_one_frame:
  assumes "Router_route_one_datagram d r = Inr r'"
  shows "rt_route_table r' = rt_route_table r"
    "map ani_datagrams_out (rt_interfaces r') = map ani_datagrams_out (rt_interfaces r)"
  using assms Router_send_frame
  by (auto simp: Router_route_one_datagram_def Let_def split: option.splits if_splits sum.splits)

lemma same_queues:
  "map ani_datagrams_out xs = map ani_datagrams_out ys \<Longrightarrow> i < length ys \<Longrightarrow>
   length xs = length ys \<and> ani_datagrams_out (xs ! i) = ani_datagrams_out (ys ! i)"
  by (metis length_map nth_map)

termination Router_route_queue
proof (relation "measure (\<lambda>(i, r). length (ani_datagrams_out (rt_interfaces r ! i)))", goal_cases)
  case (2 i r r')
  then show ?case
    using same_queues [OF route_one_frame(2) [OF 2(2)], of i] by (simp add: Router_pop_def)
qed simp

declare Router_route_queue.simps [simp del]

primrec Router_route_from :: "nat list \<Rightarrow> Router \<Rightarrow> Router res" where
  "Router_route_from [] r = Inr r"
| "Router_route_from (i # rest) r =
     (case Router_route_queue i r of Inl e \<Rightarrow> Inl e | Inr r \<Rightarrow> Router_route_from rest r)"

definition Router_route :: "Router \<Rightarrow> Router res" where
  "Router_route r = Router_route_from [0..<length (rt_interfaces r)] r"

section \<open>The longest matching prefix\<close>

lemma route_matches_bits:
  assumes "unat (ri_prefix_length x) \<le> 32"
  shows "route_matches dst x \<longleftrightarrow> (\<forall>k < unat (ri_prefix_length x). bit (ri_route_prefix x) (31 - k) = bit dst (31 - k))"
proof (cases "ri_prefix_length x = 0")
  case False
  define n where "n = unat (ri_prefix_length x)"
  have n: "n \<le> 32" "0 < n" using assms False by (simp_all add: n_def unat_gt_0)
  have "route_matches dst x \<longleftrightarrow> (\<forall>j. bit (drop_bit (32 - n) (ri_route_prefix x XOR dst)) j = bit (0 :: u32) j)"
  proof -
    have "w = 0 \<longleftrightarrow> (\<forall>j. bit w j = bit (0 :: u32) j)" for w :: u32 by (auto intro: bit_word_eqI)
    then show ?thesis using False by (simp only: route_matches_def n_def simp_thms)
  qed
  also have "\<dots> \<longleftrightarrow> (\<forall>j < n. bit (ri_route_prefix x) (32 - n + j) = bit dst (32 - n + j))"
  proof -
    have "\<not> bit (w :: u32) (32 - n + j)" if "\<not> j < n" for w j
      using that n bit_imp_le_length [of w "32 - n + j"] by auto
    then show ?thesis by (auto simp: bit_drop_bit_eq bit_xor_iff)
  qed
  also have "\<dots> \<longleftrightarrow> (\<forall>k < n. bit (ri_route_prefix x) (31 - k) = bit dst (31 - k))"
  proof -
    have "(\<forall>j < n. Q (32 - n + j)) \<longleftrightarrow> (\<forall>k < n. Q (31 - k))" for Q :: "nat \<Rightarrow> bool"
    proof safe
      fix k assume "\<forall>j < n. Q (32 - n + j)" "k < n"
      then show "Q (31 - k)" using n spec [of "\<lambda>j. j < n \<longrightarrow> Q (32 - n + j)" "n - 1 - k"] by simp
    next
      fix j assume "\<forall>k < n. Q (31 - k)" "j < n"
      then show "Q (32 - n + j)" using n spec [of "\<lambda>k. k < n \<longrightarrow> Q (31 - k)" "n - 1 - j"] by simp
    qed
    then show ?thesis .
  qed
  finally show ?thesis by (simp add: n_def)
qed (simp add: route_matches_def)

definition better :: "u32 \<Rightarrow> route_item list \<Rightarrow> route_item \<Rightarrow> bool" where
  "better dst table m = (\<exists>pre post. table = pre @ m # post \<and> route_matches dst m
     \<and> (\<forall>x \<in> set pre. route_matches dst x \<longrightarrow> ri_prefix_length x < ri_prefix_length m)
     \<and> (\<forall>x \<in> set post. route_matches dst x \<longrightarrow> ri_prefix_length x \<le> ri_prefix_length m))"

lemma better_snoc:
  assumes "better dst table m"
  shows "better dst (table @ [x])
    (if route_matches dst x \<and> ri_prefix_length m < ri_prefix_length x then x else m)"
proof -
  obtain pre post where *: "table = pre @ m # post" "route_matches dst m"
    "\<forall>x \<in> set pre. route_matches dst x \<longrightarrow> ri_prefix_length x < ri_prefix_length m"
    "\<forall>x \<in> set post. route_matches dst x \<longrightarrow> ri_prefix_length x \<le> ri_prefix_length m"
    using assms by (auto simp: better_def)
  show ?thesis
  proof (cases "route_matches dst x \<and> ri_prefix_length m < ri_prefix_length x")
    case True
    then show ?thesis
      unfolding better_def using * by (intro exI [of _ table] exI [of _ "[]"]) (auto intro: less_trans le_less_trans)
  next
    case False
    then show ?thesis
      unfolding better_def using * by (intro exI [of _ pre] exI [of _ "post @ [x]"]) auto
  qed
qed

lemma match_loop_best:
  "(case acc of None \<Rightarrow> \<forall>x \<in> set seen. \<not> route_matches dst x | Some m \<Rightarrow> better dst seen m) \<Longrightarrow>
   (case match_loop dst table acc of
      None \<Rightarrow> \<forall>x \<in> set (seen @ table). \<not> route_matches dst x
    | Some m \<Rightarrow> better dst (seen @ table) m)"
proof (induction table arbitrary: acc seen)
  case (Cons x table)
  let ?acc = "if route_matches dst x \<and> (case acc of None \<Rightarrow> True | Some m \<Rightarrow> ri_prefix_length m < ri_prefix_length x)
    then Some x else acc"
  have "case ?acc of None \<Rightarrow> \<forall>y \<in> set (seen @ [x]). \<not> route_matches dst y | Some m \<Rightarrow> better dst (seen @ [x]) m"
  proof (cases acc)
    case None
    then have "route_matches dst x \<Longrightarrow> better dst (seen @ [x]) x"
      unfolding better_def using Cons.prems by (intro exI [of _ seen] exI [of _ "[]"]) simp
    then show ?thesis using None Cons.prems by auto
  next
    case (Some m)
    then show ?thesis using better_snoc [of dst seen m x] Cons.prems by (auto split: if_splits)
  qed
  from Cons.IH [OF this] show ?case by (simp only: match_loop.simps append_assoc append_Cons append_Nil)
qed (simp split: option.splits)

text \<open>
  C23: the route taken is the longest-prefix match. If no route of the table agrees with the
  destination on the leading bits of its prefix, there is none; otherwise the route found agrees, every
  agreeing route before it is shorter and none behind it is longer.
\<close>

theorem router_longest_prefix:
  assumes "list_all (\<lambda>x. unat (ri_prefix_length x) \<le> 32) table"
    "agrees = (\<lambda>x. \<forall>k < unat (ri_prefix_length x). bit (ri_route_prefix x) (31 - k) = bit dst (31 - k))"
  shows "case match_loop dst table None of
      None \<Rightarrow> filter agrees table = []
    | Some m \<Rightarrow> \<exists>pre post. table = pre @ m # post \<and> agrees m
        \<and> list_all (\<lambda>x. agrees x \<longrightarrow> ri_prefix_length x < ri_prefix_length m) pre
        \<and> list_all (\<lambda>x. agrees x \<longrightarrow> ri_prefix_length x \<le> ri_prefix_length m) post"
proof -
  have eq: "route_matches dst x = agrees x" if "x \<in> set table" for x
    using that assms route_matches_bits [of x dst] by (simp add: list_all_iff)
  show ?thesis
  proof (cases "match_loop dst table None")
    case None
    then show ?thesis using match_loop_best [where acc = None and seen = "[]" and dst = dst and table = table] eq by (simp add: filter_empty_conv)
  next
    case (Some m)
    then have "better dst table m" using match_loop_best [where acc = None and seen = "[]" and dst = dst and table = table] by simp
    then show ?thesis using Some eq unfolding better_def list_all_iff by (fastforce simp: list_all_iff)
  qed
qed

definition demo_table :: "route_item list" where
  "demo_table =
     [\<lparr>ri_route_prefix = 0, ri_prefix_length = 0, ri_next_hop = Some (ipv4_address 0x0a000001 0), ri_interface_num = 0\<rparr>,
      \<lparr>ri_route_prefix = 0x0a000000, ri_prefix_length = 8, ri_next_hop = None, ri_interface_num = 0\<rparr>,
      \<lparr>ri_route_prefix = 0xac100000, ri_prefix_length = 16, ri_next_hop = None, ri_interface_num = 1\<rparr>]"

theorem router_longest_prefix_witness:
  "case match_loop 0x0a010203 demo_table None of
      None \<Rightarrow> False
    | Some m \<Rightarrow> \<exists>pre post. demo_table = pre @ m # post
        \<and> (\<forall>k < unat (ri_prefix_length m). bit (ri_route_prefix m) (31 - k) = bit (0x0a010203 :: u32) (31 - k))"
proof -
  have "match_loop 0x0a010203 demo_table None = Some (demo_table ! 1)" by code_simp
  with router_longest_prefix [where table = demo_table and dst = "0x0a010203", OF _ refl] show ?thesis
    by (simp add: demo_table_def) blast
qed

section \<open>Forwarding\<close>

text \<open>What becomes of a datagram: the interface, the datagram with its lower time to live and the next hop.\<close>

definition forward :: "route_item list \<Rightarrow> InternetDatagram \<Rightarrow> (u64 \<times> InternetDatagram \<times> Address) option" where
  "forward table d =
     (case match_loop (ih_dst (id_header d)) table None of
        None \<Rightarrow> None
      | Some x \<Rightarrow>
          if ih_ttl (id_header d) \<le> 1 then None
          else Some (ri_interface_num x, d\<lparr>id_header := (id_header d)\<lparr>ih_ttl := ih_ttl (id_header d) - 1\<rparr>\<rparr>,
                 case ri_next_hop x of Some hop \<Rightarrow> hop | None \<Rightarrow> ipv4_address (ih_dst (id_header d)) 0))"

text \<open>What interface \<open>k\<close> is given to send, in the order of the interfaces the datagrams came from.\<close>

definition sends :: "route_item list \<Rightarrow> nat \<Rightarrow> InternetDatagram list \<Rightarrow> (InternetDatagram \<times> Address) list" where
  "sends table k ds =
     map (\<lambda>d. snd (the (forward table d))) (filter (\<lambda>d. \<exists>x. forward table d = Some x \<and> unat (fst x) = k) ds)"

primrec send_all :: "(InternetDatagram \<times> Address) list \<Rightarrow> NetworkInterface \<Rightarrow> NetworkInterface res" where
  "send_all [] ni = Inr ni"
| "send_all (x # xs) ni =
     (case NetworkInterface_send_datagram (fst x) (snd x) ni of Inl e \<Rightarrow> Inl e | Inr ni \<Rightarrow> send_all xs ni)"

definition route_ok :: "nat \<Rightarrow> route_item \<Rightarrow> bool" where
  "route_ok n x =
     (unat (ri_interface_num x) < n \<and> unat (ri_prefix_length x) \<le> 32 \<and> (case ri_next_hop x of None \<Rightarrow> True | Some hop \<Rightarrow> \<not> isl (Address_ipv4_numeric hop)))"

definition router_ok :: "Router \<Rightarrow> bool" where
  "router_ok r =
     (length (rt_interfaces r) < W64
      \<and> list_all (route_ok (length (rt_interfaces r))) (rt_route_table r)
      \<and> list_all (\<lambda>a. ni_ok (ani_interface a) \<and> list_all datagram_ok (ani_datagrams_out a)) (rt_interfaces r))"

lemma match_loop_mem: "match_loop dst table acc = Some m \<Longrightarrow> acc = Some m \<or> m \<in> set table"
  by (induction table arbitrary: acc) (fastforce split: if_splits)+

lemma route_one_eq:
  "Router_route_one_datagram d r =
     (case forward (rt_route_table r) d of None \<Rightarrow> Inr r | Some (n, d, hop) \<Rightarrow> Router_send n d hop r)"
  by (auto simp: Router_route_one_datagram_def forward_def Let_def not_le split: option.splits)

lemma datagram_ok_ttl: "datagram_ok d \<Longrightarrow> datagram_ok (d\<lparr>id_header := (id_header d)\<lparr>ih_ttl := t\<rparr>\<rparr>)"
  by (simp add: datagram_ok_def ip_header_ok_def)

lemma forward_ok:
  assumes "forward (rt_route_table r) d = Some (n, d', hop)" "router_ok r" "datagram_ok d"
  shows "unat n < length (rt_interfaces r)" "datagram_ok d'" "\<not> isl (Address_ipv4_numeric hop)"
proof -
  obtain x where x: "match_loop (ih_dst (id_header d)) (rt_route_table r) None = Some x" "n = ri_interface_num x"
      "d' = d\<lparr>id_header := (id_header d)\<lparr>ih_ttl := ih_ttl (id_header d) - 1\<rparr>\<rparr>"
      "hop = (case ri_next_hop x of Some hop \<Rightarrow> hop | None \<Rightarrow> ipv4_address (ih_dst (id_header d)) 0)"
    using assms(1) by (auto simp: forward_def split: option.splits if_splits)
  with match_loop_mem [OF x(1)] assms(2) have "route_ok (length (rt_interfaces r)) x"
    by (simp add: router_ok_def list_all_iff)
  with x datagram_ok_ttl [OF assms(3)]
  show "unat n < length (rt_interfaces r)" "datagram_ok d'" "\<not> isl (Address_ipv4_numeric hop)"
    by (auto simp: route_ok_def split: option.splits)
qed

lemma router_ok_at:
  "router_ok r \<Longrightarrow> i < length (rt_interfaces r) \<Longrightarrow>
   ni_ok (ani_interface (rt_interfaces r ! i)) \<and> list_all datagram_ok (ani_datagrams_out (rt_interfaces r ! i))"
  by (simp add: router_ok_def list_all_length)

lemma Router_send_ok:
  assumes "router_ok r" "unat n < length (rt_interfaces r)" "datagram_ok d" "\<not> isl (Address_ipv4_numeric hop)"
  shows "\<exists>ni. NetworkInterface_send_datagram d hop (ani_interface (rt_interfaces r ! unat n)) = Inr ni
    \<and> Router_send n d hop r = Inr (r\<lparr>rt_interfaces := (rt_interfaces r)[unat n := (rt_interfaces r ! unat n)\<lparr>ani_interface := ni\<rparr>]\<rparr>)
    \<and> router_ok (r\<lparr>rt_interfaces := (rt_interfaces r)[unat n := (rt_interfaces r ! unat n)\<lparr>ani_interface := ni\<rparr>]\<rparr>)"
proof -
  let ?a = "rt_interfaces r ! unat n"
  have a: "ni_ok (ani_interface ?a)" "list_all datagram_ok (ani_datagrams_out ?a)"
    using router_ok_at [OF assms(1,2)] by simp_all
  obtain ip where "Address_ipv4_numeric hop = Inr ip" using assms(4) by (cases "Address_ipv4_numeric hop") auto
  then obtain ni where ni: "NetworkInterface_send_datagram d hop (ani_interface ?a) = Inr ni" "ni_ok ni"
    using send_datagram_ok [OF a(1) assms(3)] by blast
  have "n < ssize (rt_interfaces r)"
    using assms(1,2) by (simp add: router_ok_def word_less_nat_alt unat_ssize)
  then have "Router_send n d hop r = Inr (r\<lparr>rt_interfaces := (rt_interfaces r)[unat n := ?a\<lparr>ani_interface := ni\<rparr>]\<rparr>)"
    using ni(1) by (simp add: Router_send_def Router_interface_def)
  moreover have "router_ok (r\<lparr>rt_interfaces := (rt_interfaces r)[unat n := ?a\<lparr>ani_interface := ni\<rparr>]\<rparr>)"
    using assms(1) ni(2) a(2) set_update_subset_insert [of "rt_interfaces r" "unat n"]
    by (fastforce simp: router_ok_def list_all_iff)
  ultimately show ?thesis using ni(1) by blast
qed

lemma route_one_ok:
  assumes "router_ok r" "datagram_ok d"
  shows "\<exists>r'. Router_route_one_datagram d r = Inr r' \<and> router_ok r'
    \<and> (\<forall>k < length (rt_interfaces r).
         send_all (sends (rt_route_table r) k [d]) (ani_interface (rt_interfaces r ! k)) = Inr (ani_interface (rt_interfaces r' ! k)))"
proof (cases "forward (rt_route_table r) d")
  case None
  then show ?thesis using assms(1) by (simp add: route_one_eq sends_def)
next
  case (Some x)
  obtain n d' hop where x: "x = (n, d', hop)" by (cases x)
  note F = forward_ok [OF Some [unfolded x] assms]
  from Router_send_ok [OF assms(1) F] obtain ni where
    ni: "NetworkInterface_send_datagram d' hop (ani_interface (rt_interfaces r ! unat n)) = Inr ni"
      "Router_send n d' hop r = Inr (r\<lparr>rt_interfaces := (rt_interfaces r)[unat n := (rt_interfaces r ! unat n)\<lparr>ani_interface := ni\<rparr>]\<rparr>)"
      "router_ok (r\<lparr>rt_interfaces := (rt_interfaces r)[unat n := (rt_interfaces r ! unat n)\<lparr>ani_interface := ni\<rparr>]\<rparr>)"
    by blast
  then show ?thesis using Some x by (auto simp: route_one_eq sends_def nth_list_update)
qed

lemma send_all_append: "send_all (xs @ ys) ni = (case send_all xs ni of Inl e \<Rightarrow> Inl e | Inr ni \<Rightarrow> send_all ys ni)"
  by (induction xs arbitrary: ni) (simp_all split: sum.split)

lemma sends_append: "sends table k (xs @ ys) = sends table k xs @ sends table k ys"
  by (simp add: sends_def)

text \<open>\<open>routed ds r r'\<close>: from \<open>r\<close> the router has come to \<open>r'\<close> by forwarding the datagrams \<open>ds\<close>.\<close>

definition routed :: "InternetDatagram list \<Rightarrow> Router \<Rightarrow> Router \<Rightarrow> bool" where
  "routed ds r r' =
     (router_ok r' \<and> rt_route_table r' = rt_route_table r \<and> length (rt_interfaces r') = length (rt_interfaces r)
      \<and> (\<forall>k < length (rt_interfaces r).
           send_all (sends (rt_route_table r) k ds) (ani_interface (rt_interfaces r ! k)) = Inr (ani_interface (rt_interfaces r' ! k))))"

lemma routed_refl: "router_ok r \<Longrightarrow> routed [] r r"
  by (simp add: routed_def sends_def)

lemma routed_trans: "routed ds r r' \<Longrightarrow> routed es r' r'' \<Longrightarrow> routed (ds @ es) r r''"
  by (auto simp: routed_def sends_append send_all_append)

lemma Router_pop_ok: "router_ok r \<Longrightarrow> i < length (rt_interfaces r) \<Longrightarrow> router_ok (Router_pop i r)"
proof -
  assume *: "router_ok r" "i < length (rt_interfaces r)"
  let ?a = "rt_interfaces r ! i"
  have "ni_ok (ani_interface ?a)" "list_all datagram_ok (tl (ani_datagrams_out ?a))"
    using router_ok_at [OF *] by (cases "ani_datagrams_out ?a"; simp)+
  then show ?thesis
    using * set_update_subset_insert [of "rt_interfaces r" i] by (fastforce simp: router_ok_def Router_pop_def list_all_iff)
qed

lemma routed_pop:
  assumes "routed ds r r'" "i < length (rt_interfaces r)"
  shows "routed ds r (Router_pop i r')"
  using assms Router_pop_ok [of r' i] by (auto simp: routed_def Router_pop_def nth_list_update)

lemma route_queue_ok:
  assumes "router_ok r" "i < length (rt_interfaces r)"
  shows "\<exists>r'. Router_route_queue i r = Inr r' \<and> routed (ani_datagrams_out (rt_interfaces r ! i)) r r'
    \<and> map ani_datagrams_out (rt_interfaces r') = (map ani_datagrams_out (rt_interfaces r))[i := []]"
  using assms
proof (induction "length (ani_datagrams_out (rt_interfaces r ! i))" arbitrary: r)
  case 0
  then show ?case
    using routed_refl [OF 0(2)] list_update_id [of "map ani_datagrams_out (rt_interfaces r)" i]
    by (subst Router_route_queue.simps) simp
next
  case (Suc k)
  then obtain d ds where q: "ani_datagrams_out (rt_interfaces r ! i) = d # ds" "k = length ds"
    by (cases "ani_datagrams_out (rt_interfaces r ! i)") auto
  have "datagram_ok d" using router_ok_at [OF Suc(3,4)] q(1) by simp
  from route_one_ok [OF Suc(3) this] obtain r1 where r1: "Router_route_one_datagram d r = Inr r1" "router_ok r1"
      "\<forall>k < length (rt_interfaces r).
         send_all (sends (rt_route_table r) k [d]) (ani_interface (rt_interfaces r ! k)) = Inr (ani_interface (rt_interfaces r1 ! k))"
    by blast
  note fr = route_one_frame [OF r1(1)] same_queues [OF route_one_frame(2) [OF r1(1)] Suc(4)]
  let ?r2 = "Router_pop i r1"
  have r1': "routed [d] r r1" using r1(2,3) fr by (simp add: routed_def)
  have r2: "routed [d] r ?r2" by (rule routed_pop [OF r1' Suc(4)])
  have q2: "ani_datagrams_out (rt_interfaces ?r2 ! i) = ds" "i < length (rt_interfaces ?r2)"
      "map ani_datagrams_out (rt_interfaces ?r2) = (map ani_datagrams_out (rt_interfaces r))[i := ds]"
    using fr q(1) Suc(4) by (simp_all add: Router_pop_def map_update)
  have "router_ok ?r2" using r2 by (simp add: routed_def)
  from Suc(1) [of ?r2, OF _ this q2(2)] q2(1) q(2) obtain r' where r': "Router_route_queue i ?r2 = Inr r'" "routed ds ?r2 r'"
      "map ani_datagrams_out (rt_interfaces r') = (map ani_datagrams_out (rt_interfaces ?r2))[i := []]"
    by auto
  have "Router_route_queue i r = Inr r'"
    using q(1) Suc(4) r1(1) r'(1) by (subst Router_route_queue.simps) simp
  moreover have "routed (d # ds) r r'" using routed_trans [OF r2 r'(2)] by simp
  ultimately show ?case using r'(3) q2(3) q(1) by simp
qed

lemma route_from_ok:
  assumes "router_ok r" "i + n = length (rt_interfaces r)"
  shows "\<exists>r'. Router_route_from [i..<i + n] r = Inr r'
    \<and> routed (concat (drop i (map ani_datagrams_out (rt_interfaces r)))) r r'
    \<and> map ani_datagrams_out (rt_interfaces r') = take i (map ani_datagrams_out (rt_interfaces r)) @ replicate n []"
  using assms
proof (induction n arbitrary: i r)
  case 0
  then show ?case using routed_refl [OF 0(1)] by simp
next
  case (Suc n)
  have i: "i < length (rt_interfaces r)" using Suc.prems(2) by simp
  from route_queue_ok [OF Suc.prems(1) i] obtain r1 where
    r1: "Router_route_queue i r = Inr r1" "routed (ani_datagrams_out (rt_interfaces r ! i)) r r1"
      "map ani_datagrams_out (rt_interfaces r1) = (map ani_datagrams_out (rt_interfaces r))[i := []]"
    by blast
  have ok: "router_ok r1" "length (rt_interfaces r1) = length (rt_interfaces r)" using r1(2) by (simp_all add: routed_def)
  from Suc.IH [OF ok(1), of "Suc i"] Suc.prems(2) ok(2) obtain r' where
    r': "Router_route_from [Suc i..<Suc i + n] r1 = Inr r'"
      "routed (concat (drop (Suc i) (map ani_datagrams_out (rt_interfaces r1)))) r1 r'"
      "map ani_datagrams_out (rt_interfaces r') = take (Suc i) (map ani_datagrams_out (rt_interfaces r1)) @ replicate n []"
    by auto
  have "[i..<i + Suc n] = i # [Suc i..<Suc i + n]" by (simp add: upt_conv_Cons)
  then have "Router_route_from [i..<i + Suc n] r = Inr r'" using r1(1) r'(1) by simp
  moreover have "drop i (map ani_datagrams_out (rt_interfaces r))
      = ani_datagrams_out (rt_interfaces r ! i) # drop (Suc i) (map ani_datagrams_out (rt_interfaces r1))"
    using i r1(3) by (simp add: Cons_nth_drop_Suc [symmetric])
  moreover have "take (Suc i) (map ani_datagrams_out (rt_interfaces r1)) = take i (map ani_datagrams_out (rt_interfaces r)) @ [[]]"
    using i r1(3) by (simp add: take_Suc_conv_app_nth)
  ultimately show ?case using routed_trans [OF r1(2) r'(2)] r'(3) by simp
qed

text \<open>
  C21: when every queued datagram is well-formed (version 4, a header of five words or more, lengths
  that fit) and every route names an interface of the router, a prefix of at most 32 bits and an IPv4 next
  hop, \<open>route\<close> empties the queues of all interfaces without an exception, and every interface ends as
  if it had been given, in order, exactly the datagrams whose longest matching route names it and whose
  time to live is above one, each with a time to live lower by one and the next hop of the route or
  else its own destination. All others are dropped.
\<close>

theorem router_forwards:
  assumes "router_ok r"
  shows "\<exists>r'. Router_route r = Inr r' \<and> rt_route_table r' = rt_route_table r
    \<and> map ani_datagrams_out (rt_interfaces r') = replicate (length (rt_interfaces r)) []
    \<and> (\<forall>k. k < length (rt_interfaces r) \<longrightarrow>
         send_all (sends (rt_route_table r) k (concat (map ani_datagrams_out (rt_interfaces r)))) (ani_interface (rt_interfaces r ! k))
           = Inr (ani_interface (rt_interfaces r' ! k)))"
  using route_from_ok [OF assms, of 0 "length (rt_interfaces r)"] by (auto simp: Router_route_def routed_def)

definition demo_router :: Router where
  "demo_router =
     \<lparr>rt_interfaces =
        [\<lparr>ani_interface = NetworkInterface_new (replicate 6 2) (ipv4_address 0x0a000002 0), ani_datagrams_out = [demo_datagram]\<rparr>,
         AsyncNetworkInterface_of (NetworkInterface_new (replicate 6 3) (ipv4_address 0xac100001 0))],
      rt_route_table = demo_table\<rparr>"

theorem router_forwards_witness:
  "\<exists>r'. Router_route demo_router = Inr r' \<and> map ani_datagrams_out (rt_interfaces r') = [[], []]"
proof -
  have "router_ok demo_router"
    by (simp add: router_ok_def demo_router_def demo_table_def route_ok_def AsyncNetworkInterface_of_def demo_datagram_ok
        ni_ok_new [where own = "0x0a000002"] ni_ok_new [where own = "0xac100001"] eth_addr_def)
  from router_forwards [OF this] show ?thesis by (auto simp: demo_router_def)
qed

text \<open>
  A datagram of a version other than 4, which \<open>IPv4Datagram::parse\<close> lets through, makes the forwarding
  throw as soon as the next hop is known.
\<close>

lemma bad_version_throws:
  assumes "ih_ver (id_header d) \<noteq> 4" "Address_ipv4_numeric hop = Inr ip" "ni_arp_table ni ip = Some entry"
    "BufferList_size (id_payload d) = ucast (IPv4Header_payload_length (id_header d))"
  shows "isl (NetworkInterface_send_datagram d hop ni)"
  using assms by (simp add: NetworkInterface_send_datagram_def IPv4Datagram_serialize_def IPv4Header_serialize_def Let_def)

end
