(* ===== verification/Network_Simulator.thy ===== *)
theory Network_Simulator
  imports Router
begin

text \<open>
  \<open>apps/network_simulator.cc\<close>: a router with seven interfaces, six hosts on five wires, and the traffic that tests
  them. The values of the random generator and the resolver are arguments. What is printed is left
  out. The hosts are a list in the order of insertion; the \<open>unordered_map\<close> may visit them in another order, which
  decides no more than which of several failed checks is reported. Popping an empty queue
  is undefined in C++; here it is an error, and shown not to happen.
\<close>

section \<open>Model\<close>

text \<open>What comes after a call that may throw.\<close>

definition res_bind :: "'a res \<Rightarrow> ('a \<Rightarrow> 'b res) \<Rightarrow> 'b res" where
  "res_bind r f = (case r of Inl e \<Rightarrow> Inl e | Inr x \<Rightarrow> f x)"

lemma res_bind_simps [simp]: "res_bind (Inl e) f = Inl e" "res_bind (Inr x) f = f x"
  by (simp_all add: res_bind_def)

definition six_bytes :: "(nat \<Rightarrow> u32) \<Rightarrow> nat \<Rightarrow> EthernetAddress" where
  "six_bytes rd n = map (\<lambda>i. ucast (rd (n + i))) [0..<6]"

unbundle bit_operations_syntax

definition random_host_ethernet_address :: "(nat \<Rightarrow> u32) \<Rightarrow> nat \<Rightarrow> EthernetAddress \<times> nat" where
  "random_host_ethernet_address rd n =
     (let addr = six_bytes rd n;
          addr = addr[0 := addr ! 0 OR 0x02];
          addr = addr[0 := addr ! 0 AND 0xfe]
      in (addr, n + 6))"

definition random_router_ethernet_address :: "(nat \<Rightarrow> u32) \<Rightarrow> nat \<Rightarrow> EthernetAddress \<times> nat" where
  "random_router_ethernet_address rd n =
     (let addr = six_bytes rd n;
          addr = addr[0 := 0x02];
          addr = addr[1 := 0];
          addr = addr[2 := 0]
      in (addr, n + 6))"

definition sim_address :: "getaddrinfo \<Rightarrow> string \<Rightarrow> Address res" where
  "sim_address gai str = Address_of_ip gai str 0"

definition sim_ip :: "getaddrinfo \<Rightarrow> string \<Rightarrow> u32 res" where
  "sim_ip gai str = (case sim_address gai str of Inl e \<Rightarrow> Inl e | Inr a \<Rightarrow> Address_ipv4_numeric a)"

fun clear :: "'a list \<Rightarrow> 'a list \<Rightarrow> 'a list res" where
  "clear [] queue2 = Inr queue2"
| "clear (x # queue1) (y # queue2) = clear queue1 queue2"
| "clear (x # queue1) [] = Inl (Runtime_error ''pop of an empty queue'')"

definition chars :: "bytes \<Rightarrow> string" where
  "chars bs = map (\<lambda>b. char_of (unat b)) bs"

definition summary :: "EthernetFrame \<Rightarrow> string res" where
  "summary frame =
     (let ret = EthernetHeader_to_string (ef_header frame)
      in if eh_type (ef_header frame) = EthernetHeader_TYPE_IPv4
         then (case BufferList_Buffer (ef_payload frame) of
                 Inl e \<Rightarrow> Inl e
               | Inr buffer \<Rightarrow>
                   let (result, dgram) = IPv4Datagram_parse buffer IPv4Datagram_new
                   in Inr (if result = NoError
                           then ret @ '' '' @ IPv4Header_summary (id_header dgram)
                             @ '' payload='' @ [CHR 0x22] @ chars (BufferList_concatenate (id_payload dgram)) @ [CHR 0x22]
                           else ret @ '' (bad IPv4)''))
         else if eh_type (ef_header frame) = EthernetHeader_TYPE_ARP
         then (case BufferList_Buffer (ef_payload frame) of
                 Inl e \<Rightarrow> Inl e
               | Inr buffer \<Rightarrow>
                   let (result, arp) = ARPMessage_parse buffer ARPMessage_new
                   in Inr (if result = NoError then ret @ '' '' @ ARPMessage_to_string arp else ret @ '' (bad ARP)''))
         else Inr ret)"

record Host =
  h_name :: string
  h_my_address :: Address
  h_interface :: AsyncNetworkInterface
  h_next_hop :: Address
  h_expecting_to_receive :: "InternetDatagram list"

text \<open>\<open>x.serialize().concatenate() == expected.serialize().concatenate()\<close>.\<close>

definition same_datagram :: "InternetDatagram \<Rightarrow> InternetDatagram \<Rightarrow> bool res" where
  "same_datagram x expected =
     (case IPv4Datagram_serialize x of
        Inl e \<Rightarrow> Inl e
      | Inr a \<Rightarrow>
          (case IPv4Datagram_serialize expected of
             Inl e \<Rightarrow> Inl e | Inr b \<Rightarrow> Inr (BufferList_concatenate a = BufferList_concatenate b)))"

primrec Host_expecting :: "InternetDatagram \<Rightarrow> InternetDatagram list \<Rightarrow> bool res" where
  "Host_expecting expected [] = Inr False"
| "Host_expecting expected (x # rest) =
     (case same_datagram x expected of
        Inl e \<Rightarrow> Inl e | Inr same \<Rightarrow> if same then Inr True else Host_expecting expected rest)"

primrec Host_remove_expectation :: "InternetDatagram \<Rightarrow> InternetDatagram list \<Rightarrow> InternetDatagram list res" where
  "Host_remove_expectation expected [] = Inr []"
| "Host_remove_expectation expected (x # rest) =
     (case same_datagram x expected of
        Inl e \<Rightarrow> Inl e
      | Inr same \<Rightarrow> if same then Inr rest else map_sum id (\<lambda>rest. x # rest) (Host_remove_expectation expected rest))"

definition Host_new :: "(nat \<Rightarrow> u32) \<Rightarrow> nat \<Rightarrow> string \<Rightarrow> Address \<Rightarrow> Address \<Rightarrow> Host \<times> nat" where
  "Host_new rd n name my_address next_hop =
     (let (addr, n) = random_host_ethernet_address rd n
      in (\<lparr>h_name = name, h_my_address = my_address,
           h_interface = AsyncNetworkInterface_of (NetworkInterface_new addr my_address), h_next_hop = next_hop,
           h_expecting_to_receive = []\<rparr>, n))"

definition string_bytes :: "string \<Rightarrow> bytes" where
  "string_bytes s = map (\<lambda>c. of_nat (of_char c)) s"

definition Host_send_to :: "(nat \<Rightarrow> u32) \<Rightarrow> nat \<Rightarrow> Address \<Rightarrow> u8 \<Rightarrow> Host \<Rightarrow> (InternetDatagram \<times> Host \<times> nat) res" where
  "Host_send_to rd n destination ttl h =
     (case Address_ipv4_numeric (h_my_address h) of
        Inl e \<Rightarrow> Inl e
      | Inr src \<Rightarrow>
          (case Address_ipv4_numeric destination of
             Inl e \<Rightarrow> Inl e
           | Inr dst \<Rightarrow>
               let payload = BufferList_of_string (string_bytes (''random payload: {'' @ dec (unat (rd n)) @ ''}''));
                   header = IPv4Header_new\<lparr>ih_src := src, ih_dst := dst\<rparr>;
                   header = header\<lparr>ih_len := ucast (ucast (ih_hlen header) * 4 + BufferList_size payload), ih_ttl := ttl\<rparr>;
                   dgram = \<lparr>id_header = header, id_payload = payload\<rparr>
               in (case NetworkInterface_send_datagram dgram (h_next_hop h) (ani_interface (h_interface h)) of
                     Inl e \<Rightarrow> Inl e
                   | Inr ni \<Rightarrow> Inr (dgram, h\<lparr>h_interface := (h_interface h)\<lparr>ani_interface := ni\<rparr>\<rparr>, n + 1))))"

definition Host_expect :: "InternetDatagram \<Rightarrow> Host \<Rightarrow> Host" where
  "Host_expect expected h = h\<lparr>h_expecting_to_receive := h_expecting_to_receive h @ [expected]\<rparr>"

text \<open>The loop of \<open>check\<close> over the datagrams received: what is still expected at its end.\<close>

primrec Host_check_received :: "string \<Rightarrow> InternetDatagram list \<Rightarrow> InternetDatagram list \<Rightarrow> InternetDatagram list res" where
  "Host_check_received name [] expecting_to_receive = Inr expecting_to_receive"
| "Host_check_received name (dgram # rest) expecting_to_receive =
     (case Host_expecting dgram expecting_to_receive of
        Inl e \<Rightarrow> Inl e
      | Inr expected \<Rightarrow>
          if \<not> expected
          then Inl (Runtime_error (''Host '' @ name @ '' received unexpected Internet datagram: '' @
                 IPv4Header_summary (id_header dgram) @ '' payload='' @ [CHR 0x22] @
                 chars (BufferList_concatenate (id_payload dgram)) @ [CHR 0x22]))
          else (case Host_remove_expectation dgram expecting_to_receive of
                  Inl e \<Rightarrow> Inl e | Inr left \<Rightarrow> Host_check_received name rest left))"

definition Host_check :: "Host \<Rightarrow> Host res" where
  "Host_check h =
     (case Host_check_received (h_name h) (ani_datagrams_out (h_interface h)) (h_expecting_to_receive h) of
        Inl e \<Rightarrow> Inl e
      | Inr [] \<Rightarrow> Inr (h\<lparr>h_interface := (h_interface h)\<lparr>ani_datagrams_out := []\<rparr>, h_expecting_to_receive := []\<rparr>)
      | Inr (expected # _) \<Rightarrow>
          Inl (Runtime_error (''Host '' @ h_name h @ '' did NOT receive an expected Internet datagram: '' @
            IPv4Header_summary (id_header expected) @ '' payload='' @ [CHR 0x22] @
            chars (BufferList_concatenate (id_payload expected)) @ [CHR 0x22])))"

record Network =
  nw_router :: Router
  nw_default_id :: u64
  nw_eth0_id :: u64
  nw_eth1_id :: u64
  nw_eth2_id :: u64
  nw_uun3_id :: u64
  nw_hs4_id :: u64
  nw_mit5_id :: u64
  nw_hosts :: "(string \<times> Host) list"

text \<open>\<open>recv_frame\<close> for every frame of a queue, each with its payload in one piece.\<close>

primrec deliver :: "EthernetFrame list \<Rightarrow> AsyncNetworkInterface \<Rightarrow> AsyncNetworkInterface res" where
  "deliver [] dst = Inr dst"
| "deliver (frame # to_send) dst =
     (let frame = frame\<lparr>ef_payload := BufferList_of_string (BufferList_concatenate (ef_payload frame))\<rparr>
      in case summary frame of
           Inl e \<Rightarrow> Inl e
         | Inr _ \<Rightarrow>
             (case AsyncNetworkInterface_recv_frame frame dst of Inl e \<Rightarrow> Inl e | Inr dst \<Rightarrow> deliver to_send dst))"

abbreviation frames_out :: "AsyncNetworkInterface \<Rightarrow> EthernetFrame list" where
  "frames_out a \<equiv> ni_frames_out (ani_interface a)"

definition set_frames_out :: "EthernetFrame list \<Rightarrow> AsyncNetworkInterface \<Rightarrow> AsyncNetworkInterface" where
  "set_frames_out fs a = a\<lparr>ani_interface := (ani_interface a)\<lparr>ni_frames_out := fs\<rparr>\<rparr>"

definition clear_frames :: "EthernetFrame list \<Rightarrow> AsyncNetworkInterface \<Rightarrow> AsyncNetworkInterface res" where
  "clear_frames fs a = map_sum id (\<lambda>q. set_frames_out q a) (clear fs (frames_out a))"

definition exchange_frames :: "AsyncNetworkInterface \<Rightarrow> AsyncNetworkInterface \<Rightarrow>
    (AsyncNetworkInterface \<times> AsyncNetworkInterface) res" where
  "exchange_frames x y =
     (let x_frames = frames_out x; y_frames = frames_out y
      in res_bind (deliver x_frames y) (\<lambda>y.
         res_bind (deliver y_frames x) (\<lambda>x.
         res_bind (clear_frames x_frames x) (\<lambda>x.
         res_bind (clear_frames y_frames y) (\<lambda>y. Inr (x, y))))))"

definition exchange_frames3 :: "AsyncNetworkInterface \<Rightarrow> AsyncNetworkInterface \<Rightarrow> AsyncNetworkInterface \<Rightarrow>
    (AsyncNetworkInterface \<times> AsyncNetworkInterface \<times> AsyncNetworkInterface) res" where
  "exchange_frames3 x y z =
     (let x_frames = frames_out x; y_frames = frames_out y; z_frames = frames_out z
      in res_bind (deliver x_frames y) (\<lambda>y.
         res_bind (deliver x_frames z) (\<lambda>z.
         res_bind (deliver y_frames x) (\<lambda>x.
         res_bind (deliver y_frames z) (\<lambda>z.
         res_bind (deliver z_frames x) (\<lambda>x.
         res_bind (deliver z_frames y) (\<lambda>y.
         res_bind (clear_frames x_frames x) (\<lambda>x.
         res_bind (clear_frames y_frames y) (\<lambda>y.
         res_bind (clear_frames z_frames z) (\<lambda>z. Inr (x, y, z)))))))))))"

definition Network_host :: "string \<Rightarrow> Network \<Rightarrow> Host res" where
  "Network_host name nw =
     (case map_of (nw_hosts nw) name of
        None \<Rightarrow> Inl (Runtime_error (''unknown host: '' @ name))
      | Some h \<Rightarrow> if h_name h \<noteq> name then Inl (Runtime_error (''invalid host: '' @ name)) else Inr h)"

text \<open>The host behind the reference that \<open>host\<close> returned, and \<open>_hosts.insert\<close>.\<close>

definition set_host :: "string \<Rightarrow> Host \<Rightarrow> Network \<Rightarrow> Network" where
  "set_host name h nw = nw\<lparr>nw_hosts := map (\<lambda>(k, v). if k = name then (k, h) else (k, v)) (nw_hosts nw)\<rparr>"

definition insert_host :: "string \<Rightarrow> Host \<Rightarrow> Network \<Rightarrow> Network" where
  "insert_host name h nw =
     (if name \<in> fst ` set (nw_hosts nw) then nw else nw\<lparr>nw_hosts := nw_hosts nw @ [(name, h)]\<rparr>)"

definition set_interface :: "u64 \<Rightarrow> AsyncNetworkInterface \<Rightarrow> Network \<Rightarrow> Network" where
  "set_interface i a nw =
     nw\<lparr>nw_router := (nw_router nw)\<lparr>rt_interfaces := (rt_interfaces (nw_router nw))[unat i := a]\<rparr>\<rparr>"

text \<open>One wire between an interface of the router and a host, and the one with two hosts.\<close>

definition wire2 :: "u64 \<Rightarrow> string \<Rightarrow> Network \<Rightarrow> Network res" where
  "wire2 i name nw =
     res_bind (Router_interface i (nw_router nw)) (\<lambda>x.
     res_bind (Network_host name nw) (\<lambda>h.
     res_bind (exchange_frames x (h_interface h)) (\<lambda>(x, y).
     Inr (set_host name (h\<lparr>h_interface := y\<rparr>) (set_interface i x nw)))))"

definition wire3 :: "u64 \<Rightarrow> string \<Rightarrow> string \<Rightarrow> Network \<Rightarrow> Network res" where
  "wire3 i name name' nw =
     res_bind (Router_interface i (nw_router nw)) (\<lambda>x.
     res_bind (Network_host name nw) (\<lambda>h.
     res_bind (Network_host name' nw) (\<lambda>h'.
     res_bind (exchange_frames3 x (h_interface h) (h_interface h')) (\<lambda>(x, y, z).
     Inr (set_host name' (h'\<lparr>h_interface := z\<rparr>) (set_host name (h\<lparr>h_interface := y\<rparr>) (set_interface i x nw)))))))"

definition Network_simulate_physical_connections :: "Network \<Rightarrow> Network res" where
  "Network_simulate_physical_connections nw =
     res_bind (wire2 (nw_default_id nw) ''default_router'' nw) (\<lambda>nw.
     res_bind (wire2 (nw_eth0_id nw) ''applesauce'' nw) (\<lambda>nw.
     res_bind (wire2 (nw_eth2_id nw) ''cherrypie'' nw) (\<lambda>nw.
     res_bind (wire2 (nw_hs4_id nw) ''hs_router'' nw) (\<lambda>nw.
     wire3 (nw_uun3_id nw) ''dm42'' ''dm43'' nw))))"

definition Network_round :: "Network \<Rightarrow> Network res" where
  "Network_round nw =
     res_bind (Router_route (nw_router nw)) (\<lambda>r. Network_simulate_physical_connections (nw\<lparr>nw_router := r\<rparr>))"

primrec Network_rounds :: "nat \<Rightarrow> Network \<Rightarrow> Network res" where
  "Network_rounds 0 nw = Inr nw"
| "Network_rounds (Suc n) nw = res_bind (Network_round nw) (Network_rounds n)"

primrec check_hosts :: "(string \<times> Host) list \<Rightarrow> (string \<times> Host) list res" where
  "check_hosts [] = Inr []"
| "check_hosts (x # rest) =
     res_bind (Host_check (snd x)) (\<lambda>h. res_bind (check_hosts rest) (\<lambda>hosts. Inr ((fst x, h) # hosts)))"

definition Network_simulate :: "Network \<Rightarrow> Network res" where
  "Network_simulate nw =
     res_bind (Network_rounds 256 nw) (\<lambda>nw. res_bind (check_hosts (nw_hosts nw)) (\<lambda>hosts. Inr (nw\<lparr>nw_hosts := hosts\<rparr>)))"

text \<open>The constructor: an interface of the router, a host, and the whole.\<close>

definition add_interface :: "getaddrinfo \<Rightarrow> (nat \<Rightarrow> u32) \<Rightarrow> string \<Rightarrow> Router \<times> nat \<Rightarrow> (u64 \<times> Router \<times> nat) res" where
  "add_interface gai rd str = (\<lambda>(r, n).
     let (addr, n) = random_router_ethernet_address rd n
     in res_bind (sim_address gai str) (\<lambda>a.
        let (i, r) = Router_add_interface (AsyncNetworkInterface_of (NetworkInterface_new addr a)) r in Inr (i, r, n)))"

definition add_host :: "getaddrinfo \<Rightarrow> (nat \<Rightarrow> u32) \<Rightarrow> string \<Rightarrow> string \<Rightarrow> string \<Rightarrow> Network \<times> nat \<Rightarrow> (Network \<times> nat) res" where
  "add_host gai rd name my_address next_hop = (\<lambda>(nw, n).
     res_bind (sim_address gai my_address) (\<lambda>a.
     res_bind (sim_address gai next_hop) (\<lambda>hop.
     let (h, n) = Host_new rd n name a hop in Inr (insert_host name h nw, n))))"

definition add_route :: "getaddrinfo \<Rightarrow> string \<Rightarrow> u8 \<Rightarrow> Address option \<Rightarrow> u64 \<Rightarrow> Network \<Rightarrow> Network res" where
  "add_route gai route_prefix prefix_length next_hop i nw =
     res_bind (sim_ip gai route_prefix) (\<lambda>p.
     Inr (nw\<lparr>nw_router := Router_add_route p prefix_length next_hop i (nw_router nw)\<rparr>))"

definition Network_interfaces :: "getaddrinfo \<Rightarrow> (nat \<Rightarrow> u32) \<Rightarrow> (Network \<times> nat) res" where
  "Network_interfaces gai rd =
     res_bind (add_interface gai rd ''171.67.76.46'' (\<lparr>rt_interfaces = [], rt_route_table = []\<rparr>, 0)) (\<lambda>(default_id, st).
     res_bind (add_interface gai rd ''10.0.0.1'' st) (\<lambda>(eth0_id, st).
     res_bind (add_interface gai rd ''172.16.0.1'' st) (\<lambda>(eth1_id, st).
     res_bind (add_interface gai rd ''192.168.0.1'' st) (\<lambda>(eth2_id, st).
     res_bind (add_interface gai rd ''198.178.229.1'' st) (\<lambda>(uun3_id, st).
     res_bind (add_interface gai rd ''143.195.0.2'' st) (\<lambda>(hs4_id, st).
     res_bind (add_interface gai rd ''128.30.76.255'' st) (\<lambda>(mit5_id, r, n).
     Inr (\<lparr>nw_router = r, nw_default_id = default_id, nw_eth0_id = eth0_id, nw_eth1_id = eth1_id, nw_eth2_id = eth2_id,
           nw_uun3_id = uun3_id, nw_hs4_id = hs4_id, nw_mit5_id = mit5_id, nw_hosts = []\<rparr>, n))))))))"

definition Network_add_hosts :: "getaddrinfo \<Rightarrow> (nat \<Rightarrow> u32) \<Rightarrow> Network \<times> nat \<Rightarrow> (Network \<times> nat) res" where
  "Network_add_hosts gai rd st =
     res_bind (add_host gai rd ''applesauce'' ''10.0.0.2'' ''10.0.0.1'' st) (\<lambda>st.
     res_bind (add_host gai rd ''default_router'' ''171.67.76.1'' ''0'' st) (\<lambda>st.
     res_bind (add_host gai rd ''cherrypie'' ''192.168.0.2'' ''192.168.0.1'' st) (\<lambda>st.
     res_bind (add_host gai rd ''hs_router'' ''143.195.0.1'' ''0'' st) (\<lambda>st.
     res_bind (add_host gai rd ''dm42'' ''198.178.229.42'' ''198.178.229.1'' st) (\<lambda>st.
     add_host gai rd ''dm43'' ''198.178.229.43'' ''198.178.229.1'' st)))))"

definition Network_add_routes :: "getaddrinfo \<Rightarrow> Network \<Rightarrow> Network res" where
  "Network_add_routes gai nw =
     res_bind (Network_host ''default_router'' nw) (\<lambda>dr.
     res_bind (add_route gai ''0.0.0.0'' 0 (Some (h_my_address dr)) (nw_default_id nw) nw) (\<lambda>nw.
     res_bind (add_route gai ''10.0.0.0'' 8 None (nw_eth0_id nw) nw) (\<lambda>nw.
     res_bind (add_route gai ''172.16.0.0'' 16 None (nw_eth1_id nw) nw) (\<lambda>nw.
     res_bind (add_route gai ''192.168.0.0'' 24 None (nw_eth2_id nw) nw) (\<lambda>nw.
     res_bind (add_route gai ''198.178.229.0'' 24 None (nw_uun3_id nw) nw) (\<lambda>nw.
     res_bind (Network_host ''hs_router'' nw) (\<lambda>hs.
     res_bind (add_route gai ''143.195.0.0'' 17 (Some (h_my_address hs)) (nw_hs4_id nw) nw) (\<lambda>nw.
     res_bind (add_route gai ''143.195.128.0'' 18 (Some (h_my_address hs)) (nw_hs4_id nw) nw) (\<lambda>nw.
     res_bind (add_route gai ''143.195.192.0'' 19 (Some (h_my_address hs)) (nw_hs4_id nw) nw) (\<lambda>nw.
     res_bind (sim_address gai ''128.30.0.1'') (\<lambda>hop.
     add_route gai ''128.30.76.255'' 16 (Some hop) (nw_mit5_id nw) nw)))))))))))"

definition Network_new :: "getaddrinfo \<Rightarrow> (nat \<Rightarrow> u32) \<Rightarrow> (Network \<times> nat) res" where
  "Network_new gai rd =
     res_bind (Network_interfaces gai rd) (\<lambda>st.
     res_bind (Network_add_hosts gai rd st) (\<lambda>(nw, n).
     res_bind (Network_add_routes gai nw) (\<lambda>nw. Inr (nw, n))))"

text \<open>One test: a host sends, another one expects the datagram with a lower time to live, and the network runs.\<close>

definition send_from :: "(nat \<Rightarrow> u32) \<Rightarrow> string \<Rightarrow> Address \<Rightarrow> u8 \<Rightarrow> Network \<times> nat \<Rightarrow> (InternetDatagram \<times> Network \<times> nat) res" where
  "send_from rd name destination ttl = (\<lambda>(nw, n).
     res_bind (Network_host name nw) (\<lambda>h.
     res_bind (Host_send_to rd n destination ttl h) (\<lambda>(dgram, h, n). Inr (dgram, set_host name h nw, n))))"

definition expect_at :: "string \<Rightarrow> InternetDatagram \<Rightarrow> Network \<Rightarrow> Network res" where
  "expect_at name dgram nw = res_bind (Network_host name nw) (\<lambda>h. Inr (set_host name (Host_expect dgram h) nw))"

definition lower_ttl :: "InternetDatagram \<Rightarrow> InternetDatagram" where
  "lower_ttl dgram = dgram\<lparr>id_header := (id_header dgram)\<lparr>ih_ttl := ih_ttl (id_header dgram) - 1\<rparr>\<rparr>"

definition test_delivery :: "(nat \<Rightarrow> u32) \<Rightarrow> string \<Rightarrow> Address \<Rightarrow> string \<Rightarrow> Network \<times> nat \<Rightarrow> (Network \<times> nat) res" where
  "test_delivery rd from_host destination to_host st =
     res_bind (send_from rd from_host destination 64 st) (\<lambda>(dgram_sent, nw, n).
     res_bind (expect_at to_host (lower_ttl dgram_sent) nw) (\<lambda>nw.
     res_bind (Network_simulate nw) (\<lambda>nw. Inr (nw, n))))"

definition test_host_to_host :: "(nat \<Rightarrow> u32) \<Rightarrow> string \<Rightarrow> string \<Rightarrow> Network \<times> nat \<Rightarrow> (Network \<times> nat) res" where
  "test_host_to_host rd from_host to_host st =
     res_bind (Network_host to_host (fst st)) (\<lambda>h. test_delivery rd from_host (h_my_address h) to_host st)"

definition test_to_address :: "getaddrinfo \<Rightarrow> (nat \<Rightarrow> u32) \<Rightarrow> string \<Rightarrow> string \<Rightarrow> string \<Rightarrow> Network \<times> nat \<Rightarrow> (Network \<times> nat) res" where
  "test_to_address gai rd from_host destination to_host st =
     res_bind (sim_address gai destination) (\<lambda>a. test_delivery rd from_host a to_host st)"

definition test_expiry :: "getaddrinfo \<Rightarrow> (nat \<Rightarrow> u32) \<Rightarrow> string \<Rightarrow> string \<Rightarrow> u8 \<Rightarrow> Network \<times> nat \<Rightarrow> (Network \<times> nat) res" where
  "test_expiry gai rd from_host destination ttl st =
     res_bind (sim_address gai destination) (\<lambda>a.
     res_bind (send_from rd from_host a ttl st) (\<lambda>(dgram_sent, nw, n).
     res_bind (Network_simulate nw) (\<lambda>nw. Inr (nw, n))))"

definition network_simulator :: "getaddrinfo \<Rightarrow> (nat \<Rightarrow> u32) \<Rightarrow> unit res" where
  "network_simulator gai rd =
     res_bind (Network_new gai rd) (\<lambda>st.
     res_bind (test_host_to_host rd ''applesauce'' ''cherrypie'' st) (\<lambda>st.
     res_bind (test_host_to_host rd ''cherrypie'' ''applesauce'' st) (\<lambda>st.
     res_bind (test_to_address gai rd ''applesauce'' ''1.2.3.4'' ''default_router'' st) (\<lambda>st.
     res_bind (test_to_address gai rd ''applesauce'' ''143.195.131.17'' ''hs_router'' st) (\<lambda>st.
     res_bind (test_to_address gai rd ''cherrypie'' ''143.195.193.52'' ''hs_router'' st) (\<lambda>st.
     res_bind (test_to_address gai rd ''cherrypie'' ''143.195.223.255'' ''hs_router'' st) (\<lambda>st.
     res_bind (test_to_address gai rd ''cherrypie'' ''143.195.224.0'' ''default_router'' st) (\<lambda>st.
     res_bind (test_host_to_host rd ''dm42'' ''dm43'' st) (\<lambda>st.
     res_bind (test_expiry gai rd ''applesauce'' ''1.2.3.4'' 1 st) (\<lambda>st.
     res_bind (test_expiry gai rd ''applesauce'' ''1.2.3.4'' 0 st) (\<lambda>_. Inr ())))))))))))"

end
