(* ===== verification/Network_Delivery.thy ===== *)
theory Network_Delivery
  imports Network_Simulator
begin

text \<open>
  What happens on the wires of the network simulator: one interface sends a datagram to another, by way of ARP
  when it has to, and nobody else on the wire takes notice; the router passes the datagram on; and all tests of
  the simulator succeed.
\<close>

section \<open>One frame\<close>

definition flat :: "EthernetFrame \<Rightarrow> EthernetFrame" where
  "flat f = f\<lparr>ef_payload := [Buffer_of_string (BufferList_concatenate (ef_payload f))]\<rparr>"

lemma deliver_single: "deliver [f] a = AsyncNetworkInterface_recv_frame (flat f) a"
proof -
  have "\<exists>s. summary (flat f) = Inr s"
    by (auto simp: summary_def flat_def BufferList_Buffer_def Let_def split: prod.splits)
  then show ?thesis
    by (auto simp: flat_def BufferList_of_string_def Let_def split: sum.splits)
qed

declare deliver.simps(2) [simp del]

definition arp_frame :: "EthernetAddress \<Rightarrow> EthernetAddress \<Rightarrow> ARPMessage \<Rightarrow> EthernetFrame" where
  "arp_frame dst src m = \<lparr>ef_header = \<lparr>eh_dst = dst, eh_src = src, eh_type = EthernetHeader_TYPE_ARP\<rparr>,
     ef_payload = [Buffer_of_string (arp_bytes m)]\<rparr>"

lemma deliver_arp:
  assumes "arp_ok m" "ni_ok (ani_interface a)" "Address_ipv4_numeric (ni_ip_address (ani_interface a)) = Inr own"
    "dst = ni_ethernet_address (ani_interface a) \<or> dst = ETHERNET_BROADCAST"
  shows "deliver [arp_frame dst src m] a
    = Inr (if arp_for own m (ani_interface a) then a\<lparr>ani_interface := ni_learned own m (ani_interface a)\<rparr> else a)"
proof -
  have "flat (arp_frame dst src m) = arp_frame dst src m" by (simp add: flat_def arp_frame_def)
  moreover have "Buffer_ok (Buffer_of_string (arp_bytes m))" using arp_bytes_length [OF assms(1)] by simp
  ultimately show ?thesis
    using arp_parse_serialized [OF assms(1), of "Buffer_of_string (arp_bytes m)" ARPMessage_new] recv_arp_eq [OF assms(2,3), of m] assms(4)
    by (auto simp: deliver_single AsyncNetworkInterface_recv_frame_def NetworkInterface_recv_frame_def Let_def BufferList_Buffer_def
        arp_frame_def EthernetHeader_TYPE_ARP_def EthernetHeader_TYPE_IPv4_def)
qed

lemma deliver_other:
  assumes "eh_dst (ef_header f) \<noteq> ni_ethernet_address (ani_interface a)" "eh_dst (ef_header f) \<noteq> ETHERNET_BROADCAST"
  shows "deliver [f] a = Inr a"
  using assms by (simp add: deliver_single AsyncNetworkInterface_recv_frame_def NetworkInterface_recv_frame_def flat_def)

text \<open>A datagram as it comes out of a frame.\<close>

definition received :: "InternetDatagram \<Rightarrow> InternetDatagram" where
  "received d = snd (IPv4Datagram_parse (Buffer_of_string (datagram_bytes d)) IPv4Datagram_new)"

definition queued :: "InternetDatagram \<Rightarrow> AsyncNetworkInterface \<Rightarrow> AsyncNetworkInterface" where
  "queued d a = a\<lparr>ani_datagrams_out := ani_datagrams_out a @ [d]\<rparr>"

lemma datagram_buffer_ok: "datagram_ok d \<Longrightarrow> Buffer_ok (Buffer_of_string (datagram_bytes d))"
  using length_datagram_bytes [of d] unat_u16_lt [of "ih_len (id_header d)"] by simp

lemma received_facts:
  assumes "datagram_ok d"
  shows "IPv4Datagram_parse (Buffer_of_string (datagram_bytes d)) IPv4Datagram_new = (NoError, received d)"
    "id_header (received d) = ip_sealed (id_header d)"
    "BufferList_concatenate (id_payload (received d)) = BufferList_concatenate (id_payload d)"
    "datagram_ok (received d)"
proof -
  obtain pl where pl: "IPv4Datagram_parse (Buffer_of_string (datagram_bytes d)) IPv4Datagram_new
      = (NoError, \<lparr>id_header = ip_sealed (id_header d), id_payload = [pl]\<rparr>)"
    "Buffer_str pl = BufferList_concatenate (id_payload d)"
    using datagram_parse_serialized [OF assms datagram_buffer_ok [OF assms], of IPv4Datagram_new] by auto
  then show "IPv4Datagram_parse (Buffer_of_string (datagram_bytes d)) IPv4Datagram_new = (NoError, received d)"
    and h: "id_header (received d) = ip_sealed (id_header d)"
    and p: "BufferList_concatenate (id_payload (received d)) = BufferList_concatenate (id_payload d)"
    by (simp_all add: received_def)
  show "datagram_ok (received d)" using assms h p by (simp add: datagram_ok_def)
qed

lemma deliver_datagram:
  assumes "datagram_ok d" "ni_ethernet_address (ani_interface a) = dst"
  shows "deliver [datagram_frame src dst d] a = Inr (queued (received d) a)"
proof -
  have "BufferList_concatenate (ef_payload (datagram_frame src dst d)) = datagram_bytes d"
    by (simp add: datagram_frame_def datagram_bytes_def)
  then have "flat (datagram_frame src dst d) = \<lparr>ef_header = \<lparr>eh_dst = dst, eh_src = src, eh_type = EthernetHeader_TYPE_IPv4\<rparr>,
      ef_payload = [Buffer_of_string (datagram_bytes d)]\<rparr>"
    by (simp add: flat_def) (simp add: datagram_frame_def)
  then show ?thesis
    using received_facts(1) [OF assms(1)] assms(2)
    by (simp add: deliver_single AsyncNetworkInterface_recv_frame_def NetworkInterface_recv_frame_def Let_def BufferList_Buffer_def queued_def)
qed

section \<open>From one interface to another\<close>

text \<open>An interface that owes nobody anything, with its addresses.\<close>

definition quiet :: "u32 \<Rightarrow> EthernetAddress \<Rightarrow> AsyncNetworkInterface \<Rightarrow> bool" where
  "quiet i e a =
     (ni_ok (ani_interface a) \<and> Address_ipv4_numeric (ni_ip_address (ani_interface a)) = Inr i
      \<and> ni_ethernet_address (ani_interface a) = e \<and> e \<noteq> ETHERNET_BROADCAST \<and> frames_out a = []
      \<and> ni_waiting_arp_response_ip_addr (ani_interface a) = [] \<and> ni_waiting_arp_internet_datagrams (ani_interface a) = [])"

text \<open>What it knows of another one is right.\<close>

definition knows :: "u32 \<Rightarrow> EthernetAddress \<Rightarrow> AsyncNetworkInterface \<Rightarrow> bool" where
  "knows i e a = (case ni_arp_table (ani_interface a) i of None \<Rightarrow> True | Some entry \<Rightarrow> ae_eth_addr entry = e)"

definition learn :: "u32 \<Rightarrow> EthernetAddress \<Rightarrow> AsyncNetworkInterface \<Rightarrow> AsyncNetworkInterface" where
  "learn i e a = a\<lparr>ani_interface := (ani_interface a)\<lparr>ni_arp_table :=
     (ni_arp_table (ani_interface a))(i \<mapsto> \<lparr>ae_eth_addr = e, ae_ttl = arp_entry_default_ttl\<rparr>)\<rparr>\<rparr>"

text \<open>An interface that has asked for an address, with the datagram that waits for it.\<close>

definition asking :: "Address \<Rightarrow> u32 \<Rightarrow> InternetDatagram \<Rightarrow> AsyncNetworkInterface \<Rightarrow> AsyncNetworkInterface" where
  "asking hop i d a = a\<lparr>ani_interface := (ani_interface a)\<lparr>
     ni_waiting_arp_response_ip_addr := [(i, arp_response_default_ttl)], ni_waiting_arp_internet_datagrams := [(hop, d)]\<rparr>\<rparr>"

definition arp_question :: "EthernetAddress \<Rightarrow> u32 \<Rightarrow> u32 \<Rightarrow> ARPMessage" where
  "arp_question e own i = ARPMessage_new\<lparr>am_opcode := ARPMessage_OPCODE_REQUEST, am_sender_ethernet_address := e,
     am_sender_ip_address := own, am_target_ethernet_address := replicate 6 0, am_target_ip_address := i\<rparr>"

definition arp_answer :: "EthernetAddress \<Rightarrow> u32 \<Rightarrow> EthernetAddress \<Rightarrow> u32 \<Rightarrow> ARPMessage" where
  "arp_answer e own e' i = ARPMessage_new\<lparr>am_opcode := ARPMessage_OPCODE_REPLY, am_sender_ethernet_address := e,
     am_target_ethernet_address := e', am_sender_ip_address := own, am_target_ip_address := i\<rparr>"

abbreviation question_frame :: "EthernetAddress \<Rightarrow> u32 \<Rightarrow> u32 \<Rightarrow> EthernetFrame" where
  "question_frame e own i \<equiv> arp_frame ETHERNET_BROADCAST e (arp_question e own i)"

abbreviation answer_frame :: "EthernetAddress \<Rightarrow> u32 \<Rightarrow> EthernetAddress \<Rightarrow> u32 \<Rightarrow> EthernetFrame" where
  "answer_frame e own e' i \<equiv> arp_frame e' e (arp_answer e own e' i)"

lemma arp_frames:
  "request_frame e own i = question_frame e own i"
  "reply_frame e own (arp_question e' i own') = answer_frame e own e' i"
  by (simp_all add: request_frame_def reply_frame_def arp_frame_def arp_question_def arp_answer_def)

lemma arp_messages_ok:
  "eth_addr e \<Longrightarrow> arp_ok (arp_question e own i)" "eth_addr e \<Longrightarrow> eth_addr e' \<Longrightarrow> arp_ok (arp_answer e own e' i)"
  by (simp_all add: arp_question_def arp_answer_def arp_ok_def ARPMessage_supported_def ARPMessage_new_def eth_addr_def)

lemma quietD:
  assumes "quiet i e a"
  shows "ni_ok (ani_interface a)" "Address_ipv4_numeric (ni_ip_address (ani_interface a)) = Inr i"
    "ni_ethernet_address (ani_interface a) = e" "frames_out a = []" "ni_waiting_arp_response_ip_addr (ani_interface a) = []"
    "ni_waiting_arp_internet_datagrams (ani_interface a) = []" "eth_addr e" "e \<noteq> ETHERNET_BROADCAST"
  using assms by (auto simp: quiet_def ni_ok_def)

lemma quiet_learn: "quiet i e a \<Longrightarrow> eth_addr e' \<Longrightarrow> quiet i e (learn i' e' a)"
  by (auto simp: quiet_def learn_def ni_ok_def)

lemma quiet_queued [simp]: "quiet i e (queued d a) = quiet i e a"
  by (simp add: quiet_def queued_def)

lemma knows_learn: "knows i e a \<Longrightarrow> knows i e (learn i' e' a) \<longleftrightarrow> i' = i \<longrightarrow> e' = e"
  by (auto simp: knows_def learn_def)

lemma knows_queued [simp]: "knows i e (queued d a) = knows i e a"
  by (simp add: knows_def queued_def)

lemma set_frames_out_simps [simp]:
  "set_frames_out fs (set_frames_out gs a) = set_frames_out fs a" "frames_out (set_frames_out fs a) = fs"
  "frames_out (learn i e a) = frames_out a" "frames_out (queued d a) = frames_out a"
  "frames_out (asking hop i d a) = frames_out a"
  "ani_datagrams_out (set_frames_out fs a) = ani_datagrams_out a" "ani_datagrams_out (learn i e a) = ani_datagrams_out a"
  "ani_datagrams_out (queued d a) = ani_datagrams_out a @ [d]"
  by (simp_all add: set_frames_out_def learn_def queued_def asking_def)

lemma set_frames_out_self: "frames_out a = fs \<Longrightarrow> set_frames_out fs a = a"
  by (cases a; simp add: set_frames_out_def; hypsubst_thin; metis NetworkInterface.surjective NetworkInterface.update_convs(3))

lemma send_known:
  assumes "quiet i e a" "ni_arp_table (ani_interface a) i' = Some entry" "ae_eth_addr entry = e'" "datagram_ok d"
    "Address_ipv4_numeric hop = Inr i'"
  shows "NetworkInterface_send_datagram d hop (ani_interface a) = Inr (ani_interface (set_frames_out [datagram_frame e e' d] a))"
  using send_datagram_cases [OF quietD(2) [OF assms(1)] assms(4,5)] quietD [OF assms(1)] assms(2,3)
  by (simp add: set_frames_out_def)

lemma send_unknown:
  assumes "quiet i e a" "ni_arp_table (ani_interface a) i' = None" "datagram_ok d" "Address_ipv4_numeric hop = Inr i'"
  shows "NetworkInterface_send_datagram d hop (ani_interface a)
    = Inr (ani_interface (set_frames_out [question_frame e i i'] (asking hop i' d a)))"
  using send_datagram_cases [OF quietD(2) [OF assms(1)] assms(3,4)] quietD [OF assms(1)] assms(2)
  by (simp add: set_frames_out_def asking_def arp_frames)

lemma deliver_question:
  assumes "quiet i e a" "quiet i' e' b"
  shows "deliver [question_frame e i i'] b = Inr (set_frames_out [answer_frame e' i' e i] (learn i e b))"
proof -
  note A = quietD [OF assms(1)] and B = quietD [OF assms(2)]
  have f: "am_opcode (arp_question e i i') = ARPMessage_OPCODE_REQUEST" "am_target_ip_address (arp_question e i i') = i'"
    "am_sender_ip_address (arp_question e i i') = i" "am_sender_ethernet_address (arp_question e i i') = e"
    by (simp_all add: arp_question_def)
  show ?thesis
    using deliver_arp [OF arp_messages_ok(1) [OF A(7)] B(1,2), of ETHERNET_BROADCAST e i i'] B(3-6)
    by (simp add: arp_for_def ni_learned_def f Let_def arp_frames set_frames_out_def learn_def)
qed

lemma deliver_answer:
  assumes "quiet i e a" "quiet i' e' b" "Address_ipv4_numeric hop = Inr i'" "datagram_ok d"
    "ni_arp_table (ani_interface a) i' = None"
  shows "deliver [answer_frame e' i' e i] (asking hop i' d a) = Inr (set_frames_out [datagram_frame e e' d] (learn i' e' a))"
proof -
  note A = quietD [OF assms(1)] and B = quietD [OF assms(2)]
  have f: "am_opcode (arp_answer e' i' e i) = ARPMessage_OPCODE_REPLY" "am_target_ethernet_address (arp_answer e' i' e i) = e"
    "am_sender_ip_address (arp_answer e' i' e i) = i'" "am_sender_ethernet_address (arp_answer e' i' e i) = e'"
    by (simp_all add: arp_answer_def)
  have ok: "ni_ok (ani_interface (asking hop i' d a))"
    using A(1) assms(3-5) by (simp add: asking_def ni_ok_def ni_waits_def)
  have self: "a\<lparr>ani_interface := n\<rparr> = a\<lparr>ani_interface := m\<rparr>" if "n = m" for n m using that by simp
  have own: "Address_ipv4_numeric (ni_ip_address (ani_interface (asking hop i' d a))) = Inr i"
    "ni_ethernet_address (ani_interface (asking hop i' d a)) = e"
    using A by (simp_all add: asking_def)
  have "deliver [answer_frame e' i' e i] (asking hop i' d a)
      = Inr ((asking hop i' d a)\<lparr>ani_interface := ni_learned i (arp_answer e' i' e i) (ani_interface (asking hop i' d a))\<rparr>)"
    using deliver_arp [OF arp_messages_ok(2) [OF B(7) A(7)] ok own(1), of e e' i' i] own(2) f by (simp add: arp_for_def)
  also have "(asking hop i' d a)\<lparr>ani_interface := ni_learned i (arp_answer e' i' e i) (ani_interface (asking hop i' d a))\<rparr>
      = set_frames_out [datagram_frame e e' d] (learn i' e' a)"
    using A(3-6) assms(3) arp_opcodes
    by (simp add: ni_learned_def f Let_def set_frames_out_def learn_def asking_def)
  finally show ?thesis .
qed

lemma deliver_bystander:
  assumes "quiet i e a" "quiet i' e' b" "quiet u w c" "u \<noteq> i'" "w \<noteq> e" "w \<noteq> e'"
  shows "deliver [question_frame e i i'] c = Inr c" "deliver [answer_frame e' i' e i] c = Inr c"
    "deliver [datagram_frame e e' d] c = Inr c"
proof -
  note A = quietD [OF assms(1)] and B = quietD [OF assms(2)] and C = quietD [OF assms(3)]
  have "\<not> arp_for u (arp_question e i i') (ani_interface c)"
    using assms(4) arp_opcodes by (simp add: arp_for_def arp_question_def)
  then show "deliver [question_frame e i i'] c = Inr c"
    using deliver_arp [OF arp_messages_ok(1) [OF A(7)] C(1,2), of ETHERNET_BROADCAST] by simp
  show "deliver [answer_frame e' i' e i] c = Inr c"
    by (rule deliver_other) (use assms(5) A(8) C(3) in \<open>simp_all add: arp_frame_def\<close>)
  show "deliver [datagram_frame e e' d] c = Inr c"
    by (rule deliver_other) (use assms(6) B(8) C(3) in \<open>simp_all add: datagram_frame_def\<close>)
qed

section \<open>Exchanging frames\<close>

lemma clear_append [simp]: "clear xs (xs @ ys) = Inr ys"
  by (induction xs) simp_all

lemma clear_self [simp]: "clear xs xs = Inr []"
  using clear_append [of xs "[]"] by simp

lemma clear_frames_simps [simp]:
  "clear_frames (frames_out a) a = Inr (set_frames_out [] a)" "clear_frames [] a = Inr a"
  by (simp_all add: clear_frames_def set_frames_out_self)

text \<open>Only one side has frames.\<close>

lemma exchange_left:
  "frames_out y = [] \<Longrightarrow> deliver (frames_out x) y = Inr y' \<Longrightarrow> exchange_frames x y = Inr (set_frames_out [] x, y')"
  by (simp add: exchange_frames_def)

lemma exchange_right:
  "frames_out x = [] \<Longrightarrow> deliver (frames_out y) x = Inr x' \<Longrightarrow> exchange_frames x y = Inr (x', set_frames_out [] y)"
  by (simp add: exchange_frames_def)

lemma exchange_quiet: "frames_out x = [] \<Longrightarrow> frames_out y = [] \<Longrightarrow> exchange_frames x y = Inr (x, y)"
  by (simp add: exchange_frames_def)

lemma exchange3_first:
  "frames_out y = [] \<Longrightarrow> frames_out z = [] \<Longrightarrow> deliver (frames_out x) y = Inr y' \<Longrightarrow> deliver (frames_out x) z = Inr z' \<Longrightarrow>
   exchange_frames3 x y z = Inr (set_frames_out [] x, y', z')"
  by (simp add: exchange_frames3_def)

lemma exchange3_second:
  "frames_out x = [] \<Longrightarrow> frames_out z = [] \<Longrightarrow> deliver (frames_out y) x = Inr x' \<Longrightarrow> deliver (frames_out y) z = Inr z' \<Longrightarrow>
   exchange_frames3 x y z = Inr (x', set_frames_out [] y, z')"
  by (simp add: exchange_frames3_def)

lemma exchange3_third:
  "frames_out x = [] \<Longrightarrow> frames_out y = [] \<Longrightarrow> deliver (frames_out z) x = Inr x' \<Longrightarrow> deliver (frames_out z) y = Inr y' \<Longrightarrow>
   exchange_frames3 x y z = Inr (x', y', set_frames_out [] z)"
  by (simp add: exchange_frames3_def)

lemma exchange3_quiet:
  "frames_out x = [] \<Longrightarrow> frames_out y = [] \<Longrightarrow> frames_out z = [] \<Longrightarrow> exchange_frames3 x y z = Inr (x, y, z)"
  by (simp add: exchange_frames3_def)

text \<open>Rounds of a wire, as long as the router has nothing to forward from it.\<close>

inductive wire_steps :: "nat \<Rightarrow> AsyncNetworkInterface \<times> AsyncNetworkInterface \<Rightarrow> AsyncNetworkInterface \<times> AsyncNetworkInterface \<Rightarrow> bool" where
  wire_zero: "wire_steps 0 p p"
| wire_suc: "ani_datagrams_out x = [] \<Longrightarrow> exchange_frames x y = Inr q \<Longrightarrow> wire_steps n q p \<Longrightarrow> wire_steps (Suc n) (x, y) p"

lemma wire_one: "ani_datagrams_out x = [] \<Longrightarrow> exchange_frames x y = Inr q \<Longrightarrow> wire_steps 1 (x, y) q"
  using wire_suc [OF _ _ wire_zero] by simp

lemma wire_three:
  "ani_datagrams_out x = [] \<Longrightarrow> exchange_frames x y = Inr (x1, y1) \<Longrightarrow> ani_datagrams_out x1 = [] \<Longrightarrow>
   exchange_frames x1 y1 = Inr (x2, y2) \<Longrightarrow> ani_datagrams_out x2 = [] \<Longrightarrow> exchange_frames x2 y2 = Inr q \<Longrightarrow> wire_steps 3 (x, y) q"
  unfolding numeral_3_eq_3 by (rule wire_suc, assumption, assumption)+ (rule wire_zero)

text \<open>A datagram given to one interface of a wire for the other one.\<close>

definition gave :: "InternetDatagram \<Rightarrow> Address \<Rightarrow> AsyncNetworkInterface \<Rightarrow> AsyncNetworkInterface \<Rightarrow> bool" where
  "gave d hop a a' = (NetworkInterface_send_datagram d hop (ani_interface a) = Inr (ani_interface a') \<and> ani_datagrams_out a' = ani_datagrams_out a)"

text \<open>The two ends when it has arrived: they may know each other now.\<close>

definition met :: "u32 \<Rightarrow> EthernetAddress \<Rightarrow> AsyncNetworkInterface \<Rightarrow> AsyncNetworkInterface \<Rightarrow> bool" where
  "met i e a a' = (a' = a \<or> a' = learn i e a)"

lemma met_kept:
  assumes "met i e a a'" "eth_addr e" "knows i e a"
  shows "quiet i' e' a \<Longrightarrow> quiet i' e' a'" "ani_datagrams_out a' = ani_datagrams_out a" "knows i e a'"
    "knows i' e' a \<Longrightarrow> i \<noteq> i' \<Longrightarrow> knows i' e' a'"
  using assms quiet_learn [of i' e' a e i] by (auto simp: met_def knows_learn)

lemma wire_to_router:
  assumes Q: "quiet i e x" "quiet i' e' y" "knows i e y" and d: "datagram_ok d" "Address_ipv4_numeric hop = Inr i" "ani_datagrams_out x = []"
  shows "\<exists>y1 n x' y'. gave d hop y y1 \<and> wire_steps n (x, y1) (queued (received d) x', y') \<and> n \<le> 3 \<and> met i' e' x x' \<and> met i e y y'"
proof -
  note X = quietD [OF Q(1)] and Y = quietD [OF Q(2)]
  show ?thesis
  proof (cases "ni_arp_table (ani_interface y) i")
    case (Some entry)
    then have e: "ae_eth_addr entry = e" using Q(3) by (simp add: knows_def)
    let ?y1 = "set_frames_out [datagram_frame e' e d] y"
    have "gave d hop y ?y1" using send_known [OF Q(2) Some e d(1,2)] by (simp add: gave_def)
    moreover have "exchange_frames x ?y1 = Inr (queued (received d) x, y)"
      using exchange_right [of x ?y1] X(3,4) Y(4) deliver_datagram [OF d(1) X(3), of e'] by (simp add: set_frames_out_self)
    then have "wire_steps 1 (x, ?y1) (queued (received d) x, y)" by (rule wire_one [OF d(3)])
    ultimately show ?thesis unfolding met_def by (intro exI [of _ ?y1] exI [of _ 1] exI [of _ x] exI [of _ y]) simp
  next
    case None
    let ?y1 = "set_frames_out [question_frame e' i' i] (asking hop i d y)"
    have "gave d hop y ?y1" using send_unknown [OF Q(2) None d(1,2)] by (simp add: gave_def asking_def)
    moreover have "wire_steps 3 (x, ?y1) (queued (received d) (learn i' e' x), learn i e y)"
    proof (rule wire_three [OF d(3)])
      let ?x1 = "set_frames_out [answer_frame e i e' i'] (learn i' e' x)" and ?y2 = "asking hop i d y"
      have "set_frames_out [] ?y2 = ?y2" by (rule set_frames_out_self) (simp add: Y(4))
      then show "exchange_frames x ?y1 = Inr (?x1, ?y2)"
        using exchange_right [OF X(4), of ?y1 ?x1] deliver_question [OF Q(2,1)] by simp
      show "ani_datagrams_out ?x1 = []" using d(3) by simp
      let ?x2 = "learn i' e' x" and ?y3 = "set_frames_out [datagram_frame e' e d] (learn i e y)"
      have "set_frames_out [] ?x2 = ?x2" by (rule set_frames_out_self) (simp add: X(4))
      then show "exchange_frames ?x1 ?y2 = Inr (?x2, ?y3)"
        using exchange_left [of ?y2 ?x1 ?y3] deliver_answer [OF Q(2,1) d(2,1) None] Y(4) by simp
      show "ani_datagrams_out ?x2 = []" using d(3) by simp
      have "set_frames_out [] (learn i e y) = learn i e y" by (rule set_frames_out_self) (simp add: Y(4))
      moreover have "ni_ethernet_address (ani_interface ?x2) = e" using X(3) by (simp add: learn_def)
      ultimately show "exchange_frames ?x2 ?y3 = Inr (queued (received d) ?x2, learn i e y)"
        using exchange_right [of ?x2 ?y3] X(4) deliver_datagram [OF d(1), of ?x2 e e'] by simp
    qed
    ultimately show ?thesis unfolding met_def
      by (intro exI [of _ ?y1] exI [of _ 3] exI [of _ "learn i' e' x"] exI [of _ "learn i e y"]) simp
  qed
qed

lemma wire_to_host:
  assumes Q: "quiet i e x" "quiet i' e' y" "knows i' e' x" and d: "datagram_ok d" "Address_ipv4_numeric hop = Inr i'" "ani_datagrams_out x = []"
  shows "\<exists>x1 n x' y'. gave d hop x x1 \<and> wire_steps n (x1, y) (x', queued (received d) y') \<and> 0 < n \<and> n \<le> 3 \<and> met i' e' x x' \<and> met i e y y'"
proof -
  note X = quietD [OF Q(1)] and Y = quietD [OF Q(2)]
  show ?thesis
  proof (cases "ni_arp_table (ani_interface x) i'")
    case (Some entry)
    then have e: "ae_eth_addr entry = e'" using Q(3) by (simp add: knows_def)
    let ?x1 = "set_frames_out [datagram_frame e e' d] x"
    have "gave d hop x ?x1" using send_known [OF Q(1) Some e d(1,2)] by (simp add: gave_def)
    moreover have "exchange_frames ?x1 y = Inr (x, queued (received d) y)"
      using exchange_left [of y ?x1] Y(3,4) X(4) deliver_datagram [OF d(1) Y(3), of e] by (simp add: set_frames_out_self)
    then have "wire_steps 1 (?x1, y) (x, queued (received d) y)" by (intro wire_one) (simp_all add: d(3))
    ultimately show ?thesis unfolding met_def by (intro exI [of _ ?x1] exI [of _ 1] exI [of _ x] exI [of _ y]) simp
  next
    case None
    let ?x1 = "set_frames_out [question_frame e i i'] (asking hop i' d x)"
    have "gave d hop x ?x1" using send_unknown [OF Q(1) None d(1,2)] by (simp add: gave_def asking_def)
    moreover have "wire_steps 3 (?x1, y) (learn i' e' x, queued (received d) (learn i e y))"
    proof (rule wire_three)
      let ?y1 = "set_frames_out [answer_frame e' i' e i] (learn i e y)" and ?x2 = "asking hop i' d x"
      show "ani_datagrams_out ?x1 = []" "ani_datagrams_out ?x2 = []" using d(3) by (simp_all add: asking_def)
      have "set_frames_out [] ?x2 = ?x2" by (rule set_frames_out_self) (simp add: X(4))
      then show "exchange_frames ?x1 y = Inr (?x2, ?y1)"
        using exchange_left [OF Y(4), of ?x1 ?y1] deliver_question [OF Q(1,2)] by simp
      let ?y2 = "learn i e y" and ?x3 = "set_frames_out [datagram_frame e e' d] (learn i' e' x)"
      have "set_frames_out [] ?y2 = ?y2" by (rule set_frames_out_self) (simp add: Y(4))
      then show "exchange_frames ?x2 ?y1 = Inr (?x3, ?y2)"
        using exchange_right [of ?x2 ?y1 ?x3] deliver_answer [OF Q(1,2) d(2,1) None] X(4) by simp
      show "ani_datagrams_out ?x3 = []" using d(3) by simp
      have "set_frames_out [] (learn i' e' x) = learn i' e' x" by (rule set_frames_out_self) (simp add: X(4))
      moreover have "ni_ethernet_address (ani_interface ?y2) = e'" using Y(3) by (simp add: learn_def)
      ultimately show "exchange_frames ?x3 ?y2 = Inr (learn i' e' x, queued (received d) ?y2)"
        using exchange_left [of ?y2 ?x3] Y(4) deliver_datagram [OF d(1), of ?y2 e' e] by simp
    qed
    ultimately show ?thesis unfolding met_def
      by (intro exI [of _ ?x1] exI [of _ 3] exI [of _ "learn i' e' x"] exI [of _ "learn i e y"]) simp
  qed
qed

text \<open>The same with a third interface on the wire, which takes no part.\<close>

inductive wire3_steps :: "nat \<Rightarrow> AsyncNetworkInterface \<times> AsyncNetworkInterface \<times> AsyncNetworkInterface \<Rightarrow>
    AsyncNetworkInterface \<times> AsyncNetworkInterface \<times> AsyncNetworkInterface \<Rightarrow> bool" where
  wire3_zero: "wire3_steps 0 p p"
| wire3_suc: "ani_datagrams_out x = [] \<Longrightarrow> exchange_frames3 x y z = Inr q \<Longrightarrow> wire3_steps n q p \<Longrightarrow> wire3_steps (Suc n) (x, y, z) p"

lemma wire3_one: "ani_datagrams_out x = [] \<Longrightarrow> exchange_frames3 x y z = Inr q \<Longrightarrow> wire3_steps 1 (x, y, z) q"
  using wire3_suc [OF _ _ wire3_zero] by simp

lemma wire3_three:
  "ani_datagrams_out x = [] \<Longrightarrow> exchange_frames3 x y z = Inr (x1, y1, z1) \<Longrightarrow> ani_datagrams_out x1 = [] \<Longrightarrow>
   exchange_frames3 x1 y1 z1 = Inr (x2, y2, z2) \<Longrightarrow> ani_datagrams_out x2 = [] \<Longrightarrow> exchange_frames3 x2 y2 z2 = Inr q \<Longrightarrow>
   wire3_steps 3 (x, y, z) q"
  unfolding numeral_3_eq_3 by (rule wire3_suc, assumption, assumption)+ (rule wire3_zero)

lemma wire3_to_router:
  assumes Q: "quiet i e x" "quiet i' e' y" "knows i e y" "quiet u w z" "u \<noteq> i" "w \<noteq> e" "w \<noteq> e'"
    and d: "datagram_ok d" "Address_ipv4_numeric hop = Inr i" "ani_datagrams_out x = []"
  shows "\<exists>y1 n x' y'. gave d hop y y1 \<and> wire3_steps n (x, y1, z) (queued (received d) x', y', z) \<and> n \<le> 3 \<and> met i' e' x x' \<and> met i e y y'"
proof -
  note X = quietD [OF Q(1)] and Y = quietD [OF Q(2)] and Z = quietD [OF Q(4)]
  note B = deliver_bystander [OF Q(2,1,4,5,7,6)]
  show ?thesis
  proof (cases "ni_arp_table (ani_interface y) i")
    case (Some entry)
    then have e: "ae_eth_addr entry = e" using Q(3) by (simp add: knows_def)
    let ?y1 = "set_frames_out [datagram_frame e' e d] y"
    have "gave d hop y ?y1" using send_known [OF Q(2) Some e d(1,2)] by (simp add: gave_def)
    moreover have "exchange_frames3 x ?y1 z = Inr (queued (received d) x, y, z)"
      using exchange3_second [of x z ?y1] X(3,4) Y(4) Z(4) deliver_datagram [OF d(1) X(3), of e'] B(3) by (simp add: set_frames_out_self)
    then have "wire3_steps 1 (x, ?y1, z) (queued (received d) x, y, z)" by (rule wire3_one [OF d(3)])
    ultimately show ?thesis unfolding met_def by (intro exI [of _ ?y1] exI [of _ 1] exI [of _ x] exI [of _ y]) simp
  next
    case None
    let ?y1 = "set_frames_out [question_frame e' i' i] (asking hop i d y)"
    have "gave d hop y ?y1" using send_unknown [OF Q(2) None d(1,2)] by (simp add: gave_def asking_def)
    moreover have "wire3_steps 3 (x, ?y1, z) (queued (received d) (learn i' e' x), learn i e y, z)"
    proof (rule wire3_three [OF d(3)])
      let ?x1 = "set_frames_out [answer_frame e i e' i'] (learn i' e' x)" and ?y2 = "asking hop i d y"
      have "set_frames_out [] ?y2 = ?y2" by (rule set_frames_out_self) (simp add: Y(4))
      then show "exchange_frames3 x ?y1 z = Inr (?x1, ?y2, z)"
        using exchange3_second [OF X(4) Z(4), of ?y1 ?x1 z] deliver_question [OF Q(2,1)] B(1) by simp
      show "ani_datagrams_out ?x1 = []" using d(3) by simp
      let ?x2 = "learn i' e' x" and ?y3 = "set_frames_out [datagram_frame e' e d] (learn i e y)"
      have "set_frames_out [] ?x2 = ?x2" by (rule set_frames_out_self) (simp add: X(4))
      then show "exchange_frames3 ?x1 ?y2 z = Inr (?x2, ?y3, z)"
        using exchange3_first [of ?y2 z ?x1 ?y3 z] deliver_answer [OF Q(2,1) d(2,1) None] Y(4) Z(4) B(2) by simp
      show "ani_datagrams_out ?x2 = []" using d(3) by simp
      have "set_frames_out [] (learn i e y) = learn i e y" by (rule set_frames_out_self) (simp add: Y(4))
      moreover have "ni_ethernet_address (ani_interface ?x2) = e" using X(3) by (simp add: learn_def)
      ultimately show "exchange_frames3 ?x2 ?y3 z = Inr (queued (received d) ?x2, learn i e y, z)"
        using exchange3_second [of ?x2 z ?y3] X(4) Z(4) deliver_datagram [OF d(1), of ?x2 e e'] B(3) by simp
    qed
    ultimately show ?thesis unfolding met_def
      by (intro exI [of _ ?y1] exI [of _ 3] exI [of _ "learn i' e' x"] exI [of _ "learn i e y"]) simp
  qed
qed

lemma wire3_to_third:
  assumes Q: "quiet i e x" "quiet i' e' z" "knows i' e' x" "quiet u w y" "u \<noteq> i'" "w \<noteq> e" "w \<noteq> e'"
    and d: "datagram_ok d" "Address_ipv4_numeric hop = Inr i'" "ani_datagrams_out x = []"
  shows "\<exists>x1 n x' z'. gave d hop x x1 \<and> wire3_steps n (x1, y, z) (x', y, queued (received d) z') \<and> 0 < n \<and> n \<le> 3 \<and> met i' e' x x' \<and> met i e z z'"
proof -
  note X = quietD [OF Q(1)] and Z = quietD [OF Q(2)] and Y = quietD [OF Q(4)]
  note B = deliver_bystander [OF Q(1,2,4,5,6,7)]
  show ?thesis
  proof (cases "ni_arp_table (ani_interface x) i'")
    case (Some entry)
    then have e: "ae_eth_addr entry = e'" using Q(3) by (simp add: knows_def)
    let ?x1 = "set_frames_out [datagram_frame e e' d] x"
    have "gave d hop x ?x1" using send_known [OF Q(1) Some e d(1,2)] by (simp add: gave_def)
    moreover have "exchange_frames3 ?x1 y z = Inr (x, y, queued (received d) z)"
      using exchange3_first [of y z ?x1] Z(3,4) X(4) Y(4) deliver_datagram [OF d(1) Z(3), of e] B(3) by (simp add: set_frames_out_self)
    then have "wire3_steps 1 (?x1, y, z) (x, y, queued (received d) z)" by (intro wire3_one) (simp_all add: d(3))
    ultimately show ?thesis unfolding met_def by (intro exI [of _ ?x1] exI [of _ 1] exI [of _ x] exI [of _ z]) simp
  next
    case None
    let ?x1 = "set_frames_out [question_frame e i i'] (asking hop i' d x)"
    have "gave d hop x ?x1" using send_unknown [OF Q(1) None d(1,2)] by (simp add: gave_def asking_def)
    moreover have "wire3_steps 3 (?x1, y, z) (learn i' e' x, y, queued (received d) (learn i e z))"
    proof (rule wire3_three)
      let ?z1 = "set_frames_out [answer_frame e' i' e i] (learn i e z)" and ?x2 = "asking hop i' d x"
      show "ani_datagrams_out ?x1 = []" "ani_datagrams_out ?x2 = []" using d(3) by (simp_all add: asking_def)
      have "set_frames_out [] ?x2 = ?x2" by (rule set_frames_out_self) (simp add: X(4))
      then show "exchange_frames3 ?x1 y z = Inr (?x2, y, ?z1)"
        using exchange3_first [OF Y(4) Z(4), of ?x1 y ?z1] deliver_question [OF Q(1,2)] B(1) by simp
      let ?z2 = "learn i e z" and ?x3 = "set_frames_out [datagram_frame e e' d] (learn i' e' x)"
      have "set_frames_out [] ?z2 = ?z2" by (rule set_frames_out_self) (simp add: Z(4))
      then show "exchange_frames3 ?x2 y ?z1 = Inr (?x3, y, ?z2)"
        using exchange3_third [of ?x2 y ?z1 ?x3 y] deliver_answer [OF Q(1,2) d(2,1) None] X(4) Y(4) B(2) by simp
      show "ani_datagrams_out ?x3 = []" using d(3) by simp
      have "set_frames_out [] (learn i' e' x) = learn i' e' x" by (rule set_frames_out_self) (simp add: X(4))
      moreover have "ni_ethernet_address (ani_interface ?z2) = e'" using Z(3) by (simp add: learn_def)
      ultimately show "exchange_frames3 ?x3 y ?z2 = Inr (learn i' e' x, y, queued (received d) ?z2)"
        using exchange3_first [of y ?z2 ?x3] Y(4) Z(4) deliver_datagram [OF d(1), of ?z2 e' e] B(3) by simp
    qed
    ultimately show ?thesis unfolding met_def
      by (intro exI [of _ ?x1] exI [of _ 3] exI [of _ "learn i' e' x"] exI [of _ "learn i e z"]) simp
  qed
qed

section \<open>The router between the wires\<close>

lemma route_from_append:
  "Router_route_from (xs @ ys) r = res_bind (Router_route_from xs r) (Router_route_from ys)"
  by (induction xs arbitrary: r) (simp_all split: sum.splits)

lemma route_queue_empty: "ani_datagrams_out (rt_interfaces r ! i) = [] \<Longrightarrow> Router_route_queue i r = Inr r"
  by (subst Router_route_queue.simps) simp

lemma route_from_empty: "\<forall>i \<in> set xs. ani_datagrams_out (rt_interfaces r ! i) = [] \<Longrightarrow> Router_route_from xs r = Inr r"
  by (induction xs) (simp_all add: route_queue_empty)

text \<open>One datagram in all the queues.\<close>

lemma route_single:
  assumes k: "k < length (rt_interfaces r)" "ani_datagrams_out (rt_interfaces r ! k) = [d]"
    and others: "\<And>i. i < length (rt_interfaces r) \<Longrightarrow> i \<noteq> k \<Longrightarrow> ani_datagrams_out (rt_interfaces r ! i) = []"
    and one: "Router_route_one_datagram d r = Inr r'"
  shows "Router_route r = Inr (Router_pop k r')"
proof -
  let ?n = "length (rt_interfaces r)"
  have len: "length (rt_interfaces r') = ?n" using route_one_frame(2) [OF one] by (metis length_map)
  have q: "ani_datagrams_out (rt_interfaces r' ! i) = ani_datagrams_out (rt_interfaces r ! i)" if "i < ?n" for i
    using same_queues [OF route_one_frame(2) [OF one] that] by simp
  have pop: "ani_datagrams_out (rt_interfaces (Router_pop k r') ! i) = []" if "i < ?n" for i
    using that q [OF that] others [OF that] k len by (cases "i = k") (simp_all add: Router_pop_def)
  have "[0..<?n] = [0..<k] @ k # [Suc k..<?n]" using upt_add_eq_append [of 0 k "?n - k"] upt_conv_Cons [of k ?n] k(1) by simp
  moreover have "Router_route_from [0..<k] r = Inr r" using others k(1) by (intro route_from_empty) simp
  moreover have "Router_route_queue k r = Router_route_queue k (Router_pop k r')"
    by (subst Router_route_queue.simps) (simp add: k one)
  then have "Router_route_queue k r = Inr (Router_pop k r')" using route_queue_empty [OF pop [OF k(1)]] by simp
  moreover have "Router_route_from [Suc k..<?n] (Router_pop k r') = Inr (Router_pop k r')"
    using pop by (intro route_from_empty) simp
  ultimately show ?thesis by (simp add: Router_route_def route_from_append)
qed

lemma route_none: "(\<And>i. i < length (rt_interfaces r) \<Longrightarrow> ani_datagrams_out (rt_interfaces r ! i) = []) \<Longrightarrow> Router_route r = Inr r"
  unfolding Router_route_def by (rule route_from_empty) simp

section \<open>The network of the simulator\<close>

definition sim_table :: "route_item list" where
  "sim_table = map (\<lambda>(p, l, hop, i). \<lparr>ri_route_prefix = p, ri_prefix_length = l, ri_next_hop = hop, ri_interface_num = i\<rparr>)
     [(0, 0, Some (ipv4_address 0xAB434C01 0), 0), (0x0A000000, 8, None, 1), (0xAC100000, 16, None, 2),
      (0xC0A80000, 24, None, 3), (0xC6B2E500, 24, None, 4), (0x8FC30000, 17, Some (ipv4_address 0x8FC30001 0), 5),
      (0x8FC38000, 18, Some (ipv4_address 0x8FC30001 0), 5), (0x8FC3C000, 19, Some (ipv4_address 0x8FC30001 0), 5),
      (0x801E4CFF, 16, Some (ipv4_address 0x801E0001 0), 6)]"

definition host_names :: "string list" where
  "host_names = [''applesauce'', ''default_router'', ''cherrypie'', ''hs_router'', ''dm42'', ''dm43'']"

text \<open>The network whose router has the interfaces \<open>R\<close> and whose hosts are \<open>H\<close>.\<close>

definition net :: "(nat \<Rightarrow> AsyncNetworkInterface) \<Rightarrow> (nat \<Rightarrow> Host) \<Rightarrow> Network" where
  "net R H = \<lparr>nw_router = \<lparr>rt_interfaces = map R [0..<7], rt_route_table = sim_table\<rparr>,
     nw_default_id = 0, nw_eth0_id = 1, nw_eth1_id = 2, nw_eth2_id = 3, nw_uun3_id = 4, nw_hs4_id = 5, nw_mit5_id = 6,
     nw_hosts = map (\<lambda>k. (host_names ! k, H k)) [0..<6]\<rparr>"

definition named :: "(nat \<Rightarrow> Host) \<Rightarrow> bool" where
  "named H = (\<forall>k < 6. h_name (H k) = host_names ! k)"

lemma upt_7: "[0..<7] = [0, 1, 2, 3, 4, 5, 6 :: nat]" and upt_6: "[0..<6] = [0, 1, 2, 3, 4, 5 :: nat]"
  by (simp_all add: upt_rec)

lemma less_7: "i < 7 \<longleftrightarrow> i \<in> {0, 1, 2, 3, 4, 5, 6 :: nat}" and less_6: "k < 6 \<longleftrightarrow> k \<in> {0, 1, 2, 3, 4, 5 :: nat}"
  by auto

lemma host_names_distinct: "distinct host_names" "length host_names = 6"
  by (simp_all add: host_names_def)

lemma net_host: "named H \<Longrightarrow> k < 6 \<Longrightarrow> Network_host (host_names ! k) (net R H) = Inr (H k)"
proof -
  assume *: "named H" "k < 6"
  have "map_of (map (\<lambda>k. (host_names ! k, H k)) [0..<6]) (host_names ! k) = Some (H k)"
    using *(2) host_names_distinct by (intro map_of_is_SomeI) (auto simp: distinct_map inj_on_def nth_eq_iff_index_eq comp_def)
  then show ?thesis using * by (simp add: Network_host_def net_def named_def)
qed

lemma net_set_host: "k < 6 \<Longrightarrow> set_host (host_names ! k) h (net R H) = net R (H(k := h))"
  using host_names_distinct by (auto simp: set_host_def net_def nth_eq_iff_index_eq)

lemma net_interface: "unat i < 7 \<Longrightarrow> Router_interface i (nw_router (net R H)) = Inr (R (unat i))"
  by (simp add: Router_interface_def net_def word_less_nat_alt ssize_def)

lemma net_set_interface: "unat i < 7 \<Longrightarrow> set_interface i a (net R H) = net (R(unat i := a)) H"
  by (auto simp: set_interface_def net_def intro!: nth_equalityI simp: nth_list_update)

text \<open>The wires with one host: the interface of the router and the host at its other end.\<close>

definition wires :: "(nat \<times> nat) list" where
  "wires = [(0, 1), (1, 0), (3, 2), (5, 3)]"

lemma named_upd: "named H \<Longrightarrow> h_name h = h_name (H k) \<Longrightarrow> named (H(k := h))"
  by (simp add: named_def)

lemma net_wire2:
  assumes "named H" "unat i < 7" "k < 6" "exchange_frames (R (unat i)) (h_interface (H k)) = Inr (x, y)"
  shows "wire2 i (host_names ! k) (net R H) = Inr (net (R(unat i := x)) (H(k := (H k)\<lparr>h_interface := y\<rparr>)))"
  using assms by (simp add: wire2_def net_host net_interface net_set_host net_set_interface)

lemma net_wire3:
  assumes "named H" "unat i < 7" "k < 6" "k' < 6"
    "exchange_frames3 (R (unat i)) (h_interface (H k)) (h_interface (H k')) = Inr (x, y, z)"
  shows "wire3 i (host_names ! k) (host_names ! k') (net R H)
    = Inr (net (R(unat i := x)) (H(k := (H k)\<lparr>h_interface := y\<rparr>, k' := (H k')\<lparr>h_interface := z\<rparr>)))"
  using assms by (simp add: wire3_def net_host net_interface net_set_host net_set_interface)

lemma net_ids [simp]:
  "nw_default_id (net R H) = 0" "nw_eth0_id (net R H) = 1" "nw_eth2_id (net R H) = 3" "nw_hs4_id (net R H) = 5"
  "nw_uun3_id (net R H) = 4" "nw_eth1_id (net R H) = 2" "nw_mit5_id (net R H) = 6"
  by (simp_all add: net_def)

lemma names_at:
  "''applesauce'' = host_names ! 0" "''default_router'' = host_names ! 1" "''cherrypie'' = host_names ! 2"
  "''hs_router'' = host_names ! 3" "''dm42'' = host_names ! 4" "''dm43'' = host_names ! 5"
  by (simp_all add: host_names_def)

lemma net_physical:
  assumes N: "named H"
    and E: "exchange_frames (R 0) (h_interface (H 1)) = Inr (x0, y0)" "exchange_frames (R 1) (h_interface (H 0)) = Inr (x1, y1)"
      "exchange_frames (R 3) (h_interface (H 2)) = Inr (x3, y3)" "exchange_frames (R 5) (h_interface (H 3)) = Inr (x5, y5)"
      "exchange_frames3 (R 4) (h_interface (H 4)) (h_interface (H 5)) = Inr (x4, y4, z4)"
  shows "Network_simulate_physical_connections (net R H)
    = Inr (net (R(0 := x0, 1 := x1, 3 := x3, 5 := x5, 4 := x4))
        (H(1 := (H 1)\<lparr>h_interface := y0\<rparr>, 0 := (H 0)\<lparr>h_interface := y1\<rparr>, 2 := (H 2)\<lparr>h_interface := y3\<rparr>,
           3 := (H 3)\<lparr>h_interface := y5\<rparr>, 4 := (H 4)\<lparr>h_interface := y4\<rparr>, 5 := (H 5)\<lparr>h_interface := z4\<rparr>)))"
proof -
  define H1 where "H1 = H(1 := (H 1)\<lparr>h_interface := y0\<rparr>)"
  define H2 where "H2 = H1(0 := (H 0)\<lparr>h_interface := y1\<rparr>)"
  define H3 where "H3 = H2(2 := (H 2)\<lparr>h_interface := y3\<rparr>)"
  define H4 where "H4 = H3(3 := (H 3)\<lparr>h_interface := y5\<rparr>)"
  have N1: "named H1" unfolding H1_def by (rule named_upd [OF N]) simp
  have N2: "named H2" unfolding H2_def by (rule named_upd [OF N1]) (simp add: H1_def)
  have N3: "named H3" unfolding H3_def by (rule named_upd [OF N2]) (simp add: H1_def H2_def)
  have N4: "named H4" unfolding H4_def by (rule named_upd [OF N3]) (simp add: H1_def H2_def H3_def)
  note w1 = net_wire2 [OF N, of 0 1 R x0 y0]
  note w2 = net_wire2 [OF N1, of 1 0 "R(0 := x0)" x1 y1]
  note w3 = net_wire2 [OF N2, of 3 2 "R(0 := x0, 1 := x1)" x3 y3]
  note w4 = net_wire2 [OF N3, of 5 3 "R(0 := x0, 1 := x1, 3 := x3)" x5 y5]
  note w5 = net_wire3 [OF N4, of 4 4 5 "R(0 := x0, 1 := x1, 3 := x3, 5 := x5)" x4 y4 z4]
  show ?thesis
    unfolding Network_simulate_physical_connections_def names_at
    using E w1 w2 w3 w4 w5 by (simp add: H1_def H2_def H3_def H4_def)
qed

text \<open>All is still but one wire.\<close>

definition still_but :: "nat set \<Rightarrow> nat set \<Rightarrow> (nat \<Rightarrow> AsyncNetworkInterface) \<Rightarrow> (nat \<Rightarrow> Host) \<Rightarrow> bool" where
  "still_but I K R H =
     (named H \<and> (\<forall>i < 7. i \<notin> I \<longrightarrow> frames_out (R i) = [] \<and> ani_datagrams_out (R i) = [])
      \<and> (\<forall>k < 6. k \<notin> K \<longrightarrow> frames_out (h_interface (H k)) = []))"

lemma still_but_upd:
  "still_but {i} {k} R H \<Longrightarrow> still_but {i} {k} (R(i := x)) (H(k := (H k)\<lparr>h_interface := y\<rparr>))"
  "still_but {i} {k, k'} R H \<Longrightarrow>
   still_but {i} {k, k'} (R(i := x)) (H(k := (H k)\<lparr>h_interface := y\<rparr>, k' := (H k')\<lparr>h_interface := z\<rparr>))"
  by (auto simp: still_but_def named_def)

lemma still_but_host:
  assumes "still_but I K R (H(m := h))" "h_name h' = h_name h" "frames_out (h_interface h') = frames_out (h_interface h)"
  shows "still_but I K R (H(m := h'))"
proof -
  have "h_name ((H(m := h')) k) = h_name ((H(m := h)) k)"
    "frames_out (h_interface ((H(m := h')) k)) = frames_out (h_interface ((H(m := h)) k))" for k
    using assms(2,3) by simp_all
  then show ?thesis using assms(1) by (simp only: still_but_def named_def)
qed

lemma net_round:
  assumes "\<And>i. i < 7 \<Longrightarrow> ani_datagrams_out (R i) = []"
  shows "Network_round (net R H) = Network_simulate_physical_connections (net R H)"
proof -
  have "Router_route (nw_router (net R H)) = Inr (nw_router (net R H))"
    by (rule route_none) (use assms in \<open>simp add: net_def del: upt_rec_numeral\<close>)
  then show ?thesis by (simp add: Network_round_def)
qed

lemma round_wire:
  assumes w: "(i, k) \<in> set wires" and s: "still_but {i} {k} R H" and d: "ani_datagrams_out (R i) = []"
    and e: "exchange_frames (R i) (h_interface (H k)) = Inr (x, y)"
  shows "Network_round (net R H) = Inr (net (R(i := x)) (H(k := (H k)\<lparr>h_interface := y\<rparr>)))"
proof -
  have N: "named H" using s by (simp add: still_but_def)
  have q: "ani_datagrams_out (R j) = []" if "j < 7" for j using s d that by (cases "j = i") (auto simp: still_but_def)
  have r: "Network_round (net R H) = Network_simulate_physical_connections (net R H)" by (rule net_round) (rule q)
  have f: "j < 7 \<Longrightarrow> j \<noteq> i \<Longrightarrow> frames_out (R j) = []" "m < 6 \<Longrightarrow> m \<noteq> k \<Longrightarrow> frames_out (h_interface (H m)) = []" for j m
    using s by (simp_all add: still_but_def)
  have e3: "exchange_frames3 (R 4) (h_interface (H 4)) (h_interface (H 5)) = Inr (R 4, h_interface (H 4), h_interface (H 5))"
    using w f by (intro exchange3_quiet) (auto simp: wires_def)
  have e2: "exchange_frames (R j) (h_interface (H m)) = Inr (R j, h_interface (H m))" if "(j, m) \<in> set wires" "j \<noteq> i" for j m
    using that w f by (intro exchange_quiet) (auto simp: wires_def)
  consider "i = 0" "k = 1" | "i = 1" "k = 0" | "i = 3" "k = 2" | "i = 5" "k = 3" using w by (auto simp: wires_def)
  then show ?thesis
  proof cases
    case 1
    show ?thesis using net_physical [OF N _ e2 [of 1 0] e2 [of 3 2] e2 [of 5 3] e3] e 1
      by (simp add: wires_def fun_upd_idem r)
  next
    case 2
    show ?thesis using net_physical [OF N e2 [of 0 1] _ e2 [of 3 2] e2 [of 5 3] e3] e 2
      by (simp add: wires_def fun_upd_idem r)
  next
    case 3
    show ?thesis using net_physical [OF N e2 [of 0 1] e2 [of 1 0] _ e2 [of 5 3] e3] e 3
      by (simp add: wires_def fun_upd_idem r)
  next
    case 4
    show ?thesis using net_physical [OF N e2 [of 0 1] e2 [of 1 0] e2 [of 3 2] _ e3] e 4
      by (simp add: wires_def fun_upd_idem r)
  qed
qed

lemma round_wire3:
  assumes s: "still_but {4} {4, 5} R H" and d: "ani_datagrams_out (R 4) = []"
    and e: "exchange_frames3 (R 4) (h_interface (H 4)) (h_interface (H 5)) = Inr (x, y, z)"
  shows "Network_round (net R H)
    = Inr (net (R(4 := x)) (H(4 := (H 4)\<lparr>h_interface := y\<rparr>, 5 := (H 5)\<lparr>h_interface := z\<rparr>)))"
proof -
  have N: "named H" using s by (simp add: still_but_def)
  have q: "ani_datagrams_out (R j) = []" if "j < 7" for j using s d that by (cases "j = 4") (auto simp: still_but_def)
  have r: "Network_round (net R H) = Network_simulate_physical_connections (net R H)" by (rule net_round) (rule q)
  have e2: "exchange_frames (R j) (h_interface (H m)) = Inr (R j, h_interface (H m))" if "(j, m) \<in> set wires" for j m
    using that s by (intro exchange_quiet) (auto simp: wires_def still_but_def)
  show ?thesis
    using net_physical [OF N e2 [of 0 1] e2 [of 1 0] e2 [of 3 2] e2 [of 5 3] e]
    by (simp add: wires_def fun_upd_idem r)
qed

lemma rounds_add: "Network_rounds (m + n) nw = res_bind (Network_rounds m nw) (Network_rounds n)"
proof (induction m arbitrary: nw)
  case (Suc m)
  then show ?case by (cases "Network_round nw") simp_all
qed simp

lemma rounds_still:
  assumes "still_but {} {} R H"
  shows "Network_rounds n (net R H) = Inr (net R H)"
proof (induction n)
  case (Suc n)
  have "exchange_frames (R 0) (h_interface (H 1)) = Inr (R 0, h_interface (H 1))"
    using assms by (intro exchange_quiet) (simp_all add: still_but_def)
  moreover have "still_but {0} {1} R H" "ani_datagrams_out (R 0) = []" using assms by (simp_all add: still_but_def)
  ultimately have "Network_round (net R H) = Inr (net R H)"
    using round_wire [of 0 1 R H "R 0" "h_interface (H 1)"] by (simp add: wires_def)
  then show ?case using Suc by simp
qed simp

lemma rounds_wire:
  "wire_steps n p q \<Longrightarrow> p = (R i, h_interface (H k)) \<Longrightarrow> (i, k) \<in> set wires \<Longrightarrow> still_but {i} {k} R H \<Longrightarrow>
   Network_rounds n (net R H) = Inr (net (R(i := fst q)) (H(k := (H k)\<lparr>h_interface := snd q\<rparr>)))"
proof (induction arbitrary: R H rule: wire_steps.induct)
  case (wire_suc x y q n p)
  obtain x1 y1 where q: "q = (x1, y1)" by (rule prod.exhaust)
  let ?R = "R(i := x1)" and ?H = "H(k := (H k)\<lparr>h_interface := y1\<rparr>)"
  have "Network_round (net R H) = Inr (net ?R ?H)"
    using round_wire [OF wire_suc.prems(2,3)] wire_suc.hyps(1,2) wire_suc.prems(1) q by simp
  moreover have "Network_rounds n (net ?R ?H) = Inr (net (?R(i := fst p)) (?H(k := (?H k)\<lparr>h_interface := snd p\<rparr>)))"
    using wire_suc.prems(2,3) q by (intro wire_suc.IH still_but_upd) simp_all
  ultimately show ?case by (simp add: fun_upd_def cong: if_cong)
qed simp

lemma rounds_wire3:
  "wire3_steps n p q \<Longrightarrow> p = (R 4, h_interface (H 4), h_interface (H 5)) \<Longrightarrow> still_but {4} {4, 5} R H \<Longrightarrow>
   Network_rounds n (net R H) = Inr (net (R(4 := fst q))
     (H(4 := (H 4)\<lparr>h_interface := fst (snd q)\<rparr>, 5 := (H 5)\<lparr>h_interface := snd (snd q)\<rparr>)))"
proof (induction arbitrary: R H rule: wire3_steps.induct)
  case (wire3_suc x y z q n p)
  obtain x1 y1 z1 where q: "q = (x1, y1, z1)" by (rule prod_cases3)
  let ?R = "R(4 := x1)" and ?H = "H(4 := (H 4)\<lparr>h_interface := y1\<rparr>, 5 := (H 5)\<lparr>h_interface := z1\<rparr>)"
  have "Network_round (net R H) = Inr (net ?R ?H)"
    using round_wire3 [OF wire3_suc.prems(2)] wire3_suc.hyps(1,2) wire3_suc.prems(1) q by simp
  moreover have "Network_rounds n (net ?R ?H) = Inr (net (?R(4 := fst p))
      (?H(4 := (?H 4)\<lparr>h_interface := fst (snd p)\<rparr>, 5 := (?H 5)\<lparr>h_interface := snd (snd p)\<rparr>)))"
    using wire3_suc.prems(2) q by (intro wire3_suc.IH still_but_upd) simp_all
  ultimately show ?case by (simp add: fun_upd_def cong: if_cong)
qed simp

section \<open>Forwarding in the network\<close>

definition popped :: "AsyncNetworkInterface \<Rightarrow> AsyncNetworkInterface" where
  "popped a = a\<lparr>ani_datagrams_out := []\<rparr>"

lemma rounds_routed:
  assumes s: "s < 7" "ani_datagrams_out (R s) = [d]" "\<And>i. i < 7 \<Longrightarrow> i \<noteq> s \<Longrightarrow> ani_datagrams_out (R i) = []"
    and one: "Router_route_one_datagram d (nw_router (net R H)) = Inr (nw_router (net R' H))"
  shows "Network_rounds (Suc n) (net R H) = Network_rounds (Suc n) (net (R'(s := popped (R' s))) H)"
proof -
  let ?R = "R'(s := popped (R' s))"
  have at: "rt_interfaces (nw_router (net R H)) ! i = R i" if "i < 7" for R H i using that by (simp add: net_def)
  have len: "length (rt_interfaces (nw_router (net R H))) = 7" for R H by (simp add: net_def)
  have q: "ani_datagrams_out (R' i) = ani_datagrams_out (R i)" if "i < 7" for i
    using same_queues [OF route_one_frame(2) [OF one], of i] that by (simp add: at len)
  have empty: "ani_datagrams_out (?R i) = []" if "i < 7" for i
    using that s(3) [OF that] q [OF that] s(2) by (simp add: popped_def)
  have "tl (ani_datagrams_out (R' s)) = []" using q [OF s(1)] s(2) by simp
  then have pop: "Router_pop s (nw_router (net R' H)) = nw_router (net ?R H)"
    using s(1) by (auto simp: Router_pop_def net_def popped_def intro!: nth_equalityI simp: nth_list_update)
  have "Router_route (nw_router (net R H)) = Inr (nw_router (net ?R H))"
    using route_single [OF _ _ _ one, of s] s at len pop by simp
  moreover have "net R H\<lparr>nw_router := nw_router (net ?R H)\<rparr> = net ?R H" by (simp add: net_def)
  moreover have "Network_round (net ?R H) = Network_simulate_physical_connections (net ?R H)"
    by (rule net_round) (rule empty)
  ultimately have "Network_round (net R H) = Network_round (net ?R H)" by (simp add: Network_round_def)
  then show ?thesis by simp
qed

lemma net_forward_none:
  "forward sim_table d = None \<Longrightarrow> Router_route_one_datagram d (nw_router (net R H)) = Inr (nw_router (net R H))"
  by (simp add: route_one_eq net_def)

lemma net_forward:
  assumes "forward sim_table d = Some (n, d', hop)" "unat n < 7" "gave d' hop (R (unat n)) a"
  shows "Router_route_one_datagram d (nw_router (net R H)) = Inr (nw_router (net (R(unat n := a)) H))"
proof -
  have i: "Router_interface n (nw_router (net R H)) = Inr (R (unat n))" by (rule net_interface [OF assms(2)])
  have a: "(R (unat n))\<lparr>ani_interface := ani_interface a\<rparr> = a" using assms(3) by (simp add: gave_def)
  have "nw_router (net R H)\<lparr>rt_interfaces := (rt_interfaces (nw_router (net R H)))[unat n := a]\<rparr> = nw_router (net (R(unat n := a)) H)"
    using net_set_interface [OF assms(2), of a R H] by (simp add: set_interface_def net_def)
  moreover have "rt_route_table (nw_router (net R H)) = sim_table" by (simp add: net_def)
  ultimately show ?thesis
    using assms(1,3) i by (simp add: route_one_eq Router_send_def gave_def a)
qed

section \<open>From host to host\<close>

definition rip :: "nat \<Rightarrow> u32" where
  "rip i = [0xAB434C2E, 0x0A000001, 0xAC100001, 0xC0A80001, 0xC6B2E501, 0x8FC30002, 0x801E4CFF] ! i"

definition hip :: "nat \<Rightarrow> u32" where
  "hip k = [0x0A000002, 0xAB434C01, 0xC0A80002, 0x8FC30001, 0xC6B2E52A, 0xC6B2E52B] ! k"

definition links :: "(nat \<times> nat) list" where
  "links = wires @ [(4, 4), (4, 5)]"

text \<open>Nothing is under way, and who shares a wire knows nothing wrong of the other.\<close>

definition net_ok :: "(nat \<Rightarrow> EthernetAddress) \<Rightarrow> (nat \<Rightarrow> EthernetAddress) \<Rightarrow> (nat \<Rightarrow> AsyncNetworkInterface) \<Rightarrow> (nat \<Rightarrow> Host) \<Rightarrow> bool" where
  "net_ok re he R H =
     (named H \<and> (\<forall>i < 7. quiet (rip i) (re i) (R i) \<and> ani_datagrams_out (R i) = [])
      \<and> (\<forall>k < 6. quiet (hip k) (he k) (h_interface (H k)) \<and> ani_datagrams_out (h_interface (H k)) = [])
      \<and> (\<forall>(i, k) \<in> set links. knows (hip k) (he k) (R i) \<and> knows (rip i) (re i) (h_interface (H k))))"

lemma links_bound: "(i, k) \<in> set links \<Longrightarrow> i < 7 \<and> k < 6"
  by (auto simp: links_def wires_def)

lemma net_okD:
  assumes "net_ok re he R H" "(i, k) \<in> set links"
  shows "quiet (rip i) (re i) (R i)" "quiet (hip k) (he k) (h_interface (H k))" "ani_datagrams_out (R i) = []"
    "ani_datagrams_out (h_interface (H k)) = []" "knows (hip k) (he k) (R i)" "knows (rip i) (re i) (h_interface (H k))"
  using assms links_bound [OF assms(2)] by (auto simp: net_ok_def)

lemma net_ok_still: "net_ok re he R H \<Longrightarrow> still_but I K R H"
  by (auto simp: net_ok_def still_but_def dest: quietD(4))

lemma hip_distinct: "k < 6 \<Longrightarrow> k' < 6 \<Longrightarrow> hip k = hip k' \<Longrightarrow> k = k'"
  by (auto simp: less_6 hip_def)

lemma net_ok_met:
  assumes N: "net_ok re he R H" and l: "(i, k) \<in> set links"
    and m: "met (hip k) (he k) (R i) x" "met (rip i) (re i) (h_interface (H k)) y"
  shows "net_ok re he (R(i := x)) (H(k := (H k)\<lparr>h_interface := y\<rparr>))"
proof -
  note L = net_okD [OF N l] and B = links_bound [OF l]
  note X = met_kept [OF m(1) quietD(7) [OF L(2)] L(5)] and Y = met_kept [OF m(2) quietD(7) [OF L(1)] L(6)]
  have "knows (hip k') (he k') ((R(i := x)) i') \<and> knows (rip i') (re i') (h_interface ((H(k := (H k)\<lparr>h_interface := y\<rparr>)) k'))"
    if l': "(i', k') \<in> set links" for i' k'
  proof -
    note L' = net_okD [OF N l'] and B' = links_bound [OF l']
    have "knows (hip k') (he k') ((R(i := x)) i')"
      using X(3) X(4) [of "hip k'" "he k'"] L'(5) hip_distinct [of k k'] B B' by (cases "k' = k") (auto split: if_splits)
    moreover have "i' = i" if "k' = k" using l l' that by (auto simp: links_def wires_def)
    then have "knows (rip i') (re i') (h_interface ((H(k := (H k)\<lparr>h_interface := y\<rparr>)) k'))"
      using Y(3) L'(6) by auto
    ultimately show ?thesis by blast
  qed
  then have K: "\<forall>(i', k') \<in> set links. knows (hip k') (he k') ((R(i := x)) i')
      \<and> knows (rip i') (re i') (h_interface ((H(k := (H k)\<lparr>h_interface := y\<rparr>)) k'))" by blast
  have rest: "named (H(k := (H k)\<lparr>h_interface := y\<rparr>))"
    "\<forall>i' < 7. quiet (rip i') (re i') ((R(i := x)) i') \<and> ani_datagrams_out ((R(i := x)) i') = []"
    "\<forall>k' < 6. quiet (hip k') (he k') (h_interface ((H(k := (H k)\<lparr>h_interface := y\<rparr>)) k'))
       \<and> ani_datagrams_out (h_interface ((H(k := (H k)\<lparr>h_interface := y\<rparr>)) k')) = []"
    using N X(1,2) Y(1,2) by (auto simp: net_ok_def named_def)
  show ?thesis unfolding net_ok_def using K rest by blast
qed

lemma gave_unique: "gave d hop a a' \<Longrightarrow> gave d hop a a'' \<Longrightarrow> a' = a''"
  by (cases a'; cases a'') (simp add: gave_def)

lemma popped_queued: "ani_datagrams_out a = [] \<Longrightarrow> popped (queued d a) = a"
  by (simp add: popped_def queued_def)

lemma delivered_across:
  assumes N: "net_ok re he R H" and w: "(i, k) \<in> set wires" "(j, m) \<in> set wires" "i \<noteq> j"
    and d: "datagram_ok d" "Address_ipv4_numeric hop = Inr (rip i)" "gave d hop (h_interface (H k)) y1"
    and f: "forward sim_table (received d) = Some (n, d', hop')" "unat n = j" "datagram_ok d'" "Address_ipv4_numeric hop' = Inr (hip m)"
  shows "\<exists>R' y z. Network_rounds 256 (net R (H(k := (H k)\<lparr>h_interface := y1\<rparr>)))
      = Inr (net R' (H(k := (H k)\<lparr>h_interface := y\<rparr>, m := (H m)\<lparr>h_interface := queued (received d') z\<rparr>)))
    \<and> net_ok re he R' (H(k := (H k)\<lparr>h_interface := y\<rparr>, m := (H m)\<lparr>h_interface := z\<rparr>))"
proof -
  have l: "(i, k) \<in> set links" "(j, m) \<in> set links" and km: "k \<noteq> m" using w by (auto simp: links_def wires_def)
  note A = net_okD [OF N l(1)] and B = net_okD [OF N l(2)] and bound = links_bound [OF l(1)] links_bound [OF l(2)]
  obtain y1' n1 x y where 1: "gave d hop (h_interface (H k)) y1'" "wire_steps n1 (R i, y1') (queued (received d) x, y)" "n1 \<le> 3"
      "met (hip k) (he k) (R i) x" "met (rip i) (re i) (h_interface (H k)) y"
    using wire_to_router [OF A(1,2,6) d(1,2) A(3)] by blast
  have y1: "y1' = y1" by (rule gave_unique [OF 1(1) d(3)])
  obtain x1 n2 x2 z where 2: "gave d' hop' (R j) x1" "wire_steps n2 (x1, h_interface (H m)) (x2, queued (received d') z)" "0 < n2" "n2 \<le> 3"
      "met (hip m) (he m) (R j) x2" "met (rip j) (re j) (h_interface (H m)) z"
    using wire_to_host [OF B(1,2,5) f(3,4) B(3)] by blast
  let ?H0 = "H(k := (H k)\<lparr>h_interface := y1\<rparr>)" and ?H1 = "H(k := (H k)\<lparr>h_interface := y\<rparr>)"
  let ?R1 = "R(i := queued (received d) x)" and ?R2 = "R(i := x, j := x1)" and ?R3 = "R(i := x, j := x2)"
  have N1: "net_ok re he (R(i := x)) ?H1" by (rule net_ok_met [OF N l(1) 1(4,5)])
  have N2: "net_ok re he ?R3 (?H1(m := (H m)\<lparr>h_interface := z\<rparr>))"
    using net_ok_met [OF N1 l(2), of x2 z] 2(5,6) w(3) km by simp
  have xq: "ani_datagrams_out x = []" using net_okD(3) [OF N1 l(1)] by simp
  have "still_but {i} {k} R ?H0" using net_ok_still [OF N, of "{i}" "{k}"] by (auto simp: still_but_def named_def)
  from rounds_wire [OF 1(2) _ w(1) this] y1 have r1: "Network_rounds n1 (net R ?H0) = Inr (net ?R1 ?H1)" by simp
  obtain n2' where n2: "n2 = Suc n2'" using 2(3) by (cases n2) auto
  have "gave d' hop' (?R1 (unat n)) x1" using 2(1) f(2) w(3) by simp
  then have "Router_route_one_datagram (received d) (nw_router (net ?R1 ?H1)) = Inr (nw_router (net (?R1(unat n := x1)) ?H1))"
    using f(1,2) bound by (intro net_forward) simp_all
  then have "Network_rounds (Suc n2') (net ?R1 ?H1)
      = Network_rounds (Suc n2') (net ((?R1(unat n := x1))(i := popped ((?R1(unat n := x1)) i))) ?H1)"
    using bound net_ok_still [OF N, of "{}" "{}"] xq by (intro rounds_routed) (auto simp: still_but_def queued_def)
  also have "(?R1(unat n := x1))(i := popped ((?R1(unat n := x1)) i)) = ?R2"
    using f(2) w(3) popped_queued [OF xq] by (auto simp: fun_eq_iff)
  finally have r2: "Network_rounds n2 (net ?R1 ?H1) = Network_rounds n2 (net ?R2 ?H1)" by (simp only: n2)
  have "still_but {j} {m} ?R2 ?H1" using net_ok_still [OF N1, of "{j}" "{m}"] by (auto simp: still_but_def)
  from rounds_wire [OF 2(2) _ w(2) this] km
  have r3: "Network_rounds n2 (net ?R2 ?H1) = Inr (net ?R3 (?H1(m := (H m)\<lparr>h_interface := queued (received d') z\<rparr>)))" by simp
  let ?H3 = "?H1(m := (H m)\<lparr>h_interface := queued (received d') z\<rparr>)"
  have "still_but {} {} ?R3 ?H3" by (rule still_but_host [OF net_ok_still [OF N2]]) simp_all
  from rounds_still [OF this] have r4: "Network_rounds r (net ?R3 ?H3) = Inr (net ?R3 ?H3)" for r .
  have "256 = n1 + (n2 + (256 - n1 - n2))" using 1(3) 2(4) by simp
  then have "Network_rounds 256 (net R ?H0) = Inr (net ?R3 ?H3)"
    using r1 r2 r3 r4 rounds_add by (metis res_bind_simps(2))
  with N2 show ?thesis by blast
qed

lemma gave_queued: "gave d hop a a' \<Longrightarrow> gave d hop (queued q a) (queued q a')"
  by (simp add: gave_def queued_def)

lemma delivered_third:
  assumes N: "net_ok re he R H" and e: "distinct [re 4, he 4, he 5]"
    and d: "datagram_ok d" "Address_ipv4_numeric hop = Inr (rip 4)" "gave d hop (h_interface (H 4)) y1"
    and f: "forward sim_table (received d) = Some (n, d', hop')" "unat n = 4" "datagram_ok d'" "Address_ipv4_numeric hop' = Inr (hip 5)"
  shows "\<exists>R' y z. Network_rounds 256 (net R (H(4 := (H 4)\<lparr>h_interface := y1\<rparr>)))
      = Inr (net R' (H(4 := (H 4)\<lparr>h_interface := y\<rparr>, 5 := (H 5)\<lparr>h_interface := queued (received d') z\<rparr>)))
    \<and> net_ok re he R' (H(4 := (H 4)\<lparr>h_interface := y\<rparr>, 5 := (H 5)\<lparr>h_interface := z\<rparr>))"
proof -
  have l: "(4, 4) \<in> set links" "(4, 5) \<in> set links" by (simp_all add: links_def)
  note A = net_okD [OF N l(1)] and B = net_okD [OF N l(2)]
  have ips: "hip 5 \<noteq> rip 4" "hip 4 \<noteq> hip 5" by (simp_all add: hip_def rip_def)
  obtain y1' n1 x y where 1: "gave d hop (h_interface (H 4)) y1'"
      "wire3_steps n1 (R 4, y1', h_interface (H 5)) (queued (received d) x, y, h_interface (H 5))" "n1 \<le> 3"
      "met (hip 4) (he 4) (R 4) x" "met (rip 4) (re 4) (h_interface (H 4)) y"
    using wire3_to_router [OF A(1,2,6) B(2) ips(1) _ _ d(1,2) A(3)] e by auto
  have y1: "y1' = y1" by (rule gave_unique [OF 1(1) d(3)])
  let ?H0 = "H(4 := (H 4)\<lparr>h_interface := y1\<rparr>)" and ?H1 = "H(4 := (H 4)\<lparr>h_interface := y\<rparr>)"
  let ?R1 = "R(4 := queued (received d) x)"
  have N1: "net_ok re he (R(4 := x)) ?H1" by (rule net_ok_met [OF N l(1) 1(4,5)])
  note A1 = net_okD [OF N1 l(1)] and B1 = net_okD [OF N1 l(2)]
  have x: "quiet (rip 4) (re 4) x" "ani_datagrams_out x = []" "knows (hip 5) (he 5) x" using A1(1,3) B1(5) by simp_all
  have y: "quiet (hip 4) (he 4) y" using A1(2) by simp
  obtain x1 n2 x2 z where 2: "gave d' hop' x x1" "wire3_steps n2 (x1, y, h_interface (H 5)) (x2, y, queued (received d') z)" "0 < n2" "n2 \<le> 3"
      "met (hip 5) (he 5) x x2" "met (rip 4) (re 4) (h_interface (H 5)) z"
    using wire3_to_third [OF x(1) B(2) x(3) y ips(2) _ _ f(3,4) x(2)] e by auto
  let ?R2 = "R(4 := x1)" and ?R3 = "R(4 := x2)"
  have N2: "net_ok re he ?R3 (?H1(5 := (H 5)\<lparr>h_interface := z\<rparr>))"
    using net_ok_met [OF N1 l(2), of x2 z] 2(5,6) by simp
  have "still_but {4} {4, 5} R ?H0" using net_ok_still [OF N, of "{4}" "{4, 5}"] by (auto simp: still_but_def named_def)
  from rounds_wire3 [OF 1(2) _ this] y1 have r1: "Network_rounds n1 (net R ?H0) = Inr (net ?R1 ?H1)"
    by (simp add: fun_upd_idem)
  obtain n2' where n2: "n2 = Suc n2'" using 2(3) by (cases n2) auto
  have x1q: "ani_datagrams_out x1 = []" using 2(1) x(2) by (simp add: gave_def)
  have "gave d' hop' (?R1 (unat n)) (queued (received d) x1)" using gave_queued [OF 2(1)] f(2) by simp
  then have "Router_route_one_datagram (received d) (nw_router (net ?R1 ?H1)) = Inr (nw_router (net (?R1(unat n := queued (received d) x1)) ?H1))"
    using f(1,2) by (intro net_forward) simp_all
  then have "Router_route_one_datagram (received d) (nw_router (net ?R1 ?H1)) = Inr (nw_router (net (R(4 := queued (received d) x1)) ?H1))"
    using f(2) by simp
  from rounds_routed [OF _ _ _ this, of 4 n2']
  have "Network_rounds (Suc n2') (net ?R1 ?H1) = Network_rounds (Suc n2') (net ?R2 ?H1)"
    using net_ok_still [OF N, of "{}" "{}"] x(2) popped_queued [OF x1q] by (auto simp: still_but_def queued_def)
  then have r2: "Network_rounds n2 (net ?R1 ?H1) = Network_rounds n2 (net ?R2 ?H1)" by (simp only: n2)
  have "still_but {4} {4, 5} ?R2 ?H1" using net_ok_still [OF N1, of "{4}" "{4, 5}"] by (auto simp: still_but_def)
  from rounds_wire3 [OF 2(2) _ this]
  have r3: "Network_rounds n2 (net ?R2 ?H1) = Inr (net ?R3 (?H1(5 := (H 5)\<lparr>h_interface := queued (received d') z\<rparr>)))"
    by (simp add: fun_upd_idem)
  let ?H3 = "?H1(5 := (H 5)\<lparr>h_interface := queued (received d') z\<rparr>)"
  have "still_but {} {} ?R3 ?H3" by (rule still_but_host [OF net_ok_still [OF N2]]) simp_all
  from rounds_still [OF this] have r4: "Network_rounds r (net ?R3 ?H3) = Inr (net ?R3 ?H3)" for r .
  have "256 = n1 + (n2 + (256 - n1 - n2))" using 1(3) 2(4) by simp
  then have "Network_rounds 256 (net R ?H0) = Inr (net ?R3 ?H3)"
    using r1 r2 r3 r4 rounds_add by (metis res_bind_simps(2))
  with N2 show ?thesis by blast
qed

lemma dropped_at_router:
  assumes N: "net_ok re he R H" and w: "(i, k) \<in> set wires"
    and d: "datagram_ok d" "Address_ipv4_numeric hop = Inr (rip i)" "gave d hop (h_interface (H k)) y1"
    and f: "forward sim_table (received d) = None"
  shows "\<exists>R' y. Network_rounds 256 (net R (H(k := (H k)\<lparr>h_interface := y1\<rparr>))) = Inr (net R' (H(k := (H k)\<lparr>h_interface := y\<rparr>)))
    \<and> net_ok re he R' (H(k := (H k)\<lparr>h_interface := y\<rparr>))"
proof -
  have l: "(i, k) \<in> set links" using w by (simp add: links_def)
  note A = net_okD [OF N l] and bound = links_bound [OF l]
  obtain y1' n1 x y where 1: "gave d hop (h_interface (H k)) y1'" "wire_steps n1 (R i, y1') (queued (received d) x, y)" "n1 \<le> 3"
      "met (hip k) (he k) (R i) x" "met (rip i) (re i) (h_interface (H k)) y"
    using wire_to_router [OF A(1,2,6) d(1,2) A(3)] by blast
  have y1: "y1' = y1" by (rule gave_unique [OF 1(1) d(3)])
  let ?H0 = "H(k := (H k)\<lparr>h_interface := y1\<rparr>)" and ?H1 = "H(k := (H k)\<lparr>h_interface := y\<rparr>)"
  let ?R1 = "R(i := queued (received d) x)" and ?R2 = "R(i := x)"
  have N1: "net_ok re he ?R2 ?H1" by (rule net_ok_met [OF N l 1(4,5)])
  have xq: "ani_datagrams_out x = []" using net_okD(3) [OF N1 l] by simp
  have "still_but {i} {k} R ?H0" using net_ok_still [OF N, of "{i}" "{k}"] by (auto simp: still_but_def named_def)
  from rounds_wire [OF 1(2) _ w this] y1 have r1: "Network_rounds n1 (net R ?H0) = Inr (net ?R1 ?H1)" by simp
  have "Router_route_one_datagram (received d) (nw_router (net ?R1 ?H1)) = Inr (nw_router (net ?R1 ?H1))" by (rule net_forward_none [OF f])
  from rounds_routed [OF _ _ _ this, of i]
  have r2: "Network_rounds (Suc r) (net ?R1 ?H1) = Network_rounds (Suc r) (net ?R2 ?H1)" for r
    using bound net_ok_still [OF N, of "{}" "{}"] xq popped_queued [OF xq] by (auto simp: still_but_def queued_def)
  from rounds_still [OF net_ok_still [OF N1]] have r3: "Network_rounds r (net ?R2 ?H1) = Inr (net ?R2 ?H1)" for r .
  have "256 = n1 + Suc (255 - n1)" using 1(3) by simp
  then have "Network_rounds 256 (net R ?H0) = Inr (net ?R2 ?H1)"
    using r1 r2 r3 rounds_add by (metis res_bind_simps(2))
  with N1 show ?thesis by blast
qed

end
