(* ===== verification/Simulator_Tests.thy ===== *)
theory Simulator_Tests
  imports Network_Delivery "HOL-Library.Multiset"
begin

text \<open>
  The tests of the network simulator: what a host checks, each of the ten tests, and the run as a whole.
\<close>

section \<open>What a host checks\<close>

lemma same_datagram_eq:
  "datagram_ok a \<Longrightarrow> datagram_ok b \<Longrightarrow> same_datagram a b = Inr (datagram_bytes a = datagram_bytes b)"
  by (simp add: same_datagram_def IPv4Datagram_serialize_eq datagram_bytes_def)

lemma expecting_eq:
  "datagram_ok d \<Longrightarrow> list_all datagram_ok xs \<Longrightarrow> Host_expecting d xs = Inr (datagram_bytes d \<in> datagram_bytes ` set xs)"
  by (induction xs) (auto simp: same_datagram_eq)

lemma remove_expectation_eq:
  "datagram_ok d \<Longrightarrow> list_all datagram_ok xs \<Longrightarrow> datagram_bytes d \<in> datagram_bytes ` set xs \<Longrightarrow>
   \<exists>ys. Host_remove_expectation d xs = Inr ys \<and> list_all datagram_ok ys
     \<and> mset (map datagram_bytes xs) = add_mset (datagram_bytes d) (mset (map datagram_bytes ys))"
proof (induction xs)
  case (Cons x xs)
  show ?case
  proof (cases "datagram_bytes x = datagram_bytes d")
    case True
    then show ?thesis using Cons.prems by (auto simp: same_datagram_eq)
  next
    case False
    then have "datagram_bytes d \<in> datagram_bytes ` set xs" using Cons.prems(3) by auto
    with Cons obtain ys where "Host_remove_expectation d xs = Inr ys" "list_all datagram_ok ys"
      "mset (map datagram_bytes xs) = add_mset (datagram_bytes d) (mset (map datagram_bytes ys))" by auto
    then show ?thesis using False Cons.prems by (auto simp: same_datagram_eq)
  qed
qed simp

lemma check_received_eq:
  "list_all datagram_ok ds \<Longrightarrow> list_all datagram_ok xs \<Longrightarrow>
   (case Host_check_received name ds xs of
      Inl _ \<Rightarrow> \<not> mset (map datagram_bytes ds) \<subseteq># mset (map datagram_bytes xs)
    | Inr ys \<Rightarrow> list_all datagram_ok ys \<and> mset (map datagram_bytes xs) = mset (map datagram_bytes ds) + mset (map datagram_bytes ys))"
proof (induction ds arbitrary: xs)
  case (Cons d ds)
  then have ok: "datagram_ok d" "list_all datagram_ok ds" by simp_all
  show ?case
  proof (cases "datagram_bytes d \<in> datagram_bytes ` set xs")
    case True
    with remove_expectation_eq [OF ok(1) Cons.prems(2)] obtain ys where
      ys: "Host_remove_expectation d xs = Inr ys" "list_all datagram_ok ys"
        "mset (map datagram_bytes xs) = add_mset (datagram_bytes d) (mset (map datagram_bytes ys))" by blast
    have "Host_check_received name (d # ds) xs = Host_check_received name ds ys"
      using True ys(1) expecting_eq [OF ok(1) Cons.prems(2)] by simp
    then show ?thesis using Cons.IH [OF ok(2) ys(2)] ys(3) by (auto split: sum.splits)
  next
    case False
    then have "\<not> mset (map datagram_bytes (d # ds)) \<subseteq># mset (map datagram_bytes xs)"
      by (auto dest!: mset_subset_eqD [of _ _ "datagram_bytes d"])
    then show ?thesis using False expecting_eq [OF ok(1) Cons.prems(2)] by simp
  qed
qed simp

text \<open>A check passes exactly if the datagrams received are those expected, in any order, as bytes on the wire.\<close>

lemma host_check_iff:
  assumes "list_all datagram_ok (ani_datagrams_out (h_interface h))" "list_all datagram_ok (h_expecting_to_receive h)"
  shows "\<not> isl (Host_check h) \<longleftrightarrow>
    mset (map datagram_bytes (ani_datagrams_out (h_interface h))) = mset (map datagram_bytes (h_expecting_to_receive h))"
proof (cases "Host_check_received (h_name h) (ani_datagrams_out (h_interface h)) (h_expecting_to_receive h)")
  case (Inl e)
  then show ?thesis using check_received_eq [OF assms, of "h_name h"] by (auto simp: Host_check_def)
next
  case (Inr ys)
  then show ?thesis
    using check_received_eq [OF assms, of "h_name h"] by (cases ys) (auto simp: Host_check_def)
qed

lemma check_idle: "ani_datagrams_out (h_interface h) = [] \<Longrightarrow> h_expecting_to_receive h = [] \<Longrightarrow> Host_check h = Inr h"
  by (simp add: Host_check_def)

lemma check_delivered:
  assumes "ani_datagrams_out (h_interface h) = [a]" "h_expecting_to_receive h = [b]" "datagram_ok a" "datagram_ok b"
    "datagram_bytes a = datagram_bytes b"
  shows "Host_check h = Inr (h\<lparr>h_interface := popped (h_interface h), h_expecting_to_receive := []\<rparr>)"
  using assms by (simp add: Host_check_def same_datagram_eq popped_def)

section \<open>One test\<close>

text \<open>The datagram that a host sends.\<close>

definition sim_payload :: "(nat \<Rightarrow> u32) \<Rightarrow> nat \<Rightarrow> bytes" where
  "sim_payload rd n = string_bytes (''random payload: {'' @ dec (unat (rd n)) @ ''}'')"

definition sim_datagram :: "bytes \<Rightarrow> u32 \<Rightarrow> u32 \<Rightarrow> u8 \<Rightarrow> InternetDatagram" where
  "sim_datagram payload src dst ttl =
     \<lparr>id_header = IPv4Header_new\<lparr>ih_src := src, ih_dst := dst, ih_len := of_nat (20 + length payload), ih_ttl := ttl\<rparr>,
      id_payload = [Buffer_of_string payload]\<rparr>"

lemma sim_payload_length: "length (sim_payload rd n) < 100"
proof -
  have "unat (rd n) < 10 ^ Suc 9" using unat_u32_lt [of "rd n"] by simp
  then have "length (dec (unat (rd n))) \<le> 10" using length_digits_le [of 10 "unat (rd n)" 9] by (simp add: dec_def)
  then show ?thesis by (simp add: sim_payload_def string_bytes_def)
qed

lemma sim_datagram_ok: "length payload < 100 \<Longrightarrow> datagram_ok (sim_datagram payload src dst ttl)"
  by (simp add: datagram_ok_def sim_datagram_def ip_header_ok_def IPv4Header_new_def IPv4Header_LENGTH_def unat_of_nat_less
      del: of_nat_add)

lemma sim_datagram_built:
  fixes payload :: bytes and src dst ttl
  assumes "length payload < 100"
  defines "h \<equiv> IPv4Header_new\<lparr>ih_src := src, ih_dst := dst\<rparr>"
  shows "\<lparr>id_header = h\<lparr>ih_len := ucast (ucast (ih_hlen h) * 4 + BufferList_size (BufferList_of_string payload)), ih_ttl := ttl\<rparr>,
     id_payload = BufferList_of_string payload\<rparr> = sim_datagram payload src dst ttl"
proof -
  have "ucast (ucast (ih_hlen h) * 4 + BufferList_size (BufferList_of_string payload) :: u64) = (of_nat (20 + length payload) :: u16)"
  proof -
    have "BufferList_size (BufferList_of_string payload) = of_nat (length payload)"
      by (simp add: BufferList_size_eq BufferList_of_string_def ssize_def)
    moreover have "ucast (ih_hlen h) * 4 = (20 :: u64)" by (simp add: h_def IPv4Header_new_def IPv4Header_LENGTH_def)
    moreover have "ucast (20 + of_nat (length payload) :: u64) = (of_nat (20 + length payload) :: u16)"
    proof -
      have "ucast (of_nat (20 + length payload) :: u64) = (of_nat (20 + length payload) :: u16)"
        using assms(1) by (simp add: unsigned_of_nat take_bit_nat_eq_self del: of_nat_add)
      then show ?thesis by simp
    qed
    ultimately show ?thesis by simp
  qed
  then show ?thesis by (simp add: sim_datagram_def h_def BufferList_of_string_def)
qed

lemma gave_exists:
  assumes "quiet i e a" "datagram_ok d" "Address_ipv4_numeric hop = Inr i'"
  shows "\<exists>a'. gave d hop a a'"
proof -
  from send_datagram_ok [OF quietD(1) [OF assms(1)] assms(2,3)] obtain ni where
    "NetworkInterface_send_datagram d hop (ani_interface a) = Inr ni" by blast
  then show ?thesis by (intro exI [of _ "a\<lparr>ani_interface := ni\<rparr>"]) (simp add: gave_def)
qed

lemma Host_send_to_eq:
  assumes "h_my_address h = ipv4_address src 0" "gave (sim_datagram (sim_payload rd n) src dst ttl) (h_next_hop h) (h_interface h) a"
  shows "Host_send_to rd n (ipv4_address dst 0) ttl h
    = Inr (sim_datagram (sim_payload rd n) src dst ttl, h\<lparr>h_interface := a\<rparr>, n + 1)"
proof -
  have a: "(h_interface h)\<lparr>ani_interface := ani_interface a\<rparr> = a" using assms(2) by (simp add: gave_def)
  have n: "Address_ipv4_numeric (ipv4_address i 0) = Inr i" for i by simp
  show ?thesis
    unfolding Host_send_to_def assms(1) n sum.case Let_def sim_payload_def [symmetric] sim_datagram_built [OF sim_payload_length]
    using assms(2) by (simp add: gave_def a)
qed

text \<open>What arrives behind the router is what the test expects.\<close>

lemma ip_sealed_cksum: "ip_sealed (h\<lparr>ih_cksum := c\<rparr>) = ip_sealed h"
  by (simp add: ip_sealed_def)

lemma ip_sealed_idem: "ip_sealed (ip_sealed h) = ip_sealed h"
  unfolding ip_sealed_def [of h] ip_sealed_cksum by (simp add: ip_sealed_def)

lemma expected_bytes:
  assumes "datagram_ok d"
  shows "datagram_ok (lower_ttl d)" "datagram_ok (lower_ttl (received d))" "datagram_ok (received (lower_ttl (received d)))"
    "datagram_bytes (received (lower_ttl (received d))) = datagram_bytes (lower_ttl d)"
proof -
  show 1: "datagram_ok (lower_ttl d)" and 2: "datagram_ok (lower_ttl (received d))"
    unfolding lower_ttl_def by (rule datagram_ok_ttl, rule assms received_facts(4) [OF assms])+
  show "datagram_ok (received (lower_ttl (received d)))" by (rule received_facts(4) [OF 2])
  let ?h = "id_header d"
  have "id_header (lower_ttl (received d)) = (?h\<lparr>ih_ttl := ih_ttl ?h - 1\<rparr>)\<lparr>ih_cksum := ih_cksum (ip_sealed ?h)\<rparr>"
    using received_facts(2) [OF assms] by (simp add: lower_ttl_def) (simp add: ip_sealed_def)
  then have "ip_sealed (id_header (received (lower_ttl (received d)))) = ip_sealed (id_header (lower_ttl d))"
    unfolding received_facts(2) [OF 2] ip_sealed_idem by (simp add: ip_sealed_cksum) (simp add: lower_ttl_def)
  moreover have "BufferList_concatenate (id_payload (received (lower_ttl (received d)))) = BufferList_concatenate (id_payload (lower_ttl d))"
    using received_facts(3) [OF 2] received_facts(3) [OF assms] by (simp add: lower_ttl_def)
  ultimately show "datagram_bytes (received (lower_ttl (received d))) = datagram_bytes (lower_ttl d)"
    by (simp add: datagram_bytes_def)
qed

lemma forward_received:
  assumes "datagram_ok d" "match_loop (ih_dst (id_header d)) table None = Some x" "ih_ttl (id_header d) = 64"
  shows "forward table (received d) = Some (ri_interface_num x, lower_ttl (received d),
    case ri_next_hop x of Some hop \<Rightarrow> hop | None \<Rightarrow> ipv4_address (ih_dst (id_header d)) 0)"
proof -
  have "ih_dst (id_header (received d)) = ih_dst (id_header d)" "ih_ttl (id_header (received d)) = 64"
    using received_facts(2) [OF assms(1)] assms(3) by (simp_all add: ip_sealed_def)
  then show ?thesis using assms(2) by (simp add: forward_def lower_ttl_def word_le_nat_alt split: option.split)
qed

lemma forward_expired:
  assumes "datagram_ok d" "ih_ttl (id_header d) \<le> 1"
  shows "forward table (received d) = None"
  using assms received_facts(2) [OF assms(1)] by (auto simp: forward_def ip_sealed_def split: option.splits)

section \<open>The network between the tests\<close>

definition gateways :: "(nat \<times> nat) list" where
  "gateways = [(1, 0), (3, 2), (4, 4), (4, 5)]"

definition all_ok :: "(nat \<Rightarrow> EthernetAddress) \<Rightarrow> (nat \<Rightarrow> EthernetAddress) \<Rightarrow> (nat \<Rightarrow> AsyncNetworkInterface) \<Rightarrow> (nat \<Rightarrow> Host) \<Rightarrow> bool" where
  "all_ok re he R H =
     (net_ok re he R H \<and> distinct [re 4, he 4, he 5]
      \<and> (\<forall>k < 6. h_expecting_to_receive (H k) = [] \<and> h_my_address (H k) = ipv4_address (hip k) 0)
      \<and> (\<forall>(i, k) \<in> set gateways. h_next_hop (H k) = ipv4_address (rip i) 0))"

lemma all_ok_host:
  assumes "all_ok re he R H" "net_ok re he R' (H(k := (H k)\<lparr>h_interface := y\<rparr>))"
  shows "all_ok re he R' (H(k := (H k)\<lparr>h_interface := y\<rparr>))"
  using assms by (auto simp: all_ok_def)

lemma all_ok_hosts:
  assumes "all_ok re he R H" "net_ok re he R' (H(k := (H k)\<lparr>h_interface := y\<rparr>, m := (H m)\<lparr>h_interface := z\<rparr>))"
  shows "all_ok re he R' (H(k := (H k)\<lparr>h_interface := y\<rparr>, m := (H m)\<lparr>h_interface := z\<rparr>))"
  using assms by (auto simp: all_ok_def)

lemma check_net:
  assumes "\<And>k. k < 6 \<Longrightarrow> Host_check (H k) = Inr (H' k)"
  shows "check_hosts (nw_hosts (net R H)) = Inr (nw_hosts (net R H'))"
  using assms by (simp add: net_def upt_6 del: upt_rec_numeral)

lemma simulate_net:
  assumes "Network_rounds 256 (net R H) = Inr (net R' H')" "\<And>k. k < 6 \<Longrightarrow> Host_check (H' k) = Inr (H'' k)"
  shows "Network_simulate (net R H) = Inr (net R' H'')"
proof -
  have "(net R' H')\<lparr>nw_hosts := nw_hosts (net R' H'')\<rparr> = net R' H''" by (simp add: net_def)
  then show ?thesis using assms(1) check_net [OF assms(2)] by (simp add: Network_simulate_def)
qed

lemma net_ok_hosts:
  "net_ok re he R H \<Longrightarrow> (\<And>k. h_name (H' k) = h_name (H k)) \<Longrightarrow> (\<And>k. h_interface (H' k) = h_interface (H k)) \<Longrightarrow> net_ok re he R H'"
  by (simp add: net_ok_def named_def)

lemma net_ok_expect: "net_ok re he R H \<Longrightarrow> net_ok re he R (H(m := Host_expect d (H m)))"
  by (erule net_ok_hosts) (simp_all add: Host_expect_def)

text \<open>The checks at the end: one host has what it expects, the others neither have nor expect anything.\<close>

lemma simulate_delivered:
  assumes A: "all_ok re he R H" and km: "k < 6" "m < 6" "k \<noteq> m" and d: "datagram_ok d"
    and r: "Network_rounds 256 (net R (H(m := Host_expect (lower_ttl d) (H m), k := (H k)\<lparr>h_interface := y1\<rparr>)))
      = Inr (net R' (H(m := Host_expect (lower_ttl d) (H m), k := (H k)\<lparr>h_interface := y\<rparr>,
          m := (Host_expect (lower_ttl d) (H m))\<lparr>h_interface := queued (received (lower_ttl (received d))) z\<rparr>)))"
    and N: "net_ok re he R' (H(m := Host_expect (lower_ttl d) (H m), k := (H k)\<lparr>h_interface := y\<rparr>,
          m := (Host_expect (lower_ttl d) (H m))\<lparr>h_interface := z\<rparr>))"
  shows "\<exists>H'. Network_simulate (net R (H(k := (H k)\<lparr>h_interface := y1\<rparr>, m := Host_expect (lower_ttl d) (H m)))) = Inr (net R' H')
    \<and> all_ok re he R' H'"
proof -
  let ?e = "Host_expect (lower_ttl d) (H m)" and ?dd = "received (lower_ttl (received d))"
  let ?H1 = "H(k := (H k)\<lparr>h_interface := y\<rparr>, m := ?e\<lparr>h_interface := queued ?dd z\<rparr>)"
  let ?H2 = "H(k := (H k)\<lparr>h_interface := y\<rparr>, m := (H m)\<lparr>h_interface := z\<rparr>)"
  have E: "h_expecting_to_receive (H j) = []" if "j < 6" for j using A that by (simp add: all_ok_def)
  have N': "net_ok re he R' ?H2"
  proof -
    have "net_ok re he R' (H(k := (H k)\<lparr>h_interface := y\<rparr>, m := ?e\<lparr>h_interface := z\<rparr>))"
      using N km(3) by (simp add: fun_upd_twist)
    then show ?thesis by (rule net_ok_hosts) (simp_all add: Host_expect_def)
  qed
  have z: "ani_datagrams_out z = []" "ani_datagrams_out y = []" "j < 6 \<Longrightarrow> j \<noteq> k \<Longrightarrow> j \<noteq> m \<Longrightarrow> ani_datagrams_out (h_interface (H j)) = []" for j
    using N' km by (auto simp: net_ok_def split: if_splits)
  have "Host_check (?H1 j) = Inr (?H2 j)" if j: "j < 6" for j
  proof (cases "j = m")
    case True
    have "Host_check (?e\<lparr>h_interface := queued ?dd z\<rparr>)
        = Inr (?e\<lparr>h_interface := queued ?dd z\<rparr>\<lparr>h_interface := popped (queued ?dd z), h_expecting_to_receive := []\<rparr>)"
      using check_delivered [of "?e\<lparr>h_interface := queued ?dd z\<rparr>" ?dd "lower_ttl d"] z(1) E [OF km(2)] expected_bytes [OF d]
      by (simp add: Host_expect_def)
    also have "?e\<lparr>h_interface := queued ?dd z\<rparr>\<lparr>h_interface := popped (queued ?dd z), h_expecting_to_receive := []\<rparr>
        = (H m)\<lparr>h_interface := z\<rparr>"
      using E [OF km(2)] popped_queued [OF z(1)] by (simp add: Host_expect_def)
    finally show ?thesis using True by simp
  next
    case False
    then show ?thesis using z(2,3) E [OF j] j by (cases "j = k") (simp_all add: check_idle)
  qed
  moreover have "Network_rounds 256 (net R (H(k := (H k)\<lparr>h_interface := y1\<rparr>, m := ?e))) = Inr (net R' ?H1)"
    using r km(3) by (simp add: fun_upd_twist)
  ultimately have "Network_simulate (net R (H(k := (H k)\<lparr>h_interface := y1\<rparr>, m := ?e))) = Inr (net R' ?H2)"
    by (intro simulate_net)
  then show ?thesis using all_ok_hosts [OF A N'] by blast
qed

lemma send_from_net:
  assumes "all_ok re he R H" "k < 6" "gave (sim_datagram (sim_payload rd n) (hip k) dst ttl) (h_next_hop (H k)) (h_interface (H k)) y1"
  shows "send_from rd (host_names ! k) (ipv4_address dst 0) ttl (net R H, n)
    = Inr (sim_datagram (sim_payload rd n) (hip k) dst ttl, net R (H(k := (H k)\<lparr>h_interface := y1\<rparr>)), n + 1)"
proof -
  have "named H" "h_my_address (H k) = ipv4_address (hip k) 0" using assms(1,2) by (auto simp: all_ok_def net_ok_def)
  then show ?thesis using assms(2) Host_send_to_eq [OF _ assms(3)] by (simp add: send_from_def net_host net_set_host)
qed

lemma expect_at_net:
  assumes "named H" "m < 6"
  shows "expect_at (host_names ! m) d (net R H) = Inr (net R (H(m := Host_expect d (H m))))"
  using assms by (simp add: expect_at_def net_host net_set_host)

definition next_hop_of :: "u32 \<Rightarrow> route_item \<Rightarrow> Address" where
  "next_hop_of dst x = (case ri_next_hop x of Some hop \<Rightarrow> hop | None \<Rightarrow> ipv4_address dst 0)"

lemma test_across:
  assumes A: "all_ok re he R H" and w: "(i, k) \<in> set wires" "(i, k) \<in> set gateways" "(j, m) \<in> set wires" "i \<noteq> j"
    and x: "match_loop dst sim_table None = Some x" "unat (ri_interface_num x) = j" "Address_ipv4_numeric (next_hop_of dst x) = Inr (hip m)"
  shows "\<exists>R' H'. test_delivery rd (host_names ! k) (ipv4_address dst 0) (host_names ! m) (net R H, n) = Inr (net R' H', n + 1)
    \<and> all_ok re he R' H'"
proof -
  have N: "net_ok re he R H" using A by (simp add: all_ok_def)
  have hop: "h_next_hop (H k) = ipv4_address (rip i) 0" using A w(2) by (auto simp: all_ok_def)
  have l: "(i, k) \<in> set links" "(j, m) \<in> set links" and km: "k \<noteq> m" using w by (auto simp: links_def wires_def)
  note bound = links_bound [OF l(1)] links_bound [OF l(2)]
  define d where "d = sim_datagram (sim_payload rd n) (hip k) dst 64"
  have d: "datagram_ok d" "ih_dst (id_header d) = dst" "ih_ttl (id_header d) = 64"
    unfolding d_def by (rule sim_datagram_ok [OF sim_payload_length]) (simp_all add: sim_datagram_def)
  obtain y1 where y1: "gave d (h_next_hop (H k)) (h_interface (H k)) y1"
    using gave_exists [OF net_okD(2) [OF N l(1)] d(1), of "h_next_hop (H k)" "rip i"] hop by auto
  let ?Hx = "H(m := Host_expect (lower_ttl d) (H m))"
  have f: "forward sim_table (received d) = Some (ri_interface_num x, lower_ttl (received d), next_hop_of dst x)"
    using forward_received [OF d(1), of sim_table x] x(1) d(2,3) by (simp add: next_hop_of_def cong: option.case_cong)
  have g: "gave d (h_next_hop (H k)) (h_interface (?Hx k)) y1" using y1 km by simp
  have hop': "Address_ipv4_numeric (h_next_hop (H k)) = Inr (rip i)" using hop by simp
  obtain R' y z where "Network_rounds 256 (net R (?Hx(k := (?Hx k)\<lparr>h_interface := y1\<rparr>)))
      = Inr (net R' (?Hx(k := (?Hx k)\<lparr>h_interface := y\<rparr>, m := (?Hx m)\<lparr>h_interface := queued (received (lower_ttl (received d))) z\<rparr>)))"
    "net_ok re he R' (?Hx(k := (?Hx k)\<lparr>h_interface := y\<rparr>, m := (?Hx m)\<lparr>h_interface := z\<rparr>))"
    using delivered_across [OF net_ok_expect [OF N] w(1,3,4) d(1) hop' g f x(2) expected_bytes(2) [OF d(1)] x(3)] by blast
  then have "Network_rounds 256 (net R (?Hx(k := (H k)\<lparr>h_interface := y1\<rparr>)))
      = Inr (net R' (?Hx(k := (H k)\<lparr>h_interface := y\<rparr>, m := (Host_expect (lower_ttl d) (H m))\<lparr>h_interface := queued (received (lower_ttl (received d))) z\<rparr>)))"
    "net_ok re he R' (?Hx(k := (H k)\<lparr>h_interface := y\<rparr>, m := (Host_expect (lower_ttl d) (H m))\<lparr>h_interface := z\<rparr>))"
    by (simp_all only: fun_upd_apply if_False if_True km simp_thms)
  then obtain H' where H': "Network_simulate (net R (H(k := (H k)\<lparr>h_interface := y1\<rparr>, m := Host_expect (lower_ttl d) (H m)))) = Inr (net R' H')"
      "all_ok re he R' H'"
    using simulate_delivered [OF A _ _ km d(1)] bound by blast
  have "named (H(k := (H k)\<lparr>h_interface := y1\<rparr>))" using N by (simp add: net_ok_def named_def)
  then have "test_delivery rd (host_names ! k) (ipv4_address dst 0) (host_names ! m) (net R H, n) = Inr (net R' H', n + 1)"
    using send_from_net [OF A _ y1 [unfolded d_def]] bound expect_at_net [of "H(k := (H k)\<lparr>h_interface := y1\<rparr>)" m "lower_ttl d" R] H'(1) km
    by (simp add: test_delivery_def d_def)
  with H'(2) show ?thesis by blast
qed

lemma test_third:
  assumes A: "all_ok re he R H"
    and x: "match_loop dst sim_table None = Some x" "unat (ri_interface_num x) = 4" "Address_ipv4_numeric (next_hop_of dst x) = Inr (hip 5)"
  shows "\<exists>R' H'. test_delivery rd (host_names ! 4) (ipv4_address dst 0) (host_names ! 5) (net R H, n) = Inr (net R' H', n + 1)
    \<and> all_ok re he R' H'"
proof -
  have N: "net_ok re he R H" and e: "distinct [re 4, he 4, he 5]" using A by (simp_all add: all_ok_def)
  have hop: "h_next_hop (H 4) = ipv4_address (rip 4) 0" using A by (simp add: all_ok_def gateways_def)
  have l: "(4, 4) \<in> set links" by (simp add: links_def)
  define d where "d = sim_datagram (sim_payload rd n) (hip 4) dst 64"
  have d: "datagram_ok d" "ih_dst (id_header d) = dst" "ih_ttl (id_header d) = 64"
    unfolding d_def by (rule sim_datagram_ok [OF sim_payload_length]) (simp_all add: sim_datagram_def)
  obtain y1 where y1: "gave d (h_next_hop (H 4)) (h_interface (H 4)) y1"
    using gave_exists [OF net_okD(2) [OF N l] d(1), of "h_next_hop (H 4)" "rip 4"] hop by auto
  let ?Hx = "H(5 := Host_expect (lower_ttl d) (H 5))"
  have f: "forward sim_table (received d) = Some (ri_interface_num x, lower_ttl (received d), next_hop_of dst x)"
    using forward_received [OF d(1), of sim_table x] x(1) d(2,3) by (simp add: next_hop_of_def cong: option.case_cong)
  have g: "gave d (h_next_hop (H 4)) (h_interface (?Hx 4)) y1" using y1 by simp
  have hop': "Address_ipv4_numeric (h_next_hop (H 4)) = Inr (rip 4)" using hop by simp
  obtain R' y z where "Network_rounds 256 (net R (?Hx(4 := (?Hx 4)\<lparr>h_interface := y1\<rparr>)))
      = Inr (net R' (?Hx(4 := (?Hx 4)\<lparr>h_interface := y\<rparr>, 5 := (?Hx 5)\<lparr>h_interface := queued (received (lower_ttl (received d))) z\<rparr>)))"
    "net_ok re he R' (?Hx(4 := (?Hx 4)\<lparr>h_interface := y\<rparr>, 5 := (?Hx 5)\<lparr>h_interface := z\<rparr>))"
    using delivered_third [OF net_ok_expect [OF N] e d(1) hop' g f x(2) expected_bytes(2) [OF d(1)] x(3)] by blast
  then have "Network_rounds 256 (net R (?Hx(4 := (H 4)\<lparr>h_interface := y1\<rparr>)))
      = Inr (net R' (?Hx(4 := (H 4)\<lparr>h_interface := y\<rparr>, 5 := (Host_expect (lower_ttl d) (H 5))\<lparr>h_interface := queued (received (lower_ttl (received d))) z\<rparr>)))"
    "net_ok re he R' (?Hx(4 := (H 4)\<lparr>h_interface := y\<rparr>, 5 := (Host_expect (lower_ttl d) (H 5))\<lparr>h_interface := z\<rparr>))"
    by (simp_all only: fun_upd_apply if_False if_True) simp_all
  then obtain H' where H': "Network_simulate (net R (H(4 := (H 4)\<lparr>h_interface := y1\<rparr>, 5 := Host_expect (lower_ttl d) (H 5)))) = Inr (net R' H')"
      "all_ok re he R' H'"
    using simulate_delivered [OF A _ _ _ d(1), of 4 5 y1 R' y z] by auto
  have "named (H(4 := (H 4)\<lparr>h_interface := y1\<rparr>))" using N by (simp add: net_ok_def named_def)
  then have "test_delivery rd (host_names ! 4) (ipv4_address dst 0) (host_names ! 5) (net R H, n) = Inr (net R' H', n + 1)"
    using send_from_net [OF A _ y1 [unfolded d_def]] expect_at_net [of "H(4 := (H 4)\<lparr>h_interface := y1\<rparr>)" 5 "lower_ttl d" R] H'(1)
    by (simp add: test_delivery_def d_def)
  with H'(2) show ?thesis by blast
qed

lemma test_expired:
  assumes A: "all_ok re he R H" and w: "(i, k) \<in> set wires" "(i, k) \<in> set gateways" and ttl: "ttl \<le> 1"
    and a: "sim_address gai str = Inr (ipv4_address dst 0)"
  shows "\<exists>R' H'. test_expiry gai rd (host_names ! k) str ttl (net R H, n) = Inr (net R' H', n + 1) \<and> all_ok re he R' H'"
proof -
  have N: "net_ok re he R H" using A by (simp add: all_ok_def)
  have hop: "h_next_hop (H k) = ipv4_address (rip i) 0" using A w(2) by (auto simp: all_ok_def)
  have l: "(i, k) \<in> set links" using w by (simp add: links_def)
  define d where "d = sim_datagram (sim_payload rd n) (hip k) dst ttl"
  have d: "datagram_ok d" "ih_ttl (id_header d) \<le> 1"
    unfolding d_def by (rule sim_datagram_ok [OF sim_payload_length]) (simp add: sim_datagram_def ttl)
  obtain y1 where y1: "gave d (h_next_hop (H k)) (h_interface (H k)) y1"
    using gave_exists [OF net_okD(2) [OF N l] d(1), of "h_next_hop (H k)" "rip i"] hop by auto
  obtain R' y where r: "Network_rounds 256 (net R (H(k := (H k)\<lparr>h_interface := y1\<rparr>))) = Inr (net R' (H(k := (H k)\<lparr>h_interface := y\<rparr>)))"
    "net_ok re he R' (H(k := (H k)\<lparr>h_interface := y\<rparr>))"
    using dropped_at_router [OF N w(1) d(1) _ y1 forward_expired [OF d]] hop by auto
  note A' = all_ok_host [OF A r(2)]
  have "Host_check ((H(k := (H k)\<lparr>h_interface := y\<rparr>)) j) = Inr ((H(k := (H k)\<lparr>h_interface := y\<rparr>)) j)" if "j < 6" for j
    using A' that by (intro check_idle) (simp_all add: all_ok_def net_ok_def)
  from simulate_net [OF r(1) this]
  have "test_expiry gai rd (host_names ! k) str ttl (net R H, n) = Inr (net R' (H(k := (H k)\<lparr>h_interface := y\<rparr>)), n + 1)"
    using send_from_net [OF A _ y1 [unfolded d_def]] links_bound [OF l] a by (simp add: test_expiry_def fun_upd_def)
  with A' show ?thesis by blast
qed

section \<open>The network the program builds\<close>

definition router_ethernet :: "(nat \<Rightarrow> u32) \<Rightarrow> nat \<Rightarrow> EthernetAddress" where
  "router_ethernet rd i = fst (random_router_ethernet_address rd (6 * i))"

definition host_ethernet :: "(nat \<Rightarrow> u32) \<Rightarrow> nat \<Rightarrow> EthernetAddress" where
  "host_ethernet rd k = fst (random_host_ethernet_address rd (42 + 6 * k))"

definition gateway :: "nat \<Rightarrow> u32" where
  "gateway k = [0x0A000001, 0, 0xC0A80001, 0, 0xC6B2E501, 0xC6B2E501] ! k"

definition new_interface :: "(nat \<Rightarrow> u32) \<Rightarrow> nat \<Rightarrow> AsyncNetworkInterface" where
  "new_interface rd i = AsyncNetworkInterface_of (NetworkInterface_new (router_ethernet rd i) (ipv4_address (rip i) 0))"

definition new_host :: "(nat \<Rightarrow> u32) \<Rightarrow> nat \<Rightarrow> Host" where
  "new_host rd k = \<lparr>h_name = host_names ! k, h_my_address = ipv4_address (hip k) 0,
     h_interface = AsyncNetworkInterface_of (NetworkInterface_new (host_ethernet rd k) (ipv4_address (hip k) 0)),
     h_next_hop = ipv4_address (gateway k) 0, h_expecting_to_receive = []\<rparr>"

lemma not_broadcast:
  "eth_addr (router_ethernet rd i)" "router_ethernet rd i \<noteq> ETHERNET_BROADCAST"
  "eth_addr (host_ethernet rd k)" "host_ethernet rd k \<noteq> ETHERNET_BROADCAST"
proof -
  have "router_ethernet rd i ! 0 = 2"
    by (simp add: router_ethernet_def random_router_ethernet_address_def six_bytes_def)
  then show "router_ethernet rd i \<noteq> ETHERNET_BROADCAST" by (auto simp: ETHERNET_BROADCAST_def)
  have "host_ethernet rd k ! 0 = (ucast (rd (42 + 6 * k)) OR 2) AND 0xfe"
    by (simp add: host_ethernet_def random_host_ethernet_address_def six_bytes_def)
  moreover have "\<not> bit (0xfe :: u8) 0" by (simp add: bit_0)
  ultimately have "\<not> bit (host_ethernet rd k ! 0) 0" by (simp only: bit_and_iff simp_thms)
  moreover have "bit (ETHERNET_BROADCAST ! 0) 0" by (simp add: ETHERNET_BROADCAST_def bit_0)
  ultimately show "host_ethernet rd k \<noteq> ETHERNET_BROADCAST" by auto
qed (simp_all add: eth_addr_def router_ethernet_def random_router_ethernet_address_def host_ethernet_def
  random_host_ethernet_address_def six_bytes_def)

lemma new_quiet:
  assumes "eth_addr e" "e \<noteq> ETHERNET_BROADCAST"
  shows "quiet ip e (AsyncNetworkInterface_of (NetworkInterface_new e (ipv4_address ip 0)))"
    "knows x f (AsyncNetworkInterface_of (NetworkInterface_new e (ipv4_address ip 0)))"
  using assms ni_ok_new [OF assms(1), of "ipv4_address ip 0" ip]
  by (simp_all add: quiet_def knows_def AsyncNetworkInterface_of_def NetworkInterface_new_def)

lemma new_net_ok:
  assumes "distinct [router_ethernet rd 4, host_ethernet rd 4, host_ethernet rd 5]"
  shows "all_ok (router_ethernet rd) (host_ethernet rd) (new_interface rd) (new_host rd)"
proof -
  have "net_ok (router_ethernet rd) (host_ethernet rd) (new_interface rd) (new_host rd)"
    using new_quiet [OF not_broadcast(1,2)] new_quiet [OF not_broadcast(3,4)]
    by (auto simp: net_ok_def named_def new_interface_def new_host_def AsyncNetworkInterface_of_def)
  moreover have "\<forall>(i, k) \<in> set gateways. gateway k = rip i" by (simp add: gateways_def gateway_def rip_def)
  ultimately show ?thesis using assms by (auto simp: all_ok_def new_host_def)
qed

text \<open>What the program takes of the resolver: dotted quads are themselves, and \<open>0\<close> is the address 0.0.0.0.\<close>

definition resolves_zero :: "getaddrinfo \<Rightarrow> bool" where
  "resolves_zero gai =
     (gai ''0'' ''0'' (make_hints (AI_NUMERICHOST + AI_NUMERICSERV) AF_INET) = Inr (Some (sockaddr_in 0 0, sizeof_sockaddr_in)))"

lemma literal: "resolves_numeric gai \<Longrightarrow> inet_ntoa ip = str \<Longrightarrow> sim_address gai str = Inr (ipv4_address ip 0)"
  using Address_of_ip_numeric [of gai ip 0] by (simp add: sim_address_def)

lemma literal_zero: "resolves_zero gai \<Longrightarrow> sim_address gai ''0'' = Inr (ipv4_address 0 0)"
proof -
  have "dec (unat (0 :: u16)) = ''0''" by (simp add: dec_def digits.simps digit_def)
  then show "resolves_zero gai \<Longrightarrow> sim_address gai ''0'' = Inr (ipv4_address 0 0)"
    by (simp add: sim_address_def Address_of_ip_def Address_resolve_def resolves_zero_def Address_of_sockaddr_in)
qed

lemma quads:
  "inet_ntoa 0xAB434C2E = ''171.67.76.46''" "inet_ntoa 0x0A000001 = ''10.0.0.1''" "inet_ntoa 0xAC100001 = ''172.16.0.1''"
  "inet_ntoa 0xC0A80001 = ''192.168.0.1''" "inet_ntoa 0xC6B2E501 = ''198.178.229.1''" "inet_ntoa 0x8FC30002 = ''143.195.0.2''"
  "inet_ntoa 0x801E4CFF = ''128.30.76.255''" "inet_ntoa 0x0A000002 = ''10.0.0.2''" "inet_ntoa 0xAB434C01 = ''171.67.76.1''"
  "inet_ntoa 0xC0A80002 = ''192.168.0.2''" "inet_ntoa 0x8FC30001 = ''143.195.0.1''" "inet_ntoa 0xC6B2E52A = ''198.178.229.42''"
  "inet_ntoa 0xC6B2E52B = ''198.178.229.43''" "inet_ntoa 0 = ''0.0.0.0''" "inet_ntoa 0x0A000000 = ''10.0.0.0''"
  "inet_ntoa 0xAC100000 = ''172.16.0.0''" "inet_ntoa 0xC0A80000 = ''192.168.0.0''" "inet_ntoa 0xC6B2E500 = ''198.178.229.0''"
  "inet_ntoa 0x8FC30000 = ''143.195.0.0''" "inet_ntoa 0x8FC38000 = ''143.195.128.0''" "inet_ntoa 0x8FC3C000 = ''143.195.192.0''"
  "inet_ntoa 0x801E0001 = ''128.30.0.1''"
  by (simp_all add: inet_ntoa_def dec_def digits.simps digit_def)

lemma test_quads:
  "inet_ntoa 0x01020304 = ''1.2.3.4''" "inet_ntoa 0x8FC38311 = ''143.195.131.17''" "inet_ntoa 0x8FC3C134 = ''143.195.193.52''"
  "inet_ntoa 0x8FC3DFFF = ''143.195.223.255''" "inet_ntoa 0x8FC3E000 = ''143.195.224.0''"
  by (simp_all add: inet_ntoa_def dec_def digits.simps digit_def)

definition with_interfaces :: "(nat \<Rightarrow> u32) \<Rightarrow> nat \<Rightarrow> Router" where
  "with_interfaces rd i = \<lparr>rt_interfaces = map (new_interface rd) [0..<i], rt_route_table = []\<rparr>"

definition with_hosts :: "(nat \<Rightarrow> u32) \<Rightarrow> nat \<Rightarrow> Network" where
  "with_hosts rd k = \<lparr>nw_router = with_interfaces rd 7,
     nw_default_id = 0, nw_eth0_id = 1, nw_eth1_id = 2, nw_eth2_id = 3, nw_uun3_id = 4, nw_hs4_id = 5, nw_mit5_id = 6,
     nw_hosts = map (\<lambda>k. (host_names ! k, new_host rd k)) [0..<k]\<rparr>"

definition with_routes :: "(nat \<Rightarrow> u32) \<Rightarrow> route_item list \<Rightarrow> Network" where
  "with_routes rd table = (net (new_interface rd) (new_host rd))
     \<lparr>nw_router := \<lparr>rt_interfaces = map (new_interface rd) [0..<7], rt_route_table = table\<rparr>\<rparr>"

lemma add_interface_new:
  assumes "sim_address gai str = Inr (ipv4_address (rip i) 0)" "j = i + 1"
  shows "add_interface gai rd str (with_interfaces rd i, 6 * i) = Inr (of_nat i, with_interfaces rd j, 6 * j)"
proof -
  have "random_router_ethernet_address rd (6 * i) = (router_ethernet rd i, 6 * j)"
    using assms(2) by (simp add: router_ethernet_def random_router_ethernet_address_def)
  then show ?thesis
    using assms by (simp add: add_interface_def Router_add_interface_def with_interfaces_def new_interface_def ssize_def)
qed

lemma add_host_new:
  assumes "k < 6" "name = host_names ! k" "sim_address gai my = Inr (ipv4_address (hip k) 0)" "sim_address gai hop = Inr (ipv4_address (gateway k) 0)"
    "j = k + 1" "n = 42 + 6 * k" "n' = 42 + 6 * j"
  shows "add_host gai rd name my hop (with_hosts rd k, n) = Inr (with_hosts rd j, n')"
proof -
  have "random_host_ethernet_address rd (42 + 6 * k) = (host_ethernet rd k, 42 + 6 * j)"
    using assms(5) by (simp add: host_ethernet_def random_host_ethernet_address_def Let_def)
  moreover have "host_names ! k \<notin> fst ` set (map (\<lambda>k. (host_names ! k, new_host rd k)) [0..<k])"
    using assms(1) host_names_distinct by (auto simp: nth_eq_iff_index_eq)
  ultimately show ?thesis
    using assms by (simp add: add_host_def Host_new_def insert_host_def with_hosts_def new_host_def)
qed

lemma add_route_new:
  assumes "sim_address gai str = Inr (ipv4_address p 0)"
  shows "add_route gai str l hop i (with_routes rd table) = Inr (with_routes rd
    (table @ [\<lparr>ri_route_prefix = p, ri_prefix_length = l, ri_next_hop = hop, ri_interface_num = i\<rparr>]))"
  using assms by (simp add: add_route_def sim_ip_def Router_add_route_def with_routes_def)

lemma Network_interfaces_new:
  assumes "resolves_numeric gai"
  shows "Network_interfaces gai rd = Inr (with_hosts rd 0, 42)"
proof -
  note lit = quads(1-7) [THEN literal [OF assms]]
  have "add_interface gai rd ''171.67.76.46'' (\<lparr>rt_interfaces = [], rt_route_table = []\<rparr>, 0) = Inr (0, with_interfaces rd 1, 6)"
    "add_interface gai rd ''10.0.0.1'' (with_interfaces rd 1, 6) = Inr (1, with_interfaces rd 2, 12)"
    "add_interface gai rd ''172.16.0.1'' (with_interfaces rd 2, 12) = Inr (2, with_interfaces rd 3, 18)"
    "add_interface gai rd ''192.168.0.1'' (with_interfaces rd 3, 18) = Inr (3, with_interfaces rd 4, 24)"
    "add_interface gai rd ''198.178.229.1'' (with_interfaces rd 4, 24) = Inr (4, with_interfaces rd 5, 30)"
    "add_interface gai rd ''143.195.0.2'' (with_interfaces rd 5, 30) = Inr (5, with_interfaces rd 6, 36)"
    "add_interface gai rd ''128.30.76.255'' (with_interfaces rd 6, 36) = Inr (6, with_interfaces rd 7, 42)"
    using add_interface_new [of gai "''171.67.76.46''" 0 1 rd] add_interface_new [of gai "''10.0.0.1''" 1 2 rd]
      add_interface_new [of gai "''172.16.0.1''" 2 3 rd] add_interface_new [of gai "''192.168.0.1''" 3 4 rd]
      add_interface_new [of gai "''198.178.229.1''" 4 5 rd] add_interface_new [of gai "''143.195.0.2''" 5 6 rd]
      add_interface_new [of gai "''128.30.76.255''" 6 7 rd] lit
    by (simp_all add: rip_def with_interfaces_def [of rd 0])
  then show ?thesis by (simp only: Network_interfaces_def res_bind_simps prod.case) (simp add: with_hosts_def)
qed

lemma Network_add_hosts_new:
  assumes "resolves_numeric gai" "resolves_zero gai"
  shows "Network_add_hosts gai rd (with_hosts rd 0, 42) = Inr (with_routes rd [], 78)"
proof -
  note lit = quads [THEN literal [OF assms(1)]] literal_zero [OF assms(2)]
  have at: "hip 0 = 0x0A000002" "hip 1 = 0xAB434C01" "hip 2 = 0xC0A80002" "hip 3 = 0x8FC30001" "hip 4 = 0xC6B2E52A" "hip 5 = 0xC6B2E52B"
    "gateway 0 = 0x0A000001" "gateway 1 = 0" "gateway 2 = 0xC0A80001" "gateway 3 = 0" "gateway 4 = 0xC6B2E501" "gateway 5 = 0xC6B2E501"
    by (simp_all add: hip_def gateway_def)
  have names: "host_names ! 0 = ''applesauce''" "host_names ! Suc 0 = ''default_router''" "host_names ! 2 = ''cherrypie''"
    "host_names ! 3 = ''hs_router''" "host_names ! 4 = ''dm42''" "host_names ! 5 = ''dm43''" by (simp_all add: host_names_def)
  have 1: "add_host gai rd ''applesauce'' ''10.0.0.2'' ''10.0.0.1'' (with_hosts rd 0, 42) = Inr (with_hosts rd 1, 48)"
    by (rule add_host_new) (simp_all add: names lit at [unfolded One_nat_def])
  have 2: "add_host gai rd ''default_router'' ''171.67.76.1'' ''0'' (with_hosts rd 1, 48) = Inr (with_hosts rd 2, 54)"
    by (rule add_host_new) (simp_all add: names lit at [unfolded One_nat_def])
  have 3: "add_host gai rd ''cherrypie'' ''192.168.0.2'' ''192.168.0.1'' (with_hosts rd 2, 54) = Inr (with_hosts rd 3, 60)"
    by (rule add_host_new) (simp_all add: names lit at [unfolded One_nat_def])
  have 4: "add_host gai rd ''hs_router'' ''143.195.0.1'' ''0'' (with_hosts rd 3, 60) = Inr (with_hosts rd 4, 66)"
    by (rule add_host_new) (simp_all add: names lit at [unfolded One_nat_def])
  have 5: "add_host gai rd ''dm42'' ''198.178.229.42'' ''198.178.229.1'' (with_hosts rd 4, 66) = Inr (with_hosts rd 5, 72)"
    by (rule add_host_new) (simp_all add: names lit at [unfolded One_nat_def])
  have 6: "add_host gai rd ''dm43'' ''198.178.229.43'' ''198.178.229.1'' (with_hosts rd 5, 72) = Inr (with_hosts rd 6, 78)"
    by (rule add_host_new) (simp_all add: names lit at [unfolded One_nat_def])
  have "with_hosts rd 6 = with_routes rd []"
    by (simp add: with_hosts_def with_routes_def with_interfaces_def net_def del: upt_rec_numeral)
  then show ?thesis unfolding Network_add_hosts_def 1 2 3 4 5 6 res_bind_simps by simp
qed

lemma Network_add_routes_new:
  assumes "resolves_numeric gai"
  shows "Network_add_routes gai (with_routes rd []) = Inr (net (new_interface rd) (new_host rd))"
proof -
  note lit = quads [THEN literal [OF assms]]
  have h: "Network_host (host_names ! k) (with_routes rd table) = Inr (new_host rd k)" if "k < 6" for k table
    using net_host [of "new_host rd" k "new_interface rd"] that
    by (simp add: named_def new_host_def with_routes_def Network_host_def)
  have hosts: "Network_host ''default_router'' (with_routes rd table) = Inr (new_host rd 1)"
    "Network_host ''hs_router'' (with_routes rd table) = Inr (new_host rd 3)" for table
    using h [of 1 table] h [of 3 table] by (simp_all add: host_names_def)
  have ids: "nw_default_id (with_routes rd table) = 0" "nw_eth0_id (with_routes rd table) = 1" "nw_eth1_id (with_routes rd table) = 2"
    "nw_eth2_id (with_routes rd table) = 3" "nw_uun3_id (with_routes rd table) = 4" "nw_hs4_id (with_routes rd table) = 5"
    "nw_mit5_id (with_routes rd table) = 6" for table by (simp_all add: with_routes_def net_def)
  have addr: "h_my_address (new_host rd 1) = ipv4_address 0xAB434C01 0" "h_my_address (new_host rd 3) = ipv4_address 0x8FC30001 0"
    by (simp_all add: new_host_def hip_def)
  have "with_routes rd sim_table = net (new_interface rd) (new_host rd)" by (simp add: with_routes_def net_def)
  then show ?thesis
    by (simp only: Network_add_routes_def res_bind_simps hosts ids addr lit add_route_new append_Nil append_Cons
      sim_table_def list.map prod.case)
qed

lemma Network_new_net:
  assumes "resolves_numeric gai" "resolves_zero gai"
  shows "Network_new gai rd = Inr (net (new_interface rd) (new_host rd), 78)"
  using Network_interfaces_new [OF assms(1)] Network_add_hosts_new [OF assms] Network_add_routes_new [OF assms(1)]
  by (simp add: Network_new_def)

section \<open>The tests of the program\<close>

lemma sim_routes:
  "match_loop 0xC0A80002 sim_table None = Some (sim_table ! 3)" "match_loop 0x0A000002 sim_table None = Some (sim_table ! 1)"
  "match_loop 0x01020304 sim_table None = Some (sim_table ! 0)" "match_loop 0x8FC38311 sim_table None = Some (sim_table ! 6)"
  "match_loop 0x8FC3C134 sim_table None = Some (sim_table ! 7)" "match_loop 0x8FC3DFFF sim_table None = Some (sim_table ! 7)"
  "match_loop 0x8FC3E000 sim_table None = Some (sim_table ! 0)" "match_loop 0xC6B2E52B sim_table None = Some (sim_table ! 4)"
  by (simp_all add: sim_table_def route_matches_def)

lemma sim_next_hops:
  "unat (ri_interface_num (sim_table ! 0)) = 0" "next_hop_of dst (sim_table ! 0) = ipv4_address 0xAB434C01 0"
  "unat (ri_interface_num (sim_table ! Suc 0)) = Suc 0" "next_hop_of dst (sim_table ! Suc 0) = ipv4_address dst 0"
  "unat (ri_interface_num (sim_table ! 3)) = 3" "next_hop_of dst (sim_table ! 3) = ipv4_address dst 0"
  "unat (ri_interface_num (sim_table ! 4)) = 4" "next_hop_of dst (sim_table ! 4) = ipv4_address dst 0"
  "unat (ri_interface_num (sim_table ! 6)) = 5" "next_hop_of dst (sim_table ! 6) = ipv4_address 0x8FC30001 0"
  "unat (ri_interface_num (sim_table ! 7)) = 5" "next_hop_of dst (sim_table ! 7) = ipv4_address 0x8FC30001 0"
  by (simp_all add: sim_table_def next_hop_of_def)

definition passes :: "(nat \<Rightarrow> EthernetAddress) \<Rightarrow> (nat \<Rightarrow> EthernetAddress) \<Rightarrow> (Network \<times> nat \<Rightarrow> (Network \<times> nat) res) \<Rightarrow> bool" where
  "passes re he test = (\<forall>R H n. all_ok re he R H \<longrightarrow> (\<exists>R' H'. test (net R H, n) = Inr (net R' H', n + 1) \<and> all_ok re he R' H'))"

lemma passes_bind:
  assumes "all_ok re he R H" "passes re he test" "\<And>R H n. all_ok re he R H \<Longrightarrow> rest (net R H, n) = Inr x"
  shows "res_bind (test (net R H, n)) rest = Inr x"
  using assms unfolding passes_def by (metis res_bind_simps(2))

lemma passes_host:
  assumes "passes re he (test_delivery rd name (ipv4_address (hip m) 0) (host_names ! m))" "m < 6"
  shows "passes re he (test_host_to_host rd name (host_names ! m))"
  unfolding passes_def
proof (intro allI impI)
  fix R H n assume A: "all_ok re he R H"
  then have "Network_host (host_names ! m) (net R H) = Inr (H m)" "h_my_address (H m) = ipv4_address (hip m) 0"
    using assms(2) by (auto simp: all_ok_def net_ok_def intro: net_host)
  then show "\<exists>R' H'. test_host_to_host rd name (host_names ! m) (net R H, n) = Inr (net R' H', n + 1) \<and> all_ok re he R' H'"
    using assms(1) A by (simp add: test_host_to_host_def passes_def)
qed

lemma passes_address:
  assumes "passes re he (test_delivery rd from_host (ipv4_address dst 0) to_host)" "sim_address gai str = Inr (ipv4_address dst 0)"
  shows "passes re he (test_to_address gai rd from_host str to_host)"
  using assms by (simp add: passes_def test_to_address_def)

lemma passes_across:
  assumes "(i, k) \<in> set wires" "(i, k) \<in> set gateways" "(j, m) \<in> set wires" "i \<noteq> j"
    "match_loop dst sim_table None = Some x" "unat (ri_interface_num x) = j" "Address_ipv4_numeric (next_hop_of dst x) = Inr (hip m)"
  shows "passes re he (test_delivery rd (host_names ! k) (ipv4_address dst 0) (host_names ! m))"
  unfolding passes_def using test_across [OF _ assms] by blast

lemmas named_hosts = host_names_def hip_def wires_def gateways_def

lemma host_tests:
  "passes re he (test_host_to_host rd ''applesauce'' ''cherrypie'')" "passes re he (test_host_to_host rd ''cherrypie'' ''applesauce'')"
  "passes re he (test_host_to_host rd ''dm42'' ''dm43'')"
proof -
  have "passes re he (test_delivery rd (host_names ! 0) (ipv4_address (hip 2) 0) (host_names ! 2))"
    by (rule passes_across [of 1 0 3 2 _ "sim_table ! 3"]) (simp_all add: named_hosts sim_routes sim_next_hops)
  from passes_host [OF this] show "passes re he (test_host_to_host rd ''applesauce'' ''cherrypie'')" by (simp add: host_names_def)
  have "passes re he (test_delivery rd (host_names ! 2) (ipv4_address (hip 0) 0) (host_names ! 0))"
    by (rule passes_across [of 3 2 1 0 _ "sim_table ! 1"]) (simp_all add: named_hosts sim_routes sim_next_hops)
  from passes_host [OF this] show "passes re he (test_host_to_host rd ''cherrypie'' ''applesauce'')" by (simp add: host_names_def)
  have "passes re he (test_delivery rd (host_names ! 4) (ipv4_address (hip 5) 0) (host_names ! 5))"
    unfolding passes_def using test_third [of _ _ _ _ "hip 5" "sim_table ! 4"] by (simp add: hip_def sim_routes sim_next_hops)
  from passes_host [OF this] show "passes re he (test_host_to_host rd ''dm42'' ''dm43'')" by (simp add: host_names_def)
qed

lemma address_tests:
  assumes "resolves_numeric gai"
  shows "passes re he (test_to_address gai rd ''applesauce'' ''1.2.3.4'' ''default_router'')"
    "passes re he (test_to_address gai rd ''applesauce'' ''143.195.131.17'' ''hs_router'')"
    "passes re he (test_to_address gai rd ''cherrypie'' ''143.195.193.52'' ''hs_router'')"
    "passes re he (test_to_address gai rd ''cherrypie'' ''143.195.223.255'' ''hs_router'')"
    "passes re he (test_to_address gai rd ''cherrypie'' ''143.195.224.0'' ''default_router'')"
proof -
  note lit = test_quads [THEN literal [OF assms]]
  have "passes re he (test_delivery rd (host_names ! 0) (ipv4_address 0x01020304 0) (host_names ! 1))"
    by (rule passes_across [of 1 0 0 1 _ "sim_table ! 0"]) (simp_all add: named_hosts sim_routes sim_next_hops)
  from passes_address [OF this lit(1)] show "passes re he (test_to_address gai rd ''applesauce'' ''1.2.3.4'' ''default_router'')"
    by (simp add: host_names_def)
  have "passes re he (test_delivery rd (host_names ! 0) (ipv4_address 0x8FC38311 0) (host_names ! 3))"
    by (rule passes_across [of 1 0 5 3 _ "sim_table ! 6"]) (simp_all add: named_hosts sim_routes sim_next_hops)
  from passes_address [OF this lit(2)] show "passes re he (test_to_address gai rd ''applesauce'' ''143.195.131.17'' ''hs_router'')"
    by (simp add: host_names_def)
  have "passes re he (test_delivery rd (host_names ! 2) (ipv4_address 0x8FC3C134 0) (host_names ! 3))"
    by (rule passes_across [of 3 2 5 3 _ "sim_table ! 7"]) (simp_all add: named_hosts sim_routes sim_next_hops)
  from passes_address [OF this lit(3)] show "passes re he (test_to_address gai rd ''cherrypie'' ''143.195.193.52'' ''hs_router'')"
    by (simp add: host_names_def)
  have "passes re he (test_delivery rd (host_names ! 2) (ipv4_address 0x8FC3DFFF 0) (host_names ! 3))"
    by (rule passes_across [of 3 2 5 3 _ "sim_table ! 7"]) (simp_all add: named_hosts sim_routes sim_next_hops)
  from passes_address [OF this lit(4)] show "passes re he (test_to_address gai rd ''cherrypie'' ''143.195.223.255'' ''hs_router'')"
    by (simp add: host_names_def)
  have "passes re he (test_delivery rd (host_names ! 2) (ipv4_address 0x8FC3E000 0) (host_names ! 1))"
    by (rule passes_across [of 3 2 0 1 _ "sim_table ! 0"]) (simp_all add: named_hosts sim_routes sim_next_hops)
  from passes_address [OF this lit(5)] show "passes re he (test_to_address gai rd ''cherrypie'' ''143.195.224.0'' ''default_router'')"
    by (simp add: host_names_def)
qed

lemma expiry_tests:
  assumes "resolves_numeric gai" "ttl \<le> 1"
  shows "passes re he (test_expiry gai rd ''applesauce'' ''1.2.3.4'' ttl)"
  unfolding passes_def
proof (intro allI impI)
  fix R H n assume A: "all_ok re he R H"
  have w: "(1, 0) \<in> set wires" "(1, 0) \<in> set gateways" by (simp_all add: wires_def gateways_def)
  have "host_names ! 0 = ''applesauce''" by (simp add: host_names_def)
  then show "\<exists>R' H'. test_expiry gai rd ''applesauce'' ''1.2.3.4'' ttl (net R H, n) = Inr (net R' H', n + 1) \<and> all_ok re he R' H'"
    using test_expired [OF A w assms(2) test_quads(1) [THEN literal [OF assms(1)]], of rd n] by (simp only:)
qed

text \<open>A resolver for numeric addresses and the short form of 0.0.0.0, and a source of numbers that counts.\<close>

definition short_gai :: getaddrinfo where
  "short_gai node service hints =
     (if node = ''0'' then Inr (Some (sockaddr_in 0 (of_nat (digits_val 10 service)), sizeof_sockaddr_in))
      else numeric_gai node service hints)"

definition counting :: "nat \<Rightarrow> u32" where
  "counting n = of_nat n"

lemma short_gai_ok: "resolves_numeric short_gai" "resolves_zero short_gai"
proof -
  have dot: "CHR ''.'' \<in> set (inet_ntoa ip)" for ip by (simp add: inet_ntoa_def)
  have "inet_ntoa ip \<noteq> ''0''" for ip using dot [of ip] by (intro notI) simp
  then show "resolves_numeric short_gai" using numeric_gai_ok by (simp add: resolves_numeric_def short_gai_def)
  have "digits_val 10 (dec 0) = 0" unfolding dec_def by (rule digits_val_digits) simp_all
  moreover have "dec 0 = ''0''" by (simp add: dec_def digits.simps digit_def)
  ultimately have "digits_val 10 ''0'' = 0" by simp
  then show "resolves_zero short_gai" by (simp add: resolves_zero_def short_gai_def del: digits_val.simps)
qed

section \<open>Property\<close>

text \<open>
  C22: the program's tests pass. Built on a resolver that takes numeric addresses for what they are
  and with distinct Ethernet addresses on the one wire that three interfaces share, the network brings
  every datagram the tests send to the host that expects it, with its time to live one lower, brings
  nothing to any other host, and drops the two datagrams whose time to live has run out: no check of
  any host fails, no frame or datagram fails to parse, and no exception is raised.
\<close>

theorem network_simulator_passes:
  assumes "resolves_numeric gai" "resolves_zero gai"
    "distinct [router_ethernet rd 4, host_ethernet rd 4, host_ethernet rd 5]"
  shows "network_simulator gai rd = Inr ()"
proof -
  note ok = new_net_ok [OF assms(3)]
  show ?thesis unfolding network_simulator_def Network_new_net [OF assms(1,2)] res_bind_simps
    by (rule passes_bind [OF ok host_tests(1)], rule passes_bind, assumption, rule host_tests,
      (rule passes_bind, assumption, rule address_tests [OF assms(1)])+, rule passes_bind, assumption, rule host_tests,
      (rule passes_bind, assumption, rule expiry_tests [OF assms(1)], simp)+, rule refl)
qed

theorem network_simulator_passes_witness: "network_simulator short_gai counting = Inr ()"
proof -
  have "distinct [router_ethernet counting 4, host_ethernet counting 4, host_ethernet counting 5]"
    by (simp add: router_ethernet_def host_ethernet_def random_router_ethernet_address_def
      random_host_ethernet_address_def six_bytes_def counting_def upt_6 del: upt_rec_numeral)
  from network_simulator_passes [OF short_gai_ok this] show ?thesis .
qed

end
