(* ===== verification/File_Descriptor.thy ===== *)
theory File_Descriptor
  imports Net_Parser Text_Format
begin

text \<open>
  \<open>libsponge/util/file_descriptor.{hh,cc}\<close> and \<open>SystemCall\<close> of \<open>util.cc\<close>. The operating system is an
  argument: a function that answers a system call with a return value, \<open>errno\<close> and what it stored
  through pointers, and that has a state of its own. A \<open>FileDescriptor\<close> is a shared pointer to an
  \<open>FDWrapper\<close>: here the index of the wrapper in a list, so that duplicates share their flags and
  counters. An operation returns its value or the exception, with the state it leaves behind.
\<close>

section \<open>The operating system\<close>

datatype syscall =
  SC_read int u64 | SC_writev int "(bytes \<times> u64) list" | SC_close int | SC_getfl int | SC_setfl int int
| SC_socket int int | SC_getsockopt int int | SC_setsockopt int int int int | SC_getsockname int | SC_getpeername int
| SC_bind int bytes | SC_connect int bytes | SC_shutdown int int | SC_listen int int | SC_accept int
| SC_recvfrom int u64 | SC_sendmsg int "bytes option" "(bytes \<times> u64) list"
| SC_poll "(int \<times> int) list" int | SC_open string int | SC_tunsetiff int string int | SC_socketpair int
| SC_clock | SC_random | SC_abort_flag

text \<open>
  The last three stand for the steady clock in milliseconds, \<open>std::random_device\<close> and a flag that another
  thread may have set. An answer has the return value and \<open>errno\<close>; bytes read, an address, and integers stored.
\<close>

record sysret =
  sr_value :: int
  sr_errno :: int
  sr_data :: bytes
  sr_address :: bytes
  sr_ints :: "int list"

type_synonym 'k os = "syscall \<Rightarrow> 'k \<Rightarrow> sysret \<times> 'k"

record FDWrapper =
  fd_fd :: int
  fd_eof :: bool
  fd_closed :: bool
  fd_read_count :: u32
  fd_write_count :: u32

record 'k world =
  w_os :: 'k
  w_fds :: "FDWrapper list"

type_synonym FileDescriptor = nat
type_synonym ('k, 'a) io = "'k world \<Rightarrow> 'a res \<times> 'k world"

definition io_return :: "'a \<Rightarrow> ('k, 'a) io" where
  "io_return x = (\<lambda>w. (Inr x, w))"

definition io_throw :: "exn \<Rightarrow> ('k, 'a) io" where
  "io_throw e = (\<lambda>w. (Inl e, w))"

definition io_bind :: "('k, 'a) io \<Rightarrow> ('a \<Rightarrow> ('k, 'b) io) \<Rightarrow> ('k, 'b) io" where
  "io_bind m f = (\<lambda>w. case m w of (Inl e, w) \<Rightarrow> (Inl e, w) | (Inr x, w) \<Rightarrow> f x w)"

text \<open>A value that may be an exception already.\<close>

definition io_lift :: "'a res \<Rightarrow> ('k, 'a) io" where
  "io_lift r = (\<lambda>w. (r, w))"

lemma io_simps [simp]:
  "io_return x w = (Inr x, w)" "io_throw e w = (Inl e, w)" "io_lift r w = (r, w)"
  by (simp_all add: io_return_def io_throw_def io_lift_def)

lemma io_bind_eq: "io_bind m f w = (case m w of (Inl e, w) \<Rightarrow> (Inl e, w) | (Inr x, w) \<Rightarrow> f x w)"
  by (simp add: io_bind_def)

section \<open>SystemCall\<close>

text \<open>\<open>return_value\<close> is an \<open>int\<close>: what a call returns as \<open>ssize_t\<close> is cut to 32 bits.\<close>

definition int32 :: "int \<Rightarrow> int" where
  "int32 v = (v + 2147483648) mod 4294967296 - 2147483648"

definition SystemCall :: "string \<Rightarrow> int \<Rightarrow> int \<Rightarrow> int \<Rightarrow> int res" where
  "SystemCall attempt return_value errno errno_mask =
     (if return_value \<ge> 0 \<or> errno = errno_mask then Inr return_value else Inl (Unix_error attempt errno))"

definition io_syscall :: "'k os \<Rightarrow> string \<Rightarrow> syscall \<Rightarrow> ('k, int \<times> sysret) io" where
  "io_syscall os attempt call = (\<lambda>w.
     let (r, k) = os call (w_os w)
     in (map_sum id (\<lambda>v. (v, r)) (SystemCall attempt (int32 (sr_value r)) (sr_errno r) 0), w\<lparr>w_os := k\<rparr>))"

section \<open>FileDescriptor\<close>

definition FDWrapper_new :: "int \<Rightarrow> FDWrapper res" where
  "FDWrapper_new fd =
     (if fd < 0 then Inl (Runtime_error (''invalid fd number:'' @ ''-'' @ dec (nat (- fd))))
      else Inr \<lparr>fd_fd = fd, fd_eof = False, fd_closed = False, fd_read_count = 0, fd_write_count = 0\<rparr>)"

definition fd_upd :: "FileDescriptor \<Rightarrow> (FDWrapper \<Rightarrow> FDWrapper) \<Rightarrow> ('k, unit) io" where
  "fd_upd fd f = (\<lambda>w. (Inr (), w\<lparr>w_fds := (w_fds w)[fd := f (w_fds w ! fd)]\<rparr>))"

definition FDWrapper_close :: "'k os \<Rightarrow> FileDescriptor \<Rightarrow> ('k, unit) io" where
  "FDWrapper_close os fd = (\<lambda>w.
     io_bind (io_syscall os ''close'' (SC_close (fd_fd (w_fds w ! fd))))
       (\<lambda>_. fd_upd fd (\<lambda>d. d\<lparr>fd_eof := True, fd_closed := True\<rparr>)) w)"

definition FDWrapper_destroy :: "'k os \<Rightarrow> FileDescriptor \<Rightarrow> ('k, unit) io" where
  "FDWrapper_destroy os fd = (\<lambda>w. if fd_closed (w_fds w ! fd) then (Inr (), w) else (Inr (), snd (FDWrapper_close os fd w)))"

definition FileDescriptor_new :: "int \<Rightarrow> ('k, FileDescriptor) io" where
  "FileDescriptor_new fd =
     io_bind (io_lift (FDWrapper_new fd)) (\<lambda>d w. (Inr (length (w_fds w)), w\<lparr>w_fds := w_fds w @ [d]\<rparr>))"

definition FileDescriptor_duplicate :: "FileDescriptor \<Rightarrow> FileDescriptor" where
  "FileDescriptor_duplicate fd = fd"

definition register_read :: "FileDescriptor \<Rightarrow> ('k, unit) io" where
  "register_read fd = fd_upd fd (\<lambda>d. d\<lparr>fd_read_count := fd_read_count d + 1\<rparr>)"

definition register_write :: "FileDescriptor \<Rightarrow> ('k, unit) io" where
  "register_write fd = fd_upd fd (\<lambda>d. d\<lparr>fd_write_count := fd_write_count d + 1\<rparr>)"

definition FileDescriptor_fd_num :: "FileDescriptor \<Rightarrow> 'k world \<Rightarrow> int" where
  "FileDescriptor_fd_num fd w = fd_fd (w_fds w ! fd)"

definition FileDescriptor_eof :: "FileDescriptor \<Rightarrow> 'k world \<Rightarrow> bool" where
  "FileDescriptor_eof fd w = fd_eof (w_fds w ! fd)"

definition FileDescriptor_closed :: "FileDescriptor \<Rightarrow> 'k world \<Rightarrow> bool" where
  "FileDescriptor_closed fd w = fd_closed (w_fds w ! fd)"

definition FileDescriptor_read_count :: "FileDescriptor \<Rightarrow> 'k world \<Rightarrow> u32" where
  "FileDescriptor_read_count fd w = fd_read_count (w_fds w ! fd)"

definition FileDescriptor_write_count :: "FileDescriptor \<Rightarrow> 'k world \<Rightarrow> u32" where
  "FileDescriptor_write_count fd w = fd_write_count (w_fds w ! fd)"

text \<open>\<open>str\<close> holds \<open>size_to_read\<close> zeros when the call writes into it.\<close>

definition FileDescriptor_read :: "'k os \<Rightarrow> FileDescriptor \<Rightarrow> u64 \<Rightarrow> ('k, bytes) io" where
  "FileDescriptor_read os fd limit = (\<lambda>w.
     let size_to_read = min (1024 * 1024) limit
     in io_bind (io_syscall os ''read'' (SC_read (FileDescriptor_fd_num fd w) size_to_read))
          (\<lambda>(bytes_read, r).
             io_bind (if limit > 0 \<and> bytes_read = 0 then fd_upd fd (\<lambda>d. d\<lparr>fd_eof := True\<rparr>) else io_return ())
               (\<lambda>_. if bytes_read > int (unat size_to_read) then io_throw (Runtime_error ''read() read more than requested'')
                    else if bytes_read < 0 then io_throw (Length_error ''basic_string::_M_replace_aux'')
                    else io_bind (register_read fd) (\<lambda>_. io_return (string_resize (nat bytes_read) (sr_data r))))) w)"

lemma remove_prefix_shrinks:
  "BufferViewList_remove_prefix n v = Inr v' \<Longrightarrow> 0 < n \<Longrightarrow> length (concat v') + length v' < length (concat v) + length v"
proof (induction n v rule: BufferViewList_remove_prefix.induct)
  case (2 n front views)
  show ?case
  proof (cases "n < ssize front")
    case True
    then have "0 < unat n" "unat n < length front mod W64" using 2(3) by (simp_all add: word_less_nat_alt unat_ssize_mod)
    moreover have "length front mod W64 \<le> length front" by (rule mod_less_eq_dividend)
    ultimately show ?thesis using 2(2,3) True by auto
  next
    case False
    then show ?thesis using 2 by (cases "n - ssize front = 0"; cases views) (auto simp: word_gt_0)
  qed
qed simp

text \<open>One turn of the loop of \<open>write\<close>: how much was written, and the buffer without it.\<close>

definition FileDescriptor_write_once :: "'k os \<Rightarrow> FileDescriptor \<Rightarrow> BufferViewList \<Rightarrow> ('k, u64 \<times> BufferViewList) io" where
  "FileDescriptor_write_once os fd buffer = (\<lambda>w.
     io_bind (io_syscall os ''writev'' (SC_writev (FileDescriptor_fd_num fd w) (BufferViewList_as_iovecs buffer)))
       (\<lambda>(bytes_written, _).
          if bytes_written = 0 \<and> BufferViewList_size buffer \<noteq> 0
          then io_throw (Runtime_error ''write returned 0 given non-empty input buffer'')
          else if bytes_written > sint (BufferViewList_size buffer)
          then io_throw (Runtime_error ''write wrote more than length of input buffer'')
          else io_bind (register_write fd)
            (\<lambda>_. io_bind (io_lift (BufferViewList_remove_prefix (of_int bytes_written) buffer))
               (\<lambda>buffer. io_return (of_int bytes_written, buffer)))) w)"

function FileDescriptor_write_loop :: "'k os \<Rightarrow> FileDescriptor \<Rightarrow> bool \<Rightarrow> BufferViewList \<Rightarrow> u64 \<Rightarrow> ('k, u64) io" where
  "FileDescriptor_write_loop os fd write_all buffer total_bytes_written w =
     (case FileDescriptor_write_once os fd buffer w of
        (Inl e, w) \<Rightarrow> (Inl e, w)
      | (Inr (bytes_written, buffer), w) \<Rightarrow>
          let total_bytes_written = total_bytes_written + bytes_written
          in if write_all \<and> BufferViewList_size buffer \<noteq> 0
             then FileDescriptor_write_loop os fd write_all buffer total_bytes_written w
             else (Inr total_bytes_written, w))"
  by pat_completeness auto

lemma remove_nothing: "BufferViewList_remove_prefix 0 v = Inr v"
  by (cases v) simp_all

lemma int32_range: "- 2147483648 \<le> int32 v" "int32 v < 2147483648"
proof -
  have "0 \<le> (v + 2147483648) mod 4294967296" "(v + 2147483648) mod 4294967296 < 4294967296"
    by (rule pos_mod_sign pos_mod_bound; simp)+
  then show "- 2147483648 \<le> int32 v" "int32 v < 2147483648" by (simp_all add: int32_def)
qed

lemma of_int_small_eq_0: "- 2147483648 \<le> v \<Longrightarrow> v < 2147483648 \<Longrightarrow> (of_int v :: u64) = 0 \<Longrightarrow> v = 0"
proof -
  assume v: "- 2147483648 \<le> v" "v < 2147483648" "(of_int v :: u64) = 0"
  have "uint (of_int v :: u64) = v mod 18446744073709551616" by (simp add: unsigned_of_int take_bit_eq_mod)
  then have "18446744073709551616 dvd v" using v(3) by (simp add: dvd_eq_mod_eq_0)
  then show "v = 0" using v(1,2) dvd_imp_le_int [of v 18446744073709551616] by (cases "v = 0") simp_all
qed

lemma syscall_value: "io_syscall os a c w = (Inr (v, r), w') \<Longrightarrow> - 2147483648 \<le> v \<and> v < 2147483648"
  by (auto simp: io_syscall_def SystemCall_def split_beta int32_range split: if_splits)

lemma fd_upd_eq [simp]: "fd_upd fd f w = (Inr (), w\<lparr>w_fds := (w_fds w)[fd := f (w_fds w ! fd)]\<rparr>)"
  by (simp add: fd_upd_def)

lemma write_once_Inr:
  assumes "FileDescriptor_write_once os fd buffer w = (Inr (n, buffer'), w')"
  shows "\<exists>v r w1. io_syscall os ''writev'' (SC_writev (FileDescriptor_fd_num fd w) (BufferViewList_as_iovecs buffer)) w = (Inr (v, r), w1)
    \<and> (v = 0 \<longrightarrow> BufferViewList_size buffer = 0) \<and> v \<le> sint (BufferViewList_size buffer) \<and> n = of_int v
    \<and> BufferViewList_remove_prefix n buffer = Inr buffer' \<and> w_os w' = w_os w1"
proof -
  obtain x w1 where 1: "io_syscall os ''writev'' (SC_writev (FileDescriptor_fd_num fd w) (BufferViewList_as_iovecs buffer)) w = (x, w1)"
    by force
  show ?thesis
  proof (cases x)
    case (Inl e)
    then show ?thesis using assms 1 by (simp add: FileDescriptor_write_once_def io_bind_eq)
  next
    case (Inr y)
    obtain v r where "y = (v, r)" by force
    then show ?thesis
      using assms 1 Inr
      by (auto simp: FileDescriptor_write_once_def io_bind_eq register_write_def split: if_splits sum.splits)
  qed
qed

lemma write_once_shrinks:
  assumes "FileDescriptor_write_once os fd buffer w = (Inr (n, buffer'), w')" "BufferViewList_size buffer' \<noteq> 0"
  shows "length (concat buffer') + length buffer' < length (concat buffer) + length buffer"
proof -
  obtain v r w1 where *: "io_syscall os ''writev'' (SC_writev (FileDescriptor_fd_num fd w) (BufferViewList_as_iovecs buffer)) w = (Inr (v, r), w1)"
    "v = 0 \<longrightarrow> BufferViewList_size buffer = 0" "n = of_int v" "BufferViewList_remove_prefix n buffer = Inr buffer'"
    using write_once_Inr [OF assms(1)] by blast
  show ?thesis
  proof (cases "n = 0")
    case True
    then have "v = 0" using of_int_small_eq_0 [of v] syscall_value [OF *(1)] *(3) by simp
    then show ?thesis using * True assms(2) by (simp add: remove_nothing)
  next
    case False
    then show ?thesis using remove_prefix_shrinks [OF *(4)] by (simp add: word_gt_0)
  qed
qed

termination FileDescriptor_write_loop
  by (relation "measure (\<lambda>(os, fd, write_all, buffer, tot, w). length (concat buffer) + length buffer)")
    (auto dest: write_once_shrinks [OF sym])

declare FileDescriptor_write_loop.simps [simp del]

definition FileDescriptor_write :: "'k os \<Rightarrow> FileDescriptor \<Rightarrow> BufferViewList \<Rightarrow> bool \<Rightarrow> ('k, u64) io" where
  "FileDescriptor_write os fd buffer write_all = FileDescriptor_write_loop os fd write_all buffer 0"

definition O_NONBLOCK :: int where "O_NONBLOCK = 2048"

unbundle bit_operations_syntax

definition FileDescriptor_set_blocking :: "'k os \<Rightarrow> FileDescriptor \<Rightarrow> bool \<Rightarrow> ('k, unit) io" where
  "FileDescriptor_set_blocking os fd blocking_state = (\<lambda>w.
     io_bind (io_syscall os ''fcntl'' (SC_getfl (FileDescriptor_fd_num fd w)))
       (\<lambda>(flags, _).
          let flags = (if blocking_state then flags XOR (flags AND O_NONBLOCK) else flags OR O_NONBLOCK)
          in io_bind (io_syscall os ''fcntl'' (SC_setfl (FileDescriptor_fd_num fd w) flags)) (\<lambda>_. io_return ())) w)"

section \<open>Properties\<close>

text \<open>
  What \<open>writev(2)\<close> documents for a stream: a call that fails returns -1, writes nothing and sets \<open>errno\<close>; another
  writes some prefix of the data, at most 0x7ffff000 bytes, and returns its length. \<open>out\<close> is what the
  stream has taken so far.
\<close>

definition stream_sink :: "'k os \<Rightarrow> ('k \<Rightarrow> bytes) \<Rightarrow> int \<Rightarrow> bool" where
  "stream_sink os out n = (\<forall>iov k r k'. os (SC_writev n iov) k = (r, k') \<longrightarrow>
     (if sr_value r = - 1 then sr_errno r \<noteq> 0 \<and> out k' = out k
      else \<exists>m. sr_value r = int m \<and> m \<le> length (concat (map fst iov)) \<and> m \<le> 2147479552
             \<and> out k' = out k @ take m (concat (map fst iov))))"

lemma int32_small: "0 \<le> v \<Longrightarrow> v < 2147483648 \<Longrightarrow> int32 v = v"
  by (simp add: int32_def)

lemma writev_sink:
  assumes "stream_sink os out n" "io_syscall os ''writev'' (SC_writev n (BufferViewList_as_iovecs buffer)) w = (x, w')"
  shows "(\<exists>e. x = Inl (Unix_error ''writev'' e) \<and> out (w_os w') = out (w_os w)) \<or>
    (\<exists>m r. x = Inr (int m, r) \<and> m \<le> length (concat buffer) \<and> m < 2147483648
        \<and> out (w_os w') = out (w_os w) @ take m (concat buffer))"
proof -
  obtain r k where rk: "os (SC_writev n (BufferViewList_as_iovecs buffer)) (w_os w) = (r, k)" by force
  have cat: "concat (map fst (BufferViewList_as_iovecs buffer)) = concat buffer"
    by (simp add: BufferViewList_as_iovecs_eq comp_def)
  show ?thesis
  proof (cases "sr_value r = - 1")
    case True
    with assms(1) rk have "sr_errno r \<noteq> 0 \<and> out k = out (w_os w)" unfolding stream_sink_def by metis
    then show ?thesis
      using assms(2) rk True by (auto simp: io_syscall_def SystemCall_def int32_def)
  next
    case False
    with assms(1) rk cat obtain m where "sr_value r = int m" "m \<le> length (concat buffer)" "m \<le> 2147479552"
        "out k = out (w_os w) @ take m (concat buffer)"
      unfolding stream_sink_def by (metis)
    then show ?thesis
      using assms(2) rk int32_small [of "int m"] by (auto simp: io_syscall_def SystemCall_def)
  qed
qed

lemma fd_num_upd: "fd_fd (f (w_fds w ! fd)) = fd_fd (w_fds w ! fd) \<Longrightarrow>
   FileDescriptor_fd_num fd (w\<lparr>w_fds := (w_fds w)[fd := f (w_fds w ! fd)]\<rparr>) = FileDescriptor_fd_num fd w"
  by (cases "fd < length (w_fds w)") (simp_all add: FileDescriptor_fd_num_def list_update_beyond)

definition write_failure :: "exn \<Rightarrow> bool" where
  "write_failure e = ((\<exists>errno. e = Unix_error ''writev'' errno)
     \<or> e = Runtime_error ''write returned 0 given non-empty input buffer'')"

lemma write_once_sink:
  assumes sink: "stream_sink os out (FileDescriptor_fd_num fd w)" and len: "length (concat buffer) < 9223372036854775808"
    and once: "FileDescriptor_write_once os fd buffer w = (x, w')"
  shows "FileDescriptor_fd_num fd w' = FileDescriptor_fd_num fd w
    \<and> (case x of
         Inl e \<Rightarrow> write_failure e \<and> out (w_os w') = out (w_os w)
       | Inr (n, buffer') \<Rightarrow> \<exists>m \<le> length (concat buffer). n = of_nat m \<and> (m = 0 \<longrightarrow> concat buffer = [])
           \<and> concat buffer' = drop m (concat buffer) \<and> out (w_os w') = out (w_os w) @ take m (concat buffer))"
proof -
  obtain y w1 where 1: "io_syscall os ''writev'' (SC_writev (FileDescriptor_fd_num fd w) (BufferViewList_as_iovecs buffer)) w = (y, w1)"
    by force
  have ok: "BufferViewList_ok buffer" using len by (simp add: BufferViewList_ok_def)
  have w1: "w_fds w1 = w_fds w" using 1 by (auto simp: io_syscall_def split_beta)
  have sz: "sint (BufferViewList_size buffer) = int (length (concat buffer))" "BufferViewList_size buffer = 0 \<longleftrightarrow> concat buffer = []"
  proof -
    have u: "unat (BufferViewList_size buffer) = length (concat buffer)" using len by (simp add: BufferViewList_size_eq unat_ssize)
    then show "BufferViewList_size buffer = 0 \<longleftrightarrow> concat buffer = []" by (metis length_0_conv unat_eq_0)
    show "sint (BufferViewList_size buffer) = int (length (concat buffer))"
      using len u by (simp add: BufferViewList_size_eq ssize_def signed_of_nat signed_take_bit_int_eq_self)
  qed
  from writev_sink [OF sink 1] show ?thesis
  proof (elim disjE exE conjE)
    fix e assume "y = Inl (Unix_error ''writev'' e)" "out (w_os w1) = out (w_os w)"
    then show ?thesis
      using once 1 w1 by (auto simp: FileDescriptor_write_once_def io_bind_eq write_failure_def FileDescriptor_fd_num_def)
  next
    fix m r assume m: "y = Inr (int m, r)" "m \<le> length (concat buffer)" "m < 2147483648"
      "out (w_os w1) = out (w_os w) @ take m (concat buffer)"
    have "unat (of_int (int m) :: u64) = m" using m(3) by (simp add: unat_of_nat_less)
    with views.remove_le [OF ok, of "of_int (int m)"] m(2) obtain buffer' where
      b: "BufferViewList_remove_prefix (of_int (int m)) buffer = Inr buffer'" "concat buffer' = drop m (concat buffer)"
      by auto
    show ?thesis
    proof (cases "m = 0 \<and> concat buffer \<noteq> []")
      case True
      then show ?thesis
        using once 1 w1 m sz(2) by (auto simp: FileDescriptor_write_once_def io_bind_eq write_failure_def FileDescriptor_fd_num_def)
    next
      case False
      then have "\<not> (int m = 0 \<and> BufferViewList_size buffer \<noteq> 0)" "\<not> int m > sint (BufferViewList_size buffer)"
        using m(2) unfolding sz by auto
      then have x: "x = Inr (of_int (int m), buffer')" "w' = w1\<lparr>w_fds := (w_fds w1)[fd := (w_fds w1 ! fd)\<lparr>fd_write_count := fd_write_count (w_fds w1 ! fd) + 1\<rparr>]\<rparr>"
        using once b(1) unfolding FileDescriptor_write_once_def io_bind_eq 1 m(1)
        by (simp_all only: io_bind_eq register_write_def fd_upd_eq io_simps case_prod_conv sum.case if_False prod.inject)
      moreover have "FileDescriptor_fd_num fd w' = FileDescriptor_fd_num fd w1" unfolding x(2) by (rule fd_num_upd) simp
      ultimately show ?thesis using m False b w1 by (auto simp: FileDescriptor_fd_num_def)
    qed
  qed
qed

lemma write_loop_sink:
  assumes "stream_sink os out (FileDescriptor_fd_num fd w)" "length (concat buffer) < 9223372036854775808"
    "FileDescriptor_write_loop os fd write_all buffer tot w = (x, w')"
  shows "\<exists>m \<le> length (concat buffer). out (w_os w') = out (w_os w) @ take m (concat buffer)
    \<and> (case x of
         Inl e \<Rightarrow> write_failure e
       | Inr n \<Rightarrow> n = tot + of_nat m \<and> (write_all \<longrightarrow> m = length (concat buffer)))"
  using assms
proof (induction os fd write_all buffer tot w arbitrary: x w' rule: FileDescriptor_write_loop.induct)
  case (1 os fd write_all buffer tot w)
  obtain y w1 where y: "FileDescriptor_write_once os fd buffer w = (y, w1)" by force
  note S = write_once_sink [OF 1(2,3) y]
  show ?case
  proof (cases y)
    case (Inl e)
    then show ?thesis using 1(4) y S by (subst (asm) FileDescriptor_write_loop.simps) auto
  next
    case (Inr z)
    obtain n buffer' where z: "z = (n, buffer')" by force
    with S Inr obtain m where m: "m \<le> length (concat buffer)" "n = of_nat m" "concat buffer' = drop m (concat buffer)"
        "out (w_os w1) = out (w_os w) @ take m (concat buffer)" "m = 0 \<longrightarrow> concat buffer = []"
        "FileDescriptor_fd_num fd w1 = FileDescriptor_fd_num fd w"
      by auto
    have sz: "BufferViewList_size buffer' \<noteq> 0 \<longleftrightarrow> m < length (concat buffer)"
    proof -
      have "unat (BufferViewList_size buffer') = length (concat buffer) - m"
        using 1(3) m(3) by (simp add: BufferViewList_size_eq unat_ssize)
      then show ?thesis by (metis diff_is_0_eq not_le unat_eq_0 unat_0)
    qed
    show ?thesis
    proof (cases "write_all \<and> BufferViewList_size buffer' \<noteq> 0")
      case True
      then have rec: "FileDescriptor_write_loop os fd write_all buffer' (tot + n) w1 = (x, w')"
        using 1(4) y Inr z by (subst (asm) FileDescriptor_write_loop.simps) simp
      have "\<exists>k \<le> length (concat buffer'). out (w_os w') = out (w_os w1) @ take k (concat buffer')
        \<and> (case x of Inl e \<Rightarrow> write_failure e | Inr n' \<Rightarrow> n' = tot + n + of_nat k \<and> (write_all \<longrightarrow> k = length (concat buffer')))"
        using 1(1) [OF y [symmetric] Inr z [symmetric] refl True, of x w'] 1(2,3) m(3,6) rec by simp
      then obtain k where k: "k \<le> length (concat buffer')" "out (w_os w') = out (w_os w1) @ take k (concat buffer')"
        "case x of Inl e \<Rightarrow> write_failure e | Inr n' \<Rightarrow> n' = tot + n + of_nat k \<and> (write_all \<longrightarrow> k = length (concat buffer'))"
        by blast
      have "take m (concat buffer) @ take k (drop m (concat buffer)) = take (m + k) (concat buffer)"
        by (simp add: take_add)
      then show ?thesis
        using k m(1-4) by (intro exI [of _ "m + k"]) (auto simp: split: sum.splits)
    next
      case False
      then have "x = Inr (tot + n)" "w' = w1"
        using 1(4) y Inr z by (subst (asm) FileDescriptor_write_loop.simps, auto)+
      then show ?thesis using m(1,2,4) sz False by (intro exI [of _ m]) auto
    qed
  qed
qed

text \<open>
  C28: \<open>write\<close> returns, and whatever parts of the data the system takes at each call, what the stream
  receives is a prefix of the buffers in order, without gaps or repetitions. If no exception is thrown,
  the result is the length of that prefix, and with \<open>write_all\<close> it is everything; an exception is an
  error of the system call or the refusal to take anything.
\<close>

theorem write_delivers:
  assumes "stream_sink os out (FileDescriptor_fd_num fd w)" "length (concat buffer) < 9223372036854775808"
  shows "\<exists>x w' m. FileDescriptor_write os fd buffer write_all w = (x, w') \<and> m \<le> length (concat buffer)
    \<and> out (w_os w') = out (w_os w) @ take m (concat buffer)
    \<and> (case x of
         Inl e \<Rightarrow> write_failure e
       | Inr n \<Rightarrow> unat n = m \<and> (write_all \<longrightarrow> m = length (concat buffer)))"
proof -
  obtain x w' where x: "FileDescriptor_write_loop os fd write_all buffer 0 w = (x, w')" by force
  from write_loop_sink [OF assms x] obtain m where m: "m \<le> length (concat buffer)"
    "out (w_os w') = out (w_os w) @ take m (concat buffer)"
    "case x of Inl e \<Rightarrow> write_failure e | Inr n \<Rightarrow> n = 0 + of_nat m \<and> (write_all \<longrightarrow> m = length (concat buffer))"
    by blast
  have "unat (of_nat m :: u64) = m" using m(1) assms(2) by (simp add: unat_of_nat_less)
  with m x show ?thesis
    by (intro exI [of _ x] exI [of _ w'] exI [of _ m]) (auto simp: FileDescriptor_write_def split: sum.splits)
qed

text \<open>A system that takes two bytes at a time.\<close>

fun slow_os :: "bytes os" where
  "slow_os (SC_writev n iov) k =
     (\<lparr>sr_value = int (min 2 (length (concat (map fst iov)))), sr_errno = 0, sr_data = [], sr_address = [], sr_ints = []\<rparr>,
      k @ take 2 (concat (map fst iov)))"
| "slow_os _ k = (\<lparr>sr_value = - 1, sr_errno = 38, sr_data = [], sr_address = [], sr_ints = []\<rparr>, k)"

definition demo_world :: "bytes world" where
  "demo_world = \<lparr>w_os = [], w_fds =
     [\<lparr>fd_fd = 3, fd_eof = False, fd_closed = False, fd_read_count = 0, fd_write_count = 0\<rparr>]\<rparr>"

lemma slow_os_sink: "stream_sink slow_os (\<lambda>k. k) n"
proof -
  have "take 2 xs = take (min 2 (length xs)) xs" for xs :: bytes by (cases "2 \<le> length xs") simp_all
  then show ?thesis
    by (auto simp: stream_sink_def intro!: exI [of _ "min 2 (length (concat (map fst iov)))" for iov])
qed

theorem write_delivers_witness:
  "\<exists>x w' m. FileDescriptor_write slow_os 0 [[1, 2, 3], [4, 5]] True demo_world = (x, w') \<and> m \<le> 5
    \<and> w_os w' = take m [1, 2, 3, 4, 5]
    \<and> (case x of Inl e \<Rightarrow> write_failure e | Inr n \<Rightarrow> unat n = m \<and> m = 5)"
proof -
  have "stream_sink slow_os (\<lambda>k. k) n" for n by (rule slow_os_sink)
  moreover have "length (concat [[1, 2, 3], [4, 5 :: byte]]) < 9223372036854775808" by simp
  ultimately obtain x w' m where *: "FileDescriptor_write slow_os 0 [[1, 2, 3], [4, 5]] True demo_world = (x, w')"
    "m \<le> length (concat [[1, 2, 3], [4, 5 :: byte]])" "w_os w' = w_os demo_world @ take m (concat [[1, 2, 3], [4, 5]])"
    "case x of Inl e \<Rightarrow> write_failure e | Inr n \<Rightarrow> unat n = m \<and> (True \<longrightarrow> m = length (concat [[1, 2, 3], [4, 5 :: byte]]))"
    using write_delivers [where buffer = "[[1, 2, 3], [4, 5]]" and fd = 0 and w = demo_world and write_all = True] by blast
  have "m \<le> 5" "w_os w' = take m [1, 2, 3, 4, 5]" using *(2,3) by (simp_all add: demo_world_def)
  with *(1,4) show ?thesis by (intro exI [of _ x] exI [of _ w'] exI [of _ m]) (cases x; simp)
qed

end
