(* ===== verification/Socket.thy ===== *)
theory Socket
  imports File_Descriptor Address
begin

text \<open>
  \<open>libsponge/util/socket.{hh,cc}\<close> and \<open>tun.{hh,cc}\<close>: sockets and TUN/TAP devices as file descriptors. The
  class hierarchy only adds operations, so a socket is a \<open>FileDescriptor\<close>. The destructors that run
  when a constructor throws are not modelled.
\<close>

section \<open>Constants of the system\<close>

definition AF_UNIX :: int where "AF_UNIX = 1"
definition SOCK_STREAM :: int where "SOCK_STREAM = 1"
definition SOCK_DGRAM :: int where "SOCK_DGRAM = 2"
definition SOL_SOCKET :: int where "SOL_SOCKET = 1"
definition SO_REUSEADDR :: int where "SO_REUSEADDR = 2"
definition SO_TYPE :: int where "SO_TYPE = 3"
definition SO_DOMAIN :: int where "SO_DOMAIN = 39"
definition SHUT_RD :: int where "SHUT_RD = 0"
definition SHUT_WR :: int where "SHUT_WR = 1"
definition SHUT_RDWR :: int where "SHUT_RDWR = 2"
definition O_RDWR :: int where "O_RDWR = 2"
definition IFF_TUN :: int where "IFF_TUN = 1"
definition IFF_TAP :: int where "IFF_TAP = 2"
definition IFF_NO_PI :: int where "IFF_NO_PI = 4096"
definition IFNAMSIZ :: nat where "IFNAMSIZ = 16"

section \<open>Socket\<close>

definition Socket_new :: "'k os \<Rightarrow> int \<Rightarrow> int \<Rightarrow> ('k, FileDescriptor) io" where
  "Socket_new os domain type = io_bind (io_syscall os ''socket'' (SC_socket domain type)) (\<lambda>(fd, _). FileDescriptor_new fd)"

text \<open>\<open>getsockopt\<close> stores the value and its length.\<close>

definition Socket_verify :: "'k os \<Rightarrow> FileDescriptor \<Rightarrow> int \<Rightarrow> int \<Rightarrow> string \<Rightarrow> ('k, unit) io" where
  "Socket_verify os fd option expected message = (\<lambda>w.
     io_bind (io_syscall os ''getsockopt'' (SC_getsockopt (FileDescriptor_fd_num fd w) option))
       (\<lambda>(_, r). if sr_ints r = [expected, 4] then io_return () else io_throw (Runtime_error message)) w)"

definition Socket_of_fd :: "'k os \<Rightarrow> FileDescriptor \<Rightarrow> int \<Rightarrow> int \<Rightarrow> ('k, FileDescriptor) io" where
  "Socket_of_fd os fd domain type =
     io_bind (Socket_verify os fd SO_DOMAIN domain ''socket domain mismatch'')
       (\<lambda>_. io_bind (Socket_verify os fd SO_TYPE type ''socket type mismatch'') (\<lambda>_. io_return fd))"

definition Socket_get_address :: "'k os \<Rightarrow> string \<Rightarrow> (int \<Rightarrow> syscall) \<Rightarrow> FileDescriptor \<Rightarrow> ('k, Address) io" where
  "Socket_get_address os name_of_function function fd = (\<lambda>w.
     io_bind (io_syscall os name_of_function (function (FileDescriptor_fd_num fd w)))
       (\<lambda>(_, r). io_lift (Address_of_sockaddr (sr_address r) (ssize (sr_address r)))) w)"

definition Socket_local_address :: "'k os \<Rightarrow> FileDescriptor \<Rightarrow> ('k, Address) io" where
  "Socket_local_address os = Socket_get_address os ''getsockname'' SC_getsockname"

definition Socket_peer_address :: "'k os \<Rightarrow> FileDescriptor \<Rightarrow> ('k, Address) io" where
  "Socket_peer_address os = Socket_get_address os ''getpeername'' SC_getpeername"

definition Address_raw :: "Address \<Rightarrow> bytes" where
  "Address_raw a = take (unat (ad_size a)) (ad_storage a)"

definition Socket_bind :: "'k os \<Rightarrow> FileDescriptor \<Rightarrow> Address \<Rightarrow> ('k, unit) io" where
  "Socket_bind os fd address = (\<lambda>w.
     io_bind (io_syscall os ''bind'' (SC_bind (FileDescriptor_fd_num fd w) (Address_raw address))) (\<lambda>_. io_return ()) w)"

definition Socket_connect :: "'k os \<Rightarrow> FileDescriptor \<Rightarrow> Address \<Rightarrow> ('k, unit) io" where
  "Socket_connect os fd address = (\<lambda>w.
     io_bind (io_syscall os ''connect'' (SC_connect (FileDescriptor_fd_num fd w) (Address_raw address))) (\<lambda>_. io_return ()) w)"

definition Socket_shutdown :: "'k os \<Rightarrow> FileDescriptor \<Rightarrow> int \<Rightarrow> ('k, unit) io" where
  "Socket_shutdown os fd how = (\<lambda>w.
     io_bind (io_syscall os ''shutdown'' (SC_shutdown (FileDescriptor_fd_num fd w) how))
       (\<lambda>_. if how = SHUT_RD then register_read fd
            else if how = SHUT_WR then register_write fd
            else if how = SHUT_RDWR then io_bind (register_read fd) (\<lambda>_. register_write fd)
            else io_throw (Runtime_error ''Socket::shutdown() called with invalid `how`'')) w)"

definition Socket_setsockopt :: "'k os \<Rightarrow> FileDescriptor \<Rightarrow> int \<Rightarrow> int \<Rightarrow> int \<Rightarrow> ('k, unit) io" where
  "Socket_setsockopt os fd level option option_value = (\<lambda>w.
     io_bind (io_syscall os ''setsockopt'' (SC_setsockopt (FileDescriptor_fd_num fd w) level option option_value))
       (\<lambda>_. io_return ()) w)"

definition Socket_set_reuseaddr :: "'k os \<Rightarrow> FileDescriptor \<Rightarrow> ('k, unit) io" where
  "Socket_set_reuseaddr os fd = Socket_setsockopt os fd SOL_SOCKET SO_REUSEADDR 1"

section \<open>UDPSocket\<close>

record received_datagram =
  rd_source_address :: Address
  rd_payload :: bytes

definition UDPSocket_new :: "'k os \<Rightarrow> ('k, FileDescriptor) io" where
  "UDPSocket_new os = Socket_new os AF_INET SOCK_DGRAM"

definition UDPSocket_of_fd :: "'k os \<Rightarrow> FileDescriptor \<Rightarrow> ('k, FileDescriptor) io" where
  "UDPSocket_of_fd os fd = Socket_of_fd os fd AF_INET SOCK_DGRAM"

text \<open>With \<open>MSG_TRUNC\<close> the call returns the length of the datagram even when it did not fit.\<close>

definition UDPSocket_recv :: "'k os \<Rightarrow> FileDescriptor \<Rightarrow> u64 \<Rightarrow> ('k, received_datagram) io" where
  "UDPSocket_recv os fd mtu = (\<lambda>w.
     io_bind (io_syscall os ''recvfrom'' (SC_recvfrom (FileDescriptor_fd_num fd w) mtu))
       (\<lambda>(recv_len, r).
          if recv_len > sint mtu then io_throw (Runtime_error ''recvfrom (oversized datagram)'')
          else io_bind (register_read fd)
            (\<lambda>_. io_bind (io_lift (Address_of_sockaddr (sr_address r) (ssize (sr_address r))))
               (\<lambda>source_address.
                  if recv_len < 0 then io_throw (Length_error ''basic_string::_M_replace_aux'')
                  else io_return \<lparr>rd_source_address = source_address,
                         rd_payload = string_resize (nat recv_len) (take (unat mtu) (sr_data r))\<rparr>))) w)"

definition sendmsg_helper :: "'k os \<Rightarrow> int \<Rightarrow> bytes option \<Rightarrow> BufferViewList \<Rightarrow> ('k, unit) io" where
  "sendmsg_helper os fd_num destination_address payload =
     io_bind (io_syscall os ''sendmsg'' (SC_sendmsg fd_num destination_address (BufferViewList_as_iovecs payload)))
       (\<lambda>(bytes_sent, _).
          if of_int bytes_sent \<noteq> BufferViewList_size payload
          then io_throw (Runtime_error ''datagram payload too big for sendmsg()'') else io_return ())"

definition UDPSocket_sendto :: "'k os \<Rightarrow> FileDescriptor \<Rightarrow> Address \<Rightarrow> BufferViewList \<Rightarrow> ('k, unit) io" where
  "UDPSocket_sendto os fd destination payload = (\<lambda>w.
     io_bind (sendmsg_helper os (FileDescriptor_fd_num fd w) (Some (Address_raw destination)) payload)
       (\<lambda>_. register_write fd) w)"

definition UDPSocket_send :: "'k os \<Rightarrow> FileDescriptor \<Rightarrow> BufferViewList \<Rightarrow> ('k, unit) io" where
  "UDPSocket_send os fd payload = (\<lambda>w.
     io_bind (sendmsg_helper os (FileDescriptor_fd_num fd w) None payload) (\<lambda>_. register_write fd) w)"

section \<open>TCPSocket and LocalStreamSocket\<close>

definition TCPSocket_new :: "'k os \<Rightarrow> ('k, FileDescriptor) io" where
  "TCPSocket_new os = Socket_new os AF_INET SOCK_STREAM"

definition TCPSocket_of_fd :: "'k os \<Rightarrow> FileDescriptor \<Rightarrow> ('k, FileDescriptor) io" where
  "TCPSocket_of_fd os fd = Socket_of_fd os fd AF_INET SOCK_STREAM"

definition TCPSocket_listen :: "'k os \<Rightarrow> FileDescriptor \<Rightarrow> int \<Rightarrow> ('k, unit) io" where
  "TCPSocket_listen os fd backlog = (\<lambda>w.
     io_bind (io_syscall os ''listen'' (SC_listen (FileDescriptor_fd_num fd w) backlog)) (\<lambda>_. io_return ()) w)"

definition TCPSocket_accept :: "'k os \<Rightarrow> FileDescriptor \<Rightarrow> ('k, FileDescriptor) io" where
  "TCPSocket_accept os fd = (\<lambda>w.
     io_bind (register_read fd)
       (\<lambda>_. io_bind (io_syscall os ''accept'' (SC_accept (FileDescriptor_fd_num fd w)))
          (\<lambda>(n, _). io_bind (FileDescriptor_new n) (TCPSocket_of_fd os))) w)"

definition LocalStreamSocket_of_fd :: "'k os \<Rightarrow> FileDescriptor \<Rightarrow> ('k, FileDescriptor) io" where
  "LocalStreamSocket_of_fd os fd = Socket_of_fd os fd AF_UNIX SOCK_STREAM"

section \<open>TUN and TAP devices\<close>

definition CLONEDEV :: string where "CLONEDEV = ''/dev/net/tun''"

text \<open>\<open>strncpy\<close> copies at most \<open>IFNAMSIZ - 1\<close> characters, up to the first NUL.\<close>

definition TunTapFD_new :: "'k os \<Rightarrow> string \<Rightarrow> bool \<Rightarrow> ('k, FileDescriptor) io" where
  "TunTapFD_new os devname is_tun =
     io_bind (io_syscall os ''open'' (SC_open CLONEDEV O_RDWR))
       (\<lambda>(n, _). io_bind (FileDescriptor_new n)
          (\<lambda>fd w. io_bind (io_syscall os ''ioctl'' (SC_tunsetiff (FileDescriptor_fd_num fd w)
                     (take (IFNAMSIZ - 1) (takeWhile (\<lambda>c. c \<noteq> CHR 0x00) devname))
                     ((if is_tun then IFF_TUN else IFF_TAP) + IFF_NO_PI)))
                   (\<lambda>_. io_return fd) w))"

definition TunFD_new :: "'k os \<Rightarrow> string \<Rightarrow> ('k, FileDescriptor) io" where
  "TunFD_new os devname = TunTapFD_new os devname True"

definition TapFD_new :: "'k os \<Rightarrow> string \<Rightarrow> ('k, FileDescriptor) io" where
  "TapFD_new os devname = TunTapFD_new os devname False"

end
