(* ===== verification/Io_Frames.thy ===== *)
theory Io_Frames
  imports Socket
begin

text \<open>
  What the operations on file descriptors leave alone. \<open>io_rel R m\<close> says that whatever \<open>m\<close> returns, the
  states before and after are related by \<open>R\<close>; for a preorder \<open>R\<close> it passes through \<open>io_bind\<close>.
\<close>

named_theorems io_rels

definition io_rel :: "('k world \<Rightarrow> 'k world \<Rightarrow> bool) \<Rightarrow> ('k, 'a) io \<Rightarrow> bool" where
  "io_rel R m = (\<forall>w. R w (snd (m w)))"

text \<open>Only the descriptor \<open>fd\<close> may change, and of it not the number.\<close>

definition fds_but :: "FileDescriptor \<Rightarrow> 'k world \<Rightarrow> 'k world \<Rightarrow> bool" where
  "fds_but fd w w' =
     (length (w_fds w') = length (w_fds w) \<and> (\<forall>i. i \<noteq> fd \<longrightarrow> w_fds w' ! i = w_fds w ! i)
      \<and> fd_fd (w_fds w' ! fd) = fd_fd (w_fds w ! fd))"

text \<open>Of the descriptor \<open>fd\<close> only the number of writes may change.\<close>

definition fd_written :: "FileDescriptor \<Rightarrow> 'k world \<Rightarrow> 'k world \<Rightarrow> bool" where
  "fd_written fd w w' =
     (fds_but fd w w' \<and> (\<exists>n. w_fds w' ! fd = (w_fds w ! fd)\<lparr>fd_write_count := n\<rparr>))"

lemma fds_but_refl [simp]: "fds_but fd w w"
  by (simp add: fds_but_def)

lemma fds_but_trans: "fds_but fd w w' \<Longrightarrow> fds_but fd w' w'' \<Longrightarrow> fds_but fd w w''"
  by (simp add: fds_but_def)

lemma fd_written_refl [simp]: "fd_written fd w w"
  by (auto simp: fd_written_def intro: exI [of _ "fd_write_count (w_fds w ! fd)"])

lemma fd_written_trans: "fd_written fd w w' \<Longrightarrow> fd_written fd w' w'' \<Longrightarrow> fd_written fd w w''"
  by (auto simp: fd_written_def intro: fds_but_trans)

lemma fd_written_but: "fd_written fd w w' \<Longrightarrow> fds_but fd w w'"
  by (simp add: fd_written_def)

lemma fds_but_os [simp]: "fds_but fd w (w\<lparr>w_os := k\<rparr>)"
  by (simp add: fds_but_def)

lemma fd_written_os [simp]: "fd_written fd w (w\<lparr>w_os := k\<rparr>)"
  by (auto simp: fd_written_def intro: exI [of _ "fd_write_count (w_fds w ! fd)"])

lemma io_rel_mono: "io_rel R m \<Longrightarrow> (\<And>w w'. R w w' \<Longrightarrow> S w w') \<Longrightarrow> io_rel S m"
  by (simp add: io_rel_def)

locale io_preorder =
  fixes R :: "'k world \<Rightarrow> 'k world \<Rightarrow> bool"
  assumes refl: "R w w" and trans: "R w w' \<Longrightarrow> R w' w'' \<Longrightarrow> R w w''"
    and os: "R w (w\<lparr>w_os := k\<rparr>)"
begin

lemma pure: "io_rel R (io_return x)" "io_rel R (io_throw e)" "io_rel R (io_lift r)"
  by (simp_all add: io_rel_def refl)

lemma syscall: "io_rel R (io_syscall c attempt call)"
  by (simp add: io_rel_def io_syscall_def split_beta os)

lemma bind:
  assumes "io_rel R m" "\<And>x. io_rel R (f x)"
  shows "io_rel R (io_bind m f)"
  unfolding io_rel_def
proof
  fix w
  obtain r w1 where m: "m w = (r, w1)" by force
  then have "R w w1" using assms(1) by (metis io_rel_def snd_conv)
  then show "R w (snd (io_bind m f w))"
    using assms(2) m trans by (cases r) (auto simp: io_bind_eq io_rel_def)
qed

lemma bind_at: "(\<And>w. io_rel R (m w)) \<Longrightarrow> (\<And>w x. io_rel R (f w x)) \<Longrightarrow> io_rel R (\<lambda>w. io_bind (m w) (f w) w)"
  using bind [of "m w" "f w" for w] by (simp add: io_rel_def)

lemma cond: "io_rel R m \<Longrightarrow> io_rel R m' \<Longrightarrow> io_rel R (if b then m else m')"
  by simp

lemma cases:
  "(\<And>a b. io_rel R (f a b)) \<Longrightarrow> io_rel R (case x of (a, b) \<Rightarrow> f a b)"
  "io_rel R m \<Longrightarrow> (\<And>y. io_rel R (g y)) \<Longrightarrow> io_rel R (case opt of None \<Rightarrow> m | Some y \<Rightarrow> g y)"
  "(\<And>y. io_rel R (h y)) \<Longrightarrow> io_rel R (let y = t in h y)"
  by (simp_all add: split_beta split: option.split)

lemmas rules = pure syscall bind cond cases

end

interpretation but: io_preorder "fds_but fd" for fd
  by unfold_locales (auto intro: fds_but_trans)

interpretation written: io_preorder "fd_written fd" for fd
  by unfold_locales (auto intro: fd_written_trans)

lemma update_cases: "xs[i := x] ! i = x \<or> xs[i := x] ! i = xs ! i"
  by (cases "i < length xs") (simp_all add: list_update_beyond)

lemma fd_upd_but [io_rels]:
  assumes "\<And>d. fd_fd (f d) = fd_fd d"
  shows "io_rel (fds_but fd) (fd_upd fd f)"
proof -
  have "fd_fd (xs[fd := f (xs ! fd)] ! fd) = fd_fd (xs ! fd)" for xs
    using update_cases [of xs fd "f (xs ! fd)"] assms by metis
  then show ?thesis by (simp add: io_rel_def fds_but_def)
qed

lemma register_read_but [io_rels]: "io_rel (fds_but fd) (register_read fd)"
  unfolding register_read_def by (rule fd_upd_but) simp

lemma register_write_written [io_rels]: "io_rel (fd_written fd) (register_write fd :: ('k, unit) io)"
proof -
  have "\<exists>n. xs[fd := (xs ! fd)\<lparr>fd_write_count := c\<rparr>] ! fd = (xs ! fd)\<lparr>fd_write_count := n\<rparr>" for xs c
  proof (cases "fd < length xs")
    case True
    then show ?thesis by (intro exI [of _ c]) simp
  next
    case False
    then show ?thesis by (intro exI [of _ "fd_write_count (xs ! fd)"]) (simp add: list_update_beyond)
  qed
  moreover have "io_rel (fds_but fd) (fd_upd fd (\<lambda>d. d\<lparr>fd_write_count := fd_write_count d + 1\<rparr>) :: ('k, unit) io)"
    by (rule fd_upd_but) simp
  ultimately show ?thesis unfolding io_rel_def fd_written_def register_write_def fd_upd_eq by simp blast
qed

lemma write_loop_written: "fd_written fd w (snd (FileDescriptor_write_loop os fd write_all buffer n w))"
proof (induction os fd write_all buffer n w rule: FileDescriptor_write_loop.induct)
  case (1 os fd write_all buffer n w)
  have once: "io_rel (fd_written fd) (FileDescriptor_write_once os fd buffer)"
    unfolding FileDescriptor_write_once_def
    by (intro written.bind_at written.rules register_write_written)
  obtain r w1 where w1: "FileDescriptor_write_once os fd buffer w = (r, w1)" by force
  then have w: "fd_written fd w w1" using once by (metis io_rel_def snd_conv)
  show ?case
  proof (cases r)
    case (Inl e)
    then show ?thesis using w w1 by (subst FileDescriptor_write_loop.simps) simp
  next
    case (Inr y)
    obtain m b where y: "y = (m, b)" by force
    show ?thesis
    proof (cases "write_all \<and> BufferViewList_size b \<noteq> 0")
      case True
      with 1 [OF w1 [symmetric] Inr y [symmetric] refl]
      have "fd_written fd w1 (snd (FileDescriptor_write_loop os fd write_all b (n + m) w1))" by simp
      then show ?thesis
        using True w w1 Inr y by (subst FileDescriptor_write_loop.simps) (auto intro: fd_written_trans)
    next
      case False
      then show ?thesis using w w1 Inr y by (subst FileDescriptor_write_loop.simps) auto
    qed
  qed
qed

lemma write_written [io_rels]: "io_rel (fd_written fd) (FileDescriptor_write os fd buffer write_all)"
  by (simp add: io_rel_def FileDescriptor_write_def write_loop_written)

lemma sendto_written [io_rels]: "io_rel (fd_written fd) (UDPSocket_sendto os fd dest payload)"
  unfolding UDPSocket_sendto_def sendmsg_helper_def
  by (intro written.bind_at written.rules register_write_written)

lemma read_but [io_rels]: "io_rel (fds_but fd) (FileDescriptor_read os fd limit)"
  unfolding FileDescriptor_read_def Let_def
  by (intro but.bind_at but.rules register_read_but fd_upd_but; simp)

lemma recv_but [io_rels]: "io_rel (fds_but fd) (UDPSocket_recv os fd mtu)"
  unfolding UDPSocket_recv_def
  by (intro but.bind_at but.rules register_read_but)

text \<open>Both ways of receiving count one read.\<close>

lemma register_read_count:
  "fd < length (w_fds w) \<Longrightarrow> register_read fd w = (Inr (), w') \<Longrightarrow>
   FileDescriptor_read_count fd w' = FileDescriptor_read_count fd w + 1"
  by (auto simp: register_read_def FileDescriptor_read_count_def)

lemma io_syscall_fds: "io_syscall os attempt call w = (r, w') \<Longrightarrow> w_fds w' = w_fds w"
  by (auto simp: io_syscall_def split_beta)

lemma io_bind_Inr: "io_bind m f w = (Inr y, w') \<longleftrightarrow> (\<exists>x w1. m w = (Inr x, w1) \<and> f x w1 = (Inr y, w'))"
  by (auto simp: io_bind_eq split: prod.split sum.split)

lemma read_count_read:
  assumes "FileDescriptor_read os fd limit w = (Inr str, w')" "fd < length (w_fds w)"
  shows "FileDescriptor_read_count fd w' = FileDescriptor_read_count fd w + 1"
    "length str \<le> unat limit"
proof -
  obtain x w1 where 1: "io_syscall os ''read'' (SC_read (FileDescriptor_fd_num fd w) (min (1024 * 1024) limit)) w = (x, w1)"
    by force
  have w1: "w_fds w1 = w_fds w" by (rule io_syscall_fds [OF 1])
  obtain v r where x: "x = Inr (v, r)"
    using assms(1) 1 by (cases x) (auto simp: FileDescriptor_read_def Let_def io_bind_eq)
  obtain w2 where w2: "(if limit > 0 \<and> v = 0 then fd_upd fd (\<lambda>d. d\<lparr>fd_eof := True\<rparr>) else io_return ()) w1 = (Inr (), w2)"
    by (cases "limit > 0 \<and> v = 0") simp_all
  have "v \<le> int (unat (min (1024 * 1024) limit)) \<and> 0 \<le> v \<and> str = string_resize (nat v) (sr_data r)
      \<and> register_read fd w2 = (Inr (), w')"
    using assms(1) 1 x w2
    by (simp add: FileDescriptor_read_def Let_def io_bind_eq register_read_def split: if_splits)
  then have v: "v \<le> int (unat (min (1024 * 1024) limit))" "0 \<le> v" "str = string_resize (nat v) (sr_data r)"
    and w': "register_read fd w2 = (Inr (), w')" by auto
  have "fd < length (w_fds w2) \<and> FileDescriptor_read_count fd w2 = FileDescriptor_read_count fd w"
    using w2 w1 assms(2) by (auto simp: FileDescriptor_read_count_def split: if_splits)
  with register_read_count [OF _ w'] show "FileDescriptor_read_count fd w' = FileDescriptor_read_count fd w + 1" by simp
  have "unat (min (1024 * 1024) limit) \<le> unat limit" by (simp add: min_def word_le_nat_alt)
  moreover have "length str = nat v" using v(3) by (simp add: string_resize_def)
  moreover have "nat v \<le> unat (min (1024 * 1024) limit)" using v(1) by (simp only: nat_le_iff)
  ultimately show "length str \<le> unat limit" by linarith
qed

lemma recv_count:
  assumes "UDPSocket_recv os fd mtu w = (Inr d, w')" "fd < length (w_fds w)"
  shows "FileDescriptor_read_count fd w' = FileDescriptor_read_count fd w + 1"
  using assms by (auto simp: UDPSocket_recv_def io_bind_Inr FileDescriptor_read_count_def register_read_def
      dest!: io_syscall_fds split: if_splits)

end
