(* ===== verification/Byte_Stream.thy ===== *)
theory Byte_Stream
  imports Buffers
begin

text \<open>
  \<open>libsponge/byte_stream.{hh,cc}\<close>: the flow-controlled in-memory byte stream. The model keeps the
  \<open>BufferList\<close> representation and the 64-bit counters of the class; the abstract view of a
  stream is the byte sequence it holds. The locale \<open>byte_channel\<close> states what clients (the
  reassembler, the sender, the applications) rely on, and proves the FIFO law once.
\<close>

section \<open>Model\<close>

record ByteStream =
  bs_buffer :: BufferList
  bs_capacity :: u64
  bs_read_count :: u64
  bs_write_count :: u64
  bs_input_ended_flag :: bool
  bs_error :: bool

definition ByteStream_new :: "u64 \<Rightarrow> ByteStream" where
  "ByteStream_new capacity =
     \<lparr>bs_buffer = [], bs_capacity = capacity, bs_read_count = 0, bs_write_count = 0,
      bs_input_ended_flag = False, bs_error = False\<rparr>"

definition ByteStream_write :: "bytes \<Rightarrow> ByteStream \<Rightarrow> u64 \<times> ByteStream" where
  "ByteStream_write data bs =
     (let len = ssize data;
          len = (if len > bs_capacity bs - BufferList_size (bs_buffer bs)
                 then bs_capacity bs - BufferList_size (bs_buffer bs) else len);
          bs = bs\<lparr>bs_write_count := bs_write_count bs + len\<rparr>;
          s = take (unat len) data;
          bs = bs\<lparr>bs_buffer := BufferList_append (bs_buffer bs) (BufferList_of_string s)\<rparr>
      in (len, bs))"

definition ByteStream_peek_output :: "u64 \<Rightarrow> ByteStream \<Rightarrow> bytes" where
  "ByteStream_peek_output len bs =
     (let length = len;
          length = (if length > BufferList_size (bs_buffer bs) then BufferList_size (bs_buffer bs)
                    else length);
          s = BufferList_concatenate (bs_buffer bs)
      in take (unat length) s)"

text \<open>
  \<open>pop_output\<close> asks the buffer list for at most its own size, so the exception of
  \<open>remove_prefix\<close> cannot escape (lemma \<open>pop_output_no_throw\<close>); on that dead branch the model
  keeps the state the source would leave behind.
\<close>

definition ByteStream_pop_output :: "u64 \<Rightarrow> ByteStream \<Rightarrow> ByteStream" where
  "ByteStream_pop_output len bs =
     (let length = len;
          length = (if length > BufferList_size (bs_buffer bs) then BufferList_size (bs_buffer bs)
                    else length);
          bs = bs\<lparr>bs_read_count := bs_read_count bs + length\<rparr>
      in case BufferList_remove_prefix length (bs_buffer bs) of
           Inl e \<Rightarrow> bs
         | Inr buffer \<Rightarrow> bs\<lparr>bs_buffer := buffer\<rparr>)"

definition ByteStream_read :: "u64 \<Rightarrow> ByteStream \<Rightarrow> bytes \<times> ByteStream" where
  "ByteStream_read len bs =
     (let ret = ByteStream_peek_output len bs; bs = ByteStream_pop_output len bs in (ret, bs))"

definition ByteStream_end_input :: "ByteStream \<Rightarrow> ByteStream" where
  "ByteStream_end_input bs = bs\<lparr>bs_input_ended_flag := True\<rparr>"

definition ByteStream_set_error :: "ByteStream \<Rightarrow> ByteStream" where
  "ByteStream_set_error bs = bs\<lparr>bs_error := True\<rparr>"

definition ByteStream_input_ended :: "ByteStream \<Rightarrow> bool" where
  "ByteStream_input_ended bs = bs_input_ended_flag bs"

definition ByteStream_buffer_size :: "ByteStream \<Rightarrow> u64" where
  "ByteStream_buffer_size bs = BufferList_size (bs_buffer bs)"

definition ByteStream_buffer_empty :: "ByteStream \<Rightarrow> bool" where
  "ByteStream_buffer_empty bs = (BufferList_size (bs_buffer bs) = 0)"

definition ByteStream_eof :: "ByteStream \<Rightarrow> bool" where
  "ByteStream_eof bs = (ByteStream_buffer_empty bs \<and> ByteStream_input_ended bs)"

definition ByteStream_bytes_written :: "ByteStream \<Rightarrow> u64" where
  "ByteStream_bytes_written bs = bs_write_count bs"

definition ByteStream_bytes_read :: "ByteStream \<Rightarrow> u64" where
  "ByteStream_bytes_read bs = bs_read_count bs"

definition ByteStream_remaining_capacity :: "ByteStream \<Rightarrow> u64" where
  "ByteStream_remaining_capacity bs = bs_capacity bs - BufferList_size (bs_buffer bs)"

lemmas ByteStream_accessor_defs =
  ByteStream_input_ended_def ByteStream_buffer_size_def ByteStream_buffer_empty_def
  ByteStream_eof_def ByteStream_bytes_written_def ByteStream_bytes_read_def
  ByteStream_remaining_capacity_def

section \<open>Abstraction and invariant\<close>

definition bs_content :: "ByteStream \<Rightarrow> bytes" where
  "bs_content bs = BufferList_concatenate (bs_buffer bs)"

text \<open>
  The stored bytes never exceed the capacity, and the two counters differ by what is stored
  (as 64-bit counters, so also after they wrapped).
\<close>

definition bs_ok :: "ByteStream \<Rightarrow> bool" where
  "bs_ok bs =
     (list_all Buffer_ok (bs_buffer bs) \<and> length (bs_content bs) \<le> unat (bs_capacity bs)
      \<and> bs_write_count bs = bs_read_count bs + ssize (bs_content bs))"

lemma bs_ok_length: "bs_ok bs \<Longrightarrow> length (bs_content bs) < W64"
  using unat_u64_lt [of "bs_capacity bs"] by (simp add: bs_ok_def)

lemma bs_ok_cap: "bs_ok bs \<Longrightarrow> length (bs_content bs) \<le> unat (bs_capacity bs)"
  by (simp add: bs_ok_def)

lemma unat_buffer_size:
  "bs_ok bs \<Longrightarrow> unat (BufferList_size (bs_buffer bs)) = length (bs_content bs)"
  by (simp add: BufferList_size_eq bs_content_def [symmetric] unat_ssize bs_ok_length)

lemma bs_ok_new [simp]: "bs_ok (ByteStream_new cap)"
  by (simp add: bs_ok_def ByteStream_new_def bs_content_def)

lemma bs_content_new [simp]: "bs_content (ByteStream_new cap) = []"
  by (simp add: ByteStream_new_def bs_content_def)

lemma unat_remaining_capacity:
  assumes "bs_ok bs"
  shows "unat (ByteStream_remaining_capacity bs) = unat (bs_capacity bs) - length (bs_content bs)"
proof -
  have "BufferList_size (bs_buffer bs) \<le> bs_capacity bs"
    using assms by (simp add: word_le_nat_alt unat_buffer_size bs_ok_cap)
  then show ?thesis
    using assms by (simp add: ByteStream_remaining_capacity_def unat_diff_le unat_buffer_size)
qed

section \<open>The operations on the abstract view\<close>

definition bs_accepted :: "bytes \<Rightarrow> ByteStream \<Rightarrow> bytes" where
  "bs_accepted data bs = take (unat (bs_capacity bs) - length (bs_content bs)) data"

lemma write_result:
  assumes "bs_ok bs" "length data < W64"
  shows "fst (ByteStream_write data bs) = ssize (bs_accepted data bs)"
    and "bs_content (snd (ByteStream_write data bs)) = bs_content bs @ bs_accepted data bs"
    and "bs_ok (snd (ByteStream_write data bs))"
proof -
  let ?room = "bs_capacity bs - BufferList_size (bs_buffer bs)"
  let ?len = "if ?room < ssize data then ?room else ssize data"
  have room: "unat ?room = unat (bs_capacity bs) - length (bs_content bs)"
    using unat_remaining_capacity [OF assms(1)] by (simp add: ByteStream_remaining_capacity_def)
  have len: "take (unat ?len) data = bs_accepted data bs" "unat ?len = length (bs_accepted data bs)"
    using assms(2) by (auto simp: bs_accepted_def room unat_ssize word_less_nat_alt)
  show 1: "fst (ByteStream_write data bs) = ssize (bs_accepted data bs)"
  proof -
    have "unat ?len = unat (ssize (bs_accepted data bs))"
      using assms(2) len(2) by (simp add: unat_ssize bs_accepted_def)
    then show ?thesis by (simp only: word_unat_eq_iff [symmetric]) (simp add: ByteStream_write_def Let_def)
  qed
  show 2: "bs_content (snd (ByteStream_write data bs)) = bs_content bs @ bs_accepted data bs"
    by (simp add: ByteStream_write_def Let_def bs_content_def BufferList_of_string_def
        len(1) [simplified bs_content_def])
  have "length (bs_accepted data bs) \<le> unat (bs_capacity bs) - length (bs_content bs)"
    by (simp add: bs_accepted_def)
  moreover have "length (bs_accepted data bs) < W64"
    using assms(2) by (simp add: bs_accepted_def)
  ultimately show "bs_ok (snd (ByteStream_write data bs))"
    using assms 1 2 unfolding bs_ok_def
    by (auto simp: ByteStream_write_def Let_def BufferList_of_string_def len(1) ssize_append)
qed

lemma write_frame [frame_simps, simp]:
  "bs_capacity (snd (ByteStream_write data bs)) = bs_capacity bs"
  "bs_read_count (snd (ByteStream_write data bs)) = bs_read_count bs"
  "bs_input_ended_flag (snd (ByteStream_write data bs)) = bs_input_ended_flag bs"
  "bs_error (snd (ByteStream_write data bs)) = bs_error bs"
  by (simp_all add: ByteStream_write_def Let_def)

lemma peek_output_eq:
  assumes "bs_ok bs"
  shows "ByteStream_peek_output len bs = take (unat len) (bs_content bs)"
  using assms unat_buffer_size [OF assms]
  by (auto simp: ByteStream_peek_output_def Let_def bs_content_def word_less_nat_alt)

lemma pop_output_no_throw:
  assumes "bs_ok bs" "lg = (if len > BufferList_size (bs_buffer bs)
    then BufferList_size (bs_buffer bs) else len)"
  obtains buffer where "BufferList_remove_prefix lg (bs_buffer bs) = Inr buffer"
    "list_all Buffer_ok buffer"
    "BufferList_concatenate buffer = drop (unat len) (bs_content bs)"
proof -
  have "unat lg \<le> length (BufferList_concatenate (bs_buffer bs))"
    "drop (unat lg) (bs_content bs) = drop (unat len) (bs_content bs)"
    using assms unat_buffer_size [OF assms(1)] by (auto simp: bs_content_def word_less_nat_alt)
  with BufferList_remove_prefix_le [of "bs_buffer bs" lg] assms(1) that show ?thesis
    by (auto simp: bs_ok_def bs_content_def)
qed

lemma pop_output_result:
  assumes "bs_ok bs"
  shows "bs_content (ByteStream_pop_output len bs) = drop (unat len) (bs_content bs)"
    and "bs_ok (ByteStream_pop_output len bs)"
    and "bs_read_count (ByteStream_pop_output len bs)
      = bs_read_count bs + ssize (take (unat len) (bs_content bs))"
proof -
  let ?length = "if len > BufferList_size (bs_buffer bs) then BufferList_size (bs_buffer bs) else len"
  obtain buffer where b: "BufferList_remove_prefix ?length (bs_buffer bs) = Inr buffer"
    "list_all Buffer_ok buffer" "BufferList_concatenate buffer = drop (unat len) (bs_content bs)"
    using pop_output_no_throw [OF assms refl] by blast
  have l: "?length = ssize (take (unat len) (bs_content bs))"
    using unat_buffer_size [OF assms] bs_ok_length [OF assms]
    by (simp add: word_unat_eq_iff unat_ssize word_less_nat_alt min_def)
  have eq: "ByteStream_pop_output len bs
      = bs\<lparr>bs_read_count := bs_read_count bs + ?length, bs_buffer := buffer\<rparr>"
    using b(1) by (simp add: ByteStream_pop_output_def Let_def split del: if_split)
  show 1: "bs_content (ByteStream_pop_output len bs) = drop (unat len) (bs_content bs)"
    unfolding eq using b(3) by (simp add: bs_content_def)
  show 3: "bs_read_count (ByteStream_pop_output len bs)
      = bs_read_count bs + ssize (take (unat len) (bs_content bs))"
    unfolding eq by (simp only: l) simp
  have "ssize (bs_content bs) = ssize (take (unat len) (bs_content bs))
      + ssize (drop (unat len) (bs_content bs))"
    by (simp add: ssize_append [symmetric])
  then show "bs_ok (ByteStream_pop_output len bs)"
    using assms b(2) 1 3 unfolding bs_ok_def by (auto simp: eq add.assoc)
qed

lemma pop_output_frame [frame_simps, simp]:
  "bs_capacity (ByteStream_pop_output len bs) = bs_capacity bs"
  "bs_write_count (ByteStream_pop_output len bs) = bs_write_count bs"
  "bs_input_ended_flag (ByteStream_pop_output len bs) = bs_input_ended_flag bs"
  "bs_error (ByteStream_pop_output len bs) = bs_error bs"
  by (simp_all add: ByteStream_pop_output_def Let_def split: sum.splits)

lemma read_result:
  assumes "bs_ok bs"
  shows "fst (ByteStream_read len bs) = take (unat len) (bs_content bs)"
    and "bs_content (snd (ByteStream_read len bs)) = drop (unat len) (bs_content bs)"
    and "bs_ok (snd (ByteStream_read len bs))"
  using assms by (simp_all add: ByteStream_read_def Let_def peek_output_eq pop_output_result)

lemma read_frame [frame_simps, simp]:
  "bs_capacity (snd (ByteStream_read len bs)) = bs_capacity bs"
  "bs_write_count (snd (ByteStream_read len bs)) = bs_write_count bs"
  "bs_input_ended_flag (snd (ByteStream_read len bs)) = bs_input_ended_flag bs"
  "bs_error (snd (ByteStream_read len bs)) = bs_error bs"
  by (simp_all add: ByteStream_read_def Let_def)

lemma end_input_result [simp]:
  "bs_content (ByteStream_end_input bs) = bs_content bs"
  "bs_ok (ByteStream_end_input bs) = bs_ok bs"
  "bs_capacity (ByteStream_end_input bs) = bs_capacity bs"
  "bs_read_count (ByteStream_end_input bs) = bs_read_count bs"
  "bs_write_count (ByteStream_end_input bs) = bs_write_count bs"
  "bs_error (ByteStream_end_input bs) = bs_error bs"
  "ByteStream_input_ended (ByteStream_end_input bs)"
  by (simp_all add: ByteStream_end_input_def bs_ok_def bs_content_def ByteStream_input_ended_def)

lemma set_error_result [simp]:
  "bs_content (ByteStream_set_error bs) = bs_content bs"
  "bs_ok (ByteStream_set_error bs) = bs_ok bs"
  "bs_capacity (ByteStream_set_error bs) = bs_capacity bs"
  "bs_read_count (ByteStream_set_error bs) = bs_read_count bs"
  "bs_write_count (ByteStream_set_error bs) = bs_write_count bs"
  "bs_error (ByteStream_set_error bs)"
  "ByteStream_input_ended (ByteStream_set_error bs) = ByteStream_input_ended bs"
  by (simp_all add: ByteStream_set_error_def bs_ok_def bs_content_def ByteStream_input_ended_def)

lemma buffer_empty_iff: "bs_ok bs \<Longrightarrow> ByteStream_buffer_empty bs \<longleftrightarrow> bs_content bs = []"
  by (simp add: ByteStream_buffer_empty_def BufferList_size_eq bs_content_def [symmetric]
      ssize_eq_0_iff bs_ok_length)

lemma eof_iff: "bs_ok bs \<Longrightarrow> ByteStream_eof bs \<longleftrightarrow> bs_content bs = [] \<and> bs_input_ended_flag bs"
  by (simp add: ByteStream_eof_def buffer_empty_iff ByteStream_input_ended_def)

section \<open>The interface and the FIFO law\<close>

datatype chan_op = Put bytes | Get u64

text \<open>What a run of puts and gets accepted, what it delivered, and where it ended.\<close>

fun chan_run :: "(bytes \<Rightarrow> 's \<Rightarrow> u64 \<times> 's) \<Rightarrow> (u64 \<Rightarrow> 's \<Rightarrow> bytes \<times> 's) \<Rightarrow> 's \<Rightarrow> chan_op list
    \<Rightarrow> bytes \<times> bytes \<times> 's" where
  "chan_run put get s [] = ([], [], s)"
| "chan_run put get s (Put d # ops) =
     (case put d s of (n, s') \<Rightarrow> case chan_run put get s' ops of (acc, out, t) \<Rightarrow>
        (take (unat n) d @ acc, out, t))"
| "chan_run put get s (Get n # ops) =
     (case get n s of (d, s') \<Rightarrow> case chan_run put get s' ops of (acc, out, t) \<Rightarrow> (acc, d @ out, t))"

fun put_sizes_ok :: "chan_op list \<Rightarrow> bool" where
  "put_sizes_ok [] = True"
| "put_sizes_ok (Put d # ops) = (length d < W64 \<and> put_sizes_ok ops)"
| "put_sizes_ok (Get n # ops) = put_sizes_ok ops"

locale byte_channel =
  fixes content :: "'s \<Rightarrow> bytes"
    and bound :: "'s \<Rightarrow> nat"
    and put :: "bytes \<Rightarrow> 's \<Rightarrow> u64 \<times> 's"
    and get :: "u64 \<Rightarrow> 's \<Rightarrow> bytes \<times> 's"
    and ok :: "'s \<Rightarrow> bool"
  assumes within: "ok s \<Longrightarrow> length (content s) \<le> bound s"
    and put_law: "ok s \<Longrightarrow> length d < W64 \<Longrightarrow> put d s = (n, s') \<Longrightarrow>
      ok s' \<and> bound s' = bound s \<and> unat n = min (length d) (bound s - length (content s))
      \<and> content s' = content s @ take (unat n) d"
    and get_law: "ok s \<Longrightarrow> get n s = (d, s') \<Longrightarrow>
      ok s' \<and> bound s' = bound s \<and> d = take (unat n) (content s) \<and> content s = d @ content s'"
begin

lemma fifo:
  assumes "ok s" "put_sizes_ok ops" "chan_run put get s ops = (acc, out, t)"
  shows "content s @ acc = out @ content t \<and> ok t \<and> bound t = bound s"
  using assms
proof (induction ops arbitrary: s acc out t)
  case Nil
  then show ?case by simp
next
  case (Cons x ops)
  show ?case
  proof (cases x)
    case (Put d)
    obtain n s' where p: "put d s = (n, s')" by fastforce
    obtain acc' out' t' where r: "chan_run put get s' ops = (acc', out', t')"
      by (metis prod_cases3)
    have e: "acc = take (unat n) d @ acc'" "out = out'" "t = t'"
      using Cons.prems(3) Put p r by auto
    have d: "length d < W64" "put_sizes_ok ops" using Cons.prems(2) Put by auto
    note l = put_law [OF Cons.prems(1) d(1) p]
    have "content s' @ acc' = out' @ content t' \<and> ok t' \<and> bound t' = bound s'"
      using Cons.IH [OF _ d(2) r] l by blast
    then show ?thesis using l e by simp
  next
    case (Get n)
    obtain d s' where p: "get n s = (d, s')" by fastforce
    obtain acc' out' t' where r: "chan_run put get s' ops = (acc', out', t')"
      by (metis prod_cases3)
    have e: "acc = acc'" "out = d @ out'" "t = t'"
      using Cons.prems(3) Get p r by auto
    note l = get_law [OF Cons.prems(1) p]
    have "content s' @ acc' = out' @ content t' \<and> ok t' \<and> bound t' = bound s'"
      using Cons.IH [OF _ _ r] l Cons.prems(2) Get by auto
    then show ?thesis using l e by (metis append.assoc)
  qed
qed

lemma never_over_bound:
  assumes "ok s" "put_sizes_ok ops" "chan_run put get s ops = (acc, out, t)"
  shows "length (content t) \<le> bound s"
  using fifo [OF assms] within [of t] by simp

end

interpretation stream: byte_channel bs_content "\<lambda>bs. unat (bs_capacity bs)"
  ByteStream_write ByteStream_read bs_ok
proof unfold_locales
  show "length (bs_content bs) \<le> unat (bs_capacity bs)" if "bs_ok bs" for bs
    using that by (rule bs_ok_cap)
  fix bs d n bs'
  assume ok: "bs_ok bs"
  show "bs_ok bs' \<and> unat (bs_capacity bs') = unat (bs_capacity bs)
      \<and> unat n = min (length d) (unat (bs_capacity bs) - length (bs_content bs))
      \<and> bs_content bs' = bs_content bs @ take (unat n) d"
    if "length d < W64" "ByteStream_write d bs = (n, bs')"
  proof -
    have "unat n = min (length d) (unat (bs_capacity bs) - length (bs_content bs))"
      using write_result(1) [OF ok that(1)] that by (simp add: unat_ssize bs_accepted_def)
    then show ?thesis
      using write_result(2,3) [OF ok that(1)] write_frame(1) [of d bs] that
      by (auto simp: bs_accepted_def min_def)
  qed
next
  fix bs d n bs'
  assume ok: "bs_ok bs" "ByteStream_read n bs = (d, bs')"
  then show "bs_ok bs' \<and> unat (bs_capacity bs') = unat (bs_capacity bs)
      \<and> d = take (unat n) (bs_content bs) \<and> bs_content bs = d @ bs_content bs'"
    using read_result [OF ok(1), of n] read_frame(1) [of n bs] by simp
qed

section \<open>Properties\<close>

text \<open>
  C38: the byte stream is a bounded FIFO. Along any sequence of writes and reads from a new stream,
  the bytes that writes accepted are, in order, those that reads returned followed by those still
  buffered; never more than the capacity is buffered, and \<open>remaining_capacity\<close> is what is left.
\<close>

theorem byte_stream_fifo:
  assumes "put_sizes_ok ops"
    and "chan_run ByteStream_write ByteStream_read (ByteStream_new cap) ops = (accepted, out, bs)"
  shows "accepted = out @ bs_content bs \<and> length (bs_content bs) \<le> unat cap
    \<and> unat (ByteStream_remaining_capacity bs) = unat cap - length (bs_content bs)"
proof -
  have cap: "bs_capacity (ByteStream_new cap) = cap" by (simp add: ByteStream_new_def)
  note F = stream.fifo [OF bs_ok_new assms]
  then have "bs_ok bs" "bs_capacity bs = cap" by (simp_all add: cap word_unat_eq_iff)
  with F stream.never_over_bound [OF bs_ok_new assms] unat_remaining_capacity show ?thesis
    by (simp add: cap)
qed

theorem byte_stream_fifo_witness:
  "\<exists>accepted out bs.
     chan_run ByteStream_write ByteStream_read (ByteStream_new 3) [Put [1, 2], Get 1, Put [3, 4, 5]]
       = (accepted, out, bs)
     \<and> accepted = out @ bs_content bs \<and> length (bs_content bs) \<le> 3"
proof -
  obtain accepted out bs where e:
    "chan_run ByteStream_write ByteStream_read (ByteStream_new 3) [Put [1, 2], Get 1, Put [3, 4, 5]]
       = (accepted, out, bs)" by (metis prod_cases3)
  from byte_stream_fifo [OF _ e] e show ?thesis by simp
qed

text \<open>
  The header promises that no more bytes can be written once the input has ended; \<open>write\<close> does not
  look at the flag.
\<close>

theorem write_after_end_input_accepted:
  "fst (ByteStream_write [1] (ByteStream_end_input (ByteStream_new 5))) = 1"
  by code_simp

end
