(* ===== verification/Stream_Reassembler.thy ===== *)
theory Stream_Reassembler
  imports Byte_Stream
begin

text \<open>
  \<open>libsponge/stream_reassembler.{hh,cc}\<close>: out-of-order, overlapping substrings assembled into an
  in-order byte stream. The two \<open>unordered_map\<close>s are maps from 64-bit indices; \<open>operator[]\<close> inserts
  a default value for a missing key, as in the source. All index arithmetic is 64-bit.

  The correctness statements are relative to the byte stream \<open>S\<close> the peer sends: if every pushed
  substring is an excerpt of \<open>S\<close>, then what the reassembler has written is always a prefix of \<open>S\<close>,
  and it is the longest prefix covered by the bytes accepted so far.
\<close>

section \<open>Model\<close>

record StreamReassembler =
  sr_output :: ByteStream
  sr_capacity :: u64
  sr_first_unread :: u64
  sr_first_unassembled :: u64
  sr_first_unacceptable :: u64
  sr_unassembled :: u64
  sr_eof :: bool
  sr_m_exist :: "u64 \<rightharpoonup> bool"
  sr_m_char :: "u64 \<rightharpoonup> byte"

definition StreamReassembler_new :: "u64 \<Rightarrow> StreamReassembler" where
  "StreamReassembler_new capacity =
     \<lparr>sr_output = ByteStream_new capacity, sr_capacity = capacity, sr_first_unread = 0,
      sr_first_unassembled = 0, sr_first_unacceptable = capacity, sr_unassembled = 0,
      sr_eof = False, sr_m_exist = Map.empty, sr_m_char = Map.empty\<rparr>"

text \<open>\<open>m[k]\<close> of an \<open>unordered_map\<close>: the reference inserts the default; its value is what is stored.\<close>

definition umap_touch :: "'v \<Rightarrow> ('k \<rightharpoonup> 'v) \<Rightarrow> 'k \<Rightarrow> ('k \<rightharpoonup> 'v)" where
  "umap_touch d m k = (case m k of None \<Rightarrow> m(k \<mapsto> d) | Some _ \<Rightarrow> m)"

definition umap_at :: "'v \<Rightarrow> ('k \<rightharpoonup> 'v) \<Rightarrow> 'k \<Rightarrow> 'v" where
  "umap_at d m k = (case m k of None \<Rightarrow> d | Some v \<Rightarrow> v)"

text \<open>
  The \<open>for\<close> loop over the bytes of the substring; \<open>cur\<close> is \<open>i + index\<close>. The body for one byte
  inside the window comes first, then the loop with its window test and \<open>break\<close>.
\<close>

definition StreamReassembler_push_byte ::
    "byte \<Rightarrow> u64 \<Rightarrow> bytes \<Rightarrow> StreamReassembler \<Rightarrow> bytes \<times> StreamReassembler" where
  "StreamReassembler_push_byte c cur to_write sr =
     (let exist = umap_at False (sr_m_exist sr) cur;
          sr = sr\<lparr>sr_m_exist := umap_touch False (sr_m_exist sr) cur\<rparr>
      in if \<not> exist
         then let sr = sr\<lparr>sr_m_exist := (sr_m_exist sr)(cur \<mapsto> True)\<rparr>
              in if cur = sr_first_unassembled sr
                 then (to_write @ [c],
                       sr\<lparr>sr_first_unassembled := sr_first_unassembled sr + 1\<rparr>)
                 else (to_write,
                       sr\<lparr>sr_m_char := (sr_m_char sr)(cur \<mapsto> c),
                          sr_unassembled := sr_unassembled sr + 1\<rparr>)
         else if cur = sr_first_unassembled sr
         then (to_write @ [umap_at 0 (sr_m_char sr) cur],
               sr\<lparr>sr_m_char := umap_touch 0 (sr_m_char sr) cur,
                  sr_first_unassembled := sr_first_unassembled sr + 1,
                  sr_unassembled := sr_unassembled sr - 1\<rparr>)
         else (to_write, sr))"

primrec StreamReassembler_push_bytes ::
    "bytes \<Rightarrow> u64 \<Rightarrow> bytes \<Rightarrow> StreamReassembler \<Rightarrow> bytes \<times> StreamReassembler" where
  "StreamReassembler_push_bytes [] cur to_write sr = (to_write, sr)"
| "StreamReassembler_push_bytes (c # data) cur to_write sr =
     (if cur < sr_first_unread sr + sr_capacity sr
      then let (to_write, sr) = StreamReassembler_push_byte c cur to_write sr
           in StreamReassembler_push_bytes data (cur + 1) to_write sr
      else (to_write, sr))"

text \<open>
  The \<open>while\<close> loop that appends stored bytes. Every iteration consumes one stored byte, and
  \<open>sr_unassembled\<close> counts them, so that many iterations are enough: lemma \<open>drain_loop\<close> shows that
  the loop condition is false when the model stops.
\<close>

primrec StreamReassembler_drain ::
    "nat \<Rightarrow> u64 \<Rightarrow> bytes \<Rightarrow> StreamReassembler \<Rightarrow> bytes \<times> StreamReassembler" where
  "StreamReassembler_drain 0 cur to_write sr = (to_write, sr)"
| "StreamReassembler_drain (Suc fuel) cur to_write sr =
     (if cur = sr_first_unassembled sr
      then let exist = umap_at False (sr_m_exist sr) cur;
               sr = sr\<lparr>sr_m_exist := umap_touch False (sr_m_exist sr) cur\<rparr>
           in if exist
              then StreamReassembler_drain fuel (cur + 1)
                     (to_write @ [umap_at 0 (sr_m_char sr) cur])
                     (sr\<lparr>sr_m_char := umap_touch 0 (sr_m_char sr) cur,
                         sr_first_unassembled := sr_first_unassembled sr + 1,
                         sr_unassembled := sr_unassembled sr - 1\<rparr>)
              else (to_write, sr)
      else (to_write, sr))"

definition StreamReassembler_unassembled_bytes :: "StreamReassembler \<Rightarrow> u64" where
  "StreamReassembler_unassembled_bytes sr = sr_unassembled sr"

definition StreamReassembler_first_unassembled_byte :: "StreamReassembler \<Rightarrow> u64" where
  "StreamReassembler_first_unassembled_byte sr = sr_first_unassembled sr"

definition StreamReassembler_is_eof :: "StreamReassembler \<Rightarrow> bool" where
  "StreamReassembler_is_eof sr = sr_eof sr"

definition StreamReassembler_empty :: "StreamReassembler \<Rightarrow> bool" where
  "StreamReassembler_empty sr = (sr_unassembled sr = 0)"

definition StreamReassembler_push_substring ::
    "bytes \<Rightarrow> u64 \<Rightarrow> bool \<Rightarrow> StreamReassembler \<Rightarrow> StreamReassembler" where
  "StreamReassembler_push_substring data index eof sr =
     (let len = ssize data;
          sr = sr\<lparr>sr_first_unread := ByteStream_bytes_read (sr_output sr)\<rparr>;
          (to_write, sr) = StreamReassembler_push_bytes data index [] sr;
          cur = index + len;
          (to_write, sr) = StreamReassembler_drain (unat (sr_unassembled sr)) cur to_write sr;
          sr = sr\<lparr>sr_output := snd (ByteStream_write to_write (sr_output sr))\<rparr>;
          sr = (if eof \<and> \<not> sr_eof sr \<and> index + len \<le> sr_first_unread sr + sr_capacity sr
                then sr\<lparr>sr_eof := True\<rparr> else sr)
      in if StreamReassembler_empty sr \<and> sr_eof sr
         then sr\<lparr>sr_output := ByteStream_end_input (sr_output sr)\<rparr> else sr)"

lemmas StreamReassembler_accessor_defs =
  StreamReassembler_unassembled_bytes_def StreamReassembler_first_unassembled_byte_def
  StreamReassembler_is_eof_def StreamReassembler_empty_def

section \<open>The indices seen so far\<close>

lemma umap_at_touch [simp]: "umap_at d (umap_touch d m k) = umap_at d m"
  by (auto simp: umap_at_def umap_touch_def fun_eq_iff split: option.splits)

lemma umap_at_upd [simp]: "umap_at d (m(k \<mapsto> v)) j = (if j = k then v else umap_at d m j)"
  by (simp add: umap_at_def)

lemma umap_touch_old: "m j = Some v \<Longrightarrow> umap_touch d m k j = Some v"
  by (auto simp: umap_touch_def split: option.splits)

definition sr_seen :: "StreamReassembler \<Rightarrow> nat set" where
  "sr_seen sr = unat ` {k. umap_at False (sr_m_exist sr) k}"

lemma in_sr_seen: "unat k \<in> sr_seen sr \<longleftrightarrow> umap_at False (sr_m_exist sr) k"
  by (auto simp: sr_seen_def word_unat_eq_iff [symmetric])

lemma sr_seen_lt: "n \<in> sr_seen sr \<Longrightarrow> n < W64"
  using unat_u64_lt by (auto simp: sr_seen_def)

lemma finite_sr_seen: "finite (sr_seen sr)"
  using sr_seen_lt finite_nat_set_iff_bounded by blast

lemma sr_seen_touch [simp]:
  "sr_seen (sr\<lparr>sr_m_exist := umap_touch False (sr_m_exist sr) k\<rparr>) = sr_seen sr"
  by (simp add: sr_seen_def)

lemma sr_seen_upd [simp]:
  "sr_seen (sr\<lparr>sr_m_exist := (sr_m_exist sr)(k \<mapsto> True)\<rparr>) = insert (unat k) (sr_seen sr)"
  by (auto simp: sr_seen_def split: if_splits)

lemma sr_seen_frame [simp]:
  "sr_seen (sr\<lparr>sr_output := x\<rparr>) = sr_seen sr" "sr_seen (sr\<lparr>sr_first_unread := y\<rparr>) = sr_seen sr"
  "sr_seen (sr\<lparr>sr_first_unassembled := y\<rparr>) = sr_seen sr" "sr_seen (sr\<lparr>sr_eof := e\<rparr>) = sr_seen sr"
  "sr_seen (sr\<lparr>sr_unassembled := y\<rparr>) = sr_seen sr" "sr_seen (sr\<lparr>sr_m_char := c\<rparr>) = sr_seen sr"
  by (simp_all add: sr_seen_def)

section \<open>The loop invariant\<close>

text \<open>
  \<open>S\<close> is the peer's stream, \<open>R\<close> the number of bytes read by the application, \<open>F0\<close> the
  value of \<open>first_unassembled\<close> when the call started, \<open>cur\<close> the index the loop looks at next.
\<close>

definition sr_loop :: "bytes \<Rightarrow> nat \<Rightarrow> nat \<Rightarrow> nat \<Rightarrow> bytes \<Rightarrow> StreamReassembler \<Rightarrow> bool" where
  "sr_loop S R F0 cur tw sr =
     (let F = unat (sr_first_unassembled sr); edge = R + unat (sr_capacity sr)
      in unat (sr_first_unread sr) = R \<and> R \<le> F0 \<and> F0 \<le> F \<and> F \<le> length S \<and> F \<le> edge
         \<and> length S + unat (sr_capacity sr) < W64
         \<and> tw = drop F0 (take F S) \<and> {..<F} \<subseteq> sr_seen sr
         \<and> (\<forall>n \<in> sr_seen sr. F \<le> n \<longrightarrow> n < length S \<and> n < edge
              \<and> sr_m_char sr (of_nat n) = Some (S ! n))
         \<and> unat (sr_unassembled sr) = card {n \<in> sr_seen sr. F \<le> n}
         \<and> (F \<in> sr_seen sr \<longrightarrow> cur = F))"

lemma sr_loopD:
  assumes "sr_loop S R F0 cur tw sr"
  defines "F \<equiv> unat (sr_first_unassembled sr)" and "edge \<equiv> R + unat (sr_capacity sr)"
  shows "unat (sr_first_unread sr) = R" "R \<le> F0" "F0 \<le> F" "F \<le> length S" "F \<le> edge"
    "length S + unat (sr_capacity sr) < W64" "tw = drop F0 (take F S)" "{..<F} \<subseteq> sr_seen sr"
    "\<And>n. n \<in> sr_seen sr \<Longrightarrow> F \<le> n \<Longrightarrow> n < length S \<and> n < edge
       \<and> sr_m_char sr (of_nat n) = Some (S ! n)"
    "unat (sr_unassembled sr) = card {n \<in> sr_seen sr. F \<le> n}"
    "F \<in> sr_seen sr \<Longrightarrow> cur = F"
    "unat (sr_first_unread sr + sr_capacity sr) = edge"
proof -
  show "unat (sr_first_unread sr + sr_capacity sr) = edge"
    using assms(1) unfolding edge_def
    by (subst unat_add_less) (auto simp: sr_loop_def Let_def)
qed (use assms(1) in \<open>auto simp: sr_loop_def Let_def F_def edge_def\<close>)

lemma take_Suc_snoc: "n < length xs \<Longrightarrow> F0 \<le> n \<Longrightarrow>
    drop F0 (take (Suc n) xs) = drop F0 (take n xs) @ [xs ! n]"
  by (simp add: take_Suc_conv_app_nth)

lemma stored_split:
  "F \<in> A \<Longrightarrow> finite A \<Longrightarrow> card {n \<in> A. Suc F \<le> n} = card {n \<in> A. F \<le> n} - 1"
proof -
  assume "F \<in> A" "finite A"
  then have "{n \<in> A. F \<le> n} = insert F {n \<in> A. Suc F \<le> n}" by auto
  with \<open>finite A\<close> show ?thesis by simp
qed

lemma unat_Suc: "unat (k :: u64) < n \<Longrightarrow> n \<le> W64 - 1 \<Longrightarrow> unat (k + 1) = Suc (unat k)"
  by (subst unat_add_less) auto

text \<open>Appending the stored byte at \<open>first_unassembled\<close>: shared by the two loops.\<close>

lemma sr_loop_append_stored:
  assumes inv: "sr_loop S R F0 (unat cur) tw sr" and cur: "cur = sr_first_unassembled sr"
    and ex: "unat cur \<in> sr_seen sr"
  shows "sr_loop S R F0 (unat (cur + 1)) (tw @ [umap_at 0 (sr_m_char sr) cur])
    (sr\<lparr>sr_m_exist := umap_touch False (sr_m_exist sr) cur,
        sr_m_char := umap_touch 0 (sr_m_char sr) cur,
        sr_first_unassembled := sr_first_unassembled sr + 1,
        sr_unassembled := sr_unassembled sr - 1\<rparr>)" (is "sr_loop S R F0 _ _ ?sr")
    and "unat (cur + 1) = Suc (unat cur)"
proof -
  note D = sr_loopD [OF inv]
  let ?F = "unat cur"
  have F: "?F < length S" "?F < R + unat (sr_capacity sr)" "sr_m_char sr cur = Some (S ! ?F)"
    using D(9) [OF ex] cur by auto
  show suc: "unat (cur + 1) = Suc ?F" using F(1) D(6) by (intro unat_Suc) auto
  have pos: "0 < card {n \<in> sr_seen sr. ?F \<le> n}"
    using ex finite_sr_seen by (auto simp: card_gt_0_iff)
  have "unat (sr_unassembled sr - 1) = card {n \<in> sr_seen sr. ?F \<le> n} - 1"
    using D(10) cur pos by (subst unat_diff_le) (auto simp: word_le_nat_alt)
  then have un: "unat (sr_unassembled sr - 1) = card {n \<in> sr_seen sr. Suc ?F \<le> n}"
    using stored_split [OF ex finite_sr_seen] by simp
  have ch: "umap_at 0 (sr_m_char sr) cur = S ! ?F" using F(3) by (simp add: umap_at_def)
  have seen: "sr_seen ?sr = sr_seen sr" by simp
  show "sr_loop S R F0 (unat (cur + 1)) (tw @ [umap_at 0 (sr_m_char sr) cur]) ?sr"
    unfolding sr_loop_def Let_def seen
    using D F un suc ch ex cur
    by (auto simp: take_Suc_snoc lessThan_Suc umap_touch_old Suc_le_eq)
qed

section \<open>The two loops keep it\<close>

lemma push_byte_loop:
  assumes inv: "sr_loop S R F0 (unat cur) tw sr" and lt: "unat cur < length S"
    and win: "unat cur < R + unat (sr_capacity sr)" and c: "c = S ! unat cur"
    and res: "StreamReassembler_push_byte c cur tw sr = (tw', sr')"
  shows "sr_loop S R F0 (unat (cur + 1)) tw' sr' \<and> sr_seen sr' = insert (unat cur) (sr_seen sr)
    \<and> sr_capacity sr' = sr_capacity sr \<and> sr_output sr' = sr_output sr
    \<and> sr_first_unread sr' = sr_first_unread sr \<and> sr_eof sr' = sr_eof sr"
proof -
  note D = sr_loopD [OF inv]
  let ?C = "unat cur" and ?F = "unat (sr_first_unassembled sr)"
  have suc: "unat (cur + 1) = Suc ?C" using lt D(6) by (intro unat_Suc) auto
  have ex: "umap_at False (sr_m_exist sr) cur \<longleftrightarrow> ?C \<in> sr_seen sr" by (simp add: in_sr_seen)
  define t where "t = sr\<lparr>sr_m_exist := umap_touch False (sr_m_exist sr) cur\<rparr>"
  have seen_upd: "sr_seen (t\<lparr>sr_m_exist := (sr_m_exist t)(cur \<mapsto> True)\<rparr>) = insert ?C (sr_seen sr)"
    by (simp only: sr_seen_upd) (simp add: t_def)
  consider (new_at) "?C \<notin> sr_seen sr" "cur = sr_first_unassembled sr"
    | (new) "?C \<notin> sr_seen sr" "cur \<noteq> sr_first_unassembled sr"
    | (old_at) "?C \<in> sr_seen sr" "cur = sr_first_unassembled sr"
    | (old) "?C \<in> sr_seen sr" "cur \<noteq> sr_first_unassembled sr" by blast
  then show ?thesis
  proof cases
    case new_at
    let ?sr1 = "t\<lparr>sr_m_exist := (sr_m_exist t)(cur \<mapsto> True),
      sr_first_unassembled := sr_first_unassembled t + 1\<rparr>"
    have seen: "sr_seen ?sr1 = insert ?C (sr_seen sr)" using seen_upd by simp
    have eq: "tw' = tw @ [c]" "sr' = ?sr1"
      using res new_at ex by (simp_all add: StreamReassembler_push_byte_def Let_def t_def)
    have "{n \<in> insert ?C (sr_seen sr). Suc ?C \<le> n} = {n \<in> sr_seen sr. ?C \<le> n}"
      using new_at by (auto simp: le_less)
    then have "sr_loop S R F0 (unat (cur + 1)) tw' sr'"
      unfolding sr_loop_def Let_def seen eq using D new_at suc c lt win
      by (auto simp: take_Suc_snoc lessThan_Suc t_def)
    then show ?thesis using seen eq by (simp add: t_def)
  next
    case new
    let ?sr1 = "t\<lparr>sr_m_exist := (sr_m_exist t)(cur \<mapsto> True),
      sr_m_char := (sr_m_char t)(cur \<mapsto> c), sr_unassembled := sr_unassembled t + 1\<rparr>"
    have seen: "sr_seen ?sr1 = insert ?C (sr_seen sr)" using seen_upd by simp
    have eq: "tw' = tw" "sr' = ?sr1"
      using res new ex by (simp_all add: StreamReassembler_push_byte_def Let_def t_def)
    have above: "?F < ?C"
      using D(8) new by (metis lessThan_iff linorder_neqE_nat subsetD word_unat_eq_iff)
    have nF: "?F \<notin> sr_seen sr" using D(11) above by auto
    have set: "{n \<in> insert ?C (sr_seen sr). ?F \<le> n} = insert ?C {n \<in> sr_seen sr. ?F \<le> n}"
      using above by auto
    have card: "card {n \<in> insert ?C (sr_seen sr). ?F \<le> n} = Suc (card {n \<in> sr_seen sr. ?F \<le> n})"
      unfolding set using new finite_sr_seen by (subst card_insert_disjoint) auto
    have "{n \<in> insert ?C (sr_seen sr). ?F \<le> n} \<subseteq> {..<length S}"
      using D(9) lt by auto
    then have "card {n \<in> insert ?C (sr_seen sr). ?F \<le> n} \<le> length S"
      by (metis card_lessThan card_mono finite_lessThan)
    then have un: "unat (sr_unassembled sr + 1) = card {n \<in> insert ?C (sr_seen sr). ?F \<le> n}"
      using D(10) D(6) card by (subst unat_add_less) auto
    have ch: "((sr_m_char sr)(cur \<mapsto> c)) (of_nat n) = Some (S ! n)"
      if "n \<in> insert ?C (sr_seen sr)" "?F \<le> n" for n
      using that D(9) [of n] c sr_seen_lt [of n sr] by (auto simp: word_unat_eq_iff unat_of_nat_less)
    have "sr_loop S R F0 (unat (cur + 1)) tw ?sr1"
      unfolding sr_loop_def Let_def seen
      using D un lt win nF above ch by (auto simp: t_def)
    then show ?thesis using seen eq by (simp add: t_def)
  next
    case old_at
    from sr_loop_append_stored(1) [OF inv old_at(2,1)] res old_at ex show ?thesis
      by (auto simp: StreamReassembler_push_byte_def Let_def insert_absorb)
  next
    case old
    have nF: "?F \<notin> sr_seen sr" using D(11) old by (auto simp: word_unat_eq_iff)
    then have "sr_loop S R F0 (unat (cur + 1)) tw t"
      using inv by (auto simp: sr_loop_def Let_def t_def)
    moreover have "tw' = tw" "sr' = t"
      using res old ex by (simp_all add: StreamReassembler_push_byte_def Let_def t_def)
    ultimately show ?thesis using old by (auto simp: t_def insert_absorb)
  qed
qed

lemma push_bytes_loop:
  assumes "sr_loop S R F0 (unat cur) tw sr" "data = [] \<or> unat cur + length data \<le> length S"
    "data = take (length data) (drop (unat cur) S)"
    "StreamReassembler_push_bytes data cur tw sr = (tw', sr')"
  shows "sr_loop S R F0 (unat cur + length data) tw' sr'
    \<and> sr_seen sr' = sr_seen sr \<union> {n. unat cur \<le> n \<and> n < unat cur + length data
        \<and> n < R + unat (sr_capacity sr)}
    \<and> sr_capacity sr' = sr_capacity sr \<and> sr_output sr' = sr_output sr
    \<and> sr_first_unread sr' = sr_first_unread sr \<and> sr_eof sr' = sr_eof sr"
  using assms
proof (induction data arbitrary: cur tw sr)
  case Nil
  then show ?case by auto
next
  case (Cons c data)
  note D = sr_loopD [OF Cons.prems(1)]
  let ?C = "unat cur" and ?F = "unat (sr_first_unassembled sr)"
  let ?edge = "R + unat (sr_capacity sr)"
  have lt: "?C < length S" using Cons.prems(2) by simp
  have c: "c = S ! ?C" and data: "data = take (length data) (drop (Suc ?C) S)"
    using Cons.prems(3) lt by (simp_all add: Cons_nth_drop_Suc [symmetric])
  have suc: "unat (cur + 1) = Suc ?C" using lt D(6) by (intro unat_Suc) auto
  show ?case
  proof (cases "?C < ?edge")
    case False
    then have b: "\<not> cur < sr_first_unread sr + sr_capacity sr"
      by (simp add: word_less_nat_alt D(12))
    have nF: "?F \<notin> sr_seen sr" using D(9) [of ?F] D(11) False by auto
    have "tw' = tw" "sr' = sr" using Cons.prems(4) b by auto
    with Cons.prems(1) nF False show ?thesis by (auto simp: sr_loop_def Let_def)
  next
    case True
    then have b: "cur < sr_first_unread sr + sr_capacity sr"
      by (simp add: word_less_nat_alt D(12))
    obtain tw1 sr1 where p: "StreamReassembler_push_byte c cur tw sr = (tw1, sr1)" by fastforce
    note s = push_byte_loop [OF Cons.prems(1) lt True c p]
    have r: "StreamReassembler_push_bytes data (cur + 1) tw1 sr1 = (tw', sr')"
      using Cons.prems(4) b p by simp
    have IH: "sr_loop S R F0 (unat (cur + 1) + length data) tw' sr'
        \<and> sr_seen sr' = sr_seen sr1 \<union> {n. unat (cur + 1) \<le> n \<and> n < unat (cur + 1) + length data
            \<and> n < R + unat (sr_capacity sr1)}
        \<and> sr_capacity sr' = sr_capacity sr1 \<and> sr_output sr' = sr_output sr1
        \<and> sr_first_unread sr' = sr_first_unread sr1 \<and> sr_eof sr' = sr_eof sr1"
      using Cons.IH [OF _ _ _ r] s Cons.prems(2) data suc by simp
    have "insert ?C (sr_seen sr) \<union> {n. Suc ?C \<le> n \<and> n < Suc ?C + length data \<and> n < ?edge}
        = sr_seen sr \<union> {n. ?C \<le> n \<and> n < ?C + length (c # data) \<and> n < ?edge}"
      using True by (auto simp: le_less)
    with IH s suc show ?thesis by simp
  qed
qed

lemma drain_loop:
  assumes "sr_loop S R F0 (unat cur) tw sr" "unat (sr_unassembled sr) \<le> fuel"
    "StreamReassembler_drain fuel cur tw sr = (tw', sr')"
  shows "\<exists>cur'. sr_loop S R F0 cur' tw' sr' \<and> unat (sr_first_unassembled sr') \<notin> sr_seen sr'
    \<and> sr_seen sr' = sr_seen sr
    \<and> sr_capacity sr' = sr_capacity sr \<and> sr_output sr' = sr_output sr
    \<and> sr_first_unread sr' = sr_first_unread sr \<and> sr_eof sr' = sr_eof sr"
  using assms
proof (induction fuel arbitrary: cur tw sr)
  case 0
  note D = sr_loopD [OF "0.prems"(1)]
  have "{n \<in> sr_seen sr. unat (sr_first_unassembled sr) \<le> n} = {}"
    using 0 D(10) finite_sr_seen by (simp add: card_eq_0_iff)
  then have "unat (sr_first_unassembled sr) \<notin> sr_seen sr" by blast
  with 0 show ?case by auto
next
  case (Suc fuel)
  note D = sr_loopD [OF Suc.prems(1)]
  show ?case
  proof (cases "cur = sr_first_unassembled sr \<and> unat cur \<in> sr_seen sr")
    case True
    let ?sr1 = "sr\<lparr>sr_m_exist := umap_touch False (sr_m_exist sr) cur,
        sr_m_char := umap_touch 0 (sr_m_char sr) cur,
        sr_first_unassembled := sr_first_unassembled sr + 1,
        sr_unassembled := sr_unassembled sr - 1\<rparr>"
    let ?tw1 = "tw @ [umap_at 0 (sr_m_char sr) cur]"
    have inv: "sr_loop S R F0 (unat (cur + 1)) ?tw1 ?sr1"
      using sr_loop_append_stored(1) [OF Suc.prems(1)] True by blast
    have "0 < card {n \<in> sr_seen sr. unat cur \<le> n}"
      using True finite_sr_seen by (auto simp: card_gt_0_iff)
    then have "unat (sr_unassembled sr - 1) \<le> fuel"
      using D(10) Suc.prems(2) True by (subst unat_diff_le) (auto simp: word_le_nat_alt)
    moreover have "StreamReassembler_drain fuel (cur + 1) ?tw1 ?sr1 = (tw', sr')"
      using Suc.prems(3) True by (auto simp: Let_def in_sr_seen)
    ultimately show ?thesis using Suc.IH [OF inv] by auto
  next
    case False
    then have nF: "unat (sr_first_unassembled sr) \<notin> sr_seen sr"
      using D(11) by (auto simp: word_unat_eq_iff)
    have "tw' = tw \<and> (sr' = sr \<or> sr' = sr\<lparr>sr_m_exist := umap_touch False (sr_m_exist sr) cur\<rparr>)"
      using Suc.prems(3) False by (auto simp: Let_def in_sr_seen split: if_splits)
    moreover have "sr_loop S R F0 (unat cur) tw (sr\<lparr>sr_m_exist := umap_touch False (sr_m_exist sr) cur\<rparr>)"
      using Suc.prems(1) by (simp add: sr_loop_def Let_def)
    ultimately show ?thesis using nF Suc.prems(1) by auto
  qed
qed

section \<open>The invariant between calls\<close>

definition sr_ok :: "bytes \<Rightarrow> StreamReassembler \<Rightarrow> bool" where
  "sr_ok S sr =
     (let F = unat (sr_first_unassembled sr); R = unat (bs_read_count (sr_output sr));
          edge = R + unat (sr_capacity sr)
      in bs_ok (sr_output sr) \<and> bs_capacity (sr_output sr) = sr_capacity sr
         \<and> length S + unat (sr_capacity sr) < W64 \<and> R \<le> F \<and> F \<le> length S \<and> F \<le> edge
         \<and> bs_content (sr_output sr) = drop R (take F S) \<and> {..<F} \<subseteq> sr_seen sr \<and> F \<notin> sr_seen sr
         \<and> (\<forall>n \<in> sr_seen sr. F \<le> n \<longrightarrow> n < length S \<and> n < edge
              \<and> sr_m_char sr (of_nat n) = Some (S ! n))
         \<and> unat (sr_unassembled sr) = card {n \<in> sr_seen sr. F \<le> n})"

lemma sr_ok_new: "length S + unat cap < W64 \<Longrightarrow> sr_ok S (StreamReassembler_new cap)"
  by (simp add: sr_ok_def Let_def StreamReassembler_new_def sr_seen_def umap_at_def)
    (simp add: ByteStream_new_def)

lemma sr_ok_flags [simp]:
  "sr_ok S (sr\<lparr>sr_output := ByteStream_end_input (sr_output sr)\<rparr>) = sr_ok S sr"
  "sr_ok S (sr\<lparr>sr_output := ByteStream_set_error (sr_output sr)\<rparr>) = sr_ok S sr"
  "sr_ok S (sr\<lparr>sr_eof := e\<rparr>) = sr_ok S sr"
  by (simp_all add: sr_ok_def Let_def)

lemma sr_ok_loop_start:
  "sr_ok S sr \<Longrightarrow> sr_loop S (unat (bs_read_count (sr_output sr))) (unat (sr_first_unassembled sr)) c []
     (sr\<lparr>sr_first_unread := ByteStream_bytes_read (sr_output sr)\<rparr>)"
  by (auto simp: sr_ok_def sr_loop_def Let_def ByteStream_bytes_read_def)

text \<open>Writing the collected bytes re-establishes the invariant, and all of them fit.\<close>

lemma sr_ok_loop_end:
  assumes inv: "sr_loop S R F0 c tw sr" and stop: "unat (sr_first_unassembled sr) \<notin> sr_seen sr"
    and out: "bs_ok (sr_output sr)" "bs_capacity (sr_output sr) = sr_capacity sr"
      "unat (bs_read_count (sr_output sr)) = R" "bs_content (sr_output sr) = drop R (take F0 S)"
  shows "sr_ok S (sr\<lparr>sr_output := snd (ByteStream_write tw (sr_output sr))\<rparr>)"
proof -
  note D = sr_loopD [OF inv]
  let ?F = "unat (sr_first_unassembled sr)"
  have tw: "length tw = ?F - F0" using D(4,7) by (simp add: min_def)
  have len: "length tw < W64" using tw D(4,6) by linarith
  have content: "length (bs_content (sr_output sr)) = F0 - R" using out(4) D(3,4) by simp
  have "bs_accepted tw (sr_output sr) = tw"
    using D(2,3,5) tw content out(2) by (simp add: bs_accepted_def)
  then have "bs_content (snd (ByteStream_write tw (sr_output sr))) = drop R (take F0 S) @ drop F0 (take ?F S)"
    using write_result(2) [OF out(1) len] out(4) D(7) by simp
  also have "\<dots> = drop R (take ?F S)"
    using D(2,3,4) by (intro drop_take_append) auto
  finally have "bs_content (snd (ByteStream_write tw (sr_output sr))) = drop R (take ?F S)" .
  then show ?thesis
    using D stop out write_result(3) [OF out(1) len] by (auto simp: sr_ok_def Let_def)
qed

lemma push_substring_ok:
  fixes eof :: bool
  assumes ok: "sr_ok S sr" and len: "data = [] \<or> unat index + length data \<le> length S"
    and data: "data = take (length data) (drop (unat index) S)"
  defines "sr' \<equiv> StreamReassembler_push_substring data index eof sr"
    and "edge \<equiv> unat (bs_read_count (sr_output sr)) + unat (sr_capacity sr)"
  shows "sr_ok S sr'"
    and "sr_seen sr' = sr_seen sr \<union> {n. unat index \<le> n \<and> n < unat index + length data \<and> n < edge}"
    and "sr_capacity sr' = sr_capacity sr"
    and "bs_read_count (sr_output sr') = bs_read_count (sr_output sr)"
    and "sr_eof sr' \<longleftrightarrow> sr_eof sr \<or> eof \<and> unat index + length data \<le> edge"
    and "bs_input_ended_flag (sr_output sr') \<longleftrightarrow>
      bs_input_ended_flag (sr_output sr) \<or> sr_unassembled sr' = 0 \<and> sr_eof sr'"
    and "bs_error (sr_output sr') = bs_error (sr_output sr)"
proof -
  let ?R = "unat (bs_read_count (sr_output sr))" and ?F0 = "unat (sr_first_unassembled sr)"
  define sr0 where "sr0 = sr\<lparr>sr_first_unread := ByteStream_bytes_read (sr_output sr)\<rparr>"
  obtain tw1 sr1 where p: "StreamReassembler_push_bytes data index [] sr0 = (tw1, sr1)" by fastforce
  obtain tw2 sr2 where d:
    "StreamReassembler_drain (unat (sr_unassembled sr1)) (index + ssize data) tw1 sr1 = (tw2, sr2)"
    by fastforce
  have o: "bs_ok (sr_output sr)" "bs_capacity (sr_output sr) = sr_capacity sr"
    "bs_content (sr_output sr) = drop ?R (take ?F0 S)" "length S + unat (sr_capacity sr) < W64"
    "?R \<le> length S"
    using ok by (auto simp: sr_ok_def Let_def)
  have "sr_loop S ?R ?F0 (unat index) [] sr0" unfolding sr0_def by (rule sr_ok_loop_start [OF ok])
  note P = push_bytes_loop [OF this len data p]
  have end_idx: "unat (index + ssize data) = unat index + length data"
    using len o(4) by (cases "data = []") (simp, subst unat_add_less, auto simp: unat_ssize)
  obtain c where E: "sr_loop S ?R ?F0 c tw2 sr2" "unat (sr_first_unassembled sr2) \<notin> sr_seen sr2"
    "sr_seen sr2 = sr_seen sr1" "sr_capacity sr2 = sr_capacity sr1" "sr_output sr2 = sr_output sr1"
    "sr_first_unread sr2 = sr_first_unread sr1" "sr_eof sr2 = sr_eof sr1"
    using drain_loop [OF _ order_refl d, of S ?R ?F0] P end_idx by auto
  have fr: "sr_output sr2 = sr_output sr" "sr_capacity sr2 = sr_capacity sr"
    "sr_first_unread sr2 = bs_read_count (sr_output sr)" "sr_eof sr2 = sr_eof sr"
    "sr_seen sr2 = sr_seen sr \<union> {n. unat index \<le> n \<and> n < unat index + length data \<and> n < edge}"
    using P E(3-7) by (auto simp: sr0_def ByteStream_bytes_read_def edge_def)
  define sr3 where "sr3 = sr2\<lparr>sr_output := snd (ByteStream_write tw2 (sr_output sr2))\<rparr>"
  have ok3: "sr_ok S sr3"
    unfolding sr3_def using o by (intro sr_ok_loop_end [OF E(1,2)]) (simp_all add: fr)
  have "unat (sr_first_unread sr3 + sr_capacity sr3) = edge"
    unfolding sr3_def using o(4,5) by (simp add: fr edge_def unat_add_less)
  then have edge: "index + ssize data \<le> sr_first_unread sr3 + sr_capacity sr3 \<longleftrightarrow>
      unat index + length data \<le> edge"
    by (simp add: word_le_nat_alt end_idx)
  let ?eof = "eof \<and> \<not> sr_eof sr3 \<and> index + ssize data \<le> sr_first_unread sr3 + sr_capacity sr3"
  define sr4 where "sr4 = (if ?eof then sr3\<lparr>sr_eof := True\<rparr> else sr3)"
  have sr': "sr' = (if sr_unassembled sr4 = 0 \<and> sr_eof sr4
      then sr4\<lparr>sr_output := ByteStream_end_input (sr_output sr4)\<rparr> else sr4)"
    unfolding sr'_def StreamReassembler_push_substring_def StreamReassembler_empty_def
    using p d by (simp add: sr0_def sr3_def sr4_def Let_def)
  have sr4: "sr_output sr4 = snd (ByteStream_write tw2 (sr_output sr))" "sr_capacity sr4 = sr_capacity sr"
    "sr_seen sr4 = sr_seen sr \<union> {n. unat index \<le> n \<and> n < unat index + length data \<and> n < edge}"
    "sr_eof sr4 \<longleftrightarrow> sr_eof sr \<or> eof \<and> unat index + length data \<le> edge"
    using edge by (auto simp: sr4_def sr3_def fr)
  have "sr_ok S sr4" using ok3 by (simp add: sr4_def)
  then show "sr_ok S sr'" by (simp add: sr')
  show "sr_seen sr' = sr_seen sr \<union> {n. unat index \<le> n \<and> n < unat index + length data \<and> n < edge}"
    by (simp add: sr' sr4)
  show "sr_capacity sr' = sr_capacity sr"
    by (simp add: sr' sr4)
  show "bs_read_count (sr_output sr') = bs_read_count (sr_output sr)"
    by (simp add: sr' sr4)
  show "sr_eof sr' \<longleftrightarrow> sr_eof sr \<or> eof \<and> unat index + length data \<le> edge"
    by (simp add: sr' sr4)
  show "bs_input_ended_flag (sr_output sr') \<longleftrightarrow>
      bs_input_ended_flag (sr_output sr) \<or> sr_unassembled sr' = 0 \<and> sr_eof sr'"
    by (auto simp: sr' sr4 ByteStream_end_input_def)
  show "bs_error (sr_output sr') = bs_error (sr_output sr)"
    by (simp add: sr' sr4)
qed

text \<open>The application reading from \<open>stream_out()\<close>.\<close>

definition StreamReassembler_read_out :: "u64 \<Rightarrow> StreamReassembler \<Rightarrow> bytes \<times> StreamReassembler" where
  "StreamReassembler_read_out n sr =
     (let (d, out) = ByteStream_read n (sr_output sr) in (d, sr\<lparr>sr_output := out\<rparr>))"

lemma read_out_ok:
  assumes ok: "sr_ok S sr" and r: "StreamReassembler_read_out n sr = (d, sr')"
  shows "sr_ok S sr'" "sr_seen sr' = sr_seen sr"
    "sr_first_unassembled sr' = sr_first_unassembled sr" "sr_eof sr' = sr_eof sr"
    "bs_input_ended_flag (sr_output sr') = bs_input_ended_flag (sr_output sr)"
    "sr_capacity sr' = sr_capacity sr"
    "bs_content (sr_output sr) = d @ bs_content (sr_output sr')"
proof -
  let ?bs = "sr_output sr"
  let ?R = "unat (bs_read_count ?bs)" and ?F = "unat (sr_first_unassembled sr)"
  have o: "bs_ok ?bs" "bs_content ?bs = drop ?R (take ?F S)" "?R \<le> ?F" "?F \<le> length S"
    using ok by (auto simp: sr_ok_def Let_def)
  have sr': "sr' = sr\<lparr>sr_output := snd (ByteStream_read n ?bs)\<rparr>" "d = fst (ByteStream_read n ?bs)"
    using r by (auto simp: StreamReassembler_read_out_def split: prod.splits)
  have rc: "bs_read_count (snd (ByteStream_read n ?bs))
      = bs_read_count ?bs + ssize (take (unat n) (bs_content ?bs))"
    using pop_output_result(3) [OF o(1)] by (simp add: ByteStream_read_def Let_def)
  have len: "length (take (unat n) (bs_content ?bs)) \<le> ?F - ?R"
    using o by (simp add: min_le_iff_disj)
  then have "length (take (unat n) (bs_content ?bs)) < W64"
    using unat_u64_lt [of "sr_first_unassembled sr"] by linarith
  then have R': "unat (bs_read_count (snd (ByteStream_read n ?bs)))
      = ?R + length (take (unat n) (bs_content ?bs))"
    unfolding rc using len o(3) unat_u64_lt [of "sr_first_unassembled sr"]
    by (subst unat_add_less) (simp_all add: unat_ssize)
  have c': "bs_content (snd (ByteStream_read n ?bs)) = drop (unat n) (drop ?R (take ?F S))"
    using read_result(2) [OF o(1)] o(2) by simp
  have "drop (unat n) (drop ?R (take ?F S))
      = drop (?R + length (take (unat n) (bs_content ?bs))) (take ?F S)"
    unfolding o(2) using o(3,4) by (cases "unat n \<le> ?F - ?R") (simp_all add: add.commute min_def)
  with ok R' c' len read_result(3) [OF o(1)] show "sr_ok S sr'"
    unfolding sr' by (auto simp: sr_ok_def Let_def)
  show "bs_input_ended_flag (sr_output sr') = bs_input_ended_flag (sr_output sr)"
    by (simp add: sr')
  show "bs_content (sr_output sr) = d @ bs_content (sr_output sr')"
    unfolding sr' using read_result [OF o(1)] by simp
qed (use r in \<open>auto simp: StreamReassembler_read_out_def split: prod.splits\<close>)

lemma read_out_unassembled:
  "StreamReassembler_read_out n sr = (d, sr') \<Longrightarrow> sr_unassembled sr' = sr_unassembled sr"
  by (auto simp: StreamReassembler_read_out_def split: prod.splits)

section \<open>Runs\<close>

datatype sr_op = Push bytes u64 bool | Read u64

primrec sr_step :: "sr_op \<Rightarrow> StreamReassembler \<Rightarrow> bytes \<times> StreamReassembler" where
  "sr_step (Push data index eof) sr = ([], StreamReassembler_push_substring data index eof sr)"
| "sr_step (Read n) sr = StreamReassembler_read_out n sr"

text \<open>The bytes the application has read along a run, and the final state.\<close>

primrec sr_run :: "sr_op list \<Rightarrow> StreamReassembler \<Rightarrow> bytes \<times> StreamReassembler" where
  "sr_run [] sr = ([], sr)"
| "sr_run (x # ops) sr =
     (let (d, sr) = sr_step x sr; (out, sr) = sr_run ops sr in (d @ out, sr))"

text \<open>
  Every pushed substring is an excerpt of \<open>S\<close>, and \<open>eof\<close> marks the end of \<open>S\<close>. An empty
  substring without \<open>eof\<close> may carry any index.
\<close>

primrec excerpt_of :: "bytes \<Rightarrow> sr_op \<Rightarrow> bool" where
  "excerpt_of S (Push data index eof) =
     ((data = [] \<or> unat index + length data \<le> length S \<and> data = take (length data) (drop (unat index) S))
      \<and> (eof \<longrightarrow> unat index + length data = length S))"
| "excerpt_of S (Read n) = True"

text \<open>The end marker comes with data, or when nothing before it is missing.\<close>

primrec fin_covered :: "StreamReassembler \<Rightarrow> sr_op \<Rightarrow> bool" where
  "fin_covered sr (Push data index eof) =
     (eof \<longrightarrow> data \<noteq> [] \<or> unat index \<le> unat (sr_first_unassembled sr))"
| "fin_covered sr (Read n) = True"

definition sr_move :: "StreamReassembler \<Rightarrow> sr_op \<Rightarrow> StreamReassembler" where
  "sr_move sr x = snd (sr_step x sr)"

lemma sr_run_foldl: "snd (sr_run ops sr) = foldl sr_move sr ops"
  by (induction ops arbitrary: sr) (simp_all add: sr_move_def split_beta Let_def)

text \<open>The assembled bytes are what was read and what is still buffered.\<close>

lemma sr_ok_assembled:
  assumes "sr_ok S sr"
  shows "take (unat (bs_read_count (sr_output sr))) S @ bs_content (sr_output sr)
    = take (unat (sr_first_unassembled sr)) S"
  using assms drop_take_append [of 0 "unat (bs_read_count (sr_output sr))"
      "unat (sr_first_unassembled sr)" S]
  by (simp add: sr_ok_def Let_def)

lemma sr_step_ok:
  assumes "sr_ok S sr" "excerpt_of S x" "sr_step x sr = (d, sr')"
  shows "sr_ok S sr' \<and> sr_capacity sr' = sr_capacity sr
    \<and> take (unat (bs_read_count (sr_output sr))) S @ d = take (unat (bs_read_count (sr_output sr'))) S"
proof (cases x)
  case (Push data index eof)
  with assms push_substring_ok [OF assms(1), of data index eof] show ?thesis by auto
next
  case (Read n)
  then have r: "StreamReassembler_read_out n sr = (d, sr')" using assms(3) by simp
  note R = read_out_ok [OF assms(1) r]
  have "(take (unat (bs_read_count (sr_output sr))) S @ d) @ bs_content (sr_output sr')
      = take (unat (bs_read_count (sr_output sr'))) S @ bs_content (sr_output sr')"
    using sr_ok_assembled [OF assms(1)] sr_ok_assembled [OF R(1)] R(3,7) by simp
  then have "take (unat (bs_read_count (sr_output sr))) S @ d
      = take (unat (bs_read_count (sr_output sr'))) S" by (simp only: append_same_eq)
  with R show ?thesis by blast
qed

lemma sr_run_ok:
  assumes "sr_ok S sr" "list_all (excerpt_of S) ops" "sr_run ops sr = (out, sr')"
  shows "sr_ok S sr' \<and> sr_capacity sr' = sr_capacity sr
    \<and> take (unat (bs_read_count (sr_output sr))) S @ out = take (unat (bs_read_count (sr_output sr'))) S"
  using assms
proof (induction ops arbitrary: sr out)
  case Nil
  then show ?case by simp
next
  case (Cons x ops)
  obtain d sr1 where s: "sr_step x sr = (d, sr1)" by fastforce
  obtain out1 where r: "sr_run ops sr1 = (out1, sr')" "out = d @ out1"
    using Cons.prems(3) s by (auto split: prod.splits)
  note S = sr_step_ok [OF Cons.prems(1) _ s]
  from S Cons.IH [of sr1 out1] Cons.prems(2) r show ?case
    by (simp del: append_assoc add: append_assoc [symmetric])
qed

lemma sr_ok_within_capacity:
  assumes "sr_ok S sr"
  shows "length (bs_content (sr_output sr)) + unat (sr_unassembled sr) \<le> unat (sr_capacity sr)"
proof -
  let ?F = "unat (sr_first_unassembled sr)" and ?R = "unat (bs_read_count (sr_output sr))"
  have o: "?R \<le> ?F" "?F \<le> length S" "?F \<le> ?R + unat (sr_capacity sr)" "?F \<notin> sr_seen sr"
    "bs_content (sr_output sr) = drop ?R (take ?F S)"
    "unat (sr_unassembled sr) = card {n \<in> sr_seen sr. ?F \<le> n}"
    "\<forall>n \<in> sr_seen sr. ?F \<le> n \<longrightarrow> n < ?R + unat (sr_capacity sr)"
    using assms by (auto simp: sr_ok_def Let_def)
  have "{n \<in> sr_seen sr. ?F \<le> n} \<subseteq> {?F..<?R + unat (sr_capacity sr)}" using o(7) by auto
  then have "card {n \<in> sr_seen sr. ?F \<le> n} \<le> ?R + unat (sr_capacity sr) - ?F"
    by (metis card_atLeastLessThan card_mono finite_atLeastLessThan)
  then show ?thesis using o by simp
qed

text \<open>End of input: what the flags mean when every end marker is \<open>fin_covered\<close>.\<close>

definition sr_fin_ok :: "bytes \<Rightarrow> StreamReassembler \<Rightarrow> bool" where
  "sr_fin_ok S sr =
     ((sr_eof sr \<longrightarrow> S = [] \<or> length S - 1 \<in> sr_seen sr)
      \<and> (bs_input_ended_flag (sr_output sr) \<longleftrightarrow>
           sr_eof sr \<and> unat (sr_first_unassembled sr) = length S))"

lemma sr_ok_complete_iff:
  assumes "sr_ok S sr" "S = [] \<or> length S - 1 \<in> sr_seen sr"
  shows "unat (sr_first_unassembled sr) = length S \<longleftrightarrow> sr_unassembled sr = 0"
proof -
  let ?F = "unat (sr_first_unassembled sr)"
  have o: "?F \<le> length S" "?F \<notin> sr_seen sr" "\<forall>n \<in> sr_seen sr. ?F \<le> n \<longrightarrow> n < length S"
    and un: "unat (sr_unassembled sr) = card {n \<in> sr_seen sr. ?F \<le> n}"
    using assms(1) by (auto simp: sr_ok_def Let_def)
  have "sr_unassembled sr = 0 \<longleftrightarrow> {n \<in> sr_seen sr. ?F \<le> n} = {}"
    using un finite_sr_seen by (simp add: unat_eq_zero [symmetric] card_eq_0_iff)
  moreover have "{n \<in> sr_seen sr. ?F \<le> n} = {} \<longleftrightarrow> ?F = length S"
  proof
    assume none: "{n \<in> sr_seen sr. ?F \<le> n} = {}"
    show "?F = length S"
    proof (rule ccontr)
      assume "?F \<noteq> length S"
      with o(1) have "?F \<le> length S - 1" "S \<noteq> []" by auto
      with none assms(2) show False by auto
    qed
  qed (use o(3) in auto)
  ultimately show ?thesis by simp
qed

lemma push_first_unassembled_mono:
  assumes "sr_ok S sr" "excerpt_of S (Push data index eof)"
  shows "unat (sr_first_unassembled sr)
    \<le> unat (sr_first_unassembled (StreamReassembler_push_substring data index eof sr))"
proof (rule ccontr)
  let ?sr' = "StreamReassembler_push_substring data index eof sr"
  have "data = [] \<or> unat index + length data \<le> length S" "data = take (length data) (drop (unat index) S)"
    using assms(2) by auto
  note P = push_substring_ok [OF assms(1) this, of eof]
  assume "\<not> ?thesis"
  then have "unat (sr_first_unassembled ?sr') \<in> sr_seen sr"
    using assms(1) by (auto simp: sr_ok_def Let_def)
  then show False using P(1,2) assms(2) by (auto simp: sr_ok_def Let_def)
qed

lemma push_fin_ok:
  assumes ok: "sr_ok S sr" and fin: "sr_fin_ok S sr"
    and x: "excerpt_of S (Push data index eof)" "fin_covered sr (Push data index eof)"
  shows "sr_fin_ok S (StreamReassembler_push_substring data index eof sr)"
proof -
  let ?edge = "unat (bs_read_count (sr_output sr)) + unat (sr_capacity sr)"
    and ?sr' = "StreamReassembler_push_substring data index eof sr"
  have p: "data = [] \<or> unat index + length data \<le> length S"
    "data = take (length data) (drop (unat index) S)" "eof \<Longrightarrow> unat index + length data = length S"
    "eof \<Longrightarrow> data \<noteq> [] \<or> unat index \<le> unat (sr_first_unassembled sr)"
    using x by auto
  note P = push_substring_ok [OF ok p(1,2), of eof]
  have F: "{..<unat (sr_first_unassembled sr)} \<subseteq> sr_seen sr" using ok by (simp add: sr_ok_def Let_def)
  have "S = [] \<or> length S - 1 \<in> sr_seen ?sr'" if "sr_eof ?sr'"
  proof (cases "sr_eof sr")
    case True
    then show ?thesis using fin P(2) by (auto simp: sr_fin_ok_def)
  next
    case False
    then have e: "eof" "unat index + length data \<le> ?edge" using P(5) that by auto
    then have upto: "unat index + length data = length S" using p(3) by auto
    show ?thesis
    proof (cases "data = []")
      case True
      then have "length S \<le> unat (sr_first_unassembled sr)" using p(4) e(1) upto by auto
      then have "S = [] \<or> length S - 1 \<in> sr_seen sr" using F by (cases S) (auto simp: subset_iff)
      then show ?thesis using P(2) by auto
    next
      case False
      then have "0 < length data" by simp
      then have "length S - 1 \<in> {n. unat index \<le> n \<and> n < unat index + length data \<and> n < ?edge}"
        using e(2) upto by (intro CollectI conjI) linarith+
      then show ?thesis using P(2) by auto
    qed
  qed
  moreover have "unat (sr_first_unassembled ?sr') \<le> length S" using P(1) by (simp add: sr_ok_def Let_def)
  ultimately show ?thesis
    using fin P(5,6) sr_ok_complete_iff [OF P(1)] push_first_unassembled_mono [OF ok x(1)]
    by (auto simp: sr_fin_ok_def)
qed

interpretation fins: machine sr_move "\<lambda>sr x. excerpt_of S x \<and> fin_covered sr x"
    "\<lambda>sr. sr_ok S sr \<and> sr_fin_ok S sr" for S
proof
  fix sr x
  assume ok: "sr_ok S sr \<and> sr_fin_ok S sr" and x: "excerpt_of S x \<and> fin_covered sr x"
  obtain d sr' where s: "sr_step x sr = (d, sr')" by fastforce
  have "sr_fin_ok S sr'"
  proof (cases x)
    case (Read n)
    with s read_out_ok [of S sr n d sr'] ok show ?thesis by (simp add: sr_fin_ok_def)
  next
    case (Push data index eof)
    with s x ok push_fin_ok [of S sr data index eof] show ?thesis by auto
  qed
  with s x ok sr_step_ok [of S sr x d sr'] show "sr_ok S (sr_move sr x) \<and> sr_fin_ok S (sr_move sr x)"
    by (simp add: sr_move_def)
qed

lemma sr_fin_ok_new: "sr_fin_ok S (StreamReassembler_new cap)"
  by (simp add: sr_fin_ok_def StreamReassembler_new_def ByteStream_new_def)

section \<open>Properties\<close>

lemma sr_new_simps [simp]:
  "sr_capacity (StreamReassembler_new cap) = cap"
  "bs_read_count (sr_output (StreamReassembler_new cap)) = 0"
  by (simp_all add: StreamReassembler_new_def ByteStream_new_def)

text \<open>
  C4: in-order delivery. Push excerpts of a stream \<open>S\<close> in any order, with any overlaps and
  repetitions, interleaved with reads: what was read followed by what is still buffered is exactly
  the prefix of \<open>S\<close> up to \<open>first_unassembled\<close>; \<open>unassembled\<close> counts the stored bytes that wait behind a
  gap, each once; and the bytes buffered and waiting together never exceed the capacity.
\<close>

theorem reassembler_delivers_prefix:
  assumes "length S + unat cap < W64" "list_all (excerpt_of S) ops"
    "sr_run ops (StreamReassembler_new cap) = (out, sr)"
  shows "out @ bs_content (sr_output sr) = take (unat (StreamReassembler_first_unassembled_byte sr)) S
    \<and> unat (StreamReassembler_unassembled_bytes sr)
        = card {n \<in> sr_seen sr. unat (StreamReassembler_first_unassembled_byte sr) \<le> n}
    \<and> length (bs_content (sr_output sr)) + unat (StreamReassembler_unassembled_bytes sr) \<le> unat cap"
proof -
  note R = sr_run_ok [OF sr_ok_new [OF assms(1)] assms(2,3)]
  then have ok: "sr_ok S sr" "sr_capacity sr = cap"
    "out = take (unat (bs_read_count (sr_output sr))) S" by simp_all
  have "unat (sr_unassembled sr) = card {n \<in> sr_seen sr. unat (sr_first_unassembled sr) \<le> n}"
    using ok(1) by (simp add: sr_ok_def Let_def)
  with ok show ?thesis
    using sr_ok_assembled [OF ok(1)] sr_ok_within_capacity [OF ok(1)]
    by (simp add: StreamReassembler_accessor_defs)
qed

theorem reassembler_delivers_prefix_witness:
  "\<exists>out sr. sr_run [Push [3, 4] 2 True, Push [1, 2, 3] 0 False, Read 3] (StreamReassembler_new 8) = (out, sr)
    \<and> out @ bs_content (sr_output sr)
      = take (unat (StreamReassembler_first_unassembled_byte sr)) [1, 2, 3, 4]
    \<and> length (bs_content (sr_output sr)) + unat (StreamReassembler_unassembled_bytes sr) \<le> 8"
proof -
  obtain out sr where r: "sr_run [Push [3, 4] 2 True, Push [1, 2, 3] 0 False, Read 3]
      (StreamReassembler_new 8) = (out, sr)" by fastforce
  from reassembler_delivers_prefix [OF _ _ r, of "[1, 2, 3, 4]"] r show ?thesis by simp
qed

text \<open>
  The tables themselves are not bounded by the capacity: after any run \<open>m_exist\<close> still has an entry for
  every byte that was ever assembled, read or not.
\<close>

lemma marks_never_erased:
  assumes "length S + unat cap < W64" "list_all (excerpt_of S) ops" "sr_run ops (StreamReassembler_new cap) = (out, sr)"
    "unat k < unat (StreamReassembler_first_unassembled_byte sr)"
  shows "sr_m_exist sr k = Some True"
proof -
  have "sr_ok S sr" using sr_run_ok [OF sr_ok_new [OF assms(1)] assms(2,3)] by simp
  then have "unat k \<in> sr_seen sr" using assms(4) by (auto simp: sr_ok_def Let_def StreamReassembler_accessor_defs)
  then show ?thesis by (simp add: in_sr_seen umap_at_def split: option.splits)
qed

text \<open>
  C5: nothing inside the window is lost and assembly is maximal. After a push,
  \<open>first_unassembled\<close> is the first index that is neither known before nor contained in the part
  of the substring inside the window \<open>[0, first_unread + capacity)\<close>.
\<close>

theorem push_substring_maximal:
  assumes "sr_ok S sr" "excerpt_of S (Push data index eof)"
  shows "unat (StreamReassembler_first_unassembled_byte (StreamReassembler_push_substring data index eof sr))
    = (LEAST n. n \<notin> sr_seen sr \<and> \<not> (unat index \<le> n \<and> n < unat index + length data
        \<and> n < unat (bs_read_count (sr_output sr)) + unat (sr_capacity sr)))"
proof -
  have p: "data = [] \<or> unat index + length data \<le> length S"
    "data = take (length data) (drop (unat index) S)"
    using assms(2) by auto
  let ?sr' = "StreamReassembler_push_substring data index eof sr"
  note P = push_substring_ok [OF assms(1) p, of eof]
  have "unat (sr_first_unassembled ?sr') \<notin> sr_seen ?sr'"
    "{..<unat (sr_first_unassembled ?sr')} \<subseteq> sr_seen ?sr'"
    using P(1) by (auto simp: sr_ok_def Let_def)
  then have "(LEAST n. n \<notin> sr_seen ?sr') = unat (sr_first_unassembled ?sr')"
    by (intro Least_equality) (auto simp: not_less [symmetric])
  then show ?thesis
    unfolding P(2) by (simp add: StreamReassembler_accessor_defs)
qed

theorem push_substring_maximal_witness:
  "unat (StreamReassembler_first_unassembled_byte
      (StreamReassembler_push_substring [1, 2] 0 False (StreamReassembler_new 8)))
    = (LEAST n. n \<notin> sr_seen (StreamReassembler_new 8) \<and> \<not> (unat (0 :: u64) \<le> n \<and> n < unat (0 :: u64) + 2
        \<and> n < unat (bs_read_count (sr_output (StreamReassembler_new 8)))
            + unat (sr_capacity (StreamReassembler_new 8))))"
  using push_substring_maximal [OF sr_ok_new [of "[1, 2, 3]" 8], of "[1, 2]" 0 False] by simp

text \<open>
  C6: end of stream. When no end marker arrives alone ahead of missing data, the output stream's
  input has ended exactly when the last substring was accepted and all of \<open>S\<close> is assembled;
  in particular the reader then gets all of \<open>S\<close>.
\<close>

theorem reassembler_end_of_stream:
  assumes "length S + unat cap < W64"
    "guarded (\<lambda>sr x. excerpt_of S x \<and> fin_covered sr x) sr_move (StreamReassembler_new cap) ops"
    "sr_run ops (StreamReassembler_new cap) = (out, sr)"
  shows "(ByteStream_input_ended (sr_output sr) \<longleftrightarrow>
      StreamReassembler_is_eof sr \<and> unat (StreamReassembler_first_unassembled_byte sr) = length S)
    \<and> (ByteStream_input_ended (sr_output sr) \<longrightarrow> out @ bs_content (sr_output sr) = S)"
proof -
  have "list_all (excerpt_of S) ops" if "guarded (\<lambda>sr x. excerpt_of S x \<and> fin_covered sr x) sr_move sr ops"
    for sr using that by (induction ops arbitrary: sr) auto
  note R = sr_run_ok [OF sr_ok_new [OF assms(1)] this [OF assms(2)] assms(3)]
  then have ok: "sr_ok S sr" "out = take (unat (bs_read_count (sr_output sr))) S" by simp_all
  have "sr_fin_ok S sr"
    using fins.run_inv [OF _ assms(2)] sr_ok_new [OF assms(1)] sr_fin_ok_new assms(3)
      sr_run_foldl [of ops "StreamReassembler_new cap"] by auto
  then show ?thesis
    using sr_ok_assembled [OF ok(1)] ok(2)
    by (auto simp: sr_fin_ok_def ByteStream_input_ended_def StreamReassembler_accessor_defs)
qed

theorem reassembler_end_of_stream_witness:
  "\<exists>out sr. sr_run [Push [3, 4] 2 True, Push [1, 2, 3] 0 False, Read 3] (StreamReassembler_new 8) = (out, sr)
    \<and> (ByteStream_input_ended (sr_output sr) \<longrightarrow> out @ bs_content (sr_output sr) = [1, 2, 3, 4])"
proof -
  obtain out sr where r: "sr_run [Push [3, 4] 2 True, Push [1, 2, 3] 0 False, Read 3]
      (StreamReassembler_new 8) = (out, sr)" by fastforce
  from reassembler_end_of_stream [OF _ _ r, of "[1, 2, 3, 4]"] r show ?thesis by simp
qed

text \<open>
  Without data the end marker is believed too early: an empty \<open>eof\<close> substring at index 5, with
  nothing else received, ends the output stream although bytes 0 to 4 are missing, because
  \<open>empty()\<close> only says that no byte is waiting.
\<close>

theorem empty_eof_ends_stream_early:
  "let sr = StreamReassembler_push_substring [] 5 True (StreamReassembler_new 8)
   in ByteStream_input_ended (sr_output sr) \<and> StreamReassembler_first_unassembled_byte sr = 0"
  by (simp add: StreamReassembler_push_substring_def StreamReassembler_new_def Let_def
      StreamReassembler_empty_def ByteStream_new_def ByteStream_write_def ByteStream_bytes_read_def
      BufferList_size_def ByteStream_end_input_def ByteStream_input_ended_def
      StreamReassembler_first_unassembled_byte_def)

end
