(* ===== verification/Wrapping_Integers.thy ===== *)
theory Wrapping_Integers
  imports Prelude
begin

text \<open>
  \<open>libsponge/wrapping_integers.{hh,cc}\<close>: 32-bit sequence numbers relative to an initial
  sequence number, and their translation to and from absolute 64-bit sequence numbers.
\<close>

section \<open>Model\<close>

type_synonym WrappingInt32 = u32

text \<open>\<open>operator-\<close> of two wrapping integers: the offset as a signed 32-bit number.\<close>

definition wi_diff :: "WrappingInt32 \<Rightarrow> WrappingInt32 \<Rightarrow> int" where
  "wi_diff a b = sint (a - b)"

definition wi_add :: "WrappingInt32 \<Rightarrow> u32 \<Rightarrow> WrappingInt32" where
  "wi_add a b = a + b"

definition wi_sub :: "WrappingInt32 \<Rightarrow> u32 \<Rightarrow> WrappingInt32" where
  "wi_sub a b = wi_add a (- b)"

definition wrap :: "u64 \<Rightarrow> WrappingInt32 \<Rightarrow> WrappingInt32" where
  "wrap n isn = (let n' = n mod (0xFFFFFFFF + 1) in wi_add isn (ucast n'))"

definition unwrap :: "WrappingInt32 \<Rightarrow> WrappingInt32 \<Rightarrow> u64 \<Rightarrow> u64" where
  "unwrap n isn checkpoint =
     (let t = (ucast (n - isn) :: u64)
      in if t \<ge> checkpoint then t
         else let time = (checkpoint - t) div 0x100000000;
                  t = t + time * 0x100000000
              in if checkpoint - t > 0x80000000 then t + 0x100000000 else t)"

section \<open>The two translations as arithmetic on natural numbers\<close>

definition unwrap_nat :: "nat \<Rightarrow> nat \<Rightarrow> nat" where
  "unwrap_nat T C =
     (if C \<le> T then T
      else let t = T + (C - T) div 4294967296 * 4294967296
           in if C - t > 2147483648 then t + 4294967296 else t)"

lemma unat_wrap: "unat (wrap n isn) = (unat isn + unat n) mod 2 ^ 32"
proof -
  have "unat (ucast (n mod 0x100000000) :: u32) = unat n mod 2 ^ 32"
    by (simp add: unsigned_ucast_eq take_bit_eq_mod unat_mod)
  then show ?thesis
    by (simp add: wrap_def wi_add_def unat_word_ariths mod_add_right_eq)
qed

lemma wrap_0 [simp]: "wrap 0 isn = isn"
  by (simp add: wrap_def wi_add_def)

lemma wrap_ucast: "wrap n isn = isn + ucast n"
proof -
  have "(ucast (n mod 0x100000000) :: u32) = ucast n"
    by (simp add: word_unat_eq_iff unsigned_ucast_eq take_bit_eq_mod unat_mod)
  then show ?thesis by (simp add: wrap_def wi_add_def)
qed

lemma ucast_add_down: "(ucast (a + b :: u64) :: u32) = ucast a + ucast b"
  by (simp add: word_unat_eq_iff unsigned_ucast_eq take_bit_eq_mod unat_word_ariths
      mod_mod_cancel mod_add_eq)

lemma ucast_up_down: "(ucast (ucast k :: u64) :: u32) = k"
proof -
  have "unat (ucast (ucast k :: u64) :: u32) = unat (ucast k :: u64) mod 2 ^ 32"
    by (subst unsigned_ucast_eq) (simp add: take_bit_eq_mod)
  then show ?thesis
    using unat_u32_lt [of k] by (simp add: word_unat_eq_iff unat_ucast_up)
qed

lemma wrap_minus_isn: "unat (wrap n isn - isn) = unat n mod 2 ^ 32"
  by (simp add: wrap_ucast unsigned_ucast_eq take_bit_eq_mod)

lemma wrap_eq_iff: "wrap n isn = m \<longleftrightarrow> unat n mod 2 ^ 32 = unat (m - isn)"
proof -
  have "wrap n isn = m \<longleftrightarrow> wrap n isn - isn = m - isn" by simp
  then show ?thesis by (simp only: word_unat_eq_iff wrap_minus_isn)
qed

lemma wrap_add: "wi_add (wrap n isn) k = wrap (n + ucast k) isn"
  by (simp add: wi_add_def wrap_ucast ucast_add_down ucast_up_down)

lemma unat_unwrap: "unat (unwrap n isn c) = unwrap_nat (unat (n - isn)) (unat c) mod 2 ^ 64"
proof -
  define T where "T = unat (n - isn)"
  define t where "t = (ucast (n - isn) :: u64)"
  have t: "unat t = T" by (simp add: t_def T_def unat_ucast_up)
  show ?thesis
  proof (cases "c \<le> t")
    case True
    then show ?thesis
      using unat_u64_lt [of t] t
      by (simp add: unwrap_def unwrap_nat_def t_def [symmetric] T_def [symmetric] word_le_nat_alt)
  next
    case False
    define t' where "t' = t + (c - t) div 0x100000000 * 0x100000000"
    define q where "q = (unat c - T) div 2 ^ 32"
    have lt: "T < unat c" using False t by (simp add: word_le_nat_alt)
    have q: "q * 2 ^ 32 \<le> unat c - T" by (simp add: q_def)
    have uq: "unat ((c - t) div 0x100000000) = q"
      using False t by (simp add: q_def unat_div unat_diff_le)
    have uqm: "unat ((c - t) div 0x100000000 * 0x100000000) = q * 2 ^ 32"
      using q unat_u64_lt [of c] by (subst unat_mult_lem [THEN iffD1]) (simp_all add: uq)
    have ut': "unat t' = T + q * 2 ^ 32"
      unfolding t'_def using q lt unat_u64_lt [of c]
      by (subst unat_add_less) (simp_all only: uqm t, simp)
    have le: "t' \<le> c" using q lt by (simp add: word_le_nat_alt ut')
    then have d: "unat (c - t') = unat c - (T + q * 2 ^ 32)" by (simp add: unat_diff_le ut')
    have "unwrap n isn c = (if 0x80000000 < c - t' then t' + 0x100000000 else t')"
      using False by (simp add: unwrap_def t_def [symmetric] Let_def t'_def)
    moreover have "0x80000000 < c - t' \<longleftrightarrow> 2 ^ 31 < unat c - (T + q * 2 ^ 32)"
      by (simp add: word_less_nat_alt d)
    moreover have "unwrap_nat T (unat c) =
        (if 2 ^ 31 < unat c - (T + q * 2 ^ 32) then T + q * 2 ^ 32 + 2 ^ 32 else T + q * 2 ^ 32)"
      using lt by (simp add: unwrap_nat_def Let_def q_def)
    moreover have "unat t' mod 2 ^ 64 = unat t'" using unat_u64_lt [of t'] by simp
    ultimately show ?thesis
      by (simp add: T_def [symmetric] ut' unat_word_ariths del: mod_less)
  qed
qed

lemma unwrap_nat_cases:
  obtains "C \<le> T" "unwrap_nat T C = T"
  | q r where "C = T + q * 4294967296 + r" "r \<le> 2147483648" "unwrap_nat T C = T + q * 4294967296"
  | q r where "C = T + q * 4294967296 + r" "2147483648 < r" "r < 4294967296"
      "unwrap_nat T C = T + q * 4294967296 + 4294967296"
proof (cases "C \<le> T")
  case True
  then show ?thesis using that(1) by (simp add: unwrap_nat_def)
next
  case False
  define q where "q = (C - T) div 4294967296"
  define r where "r = (C - T) mod 4294967296"
  have C: "C = T + q * 4294967296 + r"
    using False by (simp only: q_def r_def add.assoc div_mult_mod_eq)
  have r: "r < 4294967296" by (simp add: r_def)
  have u: "unwrap_nat T C = (if r > 2147483648 then T + q * 4294967296 + 4294967296 else T + q * 4294967296)"
    using False C r by (simp add: unwrap_nat_def Let_def q_def [symmetric])
  show ?thesis
    using that(2) [OF C _ ] that(3) [OF C _ r] u by (cases "r > 2147483648") simp_all
qed

lemma unwrap_nat_mod: "T < 4294967296 \<Longrightarrow> unwrap_nat T C mod 4294967296 = T"
  by (cases rule: unwrap_nat_cases [of C T]) auto

text \<open>Two numbers with the same residue are equal or a whole period apart.\<close>

lemma same_residue_cases:
  assumes "(a :: nat) mod M = b mod M"
  obtains "a = b" | "a + M \<le> b" | "b + M \<le> a"
proof -
  have ab: "a = a div M * M + b mod M" "b = b div M * M + b mod M"
    using assms by (metis div_mult_mod_eq, simp)
  consider "a div M = b div M" | "Suc (a div M) \<le> b div M" | "Suc (b div M) \<le> a div M"
    by linarith
  then show ?thesis
  proof cases
    case 1
    with ab show ?thesis using that(1) by metis
  next
    case 2
    then have "M + a div M * M \<le> b div M * M" by (metis mult_Suc mult_le_mono1)
    then have "a + M \<le> b" using ab by linarith
    then show ?thesis by (rule that(2))
  next
    case 3
    then have "M + b div M * M \<le> a div M * M" by (metis mult_Suc mult_le_mono1)
    then have "b + M \<le> a" using ab by linarith
    then show ?thesis by (rule that(3))
  qed
qed

lemma unwrap_nat_eqI:
  assumes "x mod 4294967296 = T" "x < C + 2147483648" "C < x + 2147483648"
  shows "unwrap_nat T C = x"
proof -
  have T: "T < 4294967296" using assms(1) by auto
  have m: "unwrap_nat T C mod 4294967296 = x mod 4294967296" using unwrap_nat_mod [OF T] assms(1) by simp
  show ?thesis
    using assms(2,3) T
    by (cases rule: unwrap_nat_cases [of C T]; cases rule: same_residue_cases [OF m]; linarith)
qed

lemma unwrap_nat_closest:
  assumes "T < 4294967296" "x mod 4294967296 = T"
  shows "\<bar>int (unwrap_nat T C) - int C\<bar> \<le> \<bar>int x - int C\<bar>"
proof -
  have m: "unwrap_nat T C mod 4294967296 = x mod 4294967296" using unwrap_nat_mod assms by simp
  show ?thesis
    using assms(1)
    by (cases rule: unwrap_nat_cases [of C T]; cases rule: same_residue_cases [OF m]; linarith)
qed

lemma unwrap_eqI:
  assumes "wrap x isn = n" "unat x < unat c + 2147483648" "unat c < unat x + 2147483648"
  shows "unwrap n isn c = x"
proof -
  have "unwrap_nat (unat (n - isn)) (unat c) = unat x"
    using assms wrap_eq_iff [of x isn n] by (intro unwrap_nat_eqI) auto
  then show ?thesis using unat_u64_lt [of x] by (simp add: word_unat_eq_iff unat_unwrap)
qed

text \<open>The checkpoint itself is always recovered.\<close>

lemma unwrap_wrap_self [simp]: "unwrap (wrap x isn) isn x = x"
  by (rule unwrap_eqI) simp_all

section \<open>Properties\<close>

text \<open>
  Whatever the checkpoint, \<open>unwrap\<close> returns an absolute sequence number that wraps back
  to the relative one it was given (also when the final addition overflows 64 bits).
\<close>

lemma wrap_unwrap: "wrap (unwrap n isn checkpoint) isn = n"
proof -
  have "unwrap_nat (unat (n - isn)) (unat checkpoint) mod 2 ^ 32 = unat (n - isn)"
    using unwrap_nat_mod [OF unat_u32_lt, of "n - isn"] by simp
  then show ?thesis
    by (simp add: wrap_eq_iff unat_unwrap mod_mod_cancel)
qed

text \<open>
  C36: \<open>unwrap\<close> inverts \<open>wrap\<close>: an absolute sequence number less than \<open>2^31\<close> away from the
  checkpoint, on either side, is recovered exactly.
\<close>

theorem unwrap_wrap:
  assumes "unat x < unat checkpoint + 2 ^ 31" "unat checkpoint < unat x + 2 ^ 31"
  shows "unwrap (wrap x isn) isn checkpoint = x"
  using assms by (intro unwrap_eqI) simp_all

theorem unwrap_wrap_witness: "unwrap (wrap 5000000000 0xFFFFFFF0) 0xFFFFFFF0 4999999999 = 5000000000"
  by (rule unwrap_wrap) simp_all

text \<open>
  C37: the contract in the header comment. For every checkpoint below \<open>2^64 - 2^31\<close> (above that bound
  the closest number may not fit 64 bits), \<open>unwrap\<close> returns an absolute sequence number that wraps
  to \<open>n\<close>, and no 64-bit number that wraps to \<open>n\<close> is closer to the checkpoint.
\<close>

theorem unwrap_closest:
  assumes "unat checkpoint + 2 ^ 31 < 2 ^ 64"
  shows "wrap (unwrap n isn checkpoint) isn = n
    \<and> (\<forall>x. wrap x isn = n \<longrightarrow> \<bar>int (unat (unwrap n isn checkpoint)) - int (unat checkpoint)\<bar>
         \<le> \<bar>int (unat x) - int (unat checkpoint)\<bar>)"
proof (intro conjI allI impI)
  fix x :: u64
  assume x: "wrap x isn = n"
  define T C u where "T = unat (n - isn)" and "C = unat checkpoint" and "u = unwrap_nat T C"
  have T: "T < 4294967296" using unat_u32_lt [of "n - isn"] by (simp add: T_def)
  have "C + 2147483648 < 18446744073709551616" using assms by (simp add: C_def)
  then have "u < 18446744073709551616" using T unfolding u_def
    by (cases rule: unwrap_nat_cases [of C T]; linarith)
  then have u: "unat (unwrap n isn checkpoint) = u"
    by (simp add: unat_unwrap u_def T_def C_def)
  have "unat x mod 4294967296 = T" using x by (simp add: T_def wrap_eq_iff)
  then show "\<bar>int (unat (unwrap n isn checkpoint)) - int (unat checkpoint)\<bar> \<le> \<bar>int (unat x) - int (unat checkpoint)\<bar>"
    using unwrap_nat_closest [OF T] unfolding u u_def C_def by blast
qed (rule wrap_unwrap)

theorem unwrap_closest_witness:
  "wrap (unwrap 7 5 0x180000000) 5 = 7
   \<and> \<bar>int (unat (unwrap 7 5 0x180000000)) - int (unat (0x180000000 :: u64))\<bar>
     \<le> \<bar>int (unat (0x200000002 :: u64)) - int (unat (0x180000000 :: u64))\<bar>"
proof -
  have "unat (0x180000000 :: u64) + 2 ^ 31 < 2 ^ 64" "wrap 0x200000002 5 = 7" by (simp_all add: wrap_def wi_add_def)
  then show ?thesis using unwrap_closest [of "0x180000000" 7 5] by blast
qed

end
