(* ===== verification/Tcp_Segment.thy ===== *)
theory Tcp_Segment
  imports Checksum Wrapping_Integers
begin

text \<open>
  \<open>libsponge/tcp_helpers/tcp_header.{hh,cc}\<close> and \<open>tcp_segment.{hh,cc}\<close>: the TCP header, its wire
  format and the segment with its checksum. \<open>WrappingInt32\<close> is its raw 32-bit value. The lemmas
  show that what \<open>serialize\<close> writes \<open>parse\<close> reads back, and that a corrupted byte is rejected.
\<close>

section \<open>Model\<close>

record TCPHeader =
  th_sport :: u16
  th_dport :: u16
  th_seqno :: u32
  th_ackno :: u32
  th_doff :: u8
  th_urg :: bool
  th_ack :: bool
  th_psh :: bool
  th_rst :: bool
  th_syn :: bool
  th_fin :: bool
  th_win :: u16
  th_cksum :: u16
  th_uptr :: u16

definition TCPHeader_LENGTH :: u64 where
  "TCPHeader_LENGTH = 20"

definition TCPHeader_new :: TCPHeader where
  "TCPHeader_new =
     \<lparr>th_sport = 0, th_dport = 0, th_seqno = 0, th_ackno = 0, th_doff = ucast (TCPHeader_LENGTH div 4),
      th_urg = False, th_ack = False, th_psh = False, th_rst = False, th_syn = False, th_fin = False,
      th_win = 0, th_cksum = 0, th_uptr = 0\<rparr>"

definition TCPHeader_parse :: "NetParser \<Rightarrow> ParseResult \<times> TCPHeader \<times> NetParser" where
  "TCPHeader_parse p =
     (let (sport, p) = NetParser_u16 p;
          (dport, p) = NetParser_u16 p;
          (seqno, p) = NetParser_u32 p;
          (ackno, p) = NetParser_u32 p;
          (off, p) = NetParser_u8 p;
          doff = drop_bit 4 off;
          (fl_b, p) = NetParser_u8 p;
          (win, p) = NetParser_u16 p;
          (cksum, p) = NetParser_u16 p;
          (uptr, p) = NetParser_u16 p;
          h = \<lparr>th_sport = sport, th_dport = dport, th_seqno = seqno, th_ackno = ackno, th_doff = doff,
               th_urg = (fl_b AND 0b00100000 \<noteq> 0), th_ack = (fl_b AND 0b00010000 \<noteq> 0),
               th_psh = (fl_b AND 0b00001000 \<noteq> 0), th_rst = (fl_b AND 0b00000100 \<noteq> 0),
               th_syn = (fl_b AND 0b00000010 \<noteq> 0), th_fin = (fl_b AND 0b00000001 \<noteq> 0),
               th_win = win, th_cksum = cksum, th_uptr = uptr\<rparr>
      in if doff < 5 then (HeaderTooShort, h, p)
         else let p = NetParser_remove_prefix (ucast doff * 4 - TCPHeader_LENGTH) p
              in if NetParser_error p then (np_error p, h, p) else (NoError, h, p))"

definition TCPHeader_flags :: "TCPHeader \<Rightarrow> u8" where
  "TCPHeader_flags h =
     (if th_urg h then 0b00100000 else 0) OR (if th_ack h then 0b00010000 else 0) OR
     (if th_psh h then 0b00001000 else 0) OR (if th_rst h then 0b00000100 else 0) OR
     (if th_syn h then 0b00000010 else 0) OR (if th_fin h then 0b00000001 else 0)"

definition TCPHeader_serialize :: "TCPHeader \<Rightarrow> bytes res" where
  "TCPHeader_serialize h =
     (if th_doff h < 5 then Inl (Runtime_error ''TCP header too short'')
      else let ret = [];
               ret = NetUnparser_u16 ret (th_sport h);
               ret = NetUnparser_u16 ret (th_dport h);
               ret = NetUnparser_u32 ret (th_seqno h);
               ret = NetUnparser_u32 ret (th_ackno h);
               ret = NetUnparser_u8 ret (push_bit 4 (th_doff h));
               ret = NetUnparser_u8 ret (TCPHeader_flags h);
               ret = NetUnparser_u16 ret (th_win h);
               ret = NetUnparser_u16 ret (th_cksum h);
               ret = NetUnparser_u16 ret (th_uptr h)
           in Inr (string_resize (4 * unat (th_doff h)) ret))"

text \<open>\<open>operator==\<close>, which leaves the ports and the checksum out.\<close>

definition TCPHeader_eq :: "TCPHeader \<Rightarrow> TCPHeader \<Rightarrow> bool" where
  "TCPHeader_eq h other =
     (th_seqno h = th_seqno other \<and> th_ackno h = th_ackno other \<and> th_doff h = th_doff other
      \<and> th_urg h = th_urg other \<and> th_ack h = th_ack other \<and> th_psh h = th_psh other
      \<and> th_rst h = th_rst other \<and> th_syn h = th_syn other \<and> th_fin h = th_fin other
      \<and> th_win h = th_win other \<and> th_uptr h = th_uptr other)"

record TCPSegment =
  ts_header :: TCPHeader
  ts_payload :: Buffer

definition TCPSegment_new :: TCPSegment where
  "TCPSegment_new = \<lparr>ts_header = TCPHeader_new, ts_payload = Buffer_empty\<rparr>"

text \<open>The result of the header's \<open>parse\<close> is not used; only the parser's own error is.\<close>

definition TCPSegment_parse :: "Buffer \<Rightarrow> u32 \<Rightarrow> TCPSegment \<Rightarrow> ParseResult \<times> TCPSegment" where
  "TCPSegment_parse buffer datagram_layer_checksum seg =
     (let check = InternetChecksum_add (Buffer_str buffer) (InternetChecksum_new datagram_layer_checksum)
      in if InternetChecksum_value check \<noteq> 0 then (BadChecksum, seg)
         else let (_, header, p) = TCPHeader_parse (NetParser_new buffer)
              in (np_error p, \<lparr>ts_header = header, ts_payload = np_buffer p\<rparr>))"

definition TCPSegment_length_in_sequence_space :: "TCPSegment \<Rightarrow> u64" where
  "TCPSegment_length_in_sequence_space seg =
     ssize (Buffer_str (ts_payload seg)) + (if th_syn (ts_header seg) then 1 else 0)
       + (if th_fin (ts_header seg) then 1 else 0)"

definition TCPSegment_serialize :: "u32 \<Rightarrow> TCPSegment \<Rightarrow> BufferList res" where
  "TCPSegment_serialize datagram_layer_checksum seg =
     (let header_out = (ts_header seg)\<lparr>th_cksum := 0\<rparr>
      in case TCPHeader_serialize header_out of
           Inl e \<Rightarrow> Inl e
         | Inr hdr \<Rightarrow>
             let check = InternetChecksum_new datagram_layer_checksum;
                 check = InternetChecksum_add hdr check;
                 check = InternetChecksum_add (Buffer_str (ts_payload seg)) check;
                 header_out = header_out\<lparr>th_cksum := InternetChecksum_value check\<rparr>
             in case TCPHeader_serialize header_out of
                  Inl e \<Rightarrow> Inl e
                | Inr hdr \<Rightarrow>
                    let ret = BufferList_append [] (BufferList_of_string hdr);
                        ret = BufferList_append ret [ts_payload seg]
                    in Inr ret)"

section \<open>The header on the wire\<close>

definition header_bytes :: "TCPHeader \<Rightarrow> bytes" where
  "header_bytes h =
     be_bytes (th_sport h) @ be_bytes (th_dport h) @ be_bytes (th_seqno h) @ be_bytes (th_ackno h)
       @ [push_bit 4 (th_doff h), TCPHeader_flags h] @ be_bytes (th_win h) @ be_bytes (th_cksum h)
       @ be_bytes (th_uptr h) @ replicate (4 * unat (th_doff h) - 20) 0"

lemma TCPHeader_serialize_eq:
  assumes "5 \<le> th_doff h"
  shows "TCPHeader_serialize h = Inr (header_bytes h)"
proof -
  have "5 \<le> unat (th_doff h)" using assms by (simp add: word_le_nat_alt)
  moreover have "\<not> th_doff h < 5" using assms by (simp add: not_less)
  ultimately show ?thesis
    by (simp add: TCPHeader_serialize_def Let_def string_resize_def header_bytes_def)
qed

lemma TCPHeader_serialize_short:
  "th_doff h < 5 \<Longrightarrow> TCPHeader_serialize h = Inl (Runtime_error ''TCP header too short'')"
  by (simp add: TCPHeader_serialize_def)

lemma length_header_bytes: "5 \<le> th_doff h \<Longrightarrow> length (header_bytes h) = 4 * unat (th_doff h)"
  by (simp add: header_bytes_def word_le_nat_alt)

lemma flags_roundtrip:
  "(TCPHeader_flags h AND 32 \<noteq> 0) = th_urg h" "(TCPHeader_flags h AND 16 \<noteq> 0) = th_ack h"
  "(TCPHeader_flags h AND 8 \<noteq> 0) = th_psh h" "(TCPHeader_flags h AND 4 \<noteq> 0) = th_rst h"
  "(TCPHeader_flags h AND 2 \<noteq> 0) = th_syn h" "(TCPHeader_flags h AND 1 \<noteq> 0) = th_fin h"
  unfolding TCPHeader_flags_def
  by (cases "th_urg h"; cases "th_ack h"; cases "th_psh h"; cases "th_rst h"; cases "th_syn h";
      cases "th_fin h"; simp)+

lemma nibble_roundtrip: "drop_bit 4 (push_bit 4 (d :: u8)) = d" if "d < 16"
proof -
  have "unat d < 16" using that by (simp add: word_less_nat_alt)
  then have "unat (push_bit 4 d) = 16 * unat d"
    by (simp add: push_bit_eq_mult unat_word_ariths)
  then show ?thesis by (simp add: word_unat_eq_iff unat_drop_bit)
qed

lemma TCPHeader_parse_at:
  assumes "np_at p (header_bytes h @ rest)" "5 \<le> th_doff h" "th_doff h < 16"
  shows "\<exists>p'. TCPHeader_parse p = (NoError, h, p') \<and> np_at p' rest"
proof -
  obtain p1 where 1: "NetParser_u16 p = (th_sport h, p1)"
    and "np_at p1 (drop 2 (header_bytes h) @ rest)"
    using u16_at [of p "th_sport h"] assms(1) by (auto simp: header_bytes_def)
  then obtain p2 where 2: "NetParser_u16 p1 = (th_dport h, p2)"
    and "np_at p2 (drop 4 (header_bytes h) @ rest)"
    using u16_at [of p1 "th_dport h"] by (auto simp: header_bytes_def)
  then obtain p3 where 3: "NetParser_u32 p2 = (th_seqno h, p3)"
    and "np_at p3 (drop 8 (header_bytes h) @ rest)"
    using u32_at [of p2 "th_seqno h"] by (auto simp: header_bytes_def)
  then obtain p4 where 4: "NetParser_u32 p3 = (th_ackno h, p4)"
    and "np_at p4 (drop 12 (header_bytes h) @ rest)"
    using u32_at [of p3 "th_ackno h"] by (auto simp: header_bytes_def)
  then obtain p5 where 5: "NetParser_u8 p4 = (push_bit 4 (th_doff h), p5)"
    and "np_at p5 (drop 13 (header_bytes h) @ rest)"
    using u8_at [of p4 "push_bit 4 (th_doff h)"] by (auto simp: header_bytes_def)
  then obtain p6 where 6: "NetParser_u8 p5 = (TCPHeader_flags h, p6)"
    and "np_at p6 (drop 14 (header_bytes h) @ rest)"
    using u8_at [of p5 "TCPHeader_flags h"] by (auto simp: header_bytes_def)
  then obtain p7 where 7: "NetParser_u16 p6 = (th_win h, p7)"
    and "np_at p7 (drop 16 (header_bytes h) @ rest)"
    using u16_at [of p6 "th_win h"] by (auto simp: header_bytes_def)
  then obtain p8 where 8: "NetParser_u16 p7 = (th_cksum h, p8)"
    and "np_at p8 (drop 18 (header_bytes h) @ rest)"
    using u16_at [of p7 "th_cksum h"] by (auto simp: header_bytes_def)
  then obtain p9 where 9: "NetParser_u16 p8 = (th_uptr h, p9)"
    and p9: "np_at p9 (replicate (4 * unat (th_doff h) - 20) 0 @ rest)"
    using u16_at [of p8 "th_uptr h"] by (auto simp: header_bytes_def)
  have d: "5 \<le> unat (th_doff h)" "unat (th_doff h) < 16"
    using assms(2,3) by (simp_all add: word_le_nat_alt word_less_nat_alt)
  have u: "unat (ucast (th_doff h) * 4 :: u64) = 4 * unat (th_doff h)"
    using d by (simp add: unat_word_ariths unat_ucast_up)
  have n: "unat (ucast (th_doff h) * 4 - TCPHeader_LENGTH) = 4 * unat (th_doff h) - 20"
    using d u by (subst unat_diff_le) (simp_all add: TCPHeader_LENGTH_def word_le_nat_alt)
  define p' where "p' = NetParser_remove_prefix (ucast (th_doff h) * 4 - TCPHeader_LENGTH) p9"
  have p': "np_at p' rest"
    using remove_prefix_at [OF p9, of "ucast (th_doff h) * 4 - TCPHeader_LENGTH"]
    by (simp add: n p'_def)
  then have e: "\<not> NetParser_error p'" by (simp add: np_at_def NetParser_error_def)
  have "TCPHeader_parse p = (NoError, h, p')"
    using assms(2,3) e p'_def
    by (simp add: TCPHeader_parse_def 1 2 3 4 5 6 7 8 9 nibble_roundtrip Let_def flags_roundtrip
        linorder_not_less [THEN iffD2])
  with p' show ?thesis by blast
qed

section \<open>The segment on the wire\<close>

text \<open>The header as \<open>serialize\<close> sends it, with the checksum it computes.\<close>

definition sealed_header :: "u32 \<Rightarrow> TCPSegment \<Rightarrow> TCPHeader" where
  "sealed_header d seg =
     (ts_header seg)\<lparr>th_cksum := InternetChecksum_value
        (InternetChecksum_add (header_bytes ((ts_header seg)\<lparr>th_cksum := 0\<rparr>) @ Buffer_str (ts_payload seg))
          (InternetChecksum_new d))\<rparr>"

definition segment_bytes :: "u32 \<Rightarrow> TCPSegment \<Rightarrow> bytes" where
  "segment_bytes d seg = header_bytes (sealed_header d seg) @ Buffer_str (ts_payload seg)"

definition segment_sendable :: "TCPSegment \<Rightarrow> bool" where
  "segment_sendable seg =
     (5 \<le> th_doff (ts_header seg) \<and> th_doff (ts_header seg) < 16
      \<and> length (Buffer_str (ts_payload seg)) \<le> 65475)"

lemma sealed_header_doff [simp]: "th_doff (sealed_header d seg) = th_doff (ts_header seg)"
  by (simp add: sealed_header_def)

lemma TCPSegment_serialize_eq:
  assumes "5 \<le> th_doff (ts_header seg)"
  shows "TCPSegment_serialize d seg
    = Inr [Buffer_of_string (header_bytes (sealed_header d seg)), ts_payload seg]"
  using assms
  by (simp add: TCPSegment_serialize_def Let_def TCPHeader_serialize_eq sealed_header_def
      InternetChecksum_add_append BufferList_append_def BufferList_of_string_def)

lemma segment_bytes_length:
  "segment_sendable seg \<Longrightarrow> length (segment_bytes d seg) \<le> 65535"
  by (auto simp: segment_sendable_def segment_bytes_def length_header_bytes word_less_nat_alt)

lemma header_bytes_cksum:
  "\<exists>pre post. even (length pre) \<and> (\<forall>c. header_bytes (h\<lparr>th_cksum := c\<rparr>) = pre @ be_bytes c @ post)"
proof (intro exI conjI allI)
  show "header_bytes (h\<lparr>th_cksum := c\<rparr>)
      = (be_bytes (th_sport h) @ be_bytes (th_dport h) @ be_bytes (th_seqno h) @ be_bytes (th_ackno h)
          @ [push_bit 4 (th_doff h), TCPHeader_flags h] @ be_bytes (th_win h))
        @ be_bytes c @ (be_bytes (th_uptr h) @ replicate (4 * unat (th_doff h) - 20) 0)" for c
    by (simp add: header_bytes_def TCPHeader_flags_def)
qed simp

text \<open>A pseudo-header sum below \<open>2 ^ 30\<close> and a segment of at most 65535 bytes leave the 32-bit
  accumulator without a wrap.\<close>

lemma sum_fits:
  assumes "unat d < 2 ^ 30" "length bs \<le> 65535"
  shows "unat (ck_sum (InternetChecksum_new d)) + bsum (ck_parity (InternetChecksum_new d)) bs + 65535 < W32"
  using assms bsum_bound [of "ck_parity (InternetChecksum_new d)" bs]
  by (simp add: InternetChecksum_new_def)

lemma segment_checksum_zero:
  assumes "segment_sendable seg" "unat d < 2 ^ 30"
  shows "InternetChecksum_value (InternetChecksum_add (segment_bytes d seg) (InternetChecksum_new d)) = 0"
proof -
  let ?h = "ts_header seg" and ?pl = "Buffer_str (ts_payload seg)" and ?c = "InternetChecksum_new d"
  obtain pre post where pp: "even (length pre)"
      "\<And>c. header_bytes (?h\<lparr>th_cksum := c\<rparr>) = pre @ be_bytes c @ post"
    using header_bytes_cksum [of ?h] by blast
  have sb: "segment_bytes d seg = pre @ be_bytes (th_cksum (sealed_header d seg)) @ post @ ?pl"
    by (simp add: segment_bytes_def sealed_header_def pp(2))
  have "length (pre @ be_bytes (0 :: u16) @ post @ ?pl) \<le> 65535"
    using segment_bytes_length [OF assms(1), of d] by (simp add: sb)
  from sum_fits [OF assms(2) this] pp(1)
  have fit: "unat (ck_sum ?c) + bsum False pre + bsum False (post @ ?pl) + 65535 < W32"
    by (simp add: bsum_append InternetChecksum_new_def bsum_be_bytes)
  show ?thesis unfolding sb
  proof (rule filled_checksum_verifies [OF pp(1) _ _ fit])
    show "th_cksum (sealed_header d seg)
        = InternetChecksum_value (InternetChecksum_add (pre @ be_bytes (0 :: u16) @ post @ ?pl) ?c)"
      by (simp add: sealed_header_def pp(2))
  qed (simp add: InternetChecksum_new_def)
qed

lemma segment_parse_serialized:
  assumes "segment_sendable seg" "unat d < 2 ^ 30"
    and "Buffer_ok b" "Buffer_str b = segment_bytes d seg"
  shows "\<exists>pl. TCPSegment_parse b d self
      = (NoError, \<lparr>ts_header = sealed_header d seg, ts_payload = pl\<rparr>)
    \<and> Buffer_ok pl \<and> Buffer_str pl = Buffer_str (ts_payload seg)"
proof -
  have "np_at (NetParser_new b) (header_bytes (sealed_header d seg) @ Buffer_str (ts_payload seg))"
    using assms(3,4) by (simp add: np_at_def NetParser_new_def segment_bytes_def)
  then obtain p' where p': "TCPHeader_parse (NetParser_new b) = (NoError, sealed_header d seg, p')"
      "np_at p' (Buffer_str (ts_payload seg))"
    using TCPHeader_parse_at assms(1) by (fastforce simp: segment_sendable_def)
  then show ?thesis
    using segment_checksum_zero [OF assms(1,2)] assms(4)
    by (auto simp: TCPSegment_parse_def np_at_def)
qed

section \<open>Any bytes\<close>

text \<open>Where \<open>TCPHeader::parse\<close> leaves the parser: at byte 20 if the header is declared too short,
  behind the options otherwise.\<close>

definition payload_start :: "bytes \<Rightarrow> nat" where
  "payload_start bs = (let doff = unat (drop_bit 4 (bs ! 12)) in if doff < 5 then 20 else 4 * doff)"

lemma TCPHeader_parse_any:
  assumes "np_at p bs" "20 \<le> length bs"
  shows "\<exists>r h p'. TCPHeader_parse p = (r, h, p') \<and> th_doff h = drop_bit 4 (bs ! 12)
    \<and> (if payload_start bs \<le> length bs then np_at p' (drop (payload_start bs) bs)
       else np_error p' = PacketTooShort)"
proof -
  obtain p1 v1 where 1: "NetParser_u16 p = (v1, p1)" and "np_at p1 (drop 2 bs)"
    using field_steps(2) [of p 0 bs 2] assms by auto
  then obtain p2 v2 where 2: "NetParser_u16 p1 = (v2, p2)" and "np_at p2 (drop 4 bs)"
    using field_steps(2) [of p1 2 bs 4] assms(2) by auto
  then obtain p3 v3 where 3: "NetParser_u32 p2 = (v3, p3)" and "np_at p3 (drop 8 bs)"
    using field_steps(3) [of p2 4 bs 8] assms(2) by auto
  then obtain p4 v4 where 4: "NetParser_u32 p3 = (v4, p4)" and "np_at p4 (drop 12 bs)"
    using field_steps(3) [of p3 8 bs 12] assms(2) by auto
  moreover have "be_val (take 1 (drop 12 bs)) = bs ! 12"
    using assms(2) by (simp add: take_Suc_conv_app_nth be_val_def)
  ultimately obtain p5 where 5: "NetParser_u8 p4 = (bs ! 12, p5)" and "np_at p5 (drop 13 bs)"
    using field_steps(1) [of p4 12 bs 13] assms(2) by auto
  then obtain p6 v6 where 6: "NetParser_u8 p5 = (v6, p6)" and "np_at p6 (drop 14 bs)"
    using field_steps(1) [of p5 13 bs 14] assms(2) by auto
  then obtain p7 v7 where 7: "NetParser_u16 p6 = (v7, p7)" and "np_at p7 (drop 16 bs)"
    using field_steps(2) [of p6 14 bs 16] assms(2) by auto
  then obtain p8 v8 where 8: "NetParser_u16 p7 = (v8, p8)" and "np_at p8 (drop 18 bs)"
    using field_steps(2) [of p7 16 bs 18] assms(2) by auto
  then obtain p9 v9 where 9: "NetParser_u16 p8 = (v9, p9)" and p9: "np_at p9 (drop 20 bs)"
    using field_steps(2) [of p8 18 bs 20] assms(2) by auto
  let ?d = "drop_bit 4 (bs ! 12)"
  have dlt: "unat ?d < 16" using unat_u8_lt [of "bs ! 12"] by (simp add: unat_drop_bit)
  show ?thesis
  proof (cases "?d < 5")
    case True
    then have "unat ?d < 5" by (simp add: word_less_nat_alt)
    then show ?thesis
      using True p9 assms(2) by (simp add: TCPHeader_parse_def 1 2 3 4 5 6 7 8 9 Let_def payload_start_def)
  next
    case False
    then have d: "5 \<le> unat ?d" by (simp add: word_less_nat_alt)
    have u: "unat (ucast ?d * 4 :: u64) = 4 * unat ?d"
      using dlt by (simp add: unat_word_ariths unat_ucast_up)
    have n: "unat (ucast ?d * 4 - TCPHeader_LENGTH) = 4 * unat ?d - 20"
      using d u by (subst unat_diff_le) (simp_all add: TCPHeader_LENGTH_def word_le_nat_alt)
    define p' where "p' = NetParser_remove_prefix (ucast ?d * 4 - TCPHeader_LENGTH) p9"
    have "if 4 * unat ?d \<le> length bs then np_at p' (drop (4 * unat ?d) bs) else np_error p' = PacketTooShort"
      using remove_prefix_at [OF p9, of "ucast ?d * 4 - TCPHeader_LENGTH"]
        remove_prefix_short [OF p9, of "ucast ?d * 4 - TCPHeader_LENGTH"] d assms(2)
      by (auto simp: n p'_def)
    then show ?thesis
      unfolding p'_def using False d
      by (simp add: TCPHeader_parse_def 1 2 3 4 5 6 7 8 9 Let_def payload_start_def)
  qed
qed

lemma TCPHeader_parse_short:
  assumes "np_at p bs" "length bs < 20" "TCPHeader_parse p = (r, h, p')"
  shows "NetParser_error p'"
proof -
  have s: "np_short p 20" using assms(1,2) by (auto simp: np_short_def)
  have rp: "NetParser_error (NetParser_remove_prefix n q)" if "NetParser_error q" for n q
    using that by (auto simp: NetParser_remove_prefix_def NetParser_check_size_def NetParser_error_def Let_def)
  define p4 where "p4 = snd (NetParser_u32 (snd (NetParser_u32 (snd (NetParser_u16 (snd (NetParser_u16 p)))))))"
  define p9 where "p9 = snd (NetParser_u16 (snd (NetParser_u16 (snd (NetParser_u16
    (snd (NetParser_u8 (snd (NetParser_u8 p4)))))))))"
  have "np_short p4 8"
    using np_short_steps(3) [OF np_short_steps(3) [OF np_short_steps(2) [OF np_short_steps(2) [OF s]]]]
    by (simp add: p4_def)
  from np_short_steps(2) [OF np_short_steps(2) [OF np_short_steps(2) [OF np_short_steps(1)
      [OF np_short_steps(1) [OF this]]]]]
  have "NetParser_error p9" by (simp add: p9_def np_short_0)
  with rp assms(3) show ?thesis
    by (auto simp: TCPHeader_parse_def p9_def p4_def Let_def split: prod.splits if_splits)
qed

section \<open>Properties\<close>

text \<open>
  C11: a segment serialized by the sender and parsed by the peer with the same pseudo-header sum is
  read back without an error, with the same header (up to the checksum that was filled in) and the
  same payload.
\<close>

theorem segment_roundtrip:
  assumes "segment_sendable seg" "Buffer_ok (ts_payload seg)" "unat d < 2 ^ 30"
  shows "\<exists>bl cksum pl. TCPSegment_serialize d seg = Inr bl
    \<and> TCPSegment_parse (Buffer_of_string (BufferList_concatenate bl)) d self
        = (NoError, \<lparr>ts_header = (ts_header seg)\<lparr>th_cksum := cksum\<rparr>, ts_payload = pl\<rparr>)
    \<and> Buffer_str pl = Buffer_str (ts_payload seg)"
proof -
  have ser: "TCPSegment_serialize d seg
      = Inr [Buffer_of_string (header_bytes (sealed_header d seg)), ts_payload seg]"
    using assms(1) by (intro TCPSegment_serialize_eq) (simp add: segment_sendable_def)
  have cat: "BufferList_concatenate [Buffer_of_string (header_bytes (sealed_header d seg)), ts_payload seg]
      = segment_bytes d seg"
    by (simp add: BufferList_concatenate_def segment_bytes_def)
  have "Buffer_ok (Buffer_of_string (segment_bytes d seg))"
    using segment_bytes_length [OF assms(1), of d] by (intro Buffer_ok_of_string) linarith
  from segment_parse_serialized [OF assms(1,3) this, of self] ser cat show ?thesis
    by (fastforce simp: sealed_header_def)
qed

definition demo_segment :: TCPSegment where
  "demo_segment =
     \<lparr>ts_header = TCPHeader_new\<lparr>th_sport := 1025, th_seqno := 7, th_doff := 6, th_ack := True, th_win := 512\<rparr>,
      ts_payload = Buffer_of_string [104, 105, 33]\<rparr>"

lemma demo_segment_sendable: "segment_sendable demo_segment" "Buffer_ok (ts_payload demo_segment)"
  by (simp_all add: segment_sendable_def demo_segment_def)

theorem segment_roundtrip_witness:
  "\<exists>bl cksum pl. TCPSegment_serialize 99 demo_segment = Inr bl
    \<and> TCPSegment_parse (Buffer_of_string (BufferList_concatenate bl)) 99 TCPSegment_new
        = (NoError, \<lparr>ts_header = (ts_header demo_segment)\<lparr>th_cksum := cksum\<rparr>, ts_payload = pl\<rparr>)
    \<and> Buffer_str pl = [104, 105, 33]"
  using segment_roundtrip [OF demo_segment_sendable, of 99 TCPSegment_new]
  by (simp add: demo_segment_def)

lemma corrupted_bytes_rejected:
  assumes "segment_sendable seg" "unat d < 2 ^ 30" "bs = segment_bytes d seg" "i < length bs" "x \<noteq> bs ! i"
  shows "TCPSegment_parse (Buffer_of_string (bs[i := x])) d self = (BadChecksum, self)"
proof -
  have split: "bs = take i bs @ bs ! i # drop (Suc i) bs" "bs[i := x] = take i bs @ x # drop (Suc i) bs"
    using assms(4) by (simp_all add: id_take_nth_drop upd_conv_take_nth_drop)
  have len: "length bs \<le> 65535" using segment_bytes_length [OF assms(1), of d] by (simp add: assms(3))
  have fits: "unat (ck_sum (InternetChecksum_new d)) + bsum (ck_parity (InternetChecksum_new d))
      (take i bs @ z # drop (Suc i) bs) < W32" for z
  proof -
    have "length (take i bs @ z # drop (Suc i) bs) \<le> 65535" using len assms(4) by simp
    from sum_fits [OF assms(2) this] show ?thesis by linarith
  qed
  have "InternetChecksum_value
      (InternetChecksum_add (take i bs @ x # drop (Suc i) bs) (InternetChecksum_new d)) \<noteq> 0"
  proof (rule corrupted_byte_detected)
    show "bs ! i \<noteq> x" using assms(5) by simp
    show "InternetChecksum_value
        (InternetChecksum_add (take i bs @ bs ! i # drop (Suc i) bs) (InternetChecksum_new d)) = 0"
      using segment_checksum_zero [OF assms(1,2)] by (simp only: split(1) [symmetric]) (simp add: assms(3))
  qed (rule fits)+
  then show ?thesis by (simp add: TCPSegment_parse_def split(2) Let_def)
qed

text \<open>
  C12: whichever byte of a serialized segment is corrupted on the way, and to whatever value, the
  peer's \<open>parse\<close> reports a bad checksum and leaves its segment as it was.
\<close>

theorem corrupted_segment_rejected:
  assumes "segment_sendable seg" "unat d < 2 ^ 30"
    and "TCPSegment_serialize d seg = Inr bl" "bs = BufferList_concatenate bl"
    and "i < length bs" "x \<noteq> bs ! i"
  shows "TCPSegment_parse (Buffer_of_string (bs[i := x])) d self = (BadChecksum, self)"
proof -
  have "bs = segment_bytes d seg"
    using assms(1,3,4) TCPSegment_serialize_eq [of seg d]
    by (auto simp: segment_sendable_def BufferList_concatenate_def segment_bytes_def)
  then show ?thesis using assms by (intro corrupted_bytes_rejected)
qed

theorem corrupted_segment_rejected_witness:
  "\<exists>bl. TCPSegment_serialize 99 demo_segment = Inr bl
    \<and> TCPSegment_parse (Buffer_of_string ((BufferList_concatenate bl)[25 := 0])) 99 TCPSegment_new
        = (BadChecksum, TCPSegment_new)"
proof -
  have ser: "TCPSegment_serialize 99 demo_segment
      = Inr [Buffer_of_string (header_bytes (sealed_header 99 demo_segment)), ts_payload demo_segment]"
    by (intro TCPSegment_serialize_eq) (simp add: demo_segment_def)
  have l: "length (header_bytes (sealed_header 99 demo_segment)) = 24"
    by (subst length_header_bytes) (simp_all add: demo_segment_def)
  show ?thesis
    using corrupted_segment_rejected [OF demo_segment_sendable(1) _ ser refl, of 25 0 TCPSegment_new] ser l
    by (simp add: BufferList_concatenate_def nth_append demo_segment_def)
qed

text \<open>
  C39: what \<open>TCPSegment::parse\<close> accepts. A segment is accepted exactly if its checksum verifies, it
  has the twenty bytes of the fixed header and the header it declares fits; the payload is what
  follows. A declared header length below five words is accepted too, with the payload taken from
  byte 20, since the \<open>HeaderTooShort\<close> of the header's \<open>parse\<close> is dropped.
\<close>

theorem segment_accepted_iff:
  assumes "Buffer_ok b" "Buffer_str b = bs"
    and "TCPSegment_parse b d self = (r, seg)"
  shows "(r = NoError \<longleftrightarrow> InternetChecksum_value (InternetChecksum_add bs (InternetChecksum_new d)) = 0
        \<and> 20 \<le> length bs \<and> payload_start bs \<le> length bs)
    \<and> (r = NoError \<longrightarrow> th_doff (ts_header seg) = drop_bit 4 (bs ! 12)
        \<and> Buffer_str (ts_payload seg) = drop (payload_start bs) bs)"
proof -
  have at: "np_at (NetParser_new b) bs" using assms(1,2) by (simp add: np_at_def NetParser_new_def)
  show ?thesis
  proof (cases "20 \<le> length bs")
    case True
    obtain rh h p' where p': "TCPHeader_parse (NetParser_new b) = (rh, h, p')"
        "th_doff h = drop_bit 4 (bs ! 12)"
        "if payload_start bs \<le> length bs then np_at p' (drop (payload_start bs) bs)
         else np_error p' = PacketTooShort"
      using TCPHeader_parse_any [OF at True] by blast
    with True assms(2,3) show ?thesis
      by (auto simp: TCPSegment_parse_def Let_def np_at_def split: if_splits)
  next
    case False
    obtain rh h p' where p': "TCPHeader_parse (NetParser_new b) = (rh, h, p')" by (metis prod_cases3)
    have "NetParser_error p'" using TCPHeader_parse_short [OF at _ p'] False by simp
    with p' False assms(2,3) show ?thesis
      by (auto simp: TCPSegment_parse_def Let_def NetParser_error_def split: if_splits)
  qed
qed

text \<open>Twenty bytes that declare a header of four words.\<close>

definition short_doff_bytes :: bytes where
  "short_doff_bytes = replicate 12 0 @ [0x40, 0, 0, 0, 0xBF, 0xFF, 0, 0]"

theorem segment_accepted_iff_witness:
  "fst (TCPSegment_parse (Buffer_of_string short_doff_bytes) 0 TCPSegment_new) = NoError
   \<and> payload_start short_doff_bytes = 20 \<and> drop_bit 4 (short_doff_bytes ! 12) = 4"
proof -
  have ps: "payload_start short_doff_bytes = 20" "drop_bit 4 (short_doff_bytes ! 12) = 4"
    by code_simp+
  have ck: "InternetChecksum_value (InternetChecksum_add short_doff_bytes (InternetChecksum_new 0)) = 0"
    by code_simp
  obtain r seg where e: "TCPSegment_parse (Buffer_of_string short_doff_bytes) 0 TCPSegment_new = (r, seg)"
    by fastforce
  have "length short_doff_bytes = 20" by (simp add: short_doff_bytes_def)
  with segment_accepted_iff [OF _ _ e, of short_doff_bytes] ps ck e show ?thesis by simp
qed

end
