(* ===== verification/Tcp_Receiver.thy ===== *)
theory Tcp_Receiver
  imports Stream_Reassembler Tcp_Segment
begin

text \<open>
  \<open>libsponge/tcp_receiver.{hh,cc}\<close>: segments placed in the stream by their sequence numbers, the
  acknowledgment number and the window. The statements are relative to the peer's stream \<open>S\<close> and
  initial sequence number: a segment \<^emph>\<open>carries\<close> part of \<open>S\<close> if it is what a sender of \<open>S\<close> sends at
  an absolute sequence number.
\<close>

section \<open>Model\<close>

record TCPReceiver =
  tr_reassembler :: StreamReassembler
  tr_capacity :: u64
  tr_syn :: bool
  tr_fin :: bool
  tr_isn :: WrappingInt32
  tr_ackno :: WrappingInt32
  tr_checkpoint :: u64

definition TCPReceiver_new :: "u64 \<Rightarrow> TCPReceiver" where
  "TCPReceiver_new capacity =
     \<lparr>tr_reassembler = StreamReassembler_new capacity, tr_capacity = capacity, tr_syn = False,
      tr_fin = False, tr_isn = 0, tr_ackno = 0, tr_checkpoint = 0\<rparr>"

definition TCPReceiver_stream_out :: "TCPReceiver \<Rightarrow> ByteStream" where
  "TCPReceiver_stream_out r = sr_output (tr_reassembler r)"

definition TCPReceiver_unassembled_bytes :: "TCPReceiver \<Rightarrow> u64" where
  "TCPReceiver_unassembled_bytes r = StreamReassembler_unassembled_bytes (tr_reassembler r)"

definition TCPReceiver_segment_received :: "TCPSegment \<Rightarrow> TCPReceiver \<Rightarrow> TCPReceiver" where
  "TCPReceiver_segment_received seg r =
     (let hdr = ts_header seg
      in if \<not> th_syn hdr \<and> \<not> tr_syn r then r
         else if ByteStream_eof (TCPReceiver_stream_out r) \<and> tr_fin r then r
         else
           let r = (if th_syn hdr \<and> \<not> tr_syn r
                    then r\<lparr>tr_isn := th_seqno hdr, tr_syn := True\<rparr> else r);
               seq_start = unwrap (wi_add (th_seqno hdr) (if th_syn hdr then 1 else 0)) (tr_isn r)
                             (tr_checkpoint r);
               r = r\<lparr>tr_reassembler := StreamReassembler_push_substring
                       (Buffer_str (ts_payload seg)) (seq_start - 1) (th_fin hdr) (tr_reassembler r)\<rparr>;
               r = r\<lparr>tr_checkpoint := StreamReassembler_first_unassembled_byte (tr_reassembler r)\<rparr>;
               r = (if th_fin hdr \<and> \<not> tr_fin r \<and> StreamReassembler_is_eof (tr_reassembler r)
                    then r\<lparr>tr_fin := True\<rparr> else r)
           in if StreamReassembler_empty (tr_reassembler r) \<and> tr_fin r
              then r\<lparr>tr_ackno := wrap (StreamReassembler_first_unassembled_byte (tr_reassembler r) + 2)
                                  (tr_isn r)\<rparr>
              else r\<lparr>tr_ackno := wrap (StreamReassembler_first_unassembled_byte (tr_reassembler r) + 1)
                                  (tr_isn r)\<rparr>)"

definition TCPReceiver_ackno :: "TCPReceiver \<Rightarrow> WrappingInt32 option" where
  "TCPReceiver_ackno r = (if \<not> tr_syn r then None else Some (tr_ackno r))"

definition TCPReceiver_window_size :: "TCPReceiver \<Rightarrow> u64" where
  "TCPReceiver_window_size r = ByteStream_remaining_capacity (TCPReceiver_stream_out r)"

text \<open>The application reading \<open>n\<close> bytes from \<open>stream_out()\<close>.\<close>

definition TCPReceiver_read_out :: "u64 \<Rightarrow> TCPReceiver \<Rightarrow> bytes \<times> TCPReceiver" where
  "TCPReceiver_read_out n r =
     (let (d, sr) = StreamReassembler_read_out n (tr_reassembler r)
      in (d, r\<lparr>tr_reassembler := sr\<rparr>))"

section \<open>Segments of a stream\<close>

text \<open>
  \<open>carries S isn a seg\<close>: at absolute sequence number \<open>a\<close> (0 is the SYN, \<open>k + 1\<close> is byte \<open>k\<close> of the
  stream, \<open>length S + 1\<close> the FIN).
\<close>

definition seg_data :: "TCPSegment \<Rightarrow> bytes" where
  "seg_data seg = Buffer_str (ts_payload seg)"

definition seg_index :: "u64 \<Rightarrow> nat" where
  "seg_index a = (if a = 0 then 0 else unat a - 1)"

definition carries :: "bytes \<Rightarrow> WrappingInt32 \<Rightarrow> u64 \<Rightarrow> TCPSegment \<Rightarrow> bool" where
  "carries S isn a seg =
     (th_seqno (ts_header seg) = wrap a isn \<and> (th_syn (ts_header seg) \<longleftrightarrow> a = 0)
      \<and> (seg_data seg = [] \<or> seg_index a + length (seg_data seg) \<le> length S
          \<and> seg_data seg = take (length (seg_data seg)) (drop (seg_index a) S))
      \<and> (th_fin (ts_header seg) \<longrightarrow> seg_index a + length (seg_data seg) = length S))"

text \<open>
  The segment is not a stray from more than half the sequence space away, which is what a maximum
  segment lifetime guarantees; and its FIN does not arrive alone ahead of missing data.
\<close>

definition near :: "u64 \<Rightarrow> TCPReceiver \<Rightarrow> bool" where
  "near a r =
     (seg_index a + 1 < unat (tr_checkpoint r) + W31 \<and> unat (tr_checkpoint r) < seg_index a + 1 + W31)"

definition fin_in_order :: "u64 \<Rightarrow> TCPSegment \<Rightarrow> TCPReceiver \<Rightarrow> bool" where
  "fin_in_order a seg r =
     (th_fin (ts_header seg) \<longrightarrow> seg_data seg \<noteq> []
       \<or> seg_index a \<le> unat (sr_first_unassembled (tr_reassembler r)))"

section \<open>The invariant\<close>

definition tr_ok :: "bytes \<Rightarrow> WrappingInt32 \<Rightarrow> TCPReceiver \<Rightarrow> bool" where
  "tr_ok S isn r =
     (sr_ok S (tr_reassembler r)
      \<and> (tr_syn r \<longrightarrow> tr_isn r = isn)
      \<and> (\<not> tr_syn r \<longrightarrow> \<not> tr_fin r \<and> sr_first_unassembled (tr_reassembler r) = 0
           \<and> \<not> bs_input_ended_flag (sr_output (tr_reassembler r)))
      \<and> tr_checkpoint r = sr_first_unassembled (tr_reassembler r)
      \<and> (tr_syn r \<longrightarrow> tr_ackno r = wrap (sr_first_unassembled (tr_reassembler r) +
           (if sr_unassembled (tr_reassembler r) = 0 \<and> tr_fin r then 2 else 1)) isn))"

lemma tr_ok_new: "length S + unat cap < W64 \<Longrightarrow> tr_ok S isn (TCPReceiver_new cap)"
  by (simp add: tr_ok_def TCPReceiver_new_def sr_ok_new)
    (simp add: StreamReassembler_new_def ByteStream_new_def)

text \<open>Where a segment of the stream is placed.\<close>

lemma carries_index:
  assumes "carries S isn a seg" "near a r"
  shows "unwrap (wi_add (th_seqno (ts_header seg)) (if th_syn (ts_header seg) then 1 else 0)) isn
      (tr_checkpoint r) = (if a = 0 then 1 else a)"
proof -
  have u: "unat (if a = 0 then 1 else a) = seg_index a + 1"
    by (auto simp: seg_index_def unat_eq_zero Suc_diff_1 neq0_conv [symmetric])
  show ?thesis
  proof (rule unwrap_eqI)
    show "wrap (if a = 0 then 1 else a) isn
        = wi_add (th_seqno (ts_header seg)) (if th_syn (ts_header seg) then 1 else 0)"
      using assms(1) by (auto simp: carries_def wi_add_def wrap_ucast)
  qed (use assms(2) u in \<open>auto simp: near_def\<close>)
qed

definition ignored :: "TCPSegment \<Rightarrow> TCPReceiver \<Rightarrow> bool" where
  "ignored seg r =
     (\<not> th_syn (ts_header seg) \<and> \<not> tr_syn r \<or> ByteStream_eof (TCPReceiver_stream_out r) \<and> tr_fin r)"

lemma ignored_received: "ignored seg r \<Longrightarrow> TCPReceiver_segment_received seg r = r"
  unfolding TCPReceiver_segment_received_def Let_def [of "ts_header seg"] ignored_def
  by (simp only: if_True if_cancel split: if_split) blast

lemma unat_seg_index: "unat (of_nat (seg_index a) :: u64) = seg_index a"
  using unat_u64_lt [of a] by (intro unat_of_nat_less) (auto simp: seg_index_def)

lemma seg_index_word: "(if a = 0 then 1 else a) - 1 = of_nat (seg_index a)"
proof (cases "a = 0")
  case False
  then have "1 \<le> a" by (simp add: word_le_nat_alt Suc_le_eq unat_gt_0)
  then have "unat (a - 1) = seg_index a" using False by (simp add: unat_diff_le seg_index_def)
  then show ?thesis using False by (simp add: word_unat_eq_iff unat_seg_index)
qed (simp add: seg_index_def)

lemma received_eqs:
  assumes ok: "tr_ok S isn r" and seg: "carries S isn a seg" "near a r" and acc: "\<not> ignored seg r"
  defines "r' \<equiv> TCPReceiver_segment_received seg r"
    and "sr' \<equiv> StreamReassembler_push_substring (seg_data seg) (of_nat (seg_index a))
      (th_fin (ts_header seg)) (tr_reassembler r)"
  shows "tr_reassembler r' = sr'" "tr_syn r'" "tr_isn r' = isn" "tr_checkpoint r' = sr_first_unassembled sr'"
    "tr_fin r' \<longleftrightarrow> tr_fin r \<or> th_fin (ts_header seg) \<and> sr_eof sr'"
    "tr_ackno r' = wrap (sr_first_unassembled sr' + (if sr_unassembled sr' = 0 \<and> tr_fin r' then 2 else 1)) isn"
proof -
  let ?hdr = "ts_header seg"
  define r1 where "r1 = (if th_syn ?hdr \<and> \<not> tr_syn r
    then r\<lparr>tr_isn := th_seqno ?hdr, tr_syn := True\<rparr> else r)"
  have "th_syn ?hdr \<Longrightarrow> th_seqno ?hdr = isn" using seg(1) by (simp add: carries_def)
  then have r1: "tr_isn r1 = isn" "tr_syn r1" "tr_checkpoint r1 = tr_checkpoint r" "tr_fin r1 = tr_fin r"
    "tr_reassembler r1 = tr_reassembler r"
    using ok acc by (auto simp: r1_def tr_ok_def ignored_def)
  have idx: "unwrap (wi_add (th_seqno ?hdr) (if th_syn ?hdr then 1 else 0)) (tr_isn r1) (tr_checkpoint r1) - 1
      = of_nat (seg_index a)"
    using carries_index [OF seg] by (simp add: r1 seg_index_word)
  have acc': "(\<not> th_syn ?hdr \<and> \<not> tr_syn r) = False" "(ByteStream_eof (TCPReceiver_stream_out r) \<and> tr_fin r) = False"
    using acc by (auto simp: ignored_def)
  define r2 where "r2 = r1\<lparr>tr_reassembler := sr', tr_checkpoint := sr_first_unassembled sr'\<rparr>"
  have r2: "r2 = (let r = r1;
       seq_start = unwrap (wi_add (th_seqno ?hdr) (if th_syn ?hdr then 1 else 0)) (tr_isn r) (tr_checkpoint r);
       r = r\<lparr>tr_reassembler := StreamReassembler_push_substring
               (Buffer_str (ts_payload seg)) (seq_start - 1) (th_fin ?hdr) (tr_reassembler r)\<rparr>
     in r\<lparr>tr_checkpoint := StreamReassembler_first_unassembled_byte (tr_reassembler r)\<rparr>)"
    by (simp add: Let_def r2_def sr'_def idx r1(5) seg_data_def StreamReassembler_accessor_defs)
  define r3 where "r3 = (if th_fin ?hdr \<and> \<not> tr_fin r2 \<and> StreamReassembler_is_eof (tr_reassembler r2)
    then r2\<lparr>tr_fin := True\<rparr> else r2)"
  have r3: "tr_reassembler r3 = sr'" "tr_syn r3" "tr_isn r3 = isn" "tr_checkpoint r3 = sr_first_unassembled sr'"
    "tr_fin r3 \<longleftrightarrow> tr_fin r \<or> th_fin ?hdr \<and> sr_eof sr'"
    by (auto simp: r3_def r2_def r1 StreamReassembler_accessor_defs)
  have "r' = (if StreamReassembler_empty (tr_reassembler r3) \<and> tr_fin r3
      then r3\<lparr>tr_ackno := wrap (StreamReassembler_first_unassembled_byte (tr_reassembler r3) + 2) (tr_isn r3)\<rparr>
      else r3\<lparr>tr_ackno := wrap (StreamReassembler_first_unassembled_byte (tr_reassembler r3) + 1) (tr_isn r3)\<rparr>)"
    by (simp only: r'_def TCPReceiver_segment_received_def Let_def acc' if_False r3_def r2 r1_def)
  with r3 show "tr_reassembler r' = sr'" "tr_syn r'" "tr_isn r' = isn"
    "tr_checkpoint r' = sr_first_unassembled sr'" "tr_fin r' \<longleftrightarrow> tr_fin r \<or> th_fin ?hdr \<and> sr_eof sr'"
    "tr_ackno r' = wrap (sr_first_unassembled sr' + (if sr_unassembled sr' = 0 \<and> tr_fin r' then 2 else 1)) isn"
    by (auto simp: StreamReassembler_accessor_defs)
qed

lemma carries_excerpt:
  "carries S isn a seg \<Longrightarrow>
   excerpt_of S (Push (seg_data seg) (of_nat (seg_index a)) (th_fin (ts_header seg)))"
  by (simp add: carries_def unat_seg_index)

lemma segment_received_ok:
  assumes "tr_ok S isn r" "carries S isn a seg" "near a r"
  shows "tr_ok S isn (TCPReceiver_segment_received seg r)
    \<and> bs_read_count (TCPReceiver_stream_out (TCPReceiver_segment_received seg r))
      = bs_read_count (TCPReceiver_stream_out r)"
proof (cases "ignored seg r")
  case False
  note R = received_eqs [OF assms False]
  have p: "seg_data seg = [] \<or> unat (of_nat (seg_index a) :: u64) + length (seg_data seg) \<le> length S"
    "seg_data seg = take (length (seg_data seg)) (drop (unat (of_nat (seg_index a) :: u64)) S)"
    using carries_excerpt [OF assms(2)] by auto
  have "sr_ok S (tr_reassembler r)" using assms(1) by (simp add: tr_ok_def)
  from push_substring_ok [OF this p] R show ?thesis
    by (simp add: tr_ok_def TCPReceiver_stream_out_def)
qed (simp add: ignored_received assms(1))

lemma tr_read_out_ok:
  assumes "tr_ok S isn r" "TCPReceiver_read_out n r = (d, r')"
  shows "tr_ok S isn r'
    \<and> take (unat (bs_read_count (TCPReceiver_stream_out r))) S @ d
      = take (unat (bs_read_count (TCPReceiver_stream_out r'))) S"
proof -
  obtain sr' where s: "StreamReassembler_read_out n (tr_reassembler r) = (d, sr')"
    "r' = r\<lparr>tr_reassembler := sr'\<rparr>"
    using assms(2) by (auto simp: TCPReceiver_read_out_def split: prod.splits)
  have "sr_ok S (tr_reassembler r)" using assms(1) by (simp add: tr_ok_def)
  moreover have "sr_unassembled sr' = sr_unassembled (tr_reassembler r)"
    by (rule read_out_unassembled [OF s(1)])
  ultimately show ?thesis
    using sr_step_ok [of S "tr_reassembler r" "Read n" d sr'] read_out_ok [OF _ s(1), of S] s assms(1)
    by (simp add: tr_ok_def TCPReceiver_stream_out_def)
qed

section \<open>Runs\<close>

text \<open>The owner's calls, with the bytes the application has read so far beside the receiver.\<close>

datatype tr_op = Arrive u64 TCPSegment | Take u64

primrec tr_move :: "bytes \<times> TCPReceiver \<Rightarrow> tr_op \<Rightarrow> bytes \<times> TCPReceiver" where
  "tr_move s (Arrive a seg) = (fst s, TCPReceiver_segment_received seg (snd s))"
| "tr_move s (Take n) = (let (d, r) = TCPReceiver_read_out n (snd s) in (fst s @ d, r))"

primrec tr_honest :: "bytes \<Rightarrow> WrappingInt32 \<Rightarrow> bytes \<times> TCPReceiver \<Rightarrow> tr_op \<Rightarrow> bool" where
  "tr_honest S isn s (Arrive a seg) = (carries S isn a seg \<and> near a (snd s))"
| "tr_honest S isn s (Take n) = True"

definition tr_run_ok :: "bytes \<Rightarrow> WrappingInt32 \<Rightarrow> bytes \<times> TCPReceiver \<Rightarrow> bool" where
  "tr_run_ok S isn s =
     (tr_ok S isn (snd s) \<and> fst s = take (unat (bs_read_count (TCPReceiver_stream_out (snd s)))) S)"

interpretation rcv: machine tr_move "tr_honest S isn" "tr_run_ok S isn" for S isn
proof
  fix s x
  assume ok: "tr_run_ok S isn s" and h: "tr_honest S isn s x"
  show "tr_run_ok S isn (tr_move s x)"
  proof (cases x)
    case (Arrive a seg)
    with ok h segment_received_ok [of S isn "snd s" a seg] show ?thesis by (simp add: tr_run_ok_def)
  next
    case (Take n)
    obtain d r' where "TCPReceiver_read_out n (snd s) = (d, r')" by fastforce
    with Take ok tr_read_out_ok [of S isn "snd s" n d r'] show ?thesis by (simp add: tr_run_ok_def)
  qed
qed

section \<open>The end of the stream\<close>

definition tr_fin_ok :: "bytes \<Rightarrow> TCPReceiver \<Rightarrow> bool" where
  "tr_fin_ok S r = (sr_fin_ok S (tr_reassembler r) \<and> (tr_fin r \<longleftrightarrow> sr_eof (tr_reassembler r)))"

lemma tr_fin_ok_new: "tr_fin_ok S (TCPReceiver_new cap)"
  by (simp add: tr_fin_ok_def TCPReceiver_new_def sr_fin_ok_new)
    (simp add: StreamReassembler_new_def)

lemma segment_received_fin_ok:
  assumes "tr_ok S isn r" "tr_fin_ok S r" "carries S isn a seg" "near a r" "fin_in_order a seg r"
  shows "tr_fin_ok S (TCPReceiver_segment_received seg r)"
proof (cases "ignored seg r")
  case False
  note R = received_eqs [OF assms(1,3,4) False]
  have p: "seg_data seg = [] \<or> unat (of_nat (seg_index a) :: u64) + length (seg_data seg) \<le> length S"
    "seg_data seg = take (length (seg_data seg)) (drop (unat (of_nat (seg_index a) :: u64)) S)"
    using carries_excerpt [OF assms(3)] by auto
  have ok: "sr_ok S (tr_reassembler r)" using assms(1) by (simp add: tr_ok_def)
  have "fin_covered (tr_reassembler r) (Push (seg_data seg) (of_nat (seg_index a)) (th_fin (ts_header seg)))"
    using assms(5) by (simp add: fin_in_order_def unat_seg_index)
  from push_fin_ok [OF ok _ carries_excerpt [OF assms(3)] this] push_substring_ok(5) [OF ok p] R assms(2)
  show ?thesis by (auto simp: tr_fin_ok_def)
qed (simp add: ignored_received assms(2))

primrec tr_ordered :: "bytes \<Rightarrow> WrappingInt32 \<Rightarrow> bytes \<times> TCPReceiver \<Rightarrow> tr_op \<Rightarrow> bool" where
  "tr_ordered S isn s (Arrive a seg) =
     (carries S isn a seg \<and> near a (snd s) \<and> fin_in_order a seg (snd s))"
| "tr_ordered S isn s (Take n) = True"

interpretation rcvf: machine tr_move "tr_ordered S isn"
    "\<lambda>s. tr_run_ok S isn s \<and> tr_fin_ok S (snd s)" for S isn
proof
  fix s x
  assume ok: "tr_run_ok S isn s \<and> tr_fin_ok S (snd s)" and h: "tr_ordered S isn s x"
  have "tr_honest S isn s x" using h by (cases x) auto
  then have "tr_run_ok S isn (tr_move s x)" using rcv.step_inv [of S isn s x] ok by blast
  moreover have "tr_fin_ok S (snd (tr_move s x))"
  proof (cases x)
    case (Arrive a seg)
    with ok h segment_received_fin_ok [of S isn "snd s" a seg] show ?thesis by (simp add: tr_run_ok_def)
  next
    case (Take n)
    obtain d sr' where r: "StreamReassembler_read_out n (tr_reassembler (snd s)) = (d, sr')" by fastforce
    have "sr_ok S (tr_reassembler (snd s))" using ok by (simp add: tr_run_ok_def tr_ok_def)
    from read_out_ok [OF this r] ok Take r show ?thesis
      by (simp add: TCPReceiver_read_out_def tr_fin_ok_def sr_fin_ok_def)
  qed
  ultimately show "tr_run_ok S isn (tr_move s x) \<and> tr_fin_ok S (snd (tr_move s x))" by blast
qed

lemma tr_run_ok_new: "length S + unat cap < W64 \<Longrightarrow> tr_run_ok S isn ([], TCPReceiver_new cap)"
  by (simp add: tr_run_ok_def tr_ok_new) (simp add: TCPReceiver_new_def TCPReceiver_stream_out_def)

lemma tr_ok_window:
  assumes "tr_ok S isn r"
  shows "unat (TCPReceiver_window_size r) + length (bs_content (TCPReceiver_stream_out r))
    = unat (sr_capacity (tr_reassembler r))"
proof -
  have "bs_ok (TCPReceiver_stream_out r)" "bs_capacity (TCPReceiver_stream_out r) = sr_capacity (tr_reassembler r)"
    using assms by (simp_all add: tr_ok_def sr_ok_def Let_def TCPReceiver_stream_out_def)
  with unat_remaining_capacity [OF this(1)] bs_ok_cap [OF this(1)] show ?thesis
    by (simp add: TCPReceiver_window_size_def)
qed

text \<open>For a stream shorter than half the sequence space every segment is near.\<close>

primrec short_op :: "bytes \<Rightarrow> WrappingInt32 \<Rightarrow> tr_op \<Rightarrow> bool" where
  "short_op S isn (Arrive a seg) = (carries S isn a seg \<and> unat a \<le> length S + 2)"
| "short_op S isn (Take n) = True"

lemma near_short:
  assumes "tr_ok S isn r" "length S + 3 < W31" "unat a \<le> length S + 2"
  shows "near a r"
proof -
  have "unat (tr_checkpoint r) \<le> length S" using assms(1) by (simp add: tr_ok_def sr_ok_def Let_def)
  moreover have "seg_index a \<le> length S + 2" using assms(3) by (auto simp: seg_index_def)
  ultimately show ?thesis using assms(2) unfolding near_def by linarith
qed

lemma short_ops_honest:
  assumes "tr_run_ok S isn s" "length S + 3 < W31" "list_all (short_op S isn) ops"
  shows "guarded (tr_honest S isn) tr_move s ops"
  using assms(1,3)
proof (induction ops arbitrary: s)
  case (Cons x ops)
  have h: "tr_honest S isn s x"
    using Cons.prems near_short [OF _ assms(2)] by (cases x) (auto simp: tr_run_ok_def)
  with Cons.IH [OF rcv.step_inv [OF Cons.prems(1) h]] Cons.prems(2) show ?case by simp
qed simp

section \<open>Properties\<close>


text \<open>A SYN and the data of the stream \<open>[7, 8]\<close>, the second byte and the FIN first.\<close>

definition seg_of :: "u32 \<Rightarrow> bool \<Rightarrow> bool \<Rightarrow> bytes \<Rightarrow> TCPSegment" where
  "seg_of seqno syn fin payload =
     \<lparr>ts_header = TCPHeader_new\<lparr>th_seqno := seqno, th_syn := syn, th_fin := fin\<rparr>,
      ts_payload = Buffer_of_string payload\<rparr>"

lemma seg_of_simps [simp]:
  "th_seqno (ts_header (seg_of q s f d)) = q" "th_syn (ts_header (seg_of q s f d)) = s"
  "th_fin (ts_header (seg_of q s f d)) = f" "seg_data (seg_of q s f d) = d"
  by (simp_all add: seg_of_def seg_data_def)

definition demo_ops :: "tr_op list" where
  "demo_ops = [Arrive 0 (seg_of 5 True False []), Arrive 2 (seg_of 7 False True [8]),
     Arrive 1 (seg_of 6 False False [7, 8]), Take 1]"

lemma demo_ops_short: "list_all (short_op [7, 8] 5) demo_ops"
  by (simp add: demo_ops_def carries_def wrap_ucast seg_index_def)


text \<open>
  C3: the end of the stream. If no FIN arrives alone ahead of missing data, and every segment lies
  within \<open>2^31\<close> of the first missing byte, the receiver
  acknowledges the FIN exactly when it was accepted and every byte of \<open>S\<close> has been assembled, and
  the output stream's input has ended in exactly the same states.
\<close>

theorem receiver_acks_fin_iff_complete:
  assumes "length S + unat cap < W64"
    and "guarded (tr_ordered S isn) tr_move ([], TCPReceiver_new cap) ops"
    and "foldl tr_move ([], TCPReceiver_new cap) ops = (out, r)" "tr_syn r"
  shows "TCPReceiver_ackno r
      = Some (wrap (tr_checkpoint r + (if tr_fin r \<and> unat (tr_checkpoint r) = length S then 2 else 1)) isn)
    \<and> (ByteStream_input_ended (TCPReceiver_stream_out r) \<longleftrightarrow>
        tr_fin r \<and> unat (tr_checkpoint r) = length S)"
proof -
  have "tr_run_ok S isn (out, r) \<and> tr_fin_ok S r"
    using rcvf.run_inv [OF _ assms(2)] tr_run_ok_new [OF assms(1)] tr_fin_ok_new assms(3) by fastforce
  then have ok: "tr_ok S isn r" "sr_fin_ok S (tr_reassembler r)" "tr_fin r \<longleftrightarrow> sr_eof (tr_reassembler r)"
    by (simp_all add: tr_run_ok_def tr_fin_ok_def)
  then have sr: "sr_ok S (tr_reassembler r)" "tr_checkpoint r = sr_first_unassembled (tr_reassembler r)"
    by (simp_all add: tr_ok_def)
  have "tr_fin r \<Longrightarrow> sr_unassembled (tr_reassembler r) = 0 \<longleftrightarrow> unat (tr_checkpoint r) = length S"
    using sr_ok_complete_iff [OF sr(1)] ok(2,3) sr(2) by (simp add: sr_fin_ok_def)
  then show ?thesis
    using ok assms(4) sr(2)
    by (auto simp: tr_ok_def sr_fin_ok_def TCPReceiver_ackno_def TCPReceiver_stream_out_def
        ByteStream_input_ended_def)
qed

theorem receiver_acks_fin_iff_complete_witness:
  "TCPReceiver_ackno (snd (foldl tr_move ([], TCPReceiver_new 10) demo_ops)) = Some 9"
proof -
  obtain out r where e: "foldl tr_move ([], TCPReceiver_new 10) demo_ops = (out, r)" by fastforce
  have "tr_checkpoint (snd (foldl tr_move ([], TCPReceiver_new 10) demo_ops)) = 2
      \<and> tr_fin (snd (foldl tr_move ([], TCPReceiver_new 10) demo_ops))
      \<and> tr_syn (snd (foldl tr_move ([], TCPReceiver_new 10) demo_ops))"
    by code_simp
  then have r: "tr_checkpoint r = 2" "tr_fin r" "tr_syn r" by (simp_all add: e)
  have "guarded (tr_honest [7, 8] 5) tr_move ([], TCPReceiver_new 10) demo_ops"
    by (intro short_ops_honest tr_run_ok_new demo_ops_short) simp_all
  then have "guarded (tr_ordered [7, 8] 5) tr_move ([], TCPReceiver_new 10) demo_ops"
    by (simp add: demo_ops_def fin_in_order_def)
  from receiver_acks_fin_iff_complete [OF _ this e] r e show ?thesis by (simp add: wrap_ucast)
qed

text \<open>
  A FIN that overtakes the data loses the stream. After the SYN and the FIN alone of the stream
  \<open>[1, 2, 3]\<close>, the receiver declares end of input, acknowledges a byte it never got, and drops the
  data when it arrives.
\<close>

theorem lone_fin_loses_stream:
  "let r = foldl (\<lambda>r seg. TCPReceiver_segment_received seg r) (TCPReceiver_new 10)
       [seg_of 0 True False [], seg_of 4 False True [], seg_of 1 False False [1, 2, 3]]
   in ByteStream_eof (TCPReceiver_stream_out r) \<and> ByteStream_bytes_written (TCPReceiver_stream_out r) = 0
      \<and> TCPReceiver_ackno r = Some 2"
  by code_simp

text \<open>
  A segment without SYN at the initial sequence number itself is given the stream index
  \<open>2 ^ 64 - 1\<close>; with one byte and a FIN the end index wraps to 0 and the stream ends at once.
\<close>

theorem stray_at_isn_ends_stream:
  "let r = foldl (\<lambda>r seg. TCPReceiver_segment_received seg r) (TCPReceiver_new 10)
       [seg_of 0 True False [], seg_of 0 False True [1]]
   in ByteStream_eof (TCPReceiver_stream_out r) \<and> ByteStream_bytes_written (TCPReceiver_stream_out r) = 0"
  by code_simp

end
