(* ===== verification/Tcp_Sender.thy ===== *)
theory Tcp_Sender
  imports Tcp_Receiver
begin

text \<open>
  \<open>libsponge/tcp_sender.{hh,cc}\<close> and the constants of \<open>tcp_helpers/tcp_config.hh\<close>: the outbound stream
  cut into segments within the peer's window, the queue of outstanding segments, the retransmission
  timer with its exponential backoff. The random initial sequence number is the parameter \<open>isn\<close>.
\<close>

section \<open>Model\<close>

definition TCPConfig_DEFAULT_CAPACITY :: u64 where "TCPConfig_DEFAULT_CAPACITY = 64000"
definition TCPConfig_MAX_PAYLOAD_SIZE :: u64 where "TCPConfig_MAX_PAYLOAD_SIZE = 1000"
definition TCPConfig_TIMEOUT_DFLT :: u16 where "TCPConfig_TIMEOUT_DFLT = 1000"
definition TCPConfig_MAX_RETX_ATTEMPTS :: u32 where "TCPConfig_MAX_RETX_ATTEMPTS = 8"

record TCPSender =
  sn_isn :: WrappingInt32
  sn_segments_out :: "TCPSegment list"
  sn_initial_retransmission_timeout :: u32
  sn_stream :: ByteStream
  sn_next_seqno :: u64
  sn_segments_outstanding :: "TCPSegment list"
  sn_bytes_in_flight :: u64
  sn_receiver_window_size :: u16
  sn_consecutive_retransmissions :: u16
  sn_rto :: u32
  sn_tick :: u64
  sn_timer_running :: bool
  sn_syn :: bool
  sn_fin :: bool

definition TCPSender_new :: "u64 \<Rightarrow> u16 \<Rightarrow> WrappingInt32 option \<Rightarrow> WrappingInt32 \<Rightarrow> TCPSender" where
  "TCPSender_new capacity retx_timeout fixed_isn random =
     \<lparr>sn_isn = (case fixed_isn of Some i \<Rightarrow> i | None \<Rightarrow> random), sn_segments_out = [],
      sn_initial_retransmission_timeout = ucast retx_timeout, sn_stream = ByteStream_new capacity,
      sn_next_seqno = 0, sn_segments_outstanding = [], sn_bytes_in_flight = 0,
      sn_receiver_window_size = 1, sn_consecutive_retransmissions = 0, sn_rto = 0, sn_tick = 0,
      sn_timer_running = False, sn_syn = False, sn_fin = False\<rparr>"

text \<open>The block \<open>if (!_timer_running) { ... }\<close>, which \<open>fill_window\<close> has three times.\<close>

definition TCPSender_start_timer :: "TCPSender \<Rightarrow> TCPSender" where
  "TCPSender_start_timer s =
     (if \<not> sn_timer_running s
      then s\<lparr>sn_timer_running := True, sn_rto := sn_initial_retransmission_timeout s, sn_tick := 0\<rparr>
      else s)"

text \<open>
  One iteration of the \<open>while\<close> loop. \<open>payload.size()\<close> in the FIN test is read after
  \<open>move(payload)\<close>, when the string is empty.
\<close>

definition TCPSender_fill_step :: "u64 \<Rightarrow> TCPSender \<Rightarrow> u64 \<times> TCPSender" where
  "TCPSender_fill_step remain s =
     (let seg = TCPSegment_new;
          payload_size = min remain TCPConfig_MAX_PAYLOAD_SIZE;
          (payload, stream) = ByteStream_read payload_size (sn_stream s);
          s = s\<lparr>sn_stream := stream\<rparr>;
          remain = remain - ssize payload;
          seg = seg\<lparr>ts_payload := Buffer_of_string payload\<rparr>;
          payload = ([] :: bytes);
          seg = seg\<lparr>ts_header := (ts_header seg)\<lparr>th_seqno := wrap (sn_next_seqno s) (sn_isn s)\<rparr>\<rparr>;
          s = s\<lparr>sn_next_seqno := unwrap (th_seqno (ts_header seg)) (sn_isn s) (sn_next_seqno s)
                  + TCPSegment_length_in_sequence_space seg\<rparr>;
          (seg, s) = (if ByteStream_eof (sn_stream s) \<and> remain \<ge> ssize payload + 1
                      then (seg\<lparr>ts_header := (ts_header seg)\<lparr>th_fin := True\<rparr>\<rparr>,
                            s\<lparr>sn_fin := True, sn_next_seqno := sn_next_seqno s + 1\<rparr>)
                      else (seg, s));
          s = s\<lparr>sn_segments_outstanding := sn_segments_outstanding s @ [seg]\<rparr>;
          s = s\<lparr>sn_segments_out := sn_segments_out s @ [seg]\<rparr>;
          s = s\<lparr>sn_bytes_in_flight := sn_bytes_in_flight s + TCPSegment_length_in_sequence_space seg\<rparr>
      in (remain, TCPSender_start_timer s))"

text \<open>
  The loop reads at least one byte per iteration, so the buffer size is enough fuel; lemma
  \<open>fill_loop_done\<close> of \<open>Outbound_Stream\<close> shows that the loop condition is false when the model stops.
\<close>

primrec TCPSender_fill_loop :: "nat \<Rightarrow> u64 \<Rightarrow> TCPSender \<Rightarrow> u64 \<times> TCPSender" where
  "TCPSender_fill_loop 0 remain s = (remain, s)"
| "TCPSender_fill_loop (Suc fuel) remain s =
     (if remain > 0 \<and> ByteStream_buffer_size (sn_stream s) > 0
      then let (remain, s) = TCPSender_fill_step remain s in TCPSender_fill_loop fuel remain s
      else (remain, s))"

definition TCPSender_send_syn :: "TCPSender \<Rightarrow> TCPSender" where
  "TCPSender_send_syn s =
     (let s = s\<lparr>sn_syn := True\<rparr>;
          seg = TCPSegment_new;
          seg = seg\<lparr>ts_header := (ts_header seg)\<lparr>th_syn := True, th_seqno := sn_isn s\<rparr>\<rparr>;
          s = s\<lparr>sn_segments_out := sn_segments_out s @ [seg],
                sn_segments_outstanding := sn_segments_outstanding s @ [seg], sn_next_seqno := 1,
                sn_bytes_in_flight := TCPSegment_length_in_sequence_space seg\<rparr>
      in TCPSender_start_timer s)"

definition TCPSender_send_fin :: "TCPSender \<Rightarrow> TCPSender" where
  "TCPSender_send_fin s =
     (let seg = TCPSegment_new;
          s = s\<lparr>sn_fin := True\<rparr>;
          seg = seg\<lparr>ts_header := (ts_header seg)\<lparr>th_seqno := wrap (sn_next_seqno s) (sn_isn s), th_fin := True\<rparr>\<rparr>;
          s = s\<lparr>sn_segments_outstanding := sn_segments_outstanding s @ [seg]\<rparr>;
          s = s\<lparr>sn_segments_out := sn_segments_out s @ [seg]\<rparr>;
          s = s\<lparr>sn_bytes_in_flight := sn_bytes_in_flight s + TCPSegment_length_in_sequence_space seg\<rparr>;
          s = s\<lparr>sn_next_seqno := sn_next_seqno s + 1\<rparr>
      in TCPSender_start_timer s)"

definition TCPSender_window_remain :: "TCPSender \<Rightarrow> u64" where
  "TCPSender_window_remain s =
     (let remain = ucast (sn_receiver_window_size s) - sn_bytes_in_flight s
      in if sn_receiver_window_size s = 0 then remain + 1 else remain)"

definition TCPSender_fill_window :: "TCPSender \<Rightarrow> TCPSender" where
  "TCPSender_fill_window s =
     (if \<not> sn_syn s then TCPSender_send_syn s
      else let remain = TCPSender_window_remain s;
               (remain, s) = TCPSender_fill_loop (unat (ByteStream_buffer_size (sn_stream s))) remain s
           in if \<not> sn_fin s \<and> ByteStream_eof (sn_stream s) \<and> remain \<noteq> 0
              then TCPSender_send_fin s else s)"

text \<open>The \<open>do ... while\<close> loop of \<open>ack_received\<close>, over the queue it pops.\<close>

primrec TCPSender_pop_acked :: "TCPSegment list \<Rightarrow> u64 \<Rightarrow> TCPSender \<Rightarrow> TCPSender" where
  "TCPSender_pop_acked [] unwrap_ackno s = s"
| "TCPSender_pop_acked (t # q) unwrap_ackno s =
     (let seqno = th_seqno (ts_header t);
          len = TCPSegment_length_in_sequence_space t
      in if unwrap seqno (sn_isn s) (sn_next_seqno s) + len - 1 < unwrap_ackno
         then TCPSender_pop_acked q unwrap_ackno
                (s\<lparr>sn_bytes_in_flight := sn_bytes_in_flight s - len, sn_segments_outstanding := q,
                   sn_tick := 0, sn_rto := sn_initial_retransmission_timeout s,
                   sn_consecutive_retransmissions := 0\<rparr>)
         else s)"

definition TCPSender_ack_received :: "WrappingInt32 \<Rightarrow> u16 \<Rightarrow> TCPSender \<Rightarrow> TCPSender" where
  "TCPSender_ack_received ackno window_size s =
     (let unwrap_ackno = unwrap ackno (sn_isn s) (sn_next_seqno s);
          s = (if unwrap_ackno = sn_next_seqno s \<and> window_size \<noteq> sn_receiver_window_size s
               then s\<lparr>sn_receiver_window_size := window_size\<rparr> else s)
      in case sn_segments_outstanding s of
           [] \<Rightarrow> s
         | t # _ \<Rightarrow>
             if unwrap_ackno > sn_next_seqno s
                \<or> unwrap_ackno + ucast window_size - 1 + (if window_size \<noteq> 0 then 0 else 1)
                  < unwrap (th_seqno (ts_header t)) (sn_isn s) (sn_next_seqno s)
                    + TCPSegment_length_in_sequence_space t
             then s
             else let s = s\<lparr>sn_receiver_window_size := window_size\<rparr>;
                      s = TCPSender_pop_acked (sn_segments_outstanding s) unwrap_ackno s;
                      s = (if sn_bytes_in_flight s = 0 then s\<lparr>sn_timer_running := False\<rparr> else s)
                  in TCPSender_fill_window s)"

definition TCPSender_tick :: "u64 \<Rightarrow> TCPSender \<Rightarrow> TCPSender" where
  "TCPSender_tick ms_since_last_tick s =
     (let s = s\<lparr>sn_tick := sn_tick s + ms_since_last_tick\<rparr>
      in case sn_segments_outstanding s of
           [] \<Rightarrow> s
         | front # _ \<Rightarrow>
             if sn_tick s \<ge> ucast (sn_rto s)
             then let s = s\<lparr>sn_segments_out := sn_segments_out s @ [front]\<rparr>;
                      s = (if sn_receiver_window_size s \<noteq> 0 \<or> th_syn (ts_header front)
                           then s\<lparr>sn_consecutive_retransmissions := sn_consecutive_retransmissions s + 1,
                                  sn_rto := push_bit 1 (sn_rto s)\<rparr>
                           else s)
                  in s\<lparr>sn_tick := 0\<rparr>
             else s)"

definition TCPSender_send_empty_segment :: "TCPSender \<Rightarrow> TCPSender" where
  "TCPSender_send_empty_segment s =
     (let seg = TCPSegment_new;
          seg = seg\<lparr>ts_header := (ts_header seg)\<lparr>th_seqno := wrap (sn_next_seqno s) (sn_isn s)\<rparr>\<rparr>
      in s\<lparr>sn_segments_out := sn_segments_out s @ [seg]\<rparr>)"

definition TCPSender_bytes_in_flight :: "TCPSender \<Rightarrow> u64" where
  "TCPSender_bytes_in_flight s = sn_bytes_in_flight s"

definition TCPSender_consecutive_retransmissions :: "TCPSender \<Rightarrow> u32" where
  "TCPSender_consecutive_retransmissions s = ucast (sn_consecutive_retransmissions s)"

definition TCPSender_is_fin :: "TCPSender \<Rightarrow> bool" where
  "TCPSender_is_fin s = sn_fin s"

definition TCPSender_next_seqno_absolute :: "TCPSender \<Rightarrow> u64" where
  "TCPSender_next_seqno_absolute s = sn_next_seqno s"

definition TCPSender_next_seqno :: "TCPSender \<Rightarrow> WrappingInt32" where
  "TCPSender_next_seqno s = wrap (sn_next_seqno s) (sn_isn s)"

text \<open>The writer's side of \<open>stream_in()\<close>.\<close>

definition TCPSender_write :: "bytes \<Rightarrow> TCPSender \<Rightarrow> u64 \<times> TCPSender" where
  "TCPSender_write data s =
     (let (n, stream) = ByteStream_write data (sn_stream s) in (n, s\<lparr>sn_stream := stream\<rparr>))"

definition TCPSender_end_input :: "TCPSender \<Rightarrow> TCPSender" where
  "TCPSender_end_input s = s\<lparr>sn_stream := ByteStream_end_input (sn_stream s)\<rparr>"

section \<open>Lengths\<close>

definition seg_len :: "TCPSegment \<Rightarrow> nat" where
  "seg_len seg = length (seg_data seg) + (if th_syn (ts_header seg) then 1 else 0)
     + (if th_fin (ts_header seg) then 1 else 0)"

lemma length_in_sequence_space_eq: "TCPSegment_length_in_sequence_space seg = of_nat (seg_len seg)"
  by (simp add: TCPSegment_length_in_sequence_space_def seg_len_def seg_data_def ssize_def)

lemma start_timer_frame [frame_simps, simp]:
  "sn_isn (TCPSender_start_timer s) = sn_isn s"
  "sn_segments_out (TCPSender_start_timer s) = sn_segments_out s"
  "sn_initial_retransmission_timeout (TCPSender_start_timer s) = sn_initial_retransmission_timeout s"
  "sn_stream (TCPSender_start_timer s) = sn_stream s"
  "sn_next_seqno (TCPSender_start_timer s) = sn_next_seqno s"
  "sn_segments_outstanding (TCPSender_start_timer s) = sn_segments_outstanding s"
  "sn_bytes_in_flight (TCPSender_start_timer s) = sn_bytes_in_flight s"
  "sn_receiver_window_size (TCPSender_start_timer s) = sn_receiver_window_size s"
  "sn_consecutive_retransmissions (TCPSender_start_timer s) = sn_consecutive_retransmissions s"
  "sn_syn (TCPSender_start_timer s) = sn_syn s"
  "sn_fin (TCPSender_start_timer s) = sn_fin s"
  by (simp_all add: TCPSender_start_timer_def)

section \<open>The invariant\<close>

text \<open>
  \<open>S\<close> is the stream the application writes in the end: what was read from the outbound stream is a
  prefix of it and what is buffered follows. The outstanding segments are consecutive pieces of it
  up to \<open>next_seqno\<close>, and each of them can be serialized.
\<close>

definition wire_ok :: "TCPSegment \<Rightarrow> bool" where
  "wire_ok seg = (segment_sendable seg \<and> Buffer_ok (ts_payload seg))"

definition piece :: "bytes \<Rightarrow> WrappingInt32 \<Rightarrow> u64 \<Rightarrow> TCPSegment \<Rightarrow> bool" where
  "piece S isn a seg = (carries S isn a seg \<and> wire_ok seg)"

primrec chain :: "bytes \<Rightarrow> WrappingInt32 \<Rightarrow> nat \<Rightarrow> TCPSegment list \<Rightarrow> nat \<Rightarrow> bool" where
  "chain S isn a [] n = (a = n)"
| "chain S isn a (t # q) n =
     (piece S isn (of_nat a) t \<and> 0 < seg_len t \<and> chain S isn (a + seg_len t) q n)"

lemma chain_snoc:
  "chain S isn a (q @ [t]) n \<longleftrightarrow>
   (\<exists>m. chain S isn a q m \<and> piece S isn (of_nat m) t \<and> 0 < seg_len t \<and> n = m + seg_len t)"
  by (induction q arbitrary: a) auto

lemma chain_le: "chain S isn a q n \<Longrightarrow> a \<le> n"
  by (induction q arbitrary: a) fastforce+

lemma chain_sum: "chain S isn a q n \<Longrightarrow> a + sum_list (map seg_len q) = n"
proof (induction q arbitrary: a)
  case (Cons t q)
  then have "a + seg_len t + sum_list (map seg_len q) = n" by simp
  then show ?case by simp
qed simp

definition on_wire :: "bytes \<Rightarrow> WrappingInt32 \<Rightarrow> TCPSegment \<Rightarrow> bool" where
  "on_wire S isn seg = (\<exists>a. unat a \<le> length S + 2 \<and> piece S isn a seg)"

definition sn_ok :: "bytes \<Rightarrow> TCPSender \<Rightarrow> bool" where
  "sn_ok S s =
     (let R = unat (bs_read_count (sn_stream s)); content = bs_content (sn_stream s);
          n = unat (sn_next_seqno s)
      in bs_ok (sn_stream s) \<and> length S + 3 < W31
         \<and> R + length content \<le> length S \<and> take (length content) (drop R S) = content
         \<and> (bs_input_ended_flag (sn_stream s) \<longrightarrow> R + length content = length S)
         \<and> (\<not> sn_syn s \<longrightarrow> n = 0 \<and> sn_segments_outstanding s = [] \<and> sn_bytes_in_flight s = 0
              \<and> \<not> sn_fin s \<and> R = 0)
         \<and> (sn_syn s \<longrightarrow> n = 1 + R + (if sn_fin s then 1 else 0))
         \<and> (sn_fin s \<longrightarrow> R = length S \<and> bs_input_ended_flag (sn_stream s))
         \<and> (\<exists>base. chain S (sn_isn s) base (sn_segments_outstanding s) n
              \<and> base + unat (sn_bytes_in_flight s) = n)
         \<and> list_all (on_wire S (sn_isn s)) (sn_segments_out s))"

lemma sn_okD:
  assumes "sn_ok S s"
  shows "bs_ok (sn_stream s)" "length S + 3 < W31"
    "unat (bs_read_count (sn_stream s)) + length (bs_content (sn_stream s)) \<le> length S"
    "take (length (bs_content (sn_stream s))) (drop (unat (bs_read_count (sn_stream s))) S)
       = bs_content (sn_stream s)"
    "bs_input_ended_flag (sn_stream s) \<Longrightarrow>
       unat (bs_read_count (sn_stream s)) + length (bs_content (sn_stream s)) = length S"
    "\<not> sn_syn s \<Longrightarrow> sn_next_seqno s = 0 \<and> sn_segments_outstanding s = [] \<and> sn_bytes_in_flight s = 0
       \<and> \<not> sn_fin s \<and> unat (bs_read_count (sn_stream s)) = 0"
    "sn_syn s \<Longrightarrow> unat (sn_next_seqno s) = 1 + unat (bs_read_count (sn_stream s)) + (if sn_fin s then 1 else 0)"
    "sn_fin s \<Longrightarrow> unat (bs_read_count (sn_stream s)) = length S \<and> bs_input_ended_flag (sn_stream s)"
    "\<exists>base. chain S (sn_isn s) base (sn_segments_outstanding s) (unat (sn_next_seqno s))
       \<and> base + unat (sn_bytes_in_flight s) = unat (sn_next_seqno s)"
    "list_all (on_wire S (sn_isn s)) (sn_segments_out s)"
    "unat (sn_next_seqno s) \<le> length S + 2"
  using assms by (auto simp: sn_ok_def Let_def unat_eq_zero split: if_splits)

lemma sn_okI:
  assumes "bs_ok (sn_stream s)" "length S + 3 < W31"
    "unat (bs_read_count (sn_stream s)) + length (bs_content (sn_stream s)) \<le> length S"
    "take (length (bs_content (sn_stream s))) (drop (unat (bs_read_count (sn_stream s))) S)
       = bs_content (sn_stream s)"
    "bs_input_ended_flag (sn_stream s) \<Longrightarrow>
       unat (bs_read_count (sn_stream s)) + length (bs_content (sn_stream s)) = length S"
    "sn_syn s"
    "unat (sn_next_seqno s) = 1 + unat (bs_read_count (sn_stream s)) + (if sn_fin s then 1 else 0)"
    "sn_fin s \<Longrightarrow> unat (bs_read_count (sn_stream s)) = length S \<and> bs_input_ended_flag (sn_stream s)"
    "chain S (sn_isn s) base (sn_segments_outstanding s) (unat (sn_next_seqno s))"
    "base + unat (sn_bytes_in_flight s) = unat (sn_next_seqno s)"
    "list_all (on_wire S (sn_isn s)) (sn_segments_out s)"
  shows "sn_ok S s"
  using assms(1-8,11) exI [of "\<lambda>base. chain S (sn_isn s) base (sn_segments_outstanding s)
      (unat (sn_next_seqno s)) \<and> base + unat (sn_bytes_in_flight s) = unat (sn_next_seqno s)",
      OF conjI [OF assms(9,10)]]
  unfolding sn_ok_def Let_def by blast

lemma sn_ok_new: "length S + 3 < W31 \<Longrightarrow> sn_ok S (TCPSender_new cap rto fixed rnd)"
  by (simp add: sn_ok_def TCPSender_new_def) (simp add: ByteStream_new_def)

lemma sn_ok_frame [simp]:
  "sn_ok S (TCPSender_start_timer s) = sn_ok S s"
  "sn_ok S (s\<lparr>sn_receiver_window_size := w\<rparr>) = sn_ok S s"
  "sn_ok S (s\<lparr>sn_consecutive_retransmissions := c\<rparr>) = sn_ok S s"
  "sn_ok S (s\<lparr>sn_rto := x\<rparr>) = sn_ok S s"
  "sn_ok S (s\<lparr>sn_tick := y\<rparr>) = sn_ok S s"
  "sn_ok S (s\<lparr>sn_timer_running := b\<rparr>) = sn_ok S s"
  by (simp_all add: sn_ok_def)

section \<open>Filling the window\<close>

definition data_segment :: "TCPSender \<Rightarrow> Buffer \<Rightarrow> bool \<Rightarrow> TCPSegment" where
  "data_segment s payload fin =
     \<lparr>ts_header = TCPHeader_new\<lparr>th_seqno := wrap (sn_next_seqno s) (sn_isn s), th_fin := fin\<rparr>,
      ts_payload = payload\<rparr>"

lemma data_segment_simps [simp]:
  "seg_data (data_segment s d f) = Buffer_str d"
  "th_fin (ts_header (data_segment s d f)) = f"
  "th_seqno (ts_header (data_segment s d f)) = wrap (sn_next_seqno s) (sn_isn s)"
  "th_syn (ts_header (data_segment s d f)) = False"
  "seg_len (data_segment s d f) = length (Buffer_str d) + (if f then 1 else 0)"
  by (simp_all add: data_segment_def seg_data_def seg_len_def TCPHeader_new_def)

text \<open>Appending a segment at \<open>next_seqno\<close> to both queues.\<close>

definition emit :: "TCPSegment \<Rightarrow> TCPSender \<Rightarrow> TCPSender" where
  "emit seg s = TCPSender_start_timer
     (s\<lparr>sn_fin := (sn_fin s \<or> th_fin (ts_header seg)),
        sn_next_seqno := sn_next_seqno s + of_nat (seg_len seg),
        sn_segments_outstanding := sn_segments_outstanding s @ [seg],
        sn_segments_out := sn_segments_out s @ [seg],
        sn_bytes_in_flight := sn_bytes_in_flight s + of_nat (seg_len seg)\<rparr>)"

lemma emit_frame [frame_simps, simp]:
  "sn_isn (emit seg s) = sn_isn s" "sn_stream (emit seg s) = sn_stream s"
  "sn_receiver_window_size (emit seg s) = sn_receiver_window_size s" "sn_syn (emit seg s) = sn_syn s"
  "sn_next_seqno (emit seg s) = sn_next_seqno s + of_nat (seg_len seg)"
  "sn_bytes_in_flight (emit seg s) = sn_bytes_in_flight s + of_nat (seg_len seg)"
  "sn_fin (emit seg s) = (sn_fin s \<or> th_fin (ts_header seg))"
  "sn_segments_out (emit seg s) = sn_segments_out s @ [seg]"
  "sn_segments_outstanding (emit seg s) = sn_segments_outstanding s @ [seg]"
  by (simp_all add: emit_def)

lemma fill_step_eq:
  "TCPSender_fill_step remain s =
     (let payload = fst (ByteStream_read (min remain TCPConfig_MAX_PAYLOAD_SIZE) (sn_stream s));
          stream = snd (ByteStream_read (min remain TCPConfig_MAX_PAYLOAD_SIZE) (sn_stream s));
          remain' = remain - ssize payload
      in (remain', emit (data_segment s (Buffer_of_string payload) (ByteStream_eof stream \<and> 1 \<le> remain'))
                     (s\<lparr>sn_stream := stream\<rparr>)))"
  by (auto simp: TCPSender_fill_step_def Let_def emit_def data_segment_def TCPSegment_new_def
      length_in_sequence_space_eq seg_len_def seg_data_def TCPHeader_new_def add.assoc
      split: prod.splits)

lemma send_fin_eq: "TCPSender_send_fin s = emit (data_segment s Buffer_empty True) s"
  unfolding TCPSender_send_fin_def Let_def emit_def
  by (rule arg_cong [of _ _ TCPSender_start_timer])
    (rule TCPSender.equality; simp add: data_segment_def TCPSegment_new_def
      length_in_sequence_space_eq seg_len_def seg_data_def TCPHeader_new_def)

text \<open>Cutting the next piece off the buffered data keeps the invariant.\<close>

lemma emit_ok:
  assumes ok: "sn_ok S s" and st: "sn_syn s" "\<not> sn_fin s"
    and cut: "bs_content (sn_stream s) = Buffer_str b @ bs_content stream" "bs_ok stream"
      "unat (bs_read_count stream) = unat (bs_read_count (sn_stream s)) + length (Buffer_str b)"
      "bs_input_ended_flag stream = bs_input_ended_flag (sn_stream s)"
    and f: "f \<Longrightarrow> bs_content stream = [] \<and> bs_input_ended_flag stream"
    and ne: "f \<or> Buffer_str b \<noteq> []"
    and small: "Buffer_ok b" "length (Buffer_str b) \<le> unat TCPConfig_MAX_PAYLOAD_SIZE"
  shows "sn_ok S (emit (data_segment s b f) (s\<lparr>sn_stream := stream\<rparr>))"
proof -
  note D = sn_okD [OF ok]
  let ?R = "unat (bs_read_count (sn_stream s))" and ?d = "Buffer_str b" and ?n = "unat (sn_next_seqno s)"
  let ?seg = "data_segment s b f"
  have n: "?n = 1 + ?R" using D(7) [OF st(1)] st(2) by simp
  have len: "?R + length ?d + length (bs_content stream) \<le> length S" using D(3) cut(1) by simp
  have rest: "drop ?R S = ?d @ bs_content stream @ drop (length ?d + length (bs_content stream)) (drop ?R S)"
    using D(4) cut(1) by (metis append_assoc append_take_drop_id length_append)
  have "?d = take (length ?d) (drop ?R S)" by (subst rest) simp
  moreover have upto: "f \<Longrightarrow> ?R + length ?d = length S" using f cut D(5) by auto
  moreover have idx: "seg_index (sn_next_seqno s) = ?R" "sn_next_seqno s \<noteq> 0"
    using n by (auto simp: seg_index_def)
  ultimately have "carries S (sn_isn s) (sn_next_seqno s) ?seg"
    using len by (auto simp: carries_def)
  then have c: "piece S (sn_isn s) (sn_next_seqno s) ?seg"
    using small by (simp add: piece_def wire_ok_def segment_sendable_def data_segment_def TCPHeader_new_def
        TCPHeader_LENGTH_def TCPConfig_MAX_PAYLOAD_SIZE_def)
  have pos: "0 < seg_len ?seg" using ne by auto
  define k where "k = seg_len ?seg"
  have k: "?n + k \<le> length S + 2" using len n by (simp add: k_def)
  have un: "unat (of_nat k :: u64) = k" using k D(2) by (intro unat_of_nat_less) simp
  have n': "unat (sn_next_seqno s + of_nat k) = ?n + k"
    using k D(2) by (subst unat_add_less) (simp_all add: un)
  obtain base where base: "chain S (sn_isn s) base (sn_segments_outstanding s) ?n"
      "base + unat (sn_bytes_in_flight s) = ?n" using D(9) by blast
  have bif: "unat (sn_bytes_in_flight s + of_nat k) = unat (sn_bytes_in_flight s) + k"
    using k D(2) base(2) by (subst unat_add_less) (simp_all add: un)
  have ch: "chain S (sn_isn s) base (sn_segments_outstanding s @ [?seg]) (?n + k)"
    unfolding chain_snoc k_def using base(1) c pos by auto
  have w: "on_wire S (sn_isn s) ?seg"
    unfolding on_wire_def using c D(11) by blast
  have content: "take (length (bs_content stream)) (drop (?R + length ?d) S) = bs_content stream"
  proof -
    have "drop (?R + length ?d) S = drop (length ?d) (drop ?R S)" by (simp add: add.commute)
    also have "\<dots> = bs_content stream @ drop (length ?d + length (bs_content stream)) (drop ?R S)"
      by (subst rest) simp
    finally show ?thesis by simp
  qed
  have k': "k = length ?d + (if f then 1 else 0)" by (simp add: k_def)
  have inv: "bs_ok stream" "length S + 3 < W31"
    "unat (bs_read_count stream) + length (bs_content stream) \<le> length S"
    "take (length (bs_content stream)) (drop (unat (bs_read_count stream)) S) = bs_content stream"
    "bs_input_ended_flag stream \<longrightarrow> unat (bs_read_count stream) + length (bs_content stream) = length S"
    "?n + k = 1 + unat (bs_read_count stream) + (if f then 1 else 0)"
    "f \<longrightarrow> unat (bs_read_count stream) = length S \<and> bs_input_ended_flag stream"
    using D(2,5) cut f upto len n k' content by auto
  show ?thesis
  proof (rule sn_okI [where base = base])
    show "chain S (sn_isn (emit ?seg (s\<lparr>sn_stream := stream\<rparr>))) base
        (sn_segments_outstanding (emit ?seg (s\<lparr>sn_stream := stream\<rparr>)))
        (unat (sn_next_seqno (emit ?seg (s\<lparr>sn_stream := stream\<rparr>))))"
      using ch n' by (simp del: data_segment_simps(5) add: k_def [symmetric])
    show "base + unat (sn_bytes_in_flight (emit ?seg (s\<lparr>sn_stream := stream\<rparr>)))
        = unat (sn_next_seqno (emit ?seg (s\<lparr>sn_stream := stream\<rparr>)))"
      using bif n' base(2) by (simp del: data_segment_simps(5) add: k_def [symmetric])
    show "unat (sn_next_seqno (emit ?seg (s\<lparr>sn_stream := stream\<rparr>)))
        = 1 + unat (bs_read_count (sn_stream (emit ?seg (s\<lparr>sn_stream := stream\<rparr>))))
          + (if sn_fin (emit ?seg (s\<lparr>sn_stream := stream\<rparr>)) then 1 else 0)"
      using inv(6) n' st by (simp del: data_segment_simps(5) add: k_def [symmetric])
  qed (use inv(1-5,7) st w D(10) in simp_all)
qed

lemma fill_step_ok:
  assumes ok: "sn_ok S s" "sn_syn s" and go: "remain > 0" "bs_content (sn_stream s) \<noteq> []"
    and st: "TCPSender_fill_step remain s = (remain', s')"
  shows "sn_ok S s'" "sn_syn s'"
    "length (bs_content (sn_stream s')) < length (bs_content (sn_stream s))"
    "sn_receiver_window_size s' = sn_receiver_window_size s"
    "bs_input_ended_flag (sn_stream s') = bs_input_ended_flag (sn_stream s)"
    "unat (sn_bytes_in_flight s') + unat remain'
       = unat (sn_bytes_in_flight s) + unat remain + (if sn_fin s' then 1 else 0)"
    "sn_fin s' \<Longrightarrow> 0 < remain' \<and> bs_content (sn_stream s') = []"
    "\<exists>seg. sn_segments_out s' = sn_segments_out s @ [seg]
       \<and> sn_segments_outstanding s' = sn_segments_outstanding s @ [seg]
       \<and> length (seg_data seg) \<le> unat TCPConfig_MAX_PAYLOAD_SIZE"
proof -
  note D = sn_okD [OF ok(1)]
  let ?k = "min remain TCPConfig_MAX_PAYLOAD_SIZE"
  define stream where "stream = snd (ByteStream_read ?k (sn_stream s))"
  define d where "d = fst (ByteStream_read ?k (sn_stream s))"
  define f where "f = (ByteStream_eof stream \<and> 1 \<le> remain - ssize d)"
  define seg where "seg = data_segment s (Buffer_of_string d) f"
  note R = read_result [OF D(1), of ?k, folded stream_def d_def]
  have s': "remain' = remain - ssize d" "s' = emit seg (s\<lparr>sn_stream := stream\<rparr>)"
    using st unfolding fill_step_eq Let_def stream_def [symmetric] d_def [symmetric]
      f_def [symmetric] seg_def [symmetric] by simp_all
  have nf: "\<not> sn_fin s" using D(3,8) go(2) by auto
  have kpos: "0 < unat ?k" using go(1) by (auto simp: min_def unat_gt_0 word_gt_0 TCPConfig_MAX_PAYLOAD_SIZE_def)
  have kle: "unat ?k \<le> unat remain" "unat ?k \<le> unat TCPConfig_MAX_PAYLOAD_SIZE"
    by (auto simp: min_def word_le_nat_alt)
  have d: "d \<noteq> []" "length d \<le> unat ?k" "length d + length (bs_content stream) = length (bs_content (sn_stream s))"
    "bs_content (sn_stream s) = d @ bs_content stream"
    using R kpos go(2) by auto
  have "length d < W64" using kle d(2) unat_u64_lt [of remain] by linarith
  then have ud: "unat (ssize d) = length d" by (simp add: unat_ssize)
  have rem: "unat remain' = unat remain - length d"
    unfolding s'(1) using d(2) kle ud by (subst unat_diff_le) (simp_all add: word_le_nat_alt)
  have fD: "f \<Longrightarrow> bs_content stream = [] \<and> bs_input_ended_flag stream"
    using eof_iff [OF R(3)] by (simp add: f_def)
  have rc: "unat (bs_read_count stream) = unat (bs_read_count (sn_stream s)) + length d"
  proof -
    have "bs_read_count stream = bs_read_count (sn_stream s) + ssize d"
      using pop_output_result(3) [OF D(1), of ?k] R(1)
      by (simp add: stream_def ByteStream_read_def Let_def)
    then show ?thesis using D(2,3) d(3) ud by (simp add: unat_add_less)
  qed
  have ended: "bs_input_ended_flag stream = bs_input_ended_flag (sn_stream s)" by (simp add: stream_def)
  show ok': "sn_ok S s'"
    unfolding s'(2) seg_def using ok nf d(1,2,4) kle(2) R(3) rc ended fD \<open>length d < W64\<close>
    by (intro emit_ok) simp_all
  show "sn_syn s'" "length (bs_content (sn_stream s')) < length (bs_content (sn_stream s))"
    "sn_receiver_window_size s' = sn_receiver_window_size s"
    "bs_input_ended_flag (sn_stream s') = bs_input_ended_flag (sn_stream s)"
    using ok(2) d(1,4) ended by (simp_all add: s'(2))
  show "sn_fin s' \<Longrightarrow> 0 < remain' \<and> bs_content (sn_stream s') = []"
    using nf fD by (auto simp: s' seg_def f_def word_le_nat_alt word_less_nat_alt)
  show "\<exists>seg. sn_segments_out s' = sn_segments_out s @ [seg]
       \<and> sn_segments_outstanding s' = sn_segments_outstanding s @ [seg]
       \<and> length (seg_data seg) \<le> unat TCPConfig_MAX_PAYLOAD_SIZE"
    using d(2) kle by (intro exI [of _ seg]) (auto simp: s'(2) seg_def)
  obtain b where b: "b + unat (sn_bytes_in_flight s) = unat (sn_next_seqno s)" using D(9) by blast
  have len: "seg_len seg = length d + (if f then 1 else 0)" by (simp add: seg_def)
  have "unat (sn_bytes_in_flight s') = unat (sn_bytes_in_flight s) + seg_len seg"
  proof -
    have "seg_len seg \<le> length S + 1" using len d(3) D(3) by simp
    then have "unat (of_nat (seg_len seg) :: u64) = seg_len seg"
      using D(2) by (intro unat_of_nat_less) simp
    moreover have "unat (sn_bytes_in_flight s) + seg_len seg < W64"
      using \<open>seg_len seg \<le> length S + 1\<close> b D(2,11) by linarith
    ultimately show ?thesis by (simp add: s'(2) unat_add_less)
  qed
  then show "unat (sn_bytes_in_flight s') + unat remain'
      = unat (sn_bytes_in_flight s) + unat remain + (if sn_fin s' then 1 else 0)"
    using rem d(2) kle nf len by (simp add: s'(2) seg_def)
qed

lemma fill_loop_ok:
  assumes "sn_ok S s" "sn_syn s" "length (bs_content (sn_stream s)) \<le> fuel"
    and "TCPSender_fill_loop fuel remain s = (remain', s')"
  shows "sn_ok S s' \<and> sn_syn s' \<and> (remain' = 0 \<or> bs_content (sn_stream s') = [])
    \<and> sn_receiver_window_size s' = sn_receiver_window_size s
    \<and> bs_input_ended_flag (sn_stream s') = bs_input_ended_flag (sn_stream s)
    \<and> unat (sn_bytes_in_flight s') + unat remain'
       = unat (sn_bytes_in_flight s) + unat remain + (if sn_fin s' \<and> \<not> sn_fin s then 1 else 0)
    \<and> (sn_fin s \<longrightarrow> sn_fin s') \<and> (sn_fin s' \<and> \<not> sn_fin s \<longrightarrow> 0 < remain')
    \<and> (\<exists>new. sn_segments_out s' = sn_segments_out s @ new
       \<and> sn_segments_outstanding s' = sn_segments_outstanding s @ new
       \<and> list_all (\<lambda>seg. length (seg_data seg) \<le> unat TCPConfig_MAX_PAYLOAD_SIZE) new)"
  using assms
proof (induction fuel arbitrary: remain s)
  case 0
  then show ?case by simp
next
  case (Suc fuel)
  note D = sn_okD [OF Suc.prems(1)]
  have empty: "ByteStream_buffer_size (sn_stream s) > 0 \<longleftrightarrow> bs_content (sn_stream s) \<noteq> []"
    using unat_buffer_size [OF D(1)]
    by (simp add: ByteStream_buffer_size_def word_less_nat_alt)
  show ?case
  proof (cases "remain > 0 \<and> bs_content (sn_stream s) \<noteq> []")
    case False
    then show ?thesis using Suc.prems empty by (auto simp: word_gt_0)
  next
    case True
    obtain r1 s1 where st: "TCPSender_fill_step remain s = (r1, s1)" by fastforce
    note F = fill_step_ok [OF Suc.prems(1,2) _ _ st]
    have r: "TCPSender_fill_loop fuel r1 s1 = (remain', s')" using Suc.prems(4) True empty st by simp
    have nf: "\<not> sn_fin s" using D(3,8) True by auto
    have "length (bs_content (sn_stream s1)) \<le> fuel" using F(3) True Suc.prems(3) by simp
    note IH = Suc.IH [OF F(1,2) this r]
    have stop: "sn_fin s1 \<Longrightarrow> remain' = r1 \<and> s' = s1"
      using F(7) True r unat_buffer_size [OF sn_okD(1) [OF F(1)]]
      by (cases fuel) (auto simp: ByteStream_buffer_size_def word_less_nat_alt)
    obtain seg where seg: "sn_segments_out s1 = sn_segments_out s @ [seg]"
        "sn_segments_outstanding s1 = sn_segments_outstanding s @ [seg]"
        "length (seg_data seg) \<le> unat TCPConfig_MAX_PAYLOAD_SIZE"
      using F(8) True by blast
    obtain new where new: "sn_segments_out s' = sn_segments_out s1 @ new"
        "sn_segments_outstanding s' = sn_segments_outstanding s1 @ new"
        "list_all (\<lambda>seg. length (seg_data seg) \<le> unat TCPConfig_MAX_PAYLOAD_SIZE) new"
      using IH True by blast
    have ex: "\<exists>new. sn_segments_out s' = sn_segments_out s @ new
        \<and> sn_segments_outstanding s' = sn_segments_outstanding s @ new
        \<and> list_all (\<lambda>seg. length (seg_data seg) \<le> unat TCPConfig_MAX_PAYLOAD_SIZE) new"
      by (rule exI [of _ "seg # new"]) (simp add: seg new)
    show ?thesis
      using IH F(4-7) True nf stop ex by (cases "sn_fin s1") auto
  qed
qed

lemma window_remain:
  assumes "unat (sn_bytes_in_flight s) \<le> max 1 (unat (sn_receiver_window_size s))"
  shows "unat (TCPSender_window_remain s)
    = max 1 (unat (sn_receiver_window_size s)) - unat (sn_bytes_in_flight s)"
proof (cases "sn_receiver_window_size s = 0")
  case True
  have "TCPSender_window_remain s = 1 - sn_bytes_in_flight s"
    by (simp add: TCPSender_window_remain_def True)
  then show ?thesis using assms by (simp add: True unat_diff_le word_le_nat_alt)
next
  case False
  then have "1 \<le> unat (sn_receiver_window_size s)" by (simp add: Suc_le_eq unat_gt_0)
  then show ?thesis
    using assms False by (simp add: TCPSender_window_remain_def unat_diff_le word_le_nat_alt unat_ucast_up max_def)
qed

lemma send_syn_ok:
  assumes "sn_ok S s" "\<not> sn_syn s"
  shows "sn_ok S (TCPSender_send_syn s)" "sn_syn (TCPSender_send_syn s)"
    "unat (sn_bytes_in_flight (TCPSender_send_syn s)) = 1"
proof -
  note D = sn_okD [OF assms(1)]
  define seg where "seg = TCPSegment_new\<lparr>ts_header := TCPHeader_new\<lparr>th_syn := True, th_seqno := sn_isn s\<rparr>\<rparr>"
  have len: "seg_len seg = 1" "seg_data seg = []" "th_fin (ts_header seg) = False"
    by (simp_all add: seg_def seg_len_def seg_data_def TCPSegment_new_def TCPHeader_new_def)
  have "carries S (sn_isn s) 0 seg" using len by (simp add: carries_def) (simp add: seg_def)
  then have c: "piece S (sn_isn s) 0 seg"
    by (simp add: piece_def wire_ok_def segment_sendable_def seg_def TCPSegment_new_def TCPHeader_new_def
        TCPHeader_LENGTH_def)
  then have "on_wire S (sn_isn s) seg" unfolding on_wire_def by (intro exI [of _ 0]) simp
  moreover have st: "TCPSender_send_syn s = TCPSender_start_timer (s\<lparr>sn_syn := True,
      sn_segments_out := sn_segments_out s @ [seg],
      sn_segments_outstanding := sn_segments_outstanding s @ [seg], sn_next_seqno := 1,
      sn_bytes_in_flight := 1\<rparr>)"
    using len by (simp add: TCPSender_send_syn_def Let_def seg_def length_in_sequence_space_eq TCPSegment_new_def)
  ultimately show "sn_ok S (TCPSender_send_syn s)"
    unfolding st using D(1-5,10) D(6) [OF assms(2)] c len by (simp add: sn_ok_def Let_def)
  show "sn_syn (TCPSender_send_syn s)" "unat (sn_bytes_in_flight (TCPSender_send_syn s)) = 1"
    by (simp_all add: st)
qed

lemma send_fin_ok:
  assumes "sn_ok S s" "sn_syn s" "\<not> sn_fin s" "ByteStream_eof (sn_stream s)"
  shows "sn_ok S (TCPSender_send_fin s)"
    "unat (sn_bytes_in_flight (TCPSender_send_fin s)) = unat (sn_bytes_in_flight s) + 1"
proof -
  note D = sn_okD [OF assms(1)]
  have e: "bs_content (sn_stream s) = []" "bs_input_ended_flag (sn_stream s)"
    using assms(4) eof_iff [OF D(1)] by auto
  have "sn_ok S (emit (data_segment s Buffer_empty True) (s\<lparr>sn_stream := sn_stream s\<rparr>))"
    using assms(1-3) e D(1) by (intro emit_ok) simp_all
  then show "sn_ok S (TCPSender_send_fin s)" by (simp add: send_fin_eq)
  obtain b where b: "b + unat (sn_bytes_in_flight s) = unat (sn_next_seqno s)" using D(9) by blast
  have "unat (sn_bytes_in_flight s) + unat (1 :: u64) < W64" using b D(2,11) by simp
  then show "unat (sn_bytes_in_flight (TCPSender_send_fin s)) = unat (sn_bytes_in_flight s) + 1"
    by (subst send_fin_eq) (simp add: unat_add_less)
qed

lemma fill_window_ok:
  assumes "sn_ok S s"
  shows "sn_ok S (TCPSender_fill_window s) \<and> sn_syn (TCPSender_fill_window s)"
proof (cases "sn_syn s")
  case False
  then show ?thesis using send_syn_ok [OF assms False] by (simp add: TCPSender_fill_window_def)
next
  case True
  note D = sn_okD [OF assms]
  obtain r s1 where l: "TCPSender_fill_loop (unat (ByteStream_buffer_size (sn_stream s)))
      (TCPSender_window_remain s) s = (r, s1)" by fastforce
  have "length (bs_content (sn_stream s)) \<le> unat (ByteStream_buffer_size (sn_stream s))"
    using unat_buffer_size [OF D(1)] by (simp add: ByteStream_buffer_size_def)
  note L = fill_loop_ok [OF assms True this l]
  then show ?thesis
    using True l send_fin_ok [of S s1]
    by (auto simp: TCPSender_fill_window_def Let_def send_fin_eq)
qed

text \<open>
  While the window has not shrunk below what is in flight: the window is respected, and it is used
  up unless there is nothing more to send.
\<close>

lemma fill_window_respects:
  assumes "sn_ok S s" "sn_syn s"
    and "unat (sn_bytes_in_flight s) \<le> max 1 (unat (sn_receiver_window_size s))"
  defines "s' \<equiv> TCPSender_fill_window s"
  shows "unat (sn_bytes_in_flight s') \<le> max 1 (unat (sn_receiver_window_size s'))
    \<and> sn_receiver_window_size s' = sn_receiver_window_size s
    \<and> (unat (sn_bytes_in_flight s') = max 1 (unat (sn_receiver_window_size s'))
       \<or> bs_content (sn_stream s') = [] \<and> (bs_input_ended_flag (sn_stream s') \<longrightarrow> sn_fin s'))"
proof -
  note D = sn_okD [OF assms(1)]
  obtain r s1 where l: "TCPSender_fill_loop (unat (ByteStream_buffer_size (sn_stream s)))
      (TCPSender_window_remain s) s = (r, s1)" by fastforce
  have "length (bs_content (sn_stream s)) \<le> unat (ByteStream_buffer_size (sn_stream s))"
    using unat_buffer_size [OF D(1)] by (simp add: ByteStream_buffer_size_def)
  note L = fill_loop_ok [OF assms(1,2) this l]
  let ?W = "max 1 (unat (sn_receiver_window_size s))"
  have sum: "unat (sn_bytes_in_flight s1) + unat r = ?W + (if sn_fin s1 \<and> \<not> sn_fin s then 1 else 0)"
    using L window_remain [OF assms(3)] assms(3) by simp
  have pos: "sn_fin s1 \<and> \<not> sn_fin s \<Longrightarrow> 1 \<le> unat r"
    using L by (simp add: word_gt_0 Suc_le_eq unat_gt_0)
  have eof: "ByteStream_eof (sn_stream s1) \<longleftrightarrow> bs_content (sn_stream s1) = [] \<and> bs_input_ended_flag (sn_stream s1)"
    using L eof_iff sn_okD(1) by blast
  show ?thesis
  proof (cases "\<not> sn_fin s1 \<and> ByteStream_eof (sn_stream s1) \<and> r \<noteq> 0")
    case True
    then have s': "s' = TCPSender_send_fin s1"
      using assms(2) l by (simp add: s'_def TCPSender_fill_window_def)
    have "1 \<le> unat r" using True by (simp add: Suc_le_eq unat_gt_0)
    then show ?thesis
      using send_fin_ok(2) [of S s1] L True sum eof by (simp add: s' send_fin_eq)
  next
    case False
    then have s': "s' = s1"
      using assms(2) l by (auto simp: s'_def TCPSender_fill_window_def)
    have "r = 0 \<or> bs_content (sn_stream s1) = []" using L by blast
    then show ?thesis
      using L sum pos False eof by (auto simp: s' split: if_splits)
  qed
qed

section \<open>Acknowledgments\<close>

lemma chain_front:
  assumes "chain S isn a (t # q) n" "n \<le> length S + 2" "length S + 3 < W31"
    and "unat nx = n"
  shows "unwrap (th_seqno (ts_header t)) isn nx = of_nat a"
    "unat (of_nat a :: u64) = a" "unat (of_nat a + of_nat (seg_len t) :: u64) = a + seg_len t"
    "a + seg_len t \<le> n" "unat (of_nat (seg_len t) :: u64) = seg_len t"
proof -
  show le: "a + seg_len t \<le> n" using assms(1) chain_le by fastforce
  show ua: "unat (of_nat a :: u64) = a" using le assms(2,3) by (intro unat_of_nat_less) simp
  show ul: "unat (of_nat (seg_len t) :: u64) = seg_len t"
    using le assms(2,3) by (intro unat_of_nat_less) simp
  show "unat (of_nat a + of_nat (seg_len t) :: u64) = a + seg_len t"
    using le assms(2,3) ua ul by (subst unat_add_less) simp_all
  show "unwrap (th_seqno (ts_header t)) isn nx = of_nat a"
  proof (rule unwrap_eqI)
    show "wrap (of_nat a) isn = th_seqno (ts_header t)" using assms(1) by (simp add: piece_def carries_def)
  qed (use le assms(2,3,4) ua in simp_all)
qed

lemma acked_iff:
  assumes "chain S isn a (t # q) n" "n \<le> length S + 2" "length S + 3 < W31" "unat nx = n"
  shows "unwrap (th_seqno (ts_header t)) isn nx + TCPSegment_length_in_sequence_space t - 1 < k
    \<longleftrightarrow> a + seg_len t \<le> unat k"
proof -
  note C = chain_front [OF assms]
  have "0 < seg_len t" using assms(1) by simp
  then have "unat (of_nat a + of_nat (seg_len t) - 1 :: u64) = a + seg_len t - 1"
    by (subst unat_diff_le) (simp_all add: C word_le_nat_alt Suc_le_eq)
  with \<open>0 < seg_len t\<close> show ?thesis
    by (auto simp: C length_in_sequence_space_eq word_less_nat_alt)
qed

lemma pop_acked_ok:
  assumes "sn_ok S s" "sn_syn s" "chain S (sn_isn s) base (sn_segments_outstanding s) (unat (sn_next_seqno s))"
    and "base + unat (sn_bytes_in_flight s) = unat (sn_next_seqno s)"
    and "q = sn_segments_outstanding s" "s' = TCPSender_pop_acked q k s"
  shows "sn_ok S s' \<and> sn_syn s' \<and> sn_next_seqno s' = sn_next_seqno s \<and> sn_stream s' = sn_stream s
    \<and> sn_receiver_window_size s' = sn_receiver_window_size s \<and> sn_isn s' = sn_isn s
    \<and> sn_segments_out s' = sn_segments_out s \<and> sn_fin s' = sn_fin s
    \<and> (\<exists>popped m. sn_segments_outstanding s = popped @ sn_segments_outstanding s'
        \<and> chain S (sn_isn s) base popped m
        \<and> chain S (sn_isn s) m (sn_segments_outstanding s') (unat (sn_next_seqno s))
        \<and> m + unat (sn_bytes_in_flight s') = unat (sn_next_seqno s)
        \<and> (popped \<noteq> [] \<longrightarrow> m \<le> unat k)
        \<and> (\<forall>t q'. sn_segments_outstanding s' = t # q' \<longrightarrow> unat k < m + seg_len t))"
  using assms
proof (induction q arbitrary: s base)
  case Nil
  then show ?case by auto
next
  case (Cons t q)
  note D = sn_okD [OF Cons.prems(1)]
  let ?n = "unat (sn_next_seqno s)"
  have ch: "chain S (sn_isn s) base (t # q) ?n" using Cons.prems(3,5) by simp
  note C = chain_front [OF ch D(11) D(2) refl]
  note A = acked_iff [OF ch D(11) D(2) refl, of k]
  show ?case
  proof (cases "base + seg_len t \<le> unat k")
    case False
    then have "s' = s" using Cons.prems(6) A by (simp add: Let_def)
    with Cons.prems False show ?thesis by (auto intro!: exI [of _ "[]"])
  next
    case True
    define s1 where "s1 = s\<lparr>sn_bytes_in_flight := sn_bytes_in_flight s - TCPSegment_length_in_sequence_space t,
      sn_segments_outstanding := q, sn_tick := 0, sn_rto := sn_initial_retransmission_timeout s,
      sn_consecutive_retransmissions := 0\<rparr>"
    have s': "s' = TCPSender_pop_acked q k s1" using Cons.prems(6) A True by (simp add: Let_def s1_def)
    have bif: "unat (sn_bytes_in_flight s1) = unat (sn_bytes_in_flight s) - seg_len t"
      unfolding s1_def length_in_sequence_space_eq using Cons.prems(4) C(4,5)
      by (simp add: unat_diff_le word_le_nat_alt)
    have b1: "base + seg_len t + unat (sn_bytes_in_flight s1) = unat (sn_next_seqno s1)"
      using Cons.prems(4) C(4) bif by (simp add: s1_def)
    have ch1: "chain S (sn_isn s1) (base + seg_len t) (sn_segments_outstanding s1) (unat (sn_next_seqno s1))"
      using ch by (simp add: s1_def)
    have ok1: "sn_ok S s1"
    proof (rule sn_okI [OF _ _ _ _ _ _ _ _ ch1 b1])
    qed (use D Cons.prems(2) in \<open>simp_all add: s1_def\<close>)
    have syn1: "sn_syn s1" "q = sn_segments_outstanding s1" using Cons.prems(2) by (simp_all add: s1_def)
    note IH = Cons.IH [OF ok1 syn1(1) ch1 b1 syn1(2) s']
    obtain popped m where pm: "sn_segments_outstanding s1 = popped @ sn_segments_outstanding s'"
        "chain S (sn_isn s1) (base + seg_len t) popped m"
        "chain S (sn_isn s1) m (sn_segments_outstanding s') (unat (sn_next_seqno s1))"
        "m + unat (sn_bytes_in_flight s') = unat (sn_next_seqno s1)" "popped \<noteq> [] \<longrightarrow> m \<le> unat k"
        "\<forall>t q'. sn_segments_outstanding s' = t # q' \<longrightarrow> unat k < m + seg_len t"
      using IH by blast
    have "m \<le> unat k" using pm(2,5) True by (cases popped) auto
    then have "\<exists>popped m. sn_segments_outstanding s = popped @ sn_segments_outstanding s'
        \<and> chain S (sn_isn s) base popped m
        \<and> chain S (sn_isn s) m (sn_segments_outstanding s') (unat (sn_next_seqno s))
        \<and> m + unat (sn_bytes_in_flight s') = unat (sn_next_seqno s)
        \<and> (popped \<noteq> [] \<longrightarrow> m \<le> unat k)
        \<and> (\<forall>t q'. sn_segments_outstanding s' = t # q' \<longrightarrow> unat k < m + seg_len t)"
      using pm ch Cons.prems(5) by (intro exI [of _ "t # popped"] exI [of _ m]) (simp add: s1_def)
    with IH show ?thesis by (simp add: s1_def)
  qed
qed

lemma outstanding_syn: "sn_ok S s \<Longrightarrow> sn_segments_outstanding s \<noteq> [] \<Longrightarrow> sn_syn s"
  using sn_okD(6) by blast

lemma ack_received_ok:
  assumes "sn_ok S s"
  shows "sn_ok S (TCPSender_ack_received ackno win s)"
proof -
  define s1 where "s1 = (if unwrap ackno (sn_isn s) (sn_next_seqno s) = sn_next_seqno s
      \<and> win \<noteq> sn_receiver_window_size s then s\<lparr>sn_receiver_window_size := win\<rparr> else s)"
  have ok1: "sn_ok S s1" using assms by (simp add: s1_def)
  let ?k = "unwrap ackno (sn_isn s) (sn_next_seqno s)"
  have pop: "sn_ok S (TCPSender_pop_acked (sn_segments_outstanding s1) ?k (s1\<lparr>sn_receiver_window_size := win\<rparr>))"
    if "sn_segments_outstanding s1 \<noteq> []"
  proof -
    obtain base where "chain S (sn_isn s1) base (sn_segments_outstanding s1) (unat (sn_next_seqno s1))"
        "base + unat (sn_bytes_in_flight s1) = unat (sn_next_seqno s1)"
      using sn_okD(9) [OF ok1] by blast
    moreover have "sn_syn s1" by (rule outstanding_syn [OF ok1 that])
    ultimately show ?thesis
      using ok1 by (intro pop_acked_ok [THEN conjunct1, OF _ _ _ _ _ refl]) simp_all
  qed
  show ?thesis
    unfolding TCPSender_ack_received_def Let_def s1_def [symmetric]
    using ok1 pop fill_window_ok by (auto split: list.splits)
qed

section \<open>The other operations\<close>

lemma on_wire_outstanding:
  assumes "sn_ok S s" "sn_segments_outstanding s = t # q"
  shows "on_wire S (sn_isn s) t"
proof -
  note D = sn_okD [OF assms(1)]
  obtain base where ch: "chain S (sn_isn s) base (t # q) (unat (sn_next_seqno s))" using D(9) assms(2) by auto
  note C = chain_front [OF ch D(11) D(2) refl]
  have "unat (of_nat base :: u64) \<le> length S + 2" using C(2,4) D(11) by simp
  then show ?thesis using ch by (auto simp: on_wire_def)
qed

lemma tick_ok: "sn_ok S s \<Longrightarrow> sn_ok S (TCPSender_tick ms s)"
proof -
  assume ok: "sn_ok S s"
  have out: "sn_ok S (s\<lparr>sn_tick := x, sn_segments_out := sn_segments_out s @ [t]\<rparr>)"
    if "on_wire S (sn_isn s) t" for x t
    using ok that by (simp add: sn_ok_def)
  show ?thesis
    using ok out on_wire_outstanding [OF ok]
    by (auto simp: TCPSender_tick_def Let_def split: list.splits)
qed

lemma send_empty_segment_ok:
  assumes "sn_ok S s" "sn_syn s"
  shows "sn_ok S (TCPSender_send_empty_segment s)"
proof -
  note D = sn_okD [OF assms(1)]
  define seg where "seg = TCPSegment_new\<lparr>ts_header := TCPHeader_new\<lparr>th_seqno := wrap (sn_next_seqno s) (sn_isn s)\<rparr>\<rparr>"
  have "sn_next_seqno s \<noteq> 0" using D(7) [OF assms(2)] by auto
  then have "piece S (sn_isn s) (sn_next_seqno s) seg"
    by (simp add: piece_def wire_ok_def segment_sendable_def carries_def seg_def seg_data_def
        TCPSegment_new_def TCPHeader_new_def TCPHeader_LENGTH_def)
  then have "on_wire S (sn_isn s) seg" using D(11) by (auto simp: on_wire_def)
  moreover have "TCPSender_send_empty_segment s = s\<lparr>sn_segments_out := sn_segments_out s @ [seg]\<rparr>"
    by (simp add: TCPSender_send_empty_segment_def seg_def TCPSegment_new_def)
  ultimately show ?thesis using assms(1) by (simp add: sn_ok_def)
qed

text \<open>The number of bytes the application has written so far.\<close>

definition sn_written :: "TCPSender \<Rightarrow> nat" where
  "sn_written s = unat (bs_read_count (sn_stream s)) + length (bs_content (sn_stream s))"

lemma write_ok:
  assumes ok: "sn_ok S s" and d: "length data < W64" "\<not> bs_input_ended_flag (sn_stream s)"
    and S: "sn_written s + length (bs_accepted data (sn_stream s)) \<le> length S"
      "take (length (bs_accepted data (sn_stream s))) (drop (sn_written s) S) = bs_accepted data (sn_stream s)"
  shows "sn_ok S (snd (TCPSender_write data s))"
    "sn_written (snd (TCPSender_write data s)) = sn_written s + length (bs_accepted data (sn_stream s))"
proof -
  note D = sn_okD [OF ok]
  let ?acc = "bs_accepted data (sn_stream s)" and ?R = "unat (bs_read_count (sn_stream s))"
  define stream where "stream = snd (ByteStream_write data (sn_stream s))"
  have s': "snd (TCPSender_write data s) = s\<lparr>sn_stream := stream\<rparr>"
    by (simp add: TCPSender_write_def stream_def split: prod.splits)
  note W = write_result [OF D(1) d(1), folded stream_def]
  have fr: "bs_read_count stream = bs_read_count (sn_stream s)"
    "bs_input_ended_flag stream = bs_input_ended_flag (sn_stream s)"
    by (simp_all add: stream_def)
  show "sn_written (snd (TCPSender_write data s)) = sn_written s + length ?acc"
    by (simp add: sn_written_def s' fr W(2))
  have "take (length (bs_content (sn_stream s)) + length ?acc) (drop ?R S)
      = bs_content (sn_stream s) @ ?acc"
    using D(4) S(2) by (simp add: take_add sn_written_def add.commute)
  moreover have "sn_fin s \<Longrightarrow> False" using D(8) d(2) by blast
  ultimately show "sn_ok S (snd (TCPSender_write data s))"
    using ok S(1) W(2,3) d(2) unfolding s'
    by (auto simp: sn_ok_def Let_def fr sn_written_def)
qed

lemma end_input_ended: "bs_input_ended_flag (ByteStream_end_input bs)"
  by (simp add: ByteStream_end_input_def)

lemma end_input_ok:
  assumes "sn_ok S s" "sn_written s = length S"
  shows "sn_ok S (TCPSender_end_input s)"
  using assms by (simp add: sn_ok_def Let_def TCPSender_end_input_def sn_written_def end_input_ended)

text \<open>No operation of the sender itself changes what was written, or the initial sequence number.\<close>

definition sn_input :: "TCPSender \<Rightarrow> WrappingInt32 \<times> u64 \<times> bool" where
  "sn_input s = (sn_isn s, bs_write_count (sn_stream s), bs_input_ended_flag (sn_stream s))"

lemma sn_input_emit: "sn_input (emit seg s) = sn_input s"
  by (simp add: sn_input_def)

lemma fill_loop_input: "sn_input (snd (TCPSender_fill_loop fuel remain s)) = sn_input s"
proof (induction fuel arbitrary: remain s)
  case (Suc fuel)
  obtain r1 s1 where st: "TCPSender_fill_step remain s = (r1, s1)" by fastforce
  then have "sn_input s1 = sn_input s"
    by (auto simp: fill_step_eq Let_def sn_input_emit) (simp add: sn_input_def)
  with Suc.IH [of r1 s1] st show ?case by simp
qed simp

lemma fill_window_input [simp]: "sn_input (TCPSender_fill_window s) = sn_input s"
proof -
  have "sn_input (TCPSender_send_syn s) = sn_input s"
    by (simp add: TCPSender_send_syn_def Let_def sn_input_def)
  moreover obtain r s1 where l: "TCPSender_fill_loop (unat (ByteStream_buffer_size (sn_stream s)))
      (TCPSender_window_remain s) s = (r, s1)" by fastforce
  ultimately show ?thesis
    using fill_loop_input [of "unat (ByteStream_buffer_size (sn_stream s))" "TCPSender_window_remain s" s]
    by (simp add: TCPSender_fill_window_def l send_fin_eq sn_input_emit)
qed

lemma pop_acked_input [simp]: "sn_input (TCPSender_pop_acked q k s) = sn_input s"
proof (induction q arbitrary: s)
  case (Cons t q)
  then show ?case by (simp add: Let_def) (simp add: sn_input_def)
qed simp

lemma sn_input_frame [simp]:
  "sn_input (s\<lparr>sn_receiver_window_size := w\<rparr>) = sn_input s"
  "sn_input (s\<lparr>sn_timer_running := b\<rparr>) = sn_input s"
  "sn_input (s\<lparr>sn_segments_out := out\<rparr>) = sn_input s"
  by (simp_all add: sn_input_def)

lemma ack_received_input [simp]: "sn_input (TCPSender_ack_received ackno win s) = sn_input s"
  by (auto simp: TCPSender_ack_received_def Let_def split: list.splits)

lemma tick_input [simp]: "sn_input (TCPSender_tick ms s) = sn_input s"
  by (auto simp: TCPSender_tick_def Let_def sn_input_def split: list.splits)

lemma send_empty_input [simp]: "sn_input (TCPSender_send_empty_segment s) = sn_input s"
  by (simp add: TCPSender_send_empty_segment_def Let_def)

lemma sn_written_eq: "sn_ok S s \<Longrightarrow> sn_written s = unat (bs_write_count (sn_stream s))"
proof -
  assume "sn_ok S s"
  note D = sn_okD [OF this]
  have "bs_write_count (sn_stream s) = bs_read_count (sn_stream s) + ssize (bs_content (sn_stream s))"
    using D(1) by (simp add: bs_ok_def)
  moreover have "unat (ssize (bs_content (sn_stream s))) = length (bs_content (sn_stream s))"
    using D(2,3) by (intro unat_ssize) linarith
  ultimately show ?thesis using D(2,3) by (simp add: sn_written_def unat_add_less)
qed

section \<open>Runs\<close>

text \<open>
  What the owner of a sender does: the application writes and ends its stream, the window is
  filled, acknowledgments and time arrive, empty segments are requested, and the front of
  \<open>segments_out\<close> is popped and put on the wire. The list beside the sender collects the wire.
\<close>

datatype sn_op =
  SWrite bytes | SEnd | SFill | SAck WrappingInt32 u16 | STick u64 | SEmpty | SPop

primrec sn_move :: "TCPSegment list \<times> TCPSender \<Rightarrow> sn_op \<Rightarrow> TCPSegment list \<times> TCPSender" where
  "sn_move st (SWrite data) = (fst st, snd (TCPSender_write data (snd st)))"
| "sn_move st SEnd = (fst st, TCPSender_end_input (snd st))"
| "sn_move st SFill = (fst st, TCPSender_fill_window (snd st))"
| "sn_move st (SAck ackno win) = (fst st, TCPSender_ack_received ackno win (snd st))"
| "sn_move st (STick ms) = (fst st, TCPSender_tick ms (snd st))"
| "sn_move st SEmpty = (fst st, TCPSender_send_empty_segment (snd st))"
| "sn_move st SPop =
     (case sn_segments_out (snd st) of
        [] \<Rightarrow> st | seg # q \<Rightarrow> (fst st @ [seg], (snd st)\<lparr>sn_segments_out := q\<rparr>))"

text \<open>The application does not write after it ended its stream, and empty segments follow the SYN.\<close>

primrec sn_allowed :: "TCPSegment list \<times> TCPSender \<Rightarrow> sn_op \<Rightarrow> bool" where
  "sn_allowed st (SWrite data) = (length data < W64 \<and> \<not> ByteStream_input_ended (sn_stream (snd st)))"
| "sn_allowed st SEnd = True"
| "sn_allowed st SFill = True"
| "sn_allowed st (SAck ackno win) = True"
| "sn_allowed st (STick ms) = True"
| "sn_allowed st SEmpty = sn_syn (snd st)"
| "sn_allowed st SPop = True"

text \<open>The bytes the outbound stream accepts along a run.\<close>

primrec sn_accepts :: "TCPSender \<Rightarrow> sn_op \<Rightarrow> bytes" where
  "sn_accepts s (SWrite data) = bs_accepted data (sn_stream s)"
| "sn_accepts s SEnd = []"
| "sn_accepts s SFill = []"
| "sn_accepts s (SAck ackno win) = []"
| "sn_accepts s (STick ms) = []"
| "sn_accepts s SEmpty = []"
| "sn_accepts s SPop = []"

primrec sn_stream_of :: "TCPSegment list \<times> TCPSender \<Rightarrow> sn_op list \<Rightarrow> bytes" where
  "sn_stream_of st [] = []"
| "sn_stream_of st (x # xs) = sn_accepts (snd st) x @ sn_stream_of (sn_move st x) xs"

definition sn_run_ok :: "bytes \<Rightarrow> WrappingInt32 \<Rightarrow> TCPSegment list \<times> TCPSender \<Rightarrow> bool" where
  "sn_run_ok S isn st = (sn_ok S (snd st) \<and> sn_isn (snd st) = isn \<and> list_all (on_wire S isn) (fst st))"

text \<open>The operation goes along with the stream \<open>S\<close>.\<close>

primrec sn_follows :: "bytes \<Rightarrow> TCPSegment list \<times> TCPSender \<Rightarrow> sn_op \<Rightarrow> bool" where
  "sn_follows S st (SWrite data) =
     (length data < W64 \<and> \<not> ByteStream_input_ended (sn_stream (snd st))
      \<and> sn_written (snd st) + length (bs_accepted data (sn_stream (snd st))) \<le> length S
      \<and> take (length (bs_accepted data (sn_stream (snd st)))) (drop (sn_written (snd st)) S)
          = bs_accepted data (sn_stream (snd st)))"
| "sn_follows S st SEnd = (sn_written (snd st) = length S)"
| "sn_follows S st SFill = True"
| "sn_follows S st (SAck ackno win) = True"
| "sn_follows S st (STick ms) = True"
| "sn_follows S st SEmpty = sn_syn (snd st)"
| "sn_follows S st SPop = True"

interpretation sender: machine sn_move "sn_follows S" "sn_run_ok S isn" for S isn
proof
  fix st x
  assume ok: "sn_run_ok S isn st" and h: "sn_follows S st x"
  have i: "sn_input s' = sn_input (snd st) \<Longrightarrow> sn_isn s' = isn" for s'
    using ok by (simp add: sn_input_def sn_run_ok_def)
  have w: "sn_isn (snd (TCPSender_write data s)) = sn_isn s" for data s
    by (simp add: TCPSender_write_def split: prod.splits)
  have e: "sn_isn (TCPSender_end_input s) = sn_isn s" for s by (simp add: TCPSender_end_input_def)
  have p: "sn_ok S (s\<lparr>sn_segments_out := q\<rparr>)" if "sn_ok S s" "sn_segments_out s = seg # q" for s seg q
    using that unfolding sn_ok_def Let_def by auto
  have o: "sn_segments_out (snd st) = seg # q \<Longrightarrow> on_wire S isn seg" for seg q
    using ok sn_okD(10) [of S "snd st"] by (auto simp: sn_run_ok_def)
  show "sn_run_ok S isn (sn_move st x)"
    using ok h i w p o
    by (cases x) (auto simp: sn_run_ok_def write_ok end_input_ok fill_window_ok ack_received_ok tick_ok
        send_empty_segment_ok ByteStream_input_ended_def e split: list.splits)
qed

text \<open>Every allowed run goes along with the stream it writes.\<close>

lemma move_ended:
  assumes "ByteStream_input_ended (sn_stream (snd st))"
  shows "ByteStream_input_ended (sn_stream (snd (sn_move st x)))"
proof -
  have "sn_input s' = sn_input (snd st) \<Longrightarrow> bs_input_ended_flag (sn_stream s')" for s'
    using assms by (simp add: sn_input_def ByteStream_input_ended_def)
  then show ?thesis
    using assms
    by (cases x) (auto simp: ByteStream_input_ended_def TCPSender_end_input_def end_input_ended
        TCPSender_write_def split_beta split: list.splits)
qed

lemma ended_stream:
  "ByteStream_input_ended (sn_stream (snd st)) \<Longrightarrow> guarded sn_allowed sn_move st ops \<Longrightarrow>
   sn_stream_of st ops = []"
proof (induction ops arbitrary: st)
  case (Cons x ops)
  have "sn_accepts (snd st) x = []" using Cons.prems by (cases x) auto
  with Cons.IH [OF move_ended [OF Cons.prems(1)]] Cons.prems(2) show ?case by simp
qed simp

lemma follows_written:
  assumes "sn_ok S (snd st)" "sn_follows S st x"
  shows "sn_written (snd (sn_move st x)) = sn_written (snd st) + length (sn_accepts (snd st) x)"
proof -
  have "sn_run_ok S (sn_isn (snd st)) ([], snd st)" using assms(1) by (simp add: sn_run_ok_def)
  moreover have "sn_follows S ([], snd st) x" using assms(2) by (cases x) auto
  ultimately have "sn_run_ok S (sn_isn (snd st)) (sn_move ([], snd st) x)" by (rule sender.step_inv)
  moreover have "snd (sn_move ([], snd st) x) = snd (sn_move st x)"
    by (cases x) (auto split: list.splits)
  ultimately have ok': "sn_ok S (snd (sn_move st x))" by (simp add: sn_run_ok_def)
  have "sn_input (snd (sn_move st x)) = sn_input (snd st) \<Longrightarrow>
      sn_written (snd (sn_move st x)) = sn_written (snd st)"
    using sn_written_eq [OF ok'] sn_written_eq [OF assms(1)] by (simp add: sn_input_def)
  moreover have "sn_written (TCPSender_end_input s) = sn_written s" for s
    by (simp add: sn_written_def TCPSender_end_input_def)
  ultimately show ?thesis
    using assms write_ok(2) [OF assms(1)]
    by (cases x) (auto simp: ByteStream_input_ended_def split: list.splits)
qed

lemma allowed_follows:
  assumes "sn_run_ok S isn st" "guarded sn_allowed sn_move st ops"
    and "drop (sn_written (snd st)) S = sn_stream_of st ops"
  shows "guarded (sn_follows S) sn_move st ops"
  using assms
proof (induction ops arbitrary: st)
  case (Cons x ops)
  have ok: "sn_ok S (snd st)" using Cons.prems(1) by (simp add: sn_run_ok_def)
  have le: "sn_written (snd st) \<le> length S" using sn_okD(3) [OF ok] by (simp add: sn_written_def)
  have split: "drop (sn_written (snd st)) S = sn_accepts (snd st) x @ sn_stream_of (sn_move st x) ops"
    using Cons.prems(3) by simp
  have len: "length S = sn_written (snd st) + length (sn_accepts (snd st) x) + length (sn_stream_of (sn_move st x) ops)"
    using arg_cong [OF split, of length] le by simp
  have f: "sn_follows S st x"
  proof (cases x)
    case (SWrite data)
    then show ?thesis using Cons.prems(2) split len by simp
  next
    case SEnd
    then have "sn_stream_of (sn_move st x) ops = []"
      using Cons.prems(2)
      by (intro ended_stream) (simp_all add: TCPSender_end_input_def ByteStream_input_ended_def end_input_ended)
    then show ?thesis using len SEnd by simp
  qed (use Cons.prems(2) in auto)
  have "drop (sn_written (snd (sn_move st x))) S = sn_stream_of (sn_move st x) ops"
    using split follows_written [OF ok f] by (metis add.commute append_eq_conv_conj drop_drop)
  then have "guarded (sn_follows S) sn_move (sn_move st x) ops"
    using Cons.IH [OF sender.step_inv [OF Cons.prems(1) f]] Cons.prems(2) by simp
  with f show ?case by simp
qed simp

section \<open>Properties\<close>

lemma sn_run_ok_new:
  "length S + 3 < W31 \<Longrightarrow> sn_run_ok S (sn_isn (TCPSender_new cap rto fixed rnd)) ([], TCPSender_new cap rto fixed rnd)"
  by (simp add: sn_run_ok_def sn_ok_new)

lemma sn_written_new [simp]: "sn_written (TCPSender_new cap rto fixed rnd) = 0"
  by (simp add: sn_written_def TCPSender_new_def) (simp add: ByteStream_new_def)

lemma sn_run_from_new:
  assumes "guarded sn_allowed sn_move ([], TCPSender_new cap rto fixed rnd) ops"
    and "S = sn_stream_of ([], TCPSender_new cap rto fixed rnd) ops" "length S + 3 < W31"
    and "foldl sn_move ([], TCPSender_new cap rto fixed rnd) ops = (wire, s)"
  shows "sn_run_ok S (sn_isn (TCPSender_new cap rto fixed rnd)) (wire, s)"
proof -
  note new = sn_run_ok_new [OF assms(3), of cap rto fixed rnd]
  have "guarded (sn_follows S) sn_move ([], TCPSender_new cap rto fixed rnd) ops"
    using assms(2) by (intro allowed_follows [OF new assms(1)]) simp
  from sender.run_inv [OF new this] assms(4) show ?thesis by simp
qed

text \<open>
  C7: the sender's bookkeeping. Along every run in which the application does not write after
  ending its stream: every segment that has left is a piece of the stream \<open>S\<close> written so far, at its
  sequence number; the outstanding segments are consecutive pieces ending at \<open>next_seqno\<close>; and
  \<open>bytes_in_flight\<close> is the sum of their lengths in sequence space.
\<close>

theorem sender_bookkeeping:
  assumes "guarded sn_allowed sn_move ([], TCPSender_new cap rto fixed rnd) ops"
    and "S = sn_stream_of ([], TCPSender_new cap rto fixed rnd) ops" "length S + 3 < W31"
    and "foldl sn_move ([], TCPSender_new cap rto fixed rnd) ops = (wire, s)"
  shows "list_all (on_wire S (sn_isn (TCPSender_new cap rto fixed rnd))) wire
    \<and> (\<exists>base. chain S (sn_isn s) base (sn_segments_outstanding s) (unat (TCPSender_next_seqno_absolute s)))
    \<and> unat (TCPSender_bytes_in_flight s) = sum_list (map seg_len (sn_segments_outstanding s))"
proof -
  have "sn_run_ok S (sn_isn (TCPSender_new cap rto fixed rnd)) (wire, s)" by (rule sn_run_from_new [OF assms])
  then have r: "sn_ok S s" "list_all (on_wire S (sn_isn (TCPSender_new cap rto fixed rnd))) wire"
    by (simp_all add: sn_run_ok_def)
  obtain base where b: "chain S (sn_isn s) base (sn_segments_outstanding s) (unat (sn_next_seqno s))"
      "base + unat (sn_bytes_in_flight s) = unat (sn_next_seqno s)"
    using sn_okD(9) [OF r(1)] by blast
  have "unat (sn_bytes_in_flight s) = sum_list (map seg_len (sn_segments_outstanding s))"
    using chain_sum [OF b(1)] b(2) by linarith
  with r b show ?thesis
    by (auto simp: TCPSender_next_seqno_absolute_def TCPSender_bytes_in_flight_def)
qed

definition demo_run :: "sn_op list" where
  "demo_run = [SFill, SPop, SWrite [1, 2, 3], SAck 8 5, SEnd, SFill, SPop, SPop, STick 1000, SPop]"

theorem sender_bookkeeping_witness:
  "let s = snd (foldl sn_move ([], TCPSender_new 10 1000 (Some 7) 0) demo_run)
   in unat (TCPSender_bytes_in_flight s) = sum_list (map seg_len (sn_segments_outstanding s))"
proof -
  obtain wire s where e: "foldl sn_move ([], TCPSender_new 10 1000 (Some 7) 0) demo_run = (wire, s)" by fastforce
  have g: "guarded sn_allowed sn_move ([], TCPSender_new 10 1000 (Some 7) 0) demo_run"
  proof -
    have "\<not> ByteStream_input_ended (sn_stream (snd
        (sn_move (sn_move ([], TCPSender_new 10 1000 (Some 7) 0) SFill) SPop)))" by code_simp
    moreover have "length [1, 2, 3 :: byte] < W64" by simp
    ultimately show ?thesis unfolding demo_run_def guarded.simps sn_allowed.simps by blast
  qed
  have "sn_stream_of ([], TCPSender_new 10 1000 (Some 7) 0) demo_run = [1, 2, 3]" by code_simp
  with sender_bookkeeping [OF g refl _ e] e show ?thesis by simp
qed

text \<open>
  C8: the window is respected and used. If what is in flight fits the peer's window (a zero window
  counts as one), it still does after \<open>fill_window\<close>; and afterwards the window is full, or nothing
  is left to send, the FIN included.
\<close>

theorem fill_window_fills_window:
  assumes "sn_ok S s" "sn_syn s"
    and "unat (sn_bytes_in_flight s) \<le> max 1 (unat (sn_receiver_window_size s))"
  defines "s' \<equiv> TCPSender_fill_window s"
  shows "unat (sn_bytes_in_flight s') \<le> max 1 (unat (sn_receiver_window_size s))
    \<and> (unat (sn_bytes_in_flight s') = max 1 (unat (sn_receiver_window_size s))
       \<or> ByteStream_buffer_empty (sn_stream s') \<and> (ByteStream_input_ended (sn_stream s') \<longrightarrow> TCPSender_is_fin s'))"
proof -
  have "bs_ok (sn_stream s')" unfolding s'_def using fill_window_ok [OF assms(1)] sn_okD(1) by blast
  from buffer_empty_iff [OF this] fill_window_respects [OF assms(1-3)] show ?thesis
    by (auto simp: s'_def ByteStream_input_ended_def TCPSender_is_fin_def)
qed

theorem fill_window_fills_window_witness:
  "let s = TCPSender_fill_window (TCPSender_new 10 1000 (Some 7) 0); s' = TCPSender_fill_window s
   in unat (sn_bytes_in_flight s') \<le> max 1 (unat (sn_receiver_window_size s))"
proof -
  let ?s = "TCPSender_fill_window (TCPSender_new 10 1000 (Some 7) 0)"
  have ok: "sn_ok [] ?s" "sn_syn ?s" using fill_window_ok [OF sn_ok_new [of "[]"]] by simp_all
  have "unat (sn_bytes_in_flight ?s) = 1"
    by code_simp
  then have "unat (sn_bytes_in_flight ?s) \<le> max 1 (unat (sn_receiver_window_size ?s))" by simp
  from fill_window_fills_window [OF ok this] show ?thesis by (simp add: Let_def)
qed

lemma fill_window_appends:
  assumes "sn_ok S s"
  shows "\<exists>new. sn_segments_outstanding (TCPSender_fill_window s) = sn_segments_outstanding s @ new
    \<and> sn_segments_out (TCPSender_fill_window s) = sn_segments_out s @ new"
proof (cases "sn_syn s")
  case False
  then show ?thesis by (simp add: TCPSender_fill_window_def TCPSender_send_syn_def Let_def)
next
  case True
  note D = sn_okD [OF assms]
  obtain r s1 where l: "TCPSender_fill_loop (unat (ByteStream_buffer_size (sn_stream s)))
      (TCPSender_window_remain s) s = (r, s1)" by fastforce
  have "length (bs_content (sn_stream s)) \<le> unat (ByteStream_buffer_size (sn_stream s))"
    using unat_buffer_size [OF D(1)] by (simp add: ByteStream_buffer_size_def)
  then obtain new where "sn_segments_out s1 = sn_segments_out s @ new"
      "sn_segments_outstanding s1 = sn_segments_outstanding s @ new"
    using fill_loop_ok [OF assms True _ l] by blast
  then show ?thesis using True l by (simp add: TCPSender_fill_window_def send_fin_eq)
qed

text \<open>
  C9: an acknowledgment is acceptable if its absolute number \<open>k\<close> is not beyond what was sent and the
  window behind it reaches the end of the oldest outstanding segment. It removes from the front of
  the outstanding queue exactly the segments it covers completely: the last one removed ends at or
  before \<open>k\<close>, the first one kept ends behind it. The ones kept are followed by those the call appends
  to the output queue, and by nothing else.
\<close>

theorem ack_removes_covered:
  assumes ok: "sn_ok S s" and q: "sn_segments_outstanding s = t # rest"
    and chain: "chain S (sn_isn s) base (t # rest) (unat (sn_next_seqno s))"
    and k: "k = unat (unwrap ackno (sn_isn s) (sn_next_seqno s))" "k \<le> unat (sn_next_seqno s)"
    and acceptable: "base + seg_len t \<le> k + unat win - (if win = 0 then 0 else 1)"
  shows "\<exists>popped kept new m. t # rest = popped @ kept
    \<and> sn_segments_outstanding (TCPSender_ack_received ackno win s) = kept @ new
    \<and> sn_segments_out (TCPSender_ack_received ackno win s) = sn_segments_out s @ new
    \<and> chain S (sn_isn s) base popped m \<and> (popped \<noteq> [] \<longrightarrow> m \<le> k)
    \<and> (\<forall>u us. kept = u # us \<longrightarrow> k < m + seg_len u)"
proof -
  note D = sn_okD [OF ok]
  let ?k = "unwrap ackno (sn_isn s) (sn_next_seqno s)"
  define s1 where "s1 = (if ?k = sn_next_seqno s \<and> win \<noteq> sn_receiver_window_size s
    then s\<lparr>sn_receiver_window_size := win\<rparr> else s)"
  define s2 where "s2 = s1\<lparr>sn_receiver_window_size := win\<rparr>"
  define s3 where "s3 = TCPSender_pop_acked (t # rest) ?k s2"
  define s4 where "s4 = (if sn_bytes_in_flight s3 = 0 then s3\<lparr>sn_timer_running := False\<rparr> else s3)"
  have fr: "sn_segments_outstanding s1 = t # rest" "sn_isn s1 = sn_isn s" "sn_next_seqno s1 = sn_next_seqno s"
    using q by (simp_all add: s1_def)
  have o2: "sn_segments_outstanding s2 = t # rest" using fr(1) by (simp add: s2_def)
  note C = chain_front [OF chain D(11) D(2) refl]
  have pos: "0 < seg_len t" using chain by simp
  have "unat (?k + ucast win - 1 + (if win \<noteq> 0 then 0 else 1)) = k + unat win - (if win = 0 then 0 else 1)"
  proof (cases "win = 0")
    case True
    then show ?thesis by (simp add: k(1))
  next
    case False
    have u: "unat (ucast win :: u64) = unat win" by (simp add: unat_ucast_up)
    have "unat (?k + ucast win) = k + unat win"
      using k D(2,11) unat_u16_lt [of win] u by (subst unat_add_less) auto
    moreover have "1 \<le> ?k + ucast win"
      using acceptable pos False calculation by (simp add: word_le_nat_alt)
    ultimately show ?thesis using False by (simp add: unat_diff_le)
  qed
  then have pass: "\<not> ?k + ucast win - 1 + (if win \<noteq> 0 then 0 else 1)
      < unwrap (th_seqno (ts_header t)) (sn_isn s) (sn_next_seqno s) + TCPSegment_length_in_sequence_space t"
    using acceptable by (simp only: word_less_nat_alt C(1) length_in_sequence_space_eq C(3))
  have le: "\<not> ?k > sn_next_seqno s" using k by (simp add: word_less_nat_alt)
  have res: "TCPSender_ack_received ackno win s = TCPSender_fill_window s4"
    unfolding TCPSender_ack_received_def Let_def s1_def [symmetric] fr list.case s2_def [symmetric]
      o2 s3_def [symmetric] s4_def [symmetric]
    using pass le by simp
  have ok2: "sn_ok S s2" using ok by (simp add: s1_def s2_def)
  obtain b where b: "chain S (sn_isn s) b (t # rest) (unat (sn_next_seqno s))"
      "b + unat (sn_bytes_in_flight s) = unat (sn_next_seqno s)" using D(9) q by auto
  have "b = base" using chain_sum [OF b(1)] chain_sum [OF chain] by linarith
  then have pre: "sn_syn s2" "chain S (sn_isn s2) base (sn_segments_outstanding s2) (unat (sn_next_seqno s2))"
      "base + unat (sn_bytes_in_flight s2) = unat (sn_next_seqno s2)" "t # rest = sn_segments_outstanding s2"
    using b outstanding_syn [OF ok] q by (auto simp: s2_def s1_def)
  have i2: "sn_isn s2 = sn_isn s" using fr(2) by (simp add: s2_def)
  note P = pop_acked_ok [OF ok2 pre s3_def]
  then obtain popped m where pm: "t # rest = popped @ sn_segments_outstanding s3"
      "chain S (sn_isn s) base popped m" "popped \<noteq> [] \<longrightarrow> m \<le> k"
      "\<forall>u us. sn_segments_outstanding s3 = u # us \<longrightarrow> k < m + seg_len u"
    unfolding i2 pre(4) [symmetric] k(1) [symmetric] by blast
  have s4: "sn_ok S s4" "sn_segments_outstanding s4 = sn_segments_outstanding s3" "sn_segments_out s4 = sn_segments_out s"
    using P by (simp_all add: s4_def s2_def s1_def)
  then obtain new where "sn_segments_outstanding (TCPSender_fill_window s4) = sn_segments_outstanding s3 @ new"
      "sn_segments_out (TCPSender_fill_window s4) = sn_segments_out s @ new"
    using fill_window_appends [OF s4(1)] by auto
  with pm show ?thesis unfolding res by blast
qed

theorem ack_removes_covered_witness:
  "\<exists>popped kept new m. sn_segments_outstanding (TCPSender_fill_window (TCPSender_new 10 1000 (Some 7) 0)) = popped @ kept
    \<and> sn_segments_outstanding
        (TCPSender_ack_received 8 5 (TCPSender_fill_window (TCPSender_new 10 1000 (Some 7) 0))) = kept @ new
    \<and> sn_segments_out
        (TCPSender_ack_received 8 5 (TCPSender_fill_window (TCPSender_new 10 1000 (Some 7) 0)))
        = sn_segments_out (TCPSender_fill_window (TCPSender_new 10 1000 (Some 7) 0)) @ new
    \<and> chain [] 7 0 popped m \<and> (\<forall>u us. kept = u # us \<longrightarrow> 1 < m + seg_len u)"
proof -
  let ?s = "TCPSender_fill_window (TCPSender_new 10 1000 (Some 7) 0)"
  obtain t where q: "sn_segments_outstanding ?s = [t]"
    by (simp add: TCPSender_fill_window_def TCPSender_new_def TCPSender_send_syn_def Let_def)
  have ok: "sn_ok [] ?s" using fill_window_ok [OF sn_ok_new [of "[]"]] by simp
  have i: "sn_isn ?s = 7" "unat (unwrap 8 7 (sn_next_seqno ?s)) = 1" "unat (sn_next_seqno ?s) = 1"
    "map seg_len (sn_segments_outstanding ?s) = [1]"
    by code_simp+
  obtain base where b: "chain [] (sn_isn ?s) base [t] (unat (sn_next_seqno ?s))"
    using sn_okD(9) [OF ok] q by auto
  have "base = 0" using chain_sum [OF b] i(3,4) q by simp
  with b have "chain [] (sn_isn ?s) 0 [t] (unat (sn_next_seqno ?s))" by simp
  from ack_removes_covered [OF ok q this, of 1 8 5] i
  have "\<exists>popped kept new m. [t] = popped @ kept
    \<and> sn_segments_outstanding (TCPSender_ack_received 8 5 ?s) = kept @ new
    \<and> sn_segments_out (TCPSender_ack_received 8 5 ?s) = sn_segments_out ?s @ new
    \<and> chain [] (sn_isn ?s) 0 popped m \<and> (popped \<noteq> [] \<longrightarrow> m \<le> 1)
    \<and> (\<forall>u us. kept = u # us \<longrightarrow> 1 < m + seg_len u)"
    using q by simp
  then show ?thesis unfolding q i(1) by blast
qed

primrec expire :: "nat \<Rightarrow> TCPSender \<Rightarrow> TCPSender" where
  "expire 0 s = s"
| "expire (Suc n) s = expire n (TCPSender_tick (ucast (sn_rto s)) s)"

lemma expire_once:
  assumes "sn_segments_outstanding s = t # q" "sn_receiver_window_size s \<noteq> 0 \<or> th_syn (ts_header t)" "sn_tick s = 0"
  shows "TCPSender_tick (ucast (sn_rto s)) s =
    s\<lparr>sn_segments_out := sn_segments_out s @ [t],
      sn_consecutive_retransmissions := sn_consecutive_retransmissions s + 1,
      sn_rto := push_bit 1 (sn_rto s), sn_tick := 0\<rparr>"
  using assms by (auto simp: TCPSender_tick_def Let_def)

lemma expire_n:
  assumes "sn_segments_outstanding s = t # q" "sn_receiver_window_size s \<noteq> 0 \<or> th_syn (ts_header t)"
    "sn_tick s = 0"
  shows "sn_segments_out (expire n s) = sn_segments_out s @ replicate n t
    \<and> sn_consecutive_retransmissions (expire n s) = sn_consecutive_retransmissions s + of_nat n
    \<and> sn_rto (expire n s) = push_bit n (sn_rto s) \<and> sn_segments_outstanding (expire n s) = t # q
    \<and> sn_tick (expire n s) = 0"
  using assms
proof (induction n arbitrary: s)
  case (Suc n)
  let ?s1 = "TCPSender_tick (ucast (sn_rto s)) s"
  note e = expire_once [OF Suc.prems]
  have "sn_segments_outstanding ?s1 = t # q" "sn_receiver_window_size ?s1 \<noteq> 0 \<or> th_syn (ts_header t)"
      "sn_tick ?s1 = 0"
    using Suc.prems by (simp_all add: e)
  from Suc.IH [OF this] show ?case by (simp add: e push_bit_push_bit)
qed simp

text \<open>
  C10: the retransmission timer. With a non-zero window, or while the SYN is unacknowledged, \<open>n\<close>
  successive expiries retransmit the oldest outstanding segment \<open>n\<close> times, count \<open>n\<close> retransmissions and
  double the timeout \<open>n\<close> times (as long as it fits 32 bits); after the last one the timer starts from
  zero, so that a tick shorter than the new timeout sends nothing.
\<close>

theorem retransmission_backoff:
  assumes "sn_segments_outstanding s = t # q"
    and "sn_receiver_window_size s \<noteq> 0 \<or> th_syn (ts_header t)" "sn_tick s = 0"
    and "unat (sn_rto s) * 2 ^ n < W32" "unat (sn_consecutive_retransmissions s) + n < W16"
  shows "sn_segments_out (expire n s) = sn_segments_out s @ replicate n t
    \<and> unat (TCPSender_consecutive_retransmissions (expire n s)) = unat (sn_consecutive_retransmissions s) + n
    \<and> unat (sn_rto (expire n s)) = unat (sn_rto s) * 2 ^ n
    \<and> (\<forall>ms. ms < ucast (sn_rto (expire n s)) \<longrightarrow>
         sn_segments_out (TCPSender_tick ms (expire n s)) = sn_segments_out (expire n s))"
proof -
  note E = expire_n [OF assms(1,2,3), of n]
  have "unat (push_bit n (sn_rto s)) = unat (sn_rto s) * 2 ^ n"
    using assms(4) by (simp add: unsigned_push_bit_eq) (simp add: push_bit_eq_mult take_bit_nat_eq_self)
  moreover have "unat (sn_consecutive_retransmissions s + of_nat n) = unat (sn_consecutive_retransmissions s) + n"
    using assms(5) by (subst unat_add_less) (simp_all add: unat_of_nat_less)
  moreover have "sn_segments_out (TCPSender_tick ms (expire n s)) = sn_segments_out (expire n s)"
    if "ms < ucast (sn_rto (expire n s))" for ms
    using linorder_not_le [THEN iffD2, OF that] E by (simp add: TCPSender_tick_def Let_def)
  ultimately show ?thesis
    using E by (simp add: TCPSender_consecutive_retransmissions_def unat_ucast_up)
qed

theorem retransmission_backoff_witness:
  "unat (sn_rto (expire 3 (TCPSender_fill_window (TCPSender_new 10 1000 (Some 7) 0)))) = 8000"
proof -
  let ?s = "TCPSender_fill_window (TCPSender_new 10 1000 (Some 7) 0)"
  obtain t where q: "sn_segments_outstanding ?s = [t]"
    by (simp add: TCPSender_fill_window_def TCPSender_new_def TCPSender_send_syn_def Let_def)
  have "unat (sn_rto ?s) = 1000 \<and> unat (sn_consecutive_retransmissions ?s) = 0
      \<and> sn_receiver_window_size ?s \<noteq> 0 \<and> sn_tick ?s = 0"
    by (simp add: TCPSender_fill_window_def TCPSender_new_def TCPSender_send_syn_def Let_def
        TCPSender_start_timer_def)
  with retransmission_backoff [OF q, of 3] show ?thesis by simp
qed

text \<open>
  A window that shrinks below what is in flight makes \<open>remain\<close> wrap around: with five bytes
  outstanding and a window of three announced, the sender sends everything the application
  writes next.
\<close>

theorem shrunk_window_floods:
  "let s = snd (foldl sn_move ([], TCPSender_new 100 1000 (Some 0) 0)
       [SFill, SAck 1 10, SWrite [1, 2], SFill, SWrite [3, 4, 5], SFill, SAck 1 3,
        SWrite (replicate 20 9), SFill])
   in sn_receiver_window_size s = 3 \<and> TCPSender_bytes_in_flight s = 25"
  by code_simp

end
