(* ===== verification/Tcp_State.thy ===== *)
theory Tcp_State
  imports Tcp_Sender
begin

text \<open>
  \<open>libsponge/tcp_helpers/tcp_state.{hh,cc}\<close>: the summary of a connection's sender and receiver, and
  its correspondence to the state names of the TCP specification.
\<close>

section \<open>Model\<close>

datatype State =
  LISTEN | SYN_RCVD | SYN_SENT | ESTABLISHED | CLOSE_WAIT | LAST_ACK | FIN_WAIT_1 | FIN_WAIT_2
  | CLOSING | TIME_WAIT | CLOSED | RESET

definition TCPReceiverStateSummary_ERROR :: string where
  "TCPReceiverStateSummary_ERROR = ''error (connection was reset)''"
definition TCPReceiverStateSummary_LISTEN :: string where
  "TCPReceiverStateSummary_LISTEN = ''waiting for SYN: ackno is empty''"
definition TCPReceiverStateSummary_SYN_RECV :: string where
  "TCPReceiverStateSummary_SYN_RECV = ''SYN received (ackno exists), and input to stream hasn't ended''"
definition TCPReceiverStateSummary_FIN_RECV :: string where
  "TCPReceiverStateSummary_FIN_RECV = ''input to stream has ended''"

definition TCPSenderStateSummary_ERROR :: string where
  "TCPSenderStateSummary_ERROR = ''error (connection was reset)''"
definition TCPSenderStateSummary_CLOSED :: string where
  "TCPSenderStateSummary_CLOSED = ''waiting for stream to begin (no SYN sent)''"
definition TCPSenderStateSummary_SYN_SENT :: string where
  "TCPSenderStateSummary_SYN_SENT = ''stream started but nothing acknowledged''"
definition TCPSenderStateSummary_SYN_ACKED :: string where
  "TCPSenderStateSummary_SYN_ACKED = ''stream ongoing''"
definition TCPSenderStateSummary_FIN_SENT :: string where
  "TCPSenderStateSummary_FIN_SENT = ''stream finished (FIN sent) but not fully acknowledged''"
definition TCPSenderStateSummary_FIN_ACKED :: string where
  "TCPSenderStateSummary_FIN_ACKED = ''stream finished and fully acknowledged''"

lemmas summary_defs =
  TCPReceiverStateSummary_ERROR_def TCPReceiverStateSummary_LISTEN_def
  TCPReceiverStateSummary_SYN_RECV_def TCPReceiverStateSummary_FIN_RECV_def
  TCPSenderStateSummary_ERROR_def TCPSenderStateSummary_CLOSED_def
  TCPSenderStateSummary_SYN_SENT_def TCPSenderStateSummary_SYN_ACKED_def
  TCPSenderStateSummary_FIN_SENT_def TCPSenderStateSummary_FIN_ACKED_def

record TCPState =
  st_sender :: string
  st_receiver :: string
  st_active :: bool
  st_linger_after_streams_finish :: bool

definition TCPState_eq :: "TCPState \<Rightarrow> TCPState \<Rightarrow> bool" where
  "TCPState_eq st other =
     (st_active st = st_active other
      \<and> st_linger_after_streams_finish st = st_linger_after_streams_finish other
      \<and> st_sender st = st_sender other \<and> st_receiver st = st_receiver other)"

text \<open>\<open>std::to_string\<close> of a \<open>bool\<close>.\<close>

definition bool_to_string :: "bool \<Rightarrow> string" where
  "bool_to_string b = (if b then ''1'' else ''0'')"

definition TCPState_name :: "TCPState \<Rightarrow> string" where
  "TCPState_name st =
     ''sender=`'' @ st_sender st @ ''`, receiver=`'' @ st_receiver st @ ''`, active='' @
     bool_to_string (st_active st) @ '', linger_after_streams_finish='' @
     bool_to_string (st_linger_after_streams_finish st)"

text \<open>The default member initializers, before the constructor's \<open>switch\<close>.\<close>

definition TCPState_default :: TCPState where
  "TCPState_default =
     \<lparr>st_sender = '''', st_receiver = '''', st_active = True, st_linger_after_streams_finish = True\<rparr>"

definition TCPState_of_State :: "State \<Rightarrow> TCPState" where
  "TCPState_of_State state =
     (let st = TCPState_default
      in case state of
           LISTEN \<Rightarrow> st\<lparr>st_receiver := TCPReceiverStateSummary_LISTEN, st_sender := TCPSenderStateSummary_CLOSED\<rparr>
         | SYN_RCVD \<Rightarrow> st\<lparr>st_receiver := TCPReceiverStateSummary_SYN_RECV, st_sender := TCPSenderStateSummary_SYN_SENT\<rparr>
         | SYN_SENT \<Rightarrow> st\<lparr>st_receiver := TCPReceiverStateSummary_LISTEN, st_sender := TCPSenderStateSummary_SYN_SENT\<rparr>
         | ESTABLISHED \<Rightarrow> st\<lparr>st_receiver := TCPReceiverStateSummary_SYN_RECV, st_sender := TCPSenderStateSummary_SYN_ACKED\<rparr>
         | CLOSE_WAIT \<Rightarrow> st\<lparr>st_receiver := TCPReceiverStateSummary_FIN_RECV, st_sender := TCPSenderStateSummary_SYN_ACKED,
                            st_linger_after_streams_finish := False\<rparr>
         | LAST_ACK \<Rightarrow> st\<lparr>st_receiver := TCPReceiverStateSummary_FIN_RECV, st_sender := TCPSenderStateSummary_FIN_SENT,
                          st_linger_after_streams_finish := False\<rparr>
         | CLOSING \<Rightarrow> st\<lparr>st_receiver := TCPReceiverStateSummary_FIN_RECV, st_sender := TCPSenderStateSummary_FIN_SENT\<rparr>
         | FIN_WAIT_1 \<Rightarrow> st\<lparr>st_receiver := TCPReceiverStateSummary_SYN_RECV, st_sender := TCPSenderStateSummary_FIN_SENT\<rparr>
         | FIN_WAIT_2 \<Rightarrow> st\<lparr>st_receiver := TCPReceiverStateSummary_SYN_RECV, st_sender := TCPSenderStateSummary_FIN_ACKED\<rparr>
         | TIME_WAIT \<Rightarrow> st\<lparr>st_receiver := TCPReceiverStateSummary_FIN_RECV, st_sender := TCPSenderStateSummary_FIN_ACKED\<rparr>
         | RESET \<Rightarrow> st\<lparr>st_receiver := TCPReceiverStateSummary_ERROR, st_sender := TCPSenderStateSummary_ERROR,
                       st_linger_after_streams_finish := False, st_active := False\<rparr>
         | CLOSED \<Rightarrow> st\<lparr>st_receiver := TCPReceiverStateSummary_FIN_RECV, st_sender := TCPSenderStateSummary_FIN_ACKED,
                        st_linger_after_streams_finish := False, st_active := False\<rparr>)"

definition receiver_state_summary :: "TCPReceiver \<Rightarrow> string" where
  "receiver_state_summary receiver =
     (if bs_error (TCPReceiver_stream_out receiver) then TCPReceiverStateSummary_ERROR
      else if TCPReceiver_ackno receiver = None then TCPReceiverStateSummary_LISTEN
      else if ByteStream_input_ended (TCPReceiver_stream_out receiver) then TCPReceiverStateSummary_FIN_RECV
      else TCPReceiverStateSummary_SYN_RECV)"

definition sender_state_summary :: "TCPSender \<Rightarrow> string" where
  "sender_state_summary sender =
     (if bs_error (sn_stream sender) then TCPSenderStateSummary_ERROR
      else if TCPSender_next_seqno_absolute sender = 0 then TCPSenderStateSummary_CLOSED
      else if TCPSender_next_seqno_absolute sender = TCPSender_bytes_in_flight sender
        then TCPSenderStateSummary_SYN_SENT
      else if \<not> ByteStream_eof (sn_stream sender) then TCPSenderStateSummary_SYN_ACKED
      else if TCPSender_next_seqno_absolute sender < ByteStream_bytes_written (sn_stream sender) + 2
        then TCPSenderStateSummary_SYN_ACKED
      else if TCPSender_bytes_in_flight sender \<noteq> 0 then TCPSenderStateSummary_FIN_SENT
      else TCPSenderStateSummary_FIN_ACKED)"

definition TCPState_of_parts :: "TCPSender \<Rightarrow> TCPReceiver \<Rightarrow> bool \<Rightarrow> bool \<Rightarrow> TCPState" where
  "TCPState_of_parts sender receiver active linger =
     \<lparr>st_sender = sender_state_summary sender, st_receiver = receiver_state_summary receiver,
      st_active = active, st_linger_after_streams_finish = (if active then linger else False)\<rparr>"

section \<open>The official states are distinguished\<close>

lemma TCPState_eq_iff: "TCPState_eq st other \<longleftrightarrow> st = other"
  by (cases st; cases other) (auto simp: TCPState_eq_def)

lemma TCPState_of_State_inj: "inj TCPState_of_State"
proof (rule injI)
  fix x y
  assume "TCPState_of_State x = TCPState_of_State y"
  then show "x = y"
    by (cases x; cases y) (simp_all add: TCPState_of_State_def TCPState_default_def summary_defs)
qed

end
