(* ===== verification/Tcp_Connection.thy ===== *)
theory Tcp_Connection
  imports Tcp_State
begin

text \<open>
  \<open>libsponge/tcp_connection.{hh,cc}\<close>: one endpoint, made of a sender and a receiver. Outgoing segments
  are stamped with the receiver's acknowledgment number and window; resets and the end of both
  streams shut the connection down. The random initial sequence number is the parameter \<open>random\<close>.
\<close>

section \<open>Model\<close>

record TCPConfig =
  cfg_rt_timeout :: u16
  cfg_recv_capacity :: u64
  cfg_send_capacity :: u64
  cfg_fixed_isn :: "WrappingInt32 option"

definition TCPConfig_new :: TCPConfig where
  "TCPConfig_new =
     \<lparr>cfg_rt_timeout = TCPConfig_TIMEOUT_DFLT, cfg_recv_capacity = TCPConfig_DEFAULT_CAPACITY,
      cfg_send_capacity = TCPConfig_DEFAULT_CAPACITY, cfg_fixed_isn = None\<rparr>"

record TCPConnection =
  tc_cfg :: TCPConfig
  tc_receiver :: TCPReceiver
  tc_sender :: TCPSender
  tc_segments_out :: "TCPSegment list"
  tc_linger_after_streams_finish :: bool
  tc_time_since_last_segment_received :: u64
  tc_active :: bool
  tc_need_send_rst :: bool

definition TCPConnection_new :: "TCPConfig \<Rightarrow> WrappingInt32 \<Rightarrow> TCPConnection" where
  "TCPConnection_new cfg random =
     \<lparr>tc_cfg = cfg, tc_receiver = TCPReceiver_new (cfg_recv_capacity cfg),
      tc_sender = TCPSender_new (cfg_send_capacity cfg) (cfg_rt_timeout cfg) (cfg_fixed_isn cfg) random,
      tc_segments_out = [], tc_linger_after_streams_finish = True,
      tc_time_since_last_segment_received = 0, tc_active = True, tc_need_send_rst = False\<rparr>"

definition TCPConnection_remaining_outbound_capacity :: "TCPConnection \<Rightarrow> u64" where
  "TCPConnection_remaining_outbound_capacity c = ByteStream_remaining_capacity (sn_stream (tc_sender c))"

definition TCPConnection_bytes_in_flight :: "TCPConnection \<Rightarrow> u64" where
  "TCPConnection_bytes_in_flight c = TCPSender_bytes_in_flight (tc_sender c)"

definition TCPConnection_unassembled_bytes :: "TCPConnection \<Rightarrow> u64" where
  "TCPConnection_unassembled_bytes c = TCPReceiver_unassembled_bytes (tc_receiver c)"

definition TCPConnection_inbound_stream :: "TCPConnection \<Rightarrow> ByteStream" where
  "TCPConnection_inbound_stream c = TCPReceiver_stream_out (tc_receiver c)"

definition TCPConnection_state :: "TCPConnection \<Rightarrow> TCPState" where
  "TCPConnection_state c =
     TCPState_of_parts (tc_sender c) (tc_receiver c) (tc_active c) (tc_linger_after_streams_finish c)"

definition TCPConnection_clean_shutdown :: "TCPConnection \<Rightarrow> TCPConnection" where
  "TCPConnection_clean_shutdown c =
     (if ByteStream_input_ended (TCPReceiver_stream_out (tc_receiver c))
      then if \<not> TCPSender_is_fin (tc_sender c) then c\<lparr>tc_linger_after_streams_finish := False\<rparr>
           else if TCPSender_bytes_in_flight (tc_sender c) = 0
           then if \<not> tc_linger_after_streams_finish c
                   \<or> tc_time_since_last_segment_received c \<ge> 10 * ucast (cfg_rt_timeout (tc_cfg c))
                then c\<lparr>tc_active := False\<rparr> else c
           else c
      else c)"

text \<open>The \<open>while\<close> loop of \<open>send_sender_segments\<close>, over the queue it empties.\<close>

primrec TCPConnection_send_loop :: "TCPSegment list \<Rightarrow> TCPConnection \<Rightarrow> TCPConnection" where
  "TCPConnection_send_loop [] c = c"
| "TCPConnection_send_loop (seg # q) c =
     (let c = c\<lparr>tc_sender := (tc_sender c)\<lparr>sn_segments_out := q\<rparr>\<rparr>;
          seg = (case TCPReceiver_ackno (tc_receiver c) of
                   None \<Rightarrow> seg
                 | Some ackno \<Rightarrow> seg\<lparr>ts_header := (ts_header seg)\<lparr>th_ack := True, th_ackno := ackno,
                     th_win := ucast (TCPReceiver_window_size (tc_receiver c))\<rparr>\<rparr>);
          (seg, c) = (if tc_need_send_rst c
                      then (seg\<lparr>ts_header := (ts_header seg)\<lparr>th_rst := True\<rparr>\<rparr>, c\<lparr>tc_need_send_rst := False\<rparr>)
                      else (seg, c))
      in TCPConnection_send_loop q (c\<lparr>tc_segments_out := tc_segments_out c @ [seg]\<rparr>))"

definition TCPConnection_send_sender_segments :: "TCPConnection \<Rightarrow> TCPConnection" where
  "TCPConnection_send_sender_segments c =
     (let c = (if sn_segments_out (tc_sender c) = [] \<and> tc_need_send_rst c
               then c\<lparr>tc_sender := TCPSender_send_empty_segment (tc_sender c)\<rparr> else c)
      in TCPConnection_clean_shutdown (TCPConnection_send_loop (sn_segments_out (tc_sender c)) c))"

text \<open>\<open>stream_out().set_error()\<close> on the receiver's stream.\<close>

definition TCPReceiver_set_error :: "TCPReceiver \<Rightarrow> TCPReceiver" where
  "TCPReceiver_set_error r =
     r\<lparr>tr_reassembler := (tr_reassembler r)\<lparr>sr_output := ByteStream_set_error (sr_output (tr_reassembler r))\<rparr>\<rparr>"

definition TCPConnection_unclean_shutdown :: "bool \<Rightarrow> TCPConnection \<Rightarrow> TCPConnection" where
  "TCPConnection_unclean_shutdown rst c =
     (let c = c\<lparr>tc_sender := (tc_sender c)\<lparr>sn_stream := ByteStream_set_error (sn_stream (tc_sender c))\<rparr>\<rparr>;
          c = c\<lparr>tc_receiver := TCPReceiver_set_error (tc_receiver c)\<rparr>;
          c = c\<lparr>tc_active := False\<rparr>;
          c = c\<lparr>tc_need_send_rst := rst\<rparr>
      in TCPConnection_send_sender_segments c)"

definition TCPConnection_connect :: "TCPConnection \<Rightarrow> TCPConnection" where
  "TCPConnection_connect c =
     TCPConnection_send_sender_segments (c\<lparr>tc_sender := TCPSender_fill_window (tc_sender c)\<rparr>)"

text \<open>The part of \<open>segment_received\<close> behind the LISTEN, RST and SYN_SENT cases.\<close>

definition TCPConnection_process :: "TCPSegment \<Rightarrow> TCPConnection \<Rightarrow> TCPConnection" where
  "TCPConnection_process seg c =
     (let header = ts_header seg;
          c = c\<lparr>tc_receiver := TCPReceiver_segment_received seg (tc_receiver c)\<rparr>
      in if th_ack header
         then let c = c\<lparr>tc_sender := TCPSender_ack_received (th_ackno header) (th_win header) (tc_sender c)\<rparr>;
                  c = (if TCPSegment_length_in_sequence_space seg > 0 \<and> sn_segments_out (tc_sender c) = []
                       then c\<lparr>tc_sender := TCPSender_send_empty_segment (tc_sender c)\<rparr> else c)
              in TCPConnection_send_sender_segments c
         else c)"

definition TCPConnection_segment_received :: "TCPSegment \<Rightarrow> TCPConnection \<Rightarrow> TCPConnection" where
  "TCPConnection_segment_received seg c =
     (if \<not> tc_active c then c
      else
        let c = c\<lparr>tc_time_since_last_segment_received := 0\<rparr>;
            header = ts_header seg
        in if TCPSender_next_seqno_absolute (tc_sender c) = 0 \<and> TCPReceiver_ackno (tc_receiver c) = None
           then if th_rst header then c
                else if \<not> th_syn header then c
                else TCPConnection_connect
                       (c\<lparr>tc_receiver := TCPReceiver_segment_received seg (tc_receiver c)\<rparr>)
           else if th_rst header then TCPConnection_unclean_shutdown False c
           else if TCPSender_next_seqno_absolute (tc_sender c) > 0
                   \<and> TCPSender_bytes_in_flight (tc_sender c) = TCPSender_next_seqno_absolute (tc_sender c)
           then if Buffer_size (ts_payload seg) > 0 then c
                else if \<not> th_ack header
                then if th_syn header
                     then let c = c\<lparr>tc_receiver := TCPReceiver_segment_received seg (tc_receiver c)\<rparr>;
                              c = c\<lparr>tc_sender := TCPSender_send_empty_segment (tc_sender c)\<rparr>
                          in TCPConnection_send_sender_segments c
                     else c
                else TCPConnection_process seg c
           else TCPConnection_process seg c)"

definition TCPConnection_write :: "bytes \<Rightarrow> TCPConnection \<Rightarrow> u64 \<times> TCPConnection" where
  "TCPConnection_write data c =
     (if data = [] then (0, c)
      else let (ret, s) = TCPSender_write data (tc_sender c);
               c = c\<lparr>tc_sender := TCPSender_fill_window s\<rparr>
           in (ret, TCPConnection_send_sender_segments c))"

definition TCPConnection_tick :: "u64 \<Rightarrow> TCPConnection \<Rightarrow> TCPConnection" where
  "TCPConnection_tick ms_since_last_tick c =
     (if \<not> tc_active c then c
      else let c = c\<lparr>tc_time_since_last_segment_received :=
                      tc_time_since_last_segment_received c + ms_since_last_tick\<rparr>;
               c = c\<lparr>tc_sender := TCPSender_tick ms_since_last_tick (tc_sender c)\<rparr>;
               c = (if TCPSender_consecutive_retransmissions (tc_sender c) > TCPConfig_MAX_RETX_ATTEMPTS
                    then TCPConnection_unclean_shutdown True c else c)
           in TCPConnection_send_sender_segments c)"

definition TCPConnection_end_input_stream :: "TCPConnection \<Rightarrow> TCPConnection" where
  "TCPConnection_end_input_stream c =
     (let c = c\<lparr>tc_sender := TCPSender_end_input (tc_sender c)\<rparr>;
          c = c\<lparr>tc_sender := TCPSender_fill_window (tc_sender c)\<rparr>
      in TCPConnection_send_sender_segments c)"

text \<open>The destructor; what it writes to \<open>cerr\<close> is left out.\<close>

definition TCPConnection_destroy :: "TCPConnection \<Rightarrow> TCPConnection" where
  "TCPConnection_destroy c = (if tc_active c then TCPConnection_unclean_shutdown True c else c)"

text \<open>The application reading from \<open>inbound_stream()\<close>, and the owner taking \<open>segments_out()\<close>.\<close>

definition TCPConnection_read :: "u64 \<Rightarrow> TCPConnection \<Rightarrow> bytes \<times> TCPConnection" where
  "TCPConnection_read n c =
     (let (d, r) = TCPReceiver_read_out n (tc_receiver c) in (d, c\<lparr>tc_receiver := r\<rparr>))"

definition TCPConnection_take_segments :: "TCPConnection \<Rightarrow> TCPSegment list \<times> TCPConnection" where
  "TCPConnection_take_segments c = (tc_segments_out c, c\<lparr>tc_segments_out := []\<rparr>)"

section \<open>What is put on the wire\<close>

text \<open>The stamp on an outgoing segment, and the closed form of \<open>send_sender_segments\<close>.\<close>

definition stamp :: "TCPReceiver \<Rightarrow> bool \<Rightarrow> TCPSegment \<Rightarrow> TCPSegment" where
  "stamp r rst seg =
     (let hdr = (case TCPReceiver_ackno r of
                   None \<Rightarrow> ts_header seg
                 | Some ackno \<Rightarrow> (ts_header seg)\<lparr>th_ack := True, th_ackno := ackno,
                     th_win := ucast (TCPReceiver_window_size r)\<rparr>)
      in seg\<lparr>ts_header := (if rst then hdr\<lparr>th_rst := True\<rparr> else hdr)\<rparr>)"

definition stamps :: "TCPReceiver \<Rightarrow> bool \<Rightarrow> TCPSegment list \<Rightarrow> TCPSegment list" where
  "stamps r rst segs =
     (case segs of [] \<Rightarrow> [] | seg # q \<Rightarrow> stamp r rst seg # map (stamp r False) q)"

lemma stamps_simps [simp]:
  "stamps r rst [] = []" "stamps r rst (seg # q) = stamp r rst seg # map (stamp r False) q"
  by (simp_all add: stamps_def)

lemma stamps_False [simp]: "stamps r False segs = map (stamp r False) segs"
  by (simp add: stamps_def split: list.split)

lemma loop_step:
  assumes "c1 = c\<lparr>tc_sender := (tc_sender c)\<lparr>sn_segments_out := q\<rparr>, tc_need_send_rst := False,
    tc_segments_out := tc_segments_out c @ [stamp (tc_receiver c) (tc_need_send_rst c) seg]\<rparr>"
  shows "TCPConnection_send_loop (seg # q) c = TCPConnection_send_loop q c1"
proof (cases "tc_need_send_rst c")
  case True
  then show ?thesis
    by (cases "TCPReceiver_ackno (tc_receiver c)") (simp_all add: Let_def stamp_def assms)
next
  case False
  then have "c1 = c\<lparr>tc_sender := (tc_sender c)\<lparr>sn_segments_out := q\<rparr>,
        tc_segments_out := tc_segments_out c @ [stamp (tc_receiver c) False seg]\<rparr>"
    by (cases c) (simp add: assms)
  with False show ?thesis
    by (cases "TCPReceiver_ackno (tc_receiver c)") (simp_all add: Let_def stamp_def)
qed

lemma send_loop_eq:
  "q = sn_segments_out (tc_sender c) \<Longrightarrow> TCPConnection_send_loop q c =
     c\<lparr>tc_sender := (tc_sender c)\<lparr>sn_segments_out := []\<rparr>,
       tc_segments_out := tc_segments_out c @ stamps (tc_receiver c) (tc_need_send_rst c) q,
       tc_need_send_rst := (tc_need_send_rst c \<and> q = [])\<rparr>"
proof (induction q arbitrary: c)
  case (Cons seg q)
  define c1 where "c1 = c\<lparr>tc_sender := (tc_sender c)\<lparr>sn_segments_out := q\<rparr>, tc_need_send_rst := False,
    tc_segments_out := tc_segments_out c @ [stamp (tc_receiver c) (tc_need_send_rst c) seg]\<rparr>"
  have "TCPConnection_send_loop (seg # q) c = TCPConnection_send_loop q c1"
    by (intro loop_step) (simp add: c1_def)
  also have "\<dots> = c1\<lparr>tc_sender := (tc_sender c1)\<lparr>sn_segments_out := []\<rparr>,
       tc_segments_out := tc_segments_out c1 @ stamps (tc_receiver c1) (tc_need_send_rst c1) q,
       tc_need_send_rst := (tc_need_send_rst c1 \<and> q = [])\<rparr>"
    by (rule Cons.IH) (simp add: c1_def)
  finally show ?case by (simp add: c1_def)
qed simp

text \<open>The sender when its queue is emptied: an empty segment if there was none to carry a reset.\<close>

definition outgoing :: "TCPConnection \<Rightarrow> TCPSegment list" where
  "outgoing c = (if sn_segments_out (tc_sender c) = [] \<and> tc_need_send_rst c
     then sn_segments_out (TCPSender_send_empty_segment (tc_sender c)) else sn_segments_out (tc_sender c))"

definition flushed :: "TCPConnection \<Rightarrow> TCPConnection" where
  "flushed c = c\<lparr>tc_sender := (tc_sender c)\<lparr>sn_segments_out := []\<rparr>,
     tc_segments_out := tc_segments_out c @ stamps (tc_receiver c) (tc_need_send_rst c) (outgoing c),
     tc_need_send_rst := False\<rparr>"

lemma send_empty_not_empty [simp]: "sn_segments_out (TCPSender_send_empty_segment s) \<noteq> []"
  by (simp add: TCPSender_send_empty_segment_def Let_def)

lemma send_empty_flushed [simp]:
  "(TCPSender_send_empty_segment s)\<lparr>sn_segments_out := q\<rparr> = s\<lparr>sn_segments_out := q\<rparr>"
  by (simp add: TCPSender_send_empty_segment_def Let_def)

lemma send_sender_segments_eq:
  "TCPConnection_send_sender_segments c = TCPConnection_clean_shutdown (flushed c)"
proof -
  let ?s = "tc_sender c"
  have r: "(tc_need_send_rst c \<and> sn_segments_out ?s = []) = False"
    if "\<not> (sn_segments_out ?s = [] \<and> tc_need_send_rst c)" using that by blast
  show ?thesis
    by (cases "sn_segments_out ?s = [] \<and> tc_need_send_rst c")
      (simp_all add: TCPConnection_send_sender_segments_def flushed_def outgoing_def send_loop_eq [OF refl] r
        del: de_Morgan_conj)
qed

lemma flushed_frame [simp]:
  "tc_cfg (flushed c) = tc_cfg c" "tc_receiver (flushed c) = tc_receiver c"
  "tc_sender (flushed c) = (tc_sender c)\<lparr>sn_segments_out := []\<rparr>"
  "tc_linger_after_streams_finish (flushed c) = tc_linger_after_streams_finish c"
  "tc_time_since_last_segment_received (flushed c) = tc_time_since_last_segment_received c"
  "tc_active (flushed c) = tc_active c" "\<not> tc_need_send_rst (flushed c)"
  "tc_segments_out (flushed c)
     = tc_segments_out c @ stamps (tc_receiver c) (tc_need_send_rst c) (outgoing c)"
  by (simp_all add: flushed_def)

lemma clean_shutdown_frame [simp]:
  "tc_cfg (TCPConnection_clean_shutdown c) = tc_cfg c"
  "tc_receiver (TCPConnection_clean_shutdown c) = tc_receiver c"
  "tc_sender (TCPConnection_clean_shutdown c) = tc_sender c"
  "tc_segments_out (TCPConnection_clean_shutdown c) = tc_segments_out c"
  "tc_time_since_last_segment_received (TCPConnection_clean_shutdown c) = tc_time_since_last_segment_received c"
  "tc_need_send_rst (TCPConnection_clean_shutdown c) = tc_need_send_rst c"
  by (simp_all add: TCPConnection_clean_shutdown_def)

text \<open>When the connection is over, and when it will not linger.\<close>

definition streams_done :: "TCPConnection \<Rightarrow> bool" where
  "streams_done c =
     (ByteStream_input_ended (TCPConnection_inbound_stream c) \<and> TCPSender_is_fin (tc_sender c)
      \<and> TCPSender_bytes_in_flight (tc_sender c) = 0)"

definition lingered :: "TCPConnection \<Rightarrow> bool" where
  "lingered c = (\<not> tc_linger_after_streams_finish c
     \<or> tc_time_since_last_segment_received c \<ge> 10 * ucast (cfg_rt_timeout (tc_cfg c)))"

lemma clean_shutdown_active:
  "tc_active (TCPConnection_clean_shutdown c) \<longleftrightarrow> tc_active c \<and> \<not> (streams_done c \<and> lingered c)"
  by (auto simp: TCPConnection_clean_shutdown_def streams_done_def lingered_def TCPConnection_inbound_stream_def)

lemma clean_shutdown_linger:
  "tc_linger_after_streams_finish (TCPConnection_clean_shutdown c) \<longleftrightarrow>
   tc_linger_after_streams_finish c
   \<and> \<not> (ByteStream_input_ended (TCPConnection_inbound_stream c) \<and> \<not> TCPSender_is_fin (tc_sender c))"
  by (auto simp: TCPConnection_clean_shutdown_def TCPConnection_inbound_stream_def)

section \<open>The invariant\<close>

text \<open>
  \<open>S\<close> is the stream this endpoint writes, from the initial sequence number \<open>i\<close>; \<open>T\<close> and \<open>j\<close> are the
  peer's. A segment on the wire is a reset, or a piece of the stream it belongs to.
\<close>

definition wire_seg :: "bytes \<Rightarrow> WrappingInt32 \<Rightarrow> TCPSegment \<Rightarrow> bool" where
  "wire_seg S i seg = (wire_ok seg \<and> (th_rst (ts_header seg) \<or> on_wire S i seg))"

definition tc_pre :: "bytes \<Rightarrow> bytes \<Rightarrow> WrappingInt32 \<Rightarrow> WrappingInt32 \<Rightarrow> TCPConnection \<Rightarrow> bool" where
  "tc_pre S T i j c =
     (sn_ok S (tc_sender c) \<and> sn_isn (tc_sender c) = i \<and> tr_ok T j (tc_receiver c)
      \<and> length T + 3 < W31 \<and> (tr_syn (tc_receiver c) \<longrightarrow> sn_syn (tc_sender c))
      \<and> list_all (wire_seg S i) (tc_segments_out c))"

definition tc_ok :: "bytes \<Rightarrow> bytes \<Rightarrow> WrappingInt32 \<Rightarrow> WrappingInt32 \<Rightarrow> TCPConnection \<Rightarrow> bool" where
  "tc_ok S T i j c =
     (tc_pre S T i j c \<and> sn_segments_out (tc_sender c) = [] \<and> \<not> tc_need_send_rst c)"

lemma tc_ok_pre: "tc_ok S T i j c \<Longrightarrow> tc_pre S T i j c"
  by (simp add: tc_ok_def)

lemma stamp_frame [simp]:
  "th_seqno (ts_header (stamp r rst seg)) = th_seqno (ts_header seg)"
  "th_syn (ts_header (stamp r rst seg)) = th_syn (ts_header seg)"
  "th_fin (ts_header (stamp r rst seg)) = th_fin (ts_header seg)"
  "th_doff (ts_header (stamp r rst seg)) = th_doff (ts_header seg)"
  "th_rst (ts_header (stamp r rst seg)) \<longleftrightarrow> rst \<or> th_rst (ts_header seg)"
  "ts_payload (stamp r rst seg) = ts_payload seg"
  "seg_data (stamp r rst seg) = seg_data seg"
  by (simp_all add: stamp_def Let_def seg_data_def split: option.split)

lemma stamp_wire [simp]:
  "wire_ok (stamp r rst seg) \<longleftrightarrow> wire_ok seg" "on_wire S i (stamp r rst seg) \<longleftrightarrow> on_wire S i seg"
  by (simp_all add: wire_ok_def segment_sendable_def on_wire_def piece_def carries_def)

lemma on_wire_ok: "on_wire S i seg \<Longrightarrow> wire_ok seg"
  by (auto simp: on_wire_def piece_def)

lemma stamps_wire:
  assumes "\<forall>seg \<in> set segs. wire_ok seg \<and> (rst \<or> on_wire S i seg)" "rst \<longrightarrow> list_all (on_wire S i) (tl segs)"
  shows "list_all (wire_seg S i) (stamps r rst segs)"
  using assms on_wire_ok
  by (cases segs) (fastforce simp: wire_seg_def list_all_iff)+

lemma empty_segment_wire:
  "sn_segments_out s = [] \<Longrightarrow> \<exists>seg. sn_segments_out (TCPSender_send_empty_segment s) = [seg] \<and> wire_ok seg"
  by (simp add: TCPSender_send_empty_segment_def Let_def wire_ok_def segment_sendable_def TCPSegment_new_def
      TCPHeader_new_def TCPHeader_LENGTH_def)

lemma sn_ok_flush: "sn_ok S s \<Longrightarrow> sn_ok S (s\<lparr>sn_segments_out := []\<rparr>)"
  by (simp add: sn_ok_def Let_def)

lemma outgoing_wire:
  assumes "sn_ok S (tc_sender c)" "sn_isn (tc_sender c) = i"
  shows "list_all (wire_seg S i) (stamps r (tc_need_send_rst c) (outgoing c))"
proof (cases "sn_segments_out (tc_sender c) = [] \<and> tc_need_send_rst c")
  case True
  then show ?thesis using empty_segment_wire [of "tc_sender c"] by (auto simp: outgoing_def wire_seg_def)
next
  case False
  have o: "list_all (on_wire S i) (sn_segments_out (tc_sender c))" using sn_okD(10) [OF assms(1)] assms(2) by simp
  then have "list_all (on_wire S i) (tl (sn_segments_out (tc_sender c)))"
    by (cases "sn_segments_out (tc_sender c)") simp_all
  moreover have "outgoing c = sn_segments_out (tc_sender c)" using False by (auto simp: outgoing_def)
  ultimately show ?thesis using o on_wire_ok by (intro stamps_wire) (auto simp: list_all_iff)
qed

lemma tc_ok_clean [simp]: "tc_ok S T i j (TCPConnection_clean_shutdown c) \<longleftrightarrow> tc_ok S T i j c"
  by (simp add: tc_ok_def tc_pre_def)

lemma send_sender_segments_ok:
  "tc_pre S T i j c \<Longrightarrow> tc_ok S T i j (TCPConnection_send_sender_segments c)"
  using outgoing_wire [of S c i "tc_receiver c"]
  by (simp add: send_sender_segments_eq tc_ok_def tc_pre_def sn_ok_flush)

lemma set_error_frame [simp]:
  "bs_ok (ByteStream_set_error bs) = bs_ok bs" "bs_content (ByteStream_set_error bs) = bs_content bs"
  "bs_read_count (ByteStream_set_error bs) = bs_read_count bs"
  "bs_write_count (ByteStream_set_error bs) = bs_write_count bs"
  "bs_capacity (ByteStream_set_error bs) = bs_capacity bs"
  "bs_input_ended_flag (ByteStream_set_error bs) = bs_input_ended_flag bs"
  "bs_error (ByteStream_set_error bs)"
  by (simp_all add: ByteStream_set_error_def bs_ok_def bs_content_def)

lemma sn_ok_set_error: "sn_ok S s \<Longrightarrow> sn_ok S (s\<lparr>sn_stream := ByteStream_set_error (sn_stream s)\<rparr>)"
  by (simp add: sn_ok_def Let_def)

lemma tr_ok_set_error [simp]: "tr_ok T j (TCPReceiver_set_error r) \<longleftrightarrow> tr_ok T j r"
  by (simp add: tr_ok_def TCPReceiver_set_error_def sr_ok_def Let_def)

lemma unclean_shutdown_ok:
  assumes "tc_pre S T i j c"
  shows "tc_ok S T i j (TCPConnection_unclean_shutdown rst c)"
proof -
  have "tr_syn (TCPReceiver_set_error r) = tr_syn r" for r by (simp add: TCPReceiver_set_error_def)
  with assms show ?thesis
    unfolding TCPConnection_unclean_shutdown_def Let_def
    by (intro send_sender_segments_ok) (simp add: tc_pre_def sn_ok_set_error)
qed

text \<open>Every operation keeps the invariant.\<close>

lemma tc_preI:
  assumes "tc_pre S T i j c" "sn_ok S s" "sn_input s = sn_input (tc_sender c)" "sn_syn (tc_sender c) \<Longrightarrow> sn_syn s"
  shows "tc_pre S T i j (c\<lparr>tc_sender := s\<rparr>)"
  using assms by (simp add: tc_pre_def sn_input_def)

lemma tc_pre_frame [simp]:
  "tc_pre S T i j (c\<lparr>tc_time_since_last_segment_received := t\<rparr>) = tc_pre S T i j c"
  "tc_ok S T i j (c\<lparr>tc_time_since_last_segment_received := t\<rparr>) = tc_ok S T i j c"
  by (simp_all add: tc_ok_def tc_pre_def)

lemma receive_ok:
  assumes "tc_pre S T i j c" "on_wire T j seg" "sn_syn (tc_sender c)"
  shows "tc_pre S T i j (c\<lparr>tc_receiver := TCPReceiver_segment_received seg (tc_receiver c)\<rparr>)"
proof -
  obtain a where a: "unat a \<le> length T + 2" "carries T j a seg" using assms(2) by (auto simp: on_wire_def piece_def)
  have r: "tr_ok T j (tc_receiver c)" "length T + 3 < W31" using assms(1) by (simp_all add: tc_pre_def)
  from segment_received_ok [OF r(1) a(2) near_short [OF r a(1)]] assms show ?thesis by (simp add: tc_pre_def)
qed

lemma fill_loop_syn: "sn_syn (snd (TCPSender_fill_loop fuel remain s)) = sn_syn s"
proof (induction fuel arbitrary: remain s)
  case (Suc fuel)
  obtain r1 s1 where st: "TCPSender_fill_step remain s = (r1, s1)" by fastforce
  then have "sn_syn s1 = sn_syn s" by (auto simp: fill_step_eq Let_def)
  with Suc.IH [of r1 s1] st show ?case by simp
qed simp

lemma fill_window_syn: "sn_syn (TCPSender_fill_window s)"
proof (cases "sn_syn s")
  case True
  obtain r s1 where l: "TCPSender_fill_loop (unat (ByteStream_buffer_size (sn_stream s)))
      (TCPSender_window_remain s) s = (r, s1)" by fastforce
  have "sn_syn s1" using fill_loop_syn [of _ "TCPSender_window_remain s" s] l True by (metis snd_conv)
  with True l show ?thesis by (simp add: TCPSender_fill_window_def send_fin_eq)
qed (simp add: TCPSender_fill_window_def TCPSender_send_syn_def Let_def)

lemma fill_window_pre:
  assumes "tc_pre S T i j c"
  shows "tc_pre S T i j (c\<lparr>tc_sender := TCPSender_fill_window (tc_sender c)\<rparr>)"
proof (rule tc_preI [OF assms])
  show "sn_ok S (TCPSender_fill_window (tc_sender c))" using fill_window_ok assms by (auto simp: tc_pre_def)
qed (simp_all add: fill_window_syn)

lemma connect_ok: "tc_pre S T i j c \<Longrightarrow> tc_ok S T i j (TCPConnection_connect c)"
  unfolding TCPConnection_connect_def by (intro send_sender_segments_ok fill_window_pre)

lemma pop_acked_syn [simp]: "sn_syn (TCPSender_pop_acked q k s) = sn_syn s"
  by (induction q arbitrary: s) (simp_all add: Let_def)

lemma ack_received_syn: "sn_syn s \<Longrightarrow> sn_syn (TCPSender_ack_received ackno win s)"
  by (auto simp: TCPSender_ack_received_def Let_def fill_window_syn split: list.splits)

lemma ack_received_pre:
  assumes "tc_pre S T i j c"
  shows "tc_pre S T i j (c\<lparr>tc_sender := TCPSender_ack_received ackno win (tc_sender c)\<rparr>)"
  using assms by (intro tc_preI [OF assms]) (simp_all add: ack_received_ok ack_received_syn tc_pre_def)

lemma send_empty_syn [simp]: "sn_syn (TCPSender_send_empty_segment s) = sn_syn s"
  by (simp add: TCPSender_send_empty_segment_def Let_def)

lemma send_empty_pre:
  assumes "tc_pre S T i j c" "sn_syn (tc_sender c)"
  shows "tc_pre S T i j (c\<lparr>tc_sender := TCPSender_send_empty_segment (tc_sender c)\<rparr>)"
  using assms by (intro tc_preI [OF assms(1)]) (simp_all add: send_empty_segment_ok tc_pre_def)

lemma receive_tc_ok:
  assumes "tc_ok S T i j c" "on_wire T j seg" "sn_syn (tc_sender c)"
  shows "tc_ok S T i j (c\<lparr>tc_receiver := TCPReceiver_segment_received seg (tc_receiver c)\<rparr>)"
  using receive_ok [OF tc_ok_pre [OF assms(1)] assms(2,3)] assms(1) by (simp add: tc_ok_def)

lemma process_ok:
  assumes "tc_ok S T i j c" "on_wire T j seg" "sn_syn (tc_sender c)"
  shows "tc_ok S T i j (TCPConnection_process seg c)"
proof -
  define c1 where "c1 = c\<lparr>tc_receiver := TCPReceiver_segment_received seg (tc_receiver c)\<rparr>"
  define c2 where "c2 = c1\<lparr>tc_sender := TCPSender_ack_received (th_ackno (ts_header seg)) (th_win (ts_header seg))
    (tc_sender c1)\<rparr>"
  have 1: "tc_ok S T i j c1" unfolding c1_def by (rule receive_tc_ok [OF assms])
  have 2: "tc_pre S T i j c2" unfolding c2_def by (rule ack_received_pre [OF tc_ok_pre [OF 1]])
  have "sn_syn (tc_sender c2)" using assms(3) by (simp add: c1_def c2_def ack_received_syn)
  note 3 = send_empty_pre [OF 2 this]
  show ?thesis
    unfolding TCPConnection_process_def Let_def c1_def [symmetric] c2_def [symmetric]
    using 1 send_sender_segments_ok [OF 2] send_sender_segments_ok [OF 3] by simp
qed

text \<open>Before the SYN is sent nothing was received, so the connection is in the LISTEN case.\<close>

lemma listen_iff:
  assumes "tc_ok S T i j c"
  shows "TCPSender_next_seqno_absolute (tc_sender c) = 0 \<and> TCPReceiver_ackno (tc_receiver c) = None
    \<longleftrightarrow> \<not> sn_syn (tc_sender c)"
proof -
  have ok: "sn_ok S (tc_sender c)" "tr_syn (tc_receiver c) \<longrightarrow> sn_syn (tc_sender c)"
    using assms by (simp_all add: tc_ok_def tc_pre_def)
  from sn_okD(6,7) [OF ok(1)] have "sn_next_seqno (tc_sender c) = 0 \<longleftrightarrow> \<not> sn_syn (tc_sender c)" by auto
  with ok(2) show ?thesis by (auto simp: TCPSender_next_seqno_absolute_def TCPReceiver_ackno_def)
qed

lemma sender_receiver_commute:
  "c\<lparr>tc_receiver := r, tc_sender := s\<rparr> = c\<lparr>tc_sender := s, tc_receiver := r\<rparr>"
  by (cases c) simp

lemma tc_segment_received_ok:
  assumes ok: "tc_ok S T i j c" and w: "wire_seg T j seg"
  shows "tc_ok S T i j (TCPConnection_segment_received seg c)"
proof (cases "tc_active c")
  case True
  define c0 where "c0 = c\<lparr>tc_time_since_last_segment_received := 0\<rparr>"
  have ok0: "tc_ok S T i j c0" using ok by (simp add: c0_def)
  note L = listen_iff [OF ok0]
  have on: "\<not> th_rst (ts_header seg) \<Longrightarrow> on_wire T j seg" using w by (simp add: wire_seg_def)
  have pass: "tc_ok S T i j (TCPConnection_connect (c0\<lparr>tc_receiver := TCPReceiver_segment_received seg (tc_receiver c0)\<rparr>))"
    if "\<not> th_rst (ts_header seg)" "th_syn (ts_header seg)"
  proof -
    define c1 where "c1 = c0\<lparr>tc_sender := TCPSender_fill_window (tc_sender c0)\<rparr>"
    have "tc_pre S T i j c1" unfolding c1_def by (rule fill_window_pre [OF tc_ok_pre [OF ok0]])
    then have "tc_pre S T i j (c1\<lparr>tc_receiver := TCPReceiver_segment_received seg (tc_receiver c1)\<rparr>)"
      using that on by (intro receive_ok) (simp_all add: c1_def fill_window_syn)
    from send_sender_segments_ok [OF this] show ?thesis
      by (simp add: c1_def TCPConnection_connect_def sender_receiver_commute)
  qed
  have sim: "tc_ok S T i j (TCPConnection_send_sender_segments
      (c0\<lparr>tc_receiver := TCPReceiver_segment_received seg (tc_receiver c0),
          tc_sender := TCPSender_send_empty_segment (tc_sender c0)\<rparr>))"
    if "\<not> th_rst (ts_header seg)" "sn_syn (tc_sender c0)"
    using send_empty_pre [OF receive_ok [OF tc_ok_pre [OF ok0] on]] that
    by (intro send_sender_segments_ok) simp
  show ?thesis
    unfolding TCPConnection_segment_received_def Let_def c0_def [symmetric] L
    using True ok0 on pass sim process_ok [OF ok0] unclean_shutdown_ok [OF tc_ok_pre [OF ok0], of False]
    by simp
qed (simp add: TCPConnection_segment_received_def ok)

lemma sn_input_isn: "sn_input s = sn_input s' \<Longrightarrow> sn_isn s = sn_isn s'"
  by (simp add: sn_input_def)

lemma tick_syn [simp]: "sn_syn (TCPSender_tick ms s) = sn_syn s"
  by (simp add: TCPSender_tick_def Let_def split: list.split)

lemma tc_tick_ok:
  assumes "tc_ok S T i j c"
  shows "tc_ok S T i j (TCPConnection_tick ms c)"
proof -
  define c1 where "c1 = c\<lparr>tc_time_since_last_segment_received := tc_time_since_last_segment_received c + ms,
    tc_sender := TCPSender_tick ms (tc_sender c)\<rparr>"
  have 1: "tc_pre S T i j c1" using assms by (simp add: c1_def tc_ok_def tc_pre_def tick_ok sn_input_isn [OF tick_input])
  have "TCPConnection_tick ms c = (if \<not> tc_active c then c else TCPConnection_send_sender_segments
      (if TCPSender_consecutive_retransmissions (tc_sender c1) > TCPConfig_MAX_RETX_ATTEMPTS
       then TCPConnection_unclean_shutdown True c1 else c1))"
    by (simp add: TCPConnection_tick_def c1_def Let_def)
  moreover note send_sender_segments_ok [OF 1] send_sender_segments_ok [OF tc_ok_pre [OF unclean_shutdown_ok [OF 1]]]
  ultimately show ?thesis using assms by simp
qed

lemma tc_destroy_ok: "tc_ok S T i j c \<Longrightarrow> tc_ok S T i j (TCPConnection_destroy c)"
  by (simp add: TCPConnection_destroy_def unclean_shutdown_ok tc_ok_pre)

lemma tc_read_ok:
  assumes "tc_ok S T i j c" "TCPConnection_read n c = (d, c')"
  shows "tc_ok S T i j c'
    \<and> take (unat (bs_read_count (TCPConnection_inbound_stream c))) T @ d
      = take (unat (bs_read_count (TCPConnection_inbound_stream c'))) T"
proof -
  obtain r where r: "TCPReceiver_read_out n (tc_receiver c) = (d, r)" "c' = c\<lparr>tc_receiver := r\<rparr>"
    using assms(2) by (auto simp: TCPConnection_read_def split: prod.splits)
  have "tr_syn r = tr_syn (tc_receiver c)" using r(1) by (auto simp: TCPReceiver_read_out_def split: prod.splits)
  moreover have "tr_ok T j (tc_receiver c)" using assms(1) by (simp add: tc_ok_def tc_pre_def)
  ultimately show ?thesis
    using tr_read_out_ok [OF _ r(1)] assms(1)
    by (simp add: r(2) tc_ok_def tc_pre_def TCPConnection_inbound_stream_def)
qed

lemma tc_take_segments_ok:
  assumes "tc_ok S T i j c" "TCPConnection_take_segments c = (segs, c')"
  shows "tc_ok S T i j c' \<and> list_all (wire_seg S i) segs"
  using assms by (auto simp: TCPConnection_take_segments_def tc_ok_def tc_pre_def)

text \<open>The writer's calls go along with the stream \<open>S\<close>.\<close>

definition tc_accepted :: "bytes \<Rightarrow> TCPConnection \<Rightarrow> bytes" where
  "tc_accepted data c = bs_accepted data (sn_stream (tc_sender c))"

definition tc_written :: "TCPConnection \<Rightarrow> nat" where
  "tc_written c = sn_written (tc_sender c)"

definition tc_ended :: "TCPConnection \<Rightarrow> bool" where
  "tc_ended c = ByteStream_input_ended (sn_stream (tc_sender c))"

lemma tc_write_ok:
  assumes ok: "tc_ok S T i j c" and d: "length data < W64" "\<not> tc_ended c"
    and S: "tc_written c + length (tc_accepted data c) \<le> length S"
      "take (length (tc_accepted data c)) (drop (tc_written c) S) = tc_accepted data c"
  shows "tc_ok S T i j (snd (TCPConnection_write data c))"
proof (cases "data = []")
  case False
  obtain ret s where w: "TCPSender_write data (tc_sender c) = (ret, s)" by fastforce
  have "sn_ok S (tc_sender c)" using ok by (simp add: tc_ok_def tc_pre_def)
  then have "sn_ok S s"
    using write_ok(1) [of S "tc_sender c" data] d S w
    by (simp add: tc_ended_def tc_written_def tc_accepted_def ByteStream_input_ended_def)
  moreover have "sn_isn s = sn_isn (tc_sender c)" "sn_syn s = sn_syn (tc_sender c)"
    using w by (auto simp: TCPSender_write_def split: prod.splits)
  ultimately have "tc_pre S T i j (c\<lparr>tc_sender := s\<rparr>)" using ok by (simp add: tc_ok_def tc_pre_def)
  from send_sender_segments_ok [OF fill_window_pre [OF this]] show ?thesis
    using False w by (simp add: TCPConnection_write_def)
qed (simp add: TCPConnection_write_def ok)

lemma tc_end_input_ok:
  assumes ok: "tc_ok S T i j c" and "tc_written c = length S"
  shows "tc_ok S T i j (TCPConnection_end_input_stream c)"
proof -
  have "sn_ok S (tc_sender c)" using ok by (simp add: tc_ok_def tc_pre_def)
  then have "sn_ok S (TCPSender_end_input (tc_sender c))"
    using assms(2) by (simp add: end_input_ok tc_written_def)
  moreover have "sn_isn (TCPSender_end_input s) = sn_isn s" "sn_syn (TCPSender_end_input s) = sn_syn s" for s
    by (simp_all add: TCPSender_end_input_def)
  ultimately have "tc_pre S T i j (c\<lparr>tc_sender := TCPSender_end_input (tc_sender c)\<rparr>)"
    using ok by (simp add: tc_ok_def tc_pre_def)
  from send_sender_segments_ok [OF fill_window_pre [OF this]] show ?thesis
    by (simp add: TCPConnection_end_input_stream_def)
qed

lemma tc_ok_new:
  assumes "length S + 3 < W31" "length T + 3 < W31" "length T + unat (cfg_recv_capacity cfg) < W64"
  shows "tc_ok S T (sn_isn (tc_sender (TCPConnection_new cfg random))) j (TCPConnection_new cfg random)"
proof -
  let ?s = "TCPSender_new (cfg_send_capacity cfg) (cfg_rt_timeout cfg) (cfg_fixed_isn cfg) random"
  have "sn_ok S ?s" "tr_ok T j (TCPReceiver_new (cfg_recv_capacity cfg))"
    using assms by (simp_all add: sn_ok_new tr_ok_new)
  moreover have "sn_segments_out ?s = []" "\<not> tr_syn (TCPReceiver_new (cfg_recv_capacity cfg))"
    by (simp_all add: TCPSender_new_def TCPReceiver_new_def)
  ultimately show ?thesis using assms(2) by (simp add: tc_ok_def tc_pre_def TCPConnection_new_def)
qed

section \<open>Resets\<close>

lemma unclean_shutdown_result:
  fixes rst c
  defines "c' \<equiv> TCPConnection_unclean_shutdown rst c"
  shows "TCPConnection_state c' = TCPState_of_State RESET" "\<not> tc_active c'"
    "sn_segments_out (tc_sender c) = [] \<Longrightarrow> \<not> rst \<Longrightarrow> tc_segments_out c' = tc_segments_out c"
    "rst \<Longrightarrow> \<exists>seg q. tc_segments_out c' = tc_segments_out c @ seg # q \<and> th_rst (ts_header seg)"
    "sn_segments_out (tc_sender c') = []" "\<not> tc_need_send_rst c'"
proof -
  define c1 where "c1 = c\<lparr>tc_sender := (tc_sender c)\<lparr>sn_stream := ByteStream_set_error (sn_stream (tc_sender c))\<rparr>,
    tc_receiver := TCPReceiver_set_error (tc_receiver c), tc_active := False, tc_need_send_rst := rst\<rparr>"
  have c': "c' = TCPConnection_clean_shutdown (flushed c1)"
    by (simp add: c'_def c1_def TCPConnection_unclean_shutdown_def send_sender_segments_eq Let_def)
  have e: "bs_error (sn_stream (tc_sender c1))" "bs_error (TCPReceiver_stream_out (tc_receiver c1))"
    by (simp_all add: c1_def TCPReceiver_set_error_def TCPReceiver_stream_out_def)
  show a: "\<not> tc_active c'" by (simp add: c' clean_shutdown_active) (simp add: c1_def)
  show "TCPConnection_state c' = TCPState_of_State RESET"
    using a e by (simp add: c' TCPConnection_state_def TCPState_of_parts_def TCPState_of_State_def
        sender_state_summary_def receiver_state_summary_def TCPState_default_def)
  show "sn_segments_out (tc_sender c) = [] \<Longrightarrow> \<not> rst \<Longrightarrow> tc_segments_out c' = tc_segments_out c"
    by (simp add: c' outgoing_def c1_def)
  show "\<exists>seg q. tc_segments_out c' = tc_segments_out c @ seg # q \<and> th_rst (ts_header seg)" if rst
  proof -
    have "tc_need_send_rst c1" using that by (simp add: c1_def)
    then have "outgoing c1 \<noteq> []" by (simp add: outgoing_def)
    then obtain seg q where "outgoing c1 = seg # q" by (cases "outgoing c1") auto
    then show ?thesis using that by (simp add: c') (simp add: c1_def)
  qed
  show "sn_segments_out (tc_sender c') = []" "\<not> tc_need_send_rst c'" by (simp_all add: c')
qed

text \<open>The LISTEN case of \<open>segment_received\<close>: nothing sent and nothing received.\<close>

definition in_listen :: "TCPConnection \<Rightarrow> bool" where
  "in_listen c = (TCPSender_next_seqno_absolute (tc_sender c) = 0 \<and> TCPReceiver_ackno (tc_receiver c) = None)"

text \<open>
  C17: a reset. In LISTEN a segment with RST only resets the clock. Once the peer's SYN has arrived, and
  in SYN_SENT if the segment also acknowledges the SYN that was sent, it closes the connection: both
  streams are in the error state, the connection is inactive, its state is RESET, and nothing is sent
  in reply.
\<close>

theorem rst_received:
  assumes "tc_active c" "th_rst (ts_header seg)" "sn_segments_out (tc_sender c) = []"
    "in_listen c \<or> TCPReceiver_ackno (tc_receiver c) \<noteq> None
      \<or> th_ack (ts_header seg) \<and> th_ackno (ts_header seg) = TCPSender_next_seqno (tc_sender c)"
  shows "if in_listen c
    then TCPConnection_segment_received seg c = c\<lparr>tc_time_since_last_segment_received := 0\<rparr>
    else TCPConnection_state (TCPConnection_segment_received seg c) = TCPState_of_State RESET
      \<and> \<not> tc_active (TCPConnection_segment_received seg c)
      \<and> tc_segments_out (TCPConnection_segment_received seg c) = tc_segments_out c"
  using assms unclean_shutdown_result
    [where rst = False and c = "c\<lparr>tc_time_since_last_segment_received := 0\<rparr>"]
  by (auto simp: TCPConnection_segment_received_def in_listen_def)

definition demo_cfg :: "u32 \<Rightarrow> TCPConfig" where
  "demo_cfg isn = TCPConfig_new\<lparr>cfg_fixed_isn := Some isn\<rparr>"

definition demo_client :: TCPConnection where
  "demo_client = TCPConnection_connect (TCPConnection_new (demo_cfg 7) 0)"

definition demo_rst :: TCPSegment where
  "demo_rst = TCPSegment_new\<lparr>ts_header := TCPHeader_new\<lparr>th_rst := True\<rparr>\<rparr>"

text \<open>
  In SYN_SENT the code does not look for an acknowledgment: a segment with RST alone closes the
  connection too.
\<close>

lemma rst_without_ack_in_syn_sent:
  "TCPConnection_state demo_client = TCPState_of_State SYN_SENT \<and> \<not> th_ack (ts_header demo_rst)
   \<and> TCPConnection_state (TCPConnection_segment_received demo_rst demo_client) = TCPState_of_State RESET"
proof -
  have "tc_active demo_client" "th_rst (ts_header demo_rst)" "sn_segments_out (tc_sender demo_client) = []"
    "\<not> in_listen demo_client" "TCPConnection_state demo_client = TCPState_of_State SYN_SENT" "\<not> th_ack (ts_header demo_rst)"
    by code_simp+
  then show ?thesis
    using unclean_shutdown_result [where rst = False and c = "demo_client\<lparr>tc_time_since_last_segment_received := 0\<rparr>"]
    by (auto simp: TCPConnection_segment_received_def in_listen_def)
qed

section \<open>Replies\<close>

lemma stamp_ack:
  "TCPReceiver_ackno r = Some ackno \<Longrightarrow> th_ack (ts_header (stamp r rst seg))
     \<and> th_ackno (ts_header (stamp r rst seg)) = ackno
     \<and> th_win (ts_header (stamp r rst seg)) = ucast (TCPReceiver_window_size r)"
  by (simp add: stamp_def Let_def)

lemma process_sends:
  assumes "th_ack (ts_header seg)" "TCPSegment_length_in_sequence_space seg > 0" "\<not> tc_need_send_rst c"
  shows "\<exists>segs. segs \<noteq> [] \<and> tc_segments_out (TCPConnection_process seg c)
      = tc_segments_out c @ map (stamp (tc_receiver (TCPConnection_process seg c)) False) segs"
proof -
  define c1 where "c1 = c\<lparr>tc_receiver := TCPReceiver_segment_received seg (tc_receiver c),
    tc_sender := TCPSender_ack_received (th_ackno (ts_header seg)) (th_win (ts_header seg)) (tc_sender c)\<rparr>"
  define c2 where "c2 = (if sn_segments_out (tc_sender c1) = []
    then c1\<lparr>tc_sender := TCPSender_send_empty_segment (tc_sender c1)\<rparr> else c1)"
  have p: "TCPConnection_process seg c = TCPConnection_clean_shutdown (flushed c2)"
    using assms(1,2) by (simp add: TCPConnection_process_def Let_def c1_def c2_def send_sender_segments_eq)
  have "outgoing c2 \<noteq> []" "\<not> tc_need_send_rst c2" "tc_segments_out c2 = tc_segments_out c"
    using assms(3) by (auto simp: c2_def c1_def outgoing_def)
  then show ?thesis unfolding p by (intro exI [of _ "outgoing c2"]) simp
qed

text \<open>
  C14: acknowledgments. While the connection is active, out of LISTEN and with its SYN acknowledged,
  every segment with ACK and without RST that occupies sequence space is answered at once; every
  segment of the answer carries the receiver's current acknowledgment number and the low sixteen bits
  of its window.
\<close>

theorem segment_answered:
  assumes "tc_active c" "\<not> tc_need_send_rst c" "\<not> in_listen c"
    "TCPSender_bytes_in_flight (tc_sender c) \<noteq> TCPSender_next_seqno_absolute (tc_sender c)"
    and "th_ack (ts_header seg)" "\<not> th_rst (ts_header seg)" "TCPSegment_length_in_sequence_space seg > 0"
    and "TCPReceiver_ackno (tc_receiver (TCPConnection_segment_received seg c)) = Some ackno"
  shows "\<exists>segs. segs \<noteq> [] \<and> tc_segments_out (TCPConnection_segment_received seg c) = tc_segments_out c @ segs
    \<and> list_all (\<lambda>out. th_ack (ts_header out) \<and> th_ackno (ts_header out) = ackno
        \<and> th_win (ts_header out)
          = ucast (TCPReceiver_window_size (tc_receiver (TCPConnection_segment_received seg c)))) segs"
proof -
  let ?c0 = "c\<lparr>tc_time_since_last_segment_received := 0\<rparr>"
  have p: "TCPConnection_segment_received seg c = TCPConnection_process seg ?c0"
    using assms(1-4,6) by (auto simp: TCPConnection_segment_received_def in_listen_def Let_def)
  obtain segs where "segs \<noteq> []" "tc_segments_out (TCPConnection_process seg ?c0)
      = tc_segments_out ?c0 @ map (stamp (tc_receiver (TCPConnection_process seg ?c0)) False) segs"
    using process_sends [of seg ?c0] assms(2,5,7) by auto
  then show ?thesis
    unfolding p using stamp_ack [of _ ackno False] assms(8)
    by (intro exI conjI) (auto simp: list_all_iff p)
qed

definition ack_of :: "u32 \<Rightarrow> u32 \<Rightarrow> u16 \<Rightarrow> bytes \<Rightarrow> TCPSegment" where
  "ack_of seqno ackno win payload =
     \<lparr>ts_header = TCPHeader_new\<lparr>th_seqno := seqno, th_ack := True, th_ackno := ackno, th_win := win\<rparr>,
      ts_payload = Buffer_of_string payload\<rparr>"

text \<open>A server with initial sequence number 20 after the handshake with a client that starts at 7.\<close>

definition demo_server :: TCPConnection where
  "demo_server = TCPConnection_segment_received (ack_of 8 21 100 [])
     (TCPConnection_segment_received (seg_of 7 True False []) (TCPConnection_new (demo_cfg 20) 0))"

theorem rst_received_witness:
  "TCPConnection_state demo_server = TCPState_of_State ESTABLISHED
   \<and> TCPConnection_state (TCPConnection_segment_received demo_rst demo_server) = TCPState_of_State RESET"
proof -
  have "TCPConnection_state demo_server = TCPState_of_State ESTABLISHED" "TCPReceiver_ackno (tc_receiver demo_server) \<noteq> None"
    "tc_active demo_server" "th_rst (ts_header demo_rst)" "sn_segments_out (tc_sender demo_server) = []" "\<not> in_listen demo_server"
    by code_simp+
  with rst_received [of demo_server demo_rst] show ?thesis by simp
qed

theorem segment_answered_witness:
  "\<exists>segs. segs \<noteq> [] \<and> tc_segments_out (TCPConnection_segment_received (ack_of 8 21 100 [1, 2]) demo_server)
      = tc_segments_out demo_server @ segs
    \<and> list_all (\<lambda>out. th_ack (ts_header out) \<and> th_ackno (ts_header out) = 10
        \<and> th_win (ts_header out) = ucast (TCPReceiver_window_size
            (tc_receiver (TCPConnection_segment_received (ack_of 8 21 100 [1, 2]) demo_server)))) segs"
proof (rule segment_answered)
  show "tc_active demo_server" "\<not> tc_need_send_rst demo_server" "\<not> in_listen demo_server"
    "TCPSender_bytes_in_flight (tc_sender demo_server) \<noteq> TCPSender_next_seqno_absolute (tc_sender demo_server)"
    "th_ack (ts_header (ack_of 8 21 100 [1, 2]))" "\<not> th_rst (ts_header (ack_of 8 21 100 [1, 2]))"
    "TCPSegment_length_in_sequence_space (ack_of 8 21 100 [1, 2]) > 0"
    "TCPReceiver_ackno (tc_receiver (TCPConnection_segment_received (ack_of 8 21 100 [1, 2]) demo_server)) = Some 10"
    by code_simp+
qed

text \<open>A window of 65536 bytes is announced as zero.\<close>

theorem window_announced_as_zero:
  "let c = TCPConnection_segment_received (seg_of 0 True False [])
         (TCPConnection_new (TCPConfig_new\<lparr>cfg_recv_capacity := 65536\<rparr>) 0)
   in TCPReceiver_window_size (tc_receiver c) = 65536
      \<and> map (\<lambda>seg. th_win (ts_header seg)) (tc_segments_out c) = [0]"
  by code_simp

end
