(* ===== verification/Tcp_Over_Ip.thy ===== *)
theory Tcp_Over_Ip
  imports Address Ipv4 Tcp_Connection
begin

text \<open>
  \<open>libsponge/tcp_helpers/tcp_over_ip.{hh,cc}\<close> and what its base class in \<open>fd_adapter.hh\<close> holds: TCP
  segments in Internet datagrams, for the one connection an adapter serves. Also the printed forms of
  the TCP header. The resolver is an argument, as in \<open>Address\<close>.
\<close>

section \<open>The printed forms of the header\<close>

definition TCPHeader_to_string :: "TCPHeader \<Rightarrow> string" where
  "TCPHeader_to_string h =
     ''TCP source port: '' @ hexa (unat (th_sport h)) @ [CHR 0x0A] @
     ''TCP dest port: '' @ hexa (unat (th_dport h)) @ [CHR 0x0A] @
     ''TCP seqno: '' @ hexa (unat (th_seqno h)) @ [CHR 0x0A] @
     ''TCP ackno: '' @ hexa (unat (th_ackno h)) @ [CHR 0x0A] @
     ''TCP doff: '' @ hexa (unat (th_doff h)) @ [CHR 0x0A] @
     ''Flags: urg: '' @ boolalpha (th_urg h) @ '' ack: '' @ boolalpha (th_ack h) @ '' psh: '' @ boolalpha (th_psh h) @
     '' rst: '' @ boolalpha (th_rst h) @ '' syn: '' @ boolalpha (th_syn h) @ '' fin: '' @ boolalpha (th_fin h) @ [CHR 0x0A] @
     ''TCP winsize: '' @ hexa (unat (th_win h)) @ [CHR 0x0A] @
     ''TCP cksum: '' @ hexa (unat (th_cksum h)) @ [CHR 0x0A] @
     ''TCP uptr: '' @ hexa (unat (th_uptr h)) @ [CHR 0x0A]"

definition TCPHeader_summary :: "TCPHeader \<Rightarrow> string" where
  "TCPHeader_summary h =
     ''Header(flags='' @ (if th_syn h then ''S'' else '''') @ (if th_ack h then ''A'' else '''') @
     (if th_rst h then ''R'' else '''') @ (if th_fin h then ''F'' else '''') @ '',seqno='' @ dec (unat (th_seqno h)) @
     '',ack='' @ dec (unat (th_ackno h)) @ '',win='' @ dec (unat (th_win h)) @ '')''"

section \<open>The adapter\<close>

record FdAdapterConfig =
  fc_source :: Address
  fc_destination :: Address
  fc_loss_rate_dn :: u16
  fc_loss_rate_up :: u16

definition FdAdapterConfig_new :: "getaddrinfo \<Rightarrow> FdAdapterConfig res" where
  "FdAdapterConfig_new gai =
     (case Address_of_ip gai ''0'' 0 of
        Inl e \<Rightarrow> Inl e
      | Inr source \<Rightarrow>
          (case Address_of_ip gai ''0'' 0 of
             Inl e \<Rightarrow> Inl e
           | Inr destination \<Rightarrow>
               Inr \<lparr>fc_source = source, fc_destination = destination, fc_loss_rate_dn = 0, fc_loss_rate_up = 0\<rparr>))"

record FdAdapterBase =
  fa_cfg :: FdAdapterConfig
  fa_listen :: bool

definition FdAdapterBase_set_listening :: "bool \<Rightarrow> FdAdapterBase \<Rightarrow> FdAdapterBase" where
  "FdAdapterBase_set_listening l a = a\<lparr>fa_listen := l\<rparr>"

text \<open>
  The conditions are tested in the order of the code; each address is converted only when it is
  reached, and what the conversion throws is passed on.
\<close>

definition unwrap_not_for_us :: "InternetDatagram \<Rightarrow> FdAdapterBase \<Rightarrow> bool res" where
  "unwrap_not_for_us ip_dgram a =
     (if fa_listen a then Inr False
      else (case Address_ipv4_numeric (fc_source (fa_cfg a)) of
              Inl e \<Rightarrow> Inl e
            | Inr source \<Rightarrow>
                if ih_dst (id_header ip_dgram) \<noteq> source then Inr True
                else (case Address_ipv4_numeric (fc_destination (fa_cfg a)) of
                        Inl e \<Rightarrow> Inl e
                      | Inr destination \<Rightarrow> Inr (ih_src (id_header ip_dgram) \<noteq> destination))))"

text \<open>The answer to a SYN while listening: the addresses of the datagram become those of the connection.\<close>

definition unwrap_accept ::
    "getaddrinfo \<Rightarrow> getnameinfo \<Rightarrow> InternetDatagram \<Rightarrow> TCPSegment \<Rightarrow> FdAdapterBase \<Rightarrow> FdAdapterBase res" where
  "unwrap_accept gai gni ip_dgram tcp_seg a =
     (case Address_port gni (fc_source (fa_cfg a)) of
        Inl e \<Rightarrow> Inl e
      | Inr port \<Rightarrow>
          (case Address_of_ip gai (inet_ntoa (ih_dst (id_header ip_dgram))) port of
             Inl e \<Rightarrow> Inl e
           | Inr source \<Rightarrow>
               (case Address_of_ip gai (inet_ntoa (ih_src (id_header ip_dgram))) (th_sport (ts_header tcp_seg)) of
                  Inl e \<Rightarrow> Inl e
                | Inr destination \<Rightarrow>
                    Inr (FdAdapterBase_set_listening False
                      (a\<lparr>fa_cfg := (fa_cfg a)\<lparr>fc_source := source, fc_destination := destination\<rparr>\<rparr>)))))"

definition unwrap_tcp_in_ip ::
    "getaddrinfo \<Rightarrow> getnameinfo \<Rightarrow> InternetDatagram \<Rightarrow> FdAdapterBase \<Rightarrow> (TCPSegment option \<times> FdAdapterBase) res" where
  "unwrap_tcp_in_ip gai gni ip_dgram a =
     (case unwrap_not_for_us ip_dgram a of
        Inl e \<Rightarrow> Inl e
      | Inr True \<Rightarrow> Inr (None, a)
      | Inr False \<Rightarrow>
          if ih_proto (id_header ip_dgram) \<noteq> IPv4Header_PROTO_TCP then Inr (None, a)
          else case BufferList_Buffer (id_payload ip_dgram) of
            Inl e \<Rightarrow> Inl e
          | Inr buffer \<Rightarrow>
              let (result, tcp_seg) = TCPSegment_parse buffer (IPv4Header_pseudo_cksum (id_header ip_dgram)) TCPSegment_new
              in if NoError \<noteq> result then Inr (None, a)
                 else case Address_port gni (fc_source (fa_cfg a)) of
                   Inl e \<Rightarrow> Inl e
                 | Inr port \<Rightarrow>
                     if th_dport (ts_header tcp_seg) \<noteq> port then Inr (None, a)
                     else if fa_listen a \<and> \<not> (th_syn (ts_header tcp_seg) \<and> \<not> th_rst (ts_header tcp_seg)) then Inr (None, a)
                     else case (if fa_listen a then unwrap_accept gai gni ip_dgram tcp_seg a else Inr a) of
                       Inl e \<Rightarrow> Inl e
                     | Inr a \<Rightarrow>
                         (case Address_port gni (fc_destination (fa_cfg a)) of
                            Inl e \<Rightarrow> Inl e
                          | Inr port \<Rightarrow>
                              Inr (if th_sport (ts_header tcp_seg) \<noteq> port then (None, a) else (Some tcp_seg, a))))"

text \<open>The segment is changed in place: the result holds it too.\<close>

definition wrap_tcp_in_ip :: "getnameinfo \<Rightarrow> TCPSegment \<Rightarrow> FdAdapterBase \<Rightarrow> (InternetDatagram \<times> TCPSegment) res" where
  "wrap_tcp_in_ip gni seg a =
     (case Address_port gni (fc_source (fa_cfg a)) of
        Inl e \<Rightarrow> Inl e
      | Inr sport \<Rightarrow>
          (case Address_port gni (fc_destination (fa_cfg a)) of
             Inl e \<Rightarrow> Inl e
           | Inr dport \<Rightarrow>
               let seg = seg\<lparr>ts_header := (ts_header seg)\<lparr>th_sport := sport, th_dport := dport\<rparr>\<rparr>
               in (case Address_ipv4_numeric (fc_source (fa_cfg a)) of
                     Inl e \<Rightarrow> Inl e
                   | Inr src \<Rightarrow>
                       (case Address_ipv4_numeric (fc_destination (fa_cfg a)) of
                          Inl e \<Rightarrow> Inl e
                        | Inr dst \<Rightarrow>
                            let header = IPv4Header_new\<lparr>ih_src := src, ih_dst := dst\<rparr>;
                                header = header\<lparr>ih_len := ucast (ucast (ih_hlen header) * 4
                                  + ucast (th_doff (ts_header seg)) * 4 + Buffer_size (ts_payload seg) :: u64)\<rparr>
                            in (case TCPSegment_serialize (IPv4Header_pseudo_cksum header) seg of
                                  Inl e \<Rightarrow> Inl e
                                | Inr payload \<Rightarrow> Inr (\<lparr>id_header = header, id_payload = payload\<rparr>, seg))))))"

section \<open>Segments across the network\<close>

definition segment_fits :: "TCPSegment \<Rightarrow> bool" where
  "segment_fits seg =
     (Buffer_ok (ts_payload seg) \<and> 5 \<le> th_doff (ts_header seg) \<and> th_doff (ts_header seg) < 16
      \<and> length (Buffer_str (ts_payload seg)) \<le> 65455)"

definition with_ports :: "u16 \<Rightarrow> u16 \<Rightarrow> TCPSegment \<Rightarrow> TCPSegment" where
  "with_ports sp dp seg = seg\<lparr>ts_header := (ts_header seg)\<lparr>th_sport := sp, th_dport := dp\<rparr>\<rparr>"

lemma with_ports_simps [simp]:
  "ts_payload (with_ports sp dp seg) = ts_payload seg"
  "th_sport (ts_header (with_ports sp dp seg)) = sp" "th_dport (ts_header (with_ports sp dp seg)) = dp"
  "th_doff (ts_header (with_ports sp dp seg)) = th_doff (ts_header seg)"
  "th_syn (ts_header (with_ports sp dp seg)) = th_syn (ts_header seg)"
  "th_rst (ts_header (with_ports sp dp seg)) = th_rst (ts_header seg)"
  "segment_fits (with_ports sp dp seg) = segment_fits seg"
  by (simp_all add: with_ports_def segment_fits_def)

lemma segment_fits_sendable: "segment_fits seg \<Longrightarrow> segment_sendable seg"
  by (simp add: segment_fits_def segment_sendable_def)

definition tcp_ip_header :: "u32 \<Rightarrow> u32 \<Rightarrow> TCPSegment \<Rightarrow> IPv4Header" where
  "tcp_ip_header src dst seg = IPv4Header_new\<lparr>ih_src := src, ih_dst := dst,
     ih_len := ucast (5 * 4 + ucast (th_doff (ts_header seg)) * 4 + Buffer_size (ts_payload seg) :: u64)\<rparr>"

definition tcp_datagram :: "u32 \<Rightarrow> u32 \<Rightarrow> TCPSegment \<Rightarrow> InternetDatagram" where
  "tcp_datagram src dst seg =
     (let header = tcp_ip_header src dst seg
      in \<lparr>id_header = header, id_payload =
            [Buffer_of_string (header_bytes (sealed_header (IPv4Header_pseudo_cksum header) seg)), ts_payload seg]\<rparr>)"

lemma wrap_eq:
  assumes "names_numeric gni" "fc_source (fa_cfg a) = ipv4_address src sp" "fc_destination (fa_cfg a) = ipv4_address dst dp"
    "segment_fits seg"
  shows "wrap_tcp_in_ip gni seg a = Inr (tcp_datagram src dst (with_ports sp dp seg), with_ports sp dp seg)"
proof -
  have "5 \<le> th_doff (ts_header (with_ports sp dp seg))" using assms(4) by (simp add: segment_fits_def)
  from TCPSegment_serialize_eq [OF this] show ?thesis
    using assms(1-3) ip_port_ipv4 [OF assms(1)]
    by (simp add: wrap_tcp_in_ip_def Let_def with_ports_def [symmetric] tcp_datagram_def tcp_ip_header_def IPv4Header_new_def
        IPv4Header_LENGTH_def)
qed

lemma unat_tcp_ip_len:
  assumes "segment_fits seg"
  shows "unat (ih_len (tcp_ip_header src dst seg)) = 20 + 4 * unat (th_doff (ts_header seg)) + length (Buffer_str (ts_payload seg))"
proof -
  let ?d = "th_doff (ts_header seg)" and ?n = "length (Buffer_str (ts_payload seg))"
  have d: "unat ?d < 16" "?n \<le> 65455" using assms by (simp_all add: segment_fits_def word_less_nat_alt)
  have "unat (5 * 4 + ucast ?d * 4 + Buffer_size (ts_payload seg) :: u64) = 20 + 4 * unat ?d + ?n"
  proof -
    have "unat (ucast ?d * 4 :: u64) = 4 * unat ?d" using d(1) by (simp add: unat_word_ariths unat_ucast_up)
    moreover have "unat (Buffer_size (ts_payload seg)) = ?n" using d(2) by (simp add: Buffer_size_def unat_ssize)
    ultimately show ?thesis using d by (simp add: unat_word_ariths)
  qed
  moreover have "20 + 4 * unat ?d + ?n < 65536" using d by simp
  ultimately show ?thesis by (simp add: tcp_ip_header_def unsigned_ucast_eq take_bit_eq_mod)
qed

lemma tcp_datagram_ok:
  assumes "segment_fits seg"
  shows "datagram_ok (tcp_datagram src dst seg)"
proof -
  have "length (header_bytes (sealed_header d seg)) = 4 * unat (th_doff (ts_header seg))" for d
    using assms by (subst length_header_bytes) (simp_all add: segment_fits_def sealed_header_doff word_le_nat_alt)
  then show ?thesis
    using unat_tcp_ip_len [OF assms, of src dst]
    by (simp add: datagram_ok_def ip_header_ok_def tcp_datagram_def Let_def tcp_ip_header_def IPv4Header_new_def IPv4Header_LENGTH_def)
qed

text \<open>What the datagram becomes on its way: other pieces of the same payload, another checksum or time to live.\<close>

definition same_datagram :: "InternetDatagram \<Rightarrow> InternetDatagram \<Rightarrow> bool" where
  "same_datagram d d' =
     (BufferList_concatenate (id_payload d') = BufferList_concatenate (id_payload d)
      \<and> (\<exists>c t. id_header d' = (id_header d)\<lparr>ih_cksum := c, ih_ttl := t\<rparr>))"

lemma unwrap_tcp_datagram:
  assumes gni: "names_numeric gni" and gai: "resolves_numeric gai" and fits: "segment_fits seg"
    and d: "same_datagram (tcp_datagram src dst seg) \<lparr>id_header = h, id_payload = [b]\<rparr>" "Buffer_ok b"
    and a: "if fa_listen a then (\<exists>ip. fc_source (fa_cfg a) = ipv4_address ip (th_dport (ts_header seg)))
           \<and> th_syn (ts_header seg) \<and> \<not> th_rst (ts_header seg)
      else fc_source (fa_cfg a) = ipv4_address dst (th_dport (ts_header seg))
           \<and> fc_destination (fa_cfg a) = ipv4_address src (th_sport (ts_header seg))"
  shows "\<exists>c pl. Buffer_ok pl \<and> Buffer_str pl = Buffer_str (ts_payload seg)
    \<and> unwrap_tcp_in_ip gai gni \<lparr>id_header = h, id_payload = [b]\<rparr> a
      = Inr (Some \<lparr>ts_header = (ts_header seg)\<lparr>th_cksum := c\<rparr>, ts_payload = pl\<rparr>,
             a\<lparr>fa_listen := False, fa_cfg := (fa_cfg a)\<lparr>fc_source := ipv4_address dst (th_dport (ts_header seg)),
               fc_destination := ipv4_address src (th_sport (ts_header seg))\<rparr>\<rparr>)"
proof -
  obtain c t where h: "h = (tcp_ip_header src dst seg)\<lparr>ih_cksum := c, ih_ttl := t\<rparr>"
    using d(1) by (auto simp: same_datagram_def tcp_datagram_def Let_def)
  define pc where "pc = IPv4Header_pseudo_cksum (tcp_ip_header src dst seg)"
  have pc: "IPv4Header_pseudo_cksum h = pc"
    by (simp add: h pc_def IPv4Header_pseudo_cksum_def IPv4Header_payload_length_def)
  have hd: "ih_dst h = dst" "ih_src h = src" "ih_proto h = IPv4Header_PROTO_TCP"
    by (simp_all add: h tcp_ip_header_def IPv4Header_new_def)
  have "Buffer_str b = segment_bytes pc seg"
    using d(1) by (simp add: same_datagram_def tcp_datagram_def Let_def segment_bytes_def pc_def)
  from segment_parse_serialized [OF segment_fits_sendable [OF fits] _ d(2) this, of TCPSegment_new]
  obtain pl where pl: "TCPSegment_parse b pc TCPSegment_new = (NoError, \<lparr>ts_header = sealed_header pc seg, ts_payload = pl\<rparr>)"
      "Buffer_ok pl" "Buffer_str pl = Buffer_str (ts_payload seg)"
    using pseudo_cksum_bound [of "tcp_ip_header src dst seg"] by (auto simp: pc_def)
  obtain c' where s: "sealed_header pc seg = (ts_header seg)\<lparr>th_cksum := c'\<rparr>" by (simp add: sealed_header_def)
  note addr = ip_port_ipv4 [OF gni] Address_of_ip_numeric [OF gai]
  show ?thesis
  proof (cases "fa_listen a")
    case True
    then have "unwrap_tcp_in_ip gai gni \<lparr>id_header = h, id_payload = [b]\<rparr> a
      = Inr (Some \<lparr>ts_header = sealed_header pc seg, ts_payload = pl\<rparr>,
             a\<lparr>fa_listen := False, fa_cfg := (fa_cfg a)\<lparr>fc_source := ipv4_address dst (th_dport (ts_header seg)),
               fc_destination := ipv4_address src (th_sport (ts_header seg))\<rparr>\<rparr>)"
      using a by (auto simp: unwrap_tcp_in_ip_def unwrap_not_for_us_def unwrap_accept_def hd pc pl(1) s addr BufferList_Buffer_def
          FdAdapterBase_set_listening_def)
    then show ?thesis using pl(2,3) s by auto
  next
    case False
    then have "unwrap_tcp_in_ip gai gni \<lparr>id_header = h, id_payload = [b]\<rparr> a
      = Inr (Some \<lparr>ts_header = sealed_header pc seg, ts_payload = pl\<rparr>, a)"
      using a by (simp add: unwrap_tcp_in_ip_def unwrap_not_for_us_def hd pc pl(1) s addr BufferList_Buffer_def)
    moreover have "a\<lparr>fa_listen := False, fa_cfg := (fa_cfg a)\<lparr>fc_source := ipv4_address dst (th_dport (ts_header seg)),
               fc_destination := ipv4_address src (th_sport (ts_header seg))\<rparr>\<rparr> = a"
      using False a by (cases a, cases "fa_cfg a") simp
    ultimately show ?thesis using pl(2,3) s by auto
  qed
qed

section \<open>Properties\<close>

text \<open>
  C26: what one end of a connection wraps, the other end unwraps. The datagram is serialized and
  parsed again on its way; the segment comes out with the ports and the checksum filled in, the same
  payload and all other fields unchanged. An end that listens accepts it if it is a SYN and takes its
  addresses for the connection.
\<close>

theorem tcp_over_ip_roundtrip:
  assumes "names_numeric gni" "resolves_numeric gai" "segment_fits seg"
    "fc_source (fa_cfg A) = ipv4_address src sp" "fc_destination (fa_cfg A) = ipv4_address dst dp"
    "if fa_listen B then (\<exists>ip. fc_source (fa_cfg B) = ipv4_address ip dp) \<and> th_syn (ts_header seg) \<and> \<not> th_rst (ts_header seg)
     else fc_source (fa_cfg B) = ipv4_address dst dp \<and> fc_destination (fa_cfg B) = ipv4_address src sp"
  shows "\<exists>d seg' bl c pl B'. wrap_tcp_in_ip gni seg A = Inr (d, seg') \<and> IPv4Datagram_serialize d = Inr bl
    \<and> unwrap_tcp_in_ip gai gni (snd (IPv4Datagram_parse (Buffer_of_string (BufferList_concatenate bl)) IPv4Datagram_new)) B
      = Inr (Some \<lparr>ts_header = (ts_header seg)\<lparr>th_sport := sp, th_dport := dp, th_cksum := c\<rparr>, ts_payload = pl\<rparr>, B')
    \<and> Buffer_str pl = Buffer_str (ts_payload seg)
    \<and> \<not> fa_listen B' \<and> fc_source (fa_cfg B') = ipv4_address dst dp \<and> fc_destination (fa_cfg B') = ipv4_address src sp"
proof -
  let ?s = "with_ports sp dp seg" and ?d = "tcp_datagram src dst (with_ports sp dp seg)"
  have ok: "datagram_ok ?d" using assms(3) by (intro tcp_datagram_ok) simp
  let ?bl = "Buffer_of_string (ip_header_bytes (ip_sealed (id_header ?d))) # id_payload ?d"
  have cat: "BufferList_concatenate ?bl = datagram_bytes ?d" by (simp add: datagram_bytes_def)
  have "Buffer_ok (Buffer_of_string (datagram_bytes ?d))"
    using length_datagram_bytes [OF ok] unat_u16_lt [of "ih_len (id_header ?d)"] by (intro Buffer_ok_of_string) linarith
  from datagram_parse_serialized [OF ok this, of IPv4Datagram_new] obtain b where
    b: "snd (IPv4Datagram_parse (Buffer_of_string (BufferList_concatenate ?bl)) IPv4Datagram_new)
        = \<lparr>id_header = ip_sealed (id_header ?d), id_payload = [b]\<rparr>" "Buffer_ok b"
      "Buffer_str b = BufferList_concatenate (id_payload ?d)"
    unfolding cat by auto
  have "same_datagram ?d \<lparr>id_header = ip_sealed (id_header ?d), id_payload = [b]\<rparr>"
    using b(3) by (auto simp: same_datagram_def ip_sealed_def intro!: exI [of _ "ih_ttl (id_header ?d)"])
  moreover have "segment_fits ?s" using assms(3) by simp
  moreover have "if fa_listen B then (\<exists>ip. fc_source (fa_cfg B) = ipv4_address ip (th_dport (ts_header ?s)))
           \<and> th_syn (ts_header ?s) \<and> \<not> th_rst (ts_header ?s)
      else fc_source (fa_cfg B) = ipv4_address dst (th_dport (ts_header ?s))
           \<and> fc_destination (fa_cfg B) = ipv4_address src (th_sport (ts_header ?s))"
    using assms(6) by simp
  ultimately obtain c pl where u:
    "Buffer_str pl = Buffer_str (ts_payload seg)"
    "unwrap_tcp_in_ip gai gni \<lparr>id_header = ip_sealed (id_header ?d), id_payload = [b]\<rparr> B
      = Inr (Some \<lparr>ts_header = (ts_header ?s)\<lparr>th_cksum := c\<rparr>, ts_payload = pl\<rparr>,
             B\<lparr>fa_listen := False, fa_cfg := (fa_cfg B)\<lparr>fc_source := ipv4_address dst dp, fc_destination := ipv4_address src sp\<rparr>\<rparr>)"
    using unwrap_tcp_datagram [OF assms(1,2) _ _ b(2), of ?s src dst "ip_sealed (id_header ?d)" B] by auto
  have "(ts_header ?s)\<lparr>th_cksum := c\<rparr> = (ts_header seg)\<lparr>th_sport := sp, th_dport := dp, th_cksum := c\<rparr>"
    by (simp add: with_ports_def)
  with u b(1) have "unwrap_tcp_in_ip gai gni (snd (IPv4Datagram_parse (Buffer_of_string (BufferList_concatenate ?bl)) IPv4Datagram_new)) B
      = Inr (Some \<lparr>ts_header = (ts_header seg)\<lparr>th_sport := sp, th_dport := dp, th_cksum := c\<rparr>, ts_payload = pl\<rparr>,
             B\<lparr>fa_listen := False, fa_cfg := (fa_cfg B)\<lparr>fc_source := ipv4_address dst dp, fc_destination := ipv4_address src sp\<rparr>\<rparr>)"
    by simp
  then show ?thesis
    using wrap_eq [OF assms(1,4,5,3)] IPv4Datagram_serialize_eq [OF ok] u(1)
    by (intro exI [of _ ?d] exI [of _ ?s] exI [of _ ?bl] exI conjI) (assumption | simp)+
qed

definition demo_end :: "u32 \<Rightarrow> u16 \<Rightarrow> u32 \<Rightarrow> u16 \<Rightarrow> FdAdapterBase" where
  "demo_end src sp dst dp =
     \<lparr>fa_cfg = \<lparr>fc_source = ipv4_address src sp, fc_destination = ipv4_address dst dp, fc_loss_rate_dn = 0, fc_loss_rate_up = 0\<rparr>,
      fa_listen = False\<rparr>"

theorem tcp_over_ip_roundtrip_witness:
  "\<exists>d seg' bl c pl B'. wrap_tcp_in_ip numeric_gni demo_segment (demo_end 1 80 2 90) = Inr (d, seg')
    \<and> IPv4Datagram_serialize d = Inr bl
    \<and> unwrap_tcp_in_ip numeric_gai numeric_gni
        (snd (IPv4Datagram_parse (Buffer_of_string (BufferList_concatenate bl)) IPv4Datagram_new)) (demo_end 2 90 1 80)
      = Inr (Some \<lparr>ts_header = (ts_header demo_segment)\<lparr>th_sport := 80, th_dport := 90, th_cksum := c\<rparr>, ts_payload = pl\<rparr>, B')
    \<and> Buffer_str pl = [104, 105, 33]"
  using tcp_over_ip_roundtrip [OF numeric_gni_ok numeric_gai_ok, of demo_segment "demo_end 1 80 2 90" 1 80 2 90 "demo_end 2 90 1 80"]
  by (auto simp: demo_end_def demo_segment_def segment_fits_def TCPHeader_new_def)

text \<open>
  C27: the adapter lets through only segments of its connection. A segment that comes out was
  addressed to this end's port; unless the adapter was listening, both addresses and both ports are
  those of the connection and the adapter is unchanged; if it was listening, the segment is a SYN and
  its addresses are those of the connection from then on. Whatever is dropped leaves no trace.
\<close>

theorem unwrap_lets_through:
  assumes "names_numeric gni" "resolves_numeric gai" "fc_source (fa_cfg a) = ipv4_address sip sp"
    "fc_destination (fa_cfg a) = ipv4_address dip dp" "unwrap_tcp_in_ip gai gni d a = Inr (r, a')"
  shows "case r of
      None \<Rightarrow> a' = a
    | Some seg \<Rightarrow> th_dport (ts_header seg) = sp \<and> \<not> fa_listen a'
        \<and> fc_source (fa_cfg a') = ipv4_address (ih_dst (id_header d)) sp
        \<and> fc_destination (fa_cfg a') = ipv4_address (ih_src (id_header d)) (th_sport (ts_header seg))
        \<and> (if fa_listen a then th_syn (ts_header seg) \<and> \<not> th_rst (ts_header seg)
           else a' = a \<and> ih_dst (id_header d) = sip \<and> ih_src (id_header d) = dip \<and> th_sport (ts_header seg) = dp)"
  using assms
  by (auto simp: unwrap_tcp_in_ip_def unwrap_not_for_us_def unwrap_accept_def ip_port_ipv4 [OF assms(1)]
      Address_of_ip_numeric [OF assms(2)] FdAdapterBase_set_listening_def split_beta Let_def
      split: sum.splits if_splits bool.splits)

definition demo_received :: InternetDatagram where
  "demo_received =
     \<lparr>id_header = tcp_ip_header 1 2 (with_ports 80 90 demo_segment),
      id_payload = [Buffer_of_string (BufferList_concatenate (id_payload (tcp_datagram 1 2 (with_ports 80 90 demo_segment))))]\<rparr>"

theorem unwrap_lets_through_witness:
  "\<exists>seg. unwrap_tcp_in_ip numeric_gai numeric_gni demo_received (demo_end 2 90 1 80) = Inr (Some seg, demo_end 2 90 1 80)
    \<and> th_dport (ts_header seg) = 90 \<and> th_sport (ts_header seg) = 80"
proof -
  let ?s = "with_ports 80 90 demo_segment"
  have fits: "segment_fits ?s" by (simp add: demo_segment_def segment_fits_def TCPHeader_new_def)
  have "length (BufferList_concatenate (id_payload (tcp_datagram 1 2 ?s))) < W64"
    using tcp_datagram_ok [OF fits, of 1 2] unat_u16_lt [of "ih_len (id_header (tcp_datagram 1 2 ?s))"]
    by (simp add: datagram_ok_def)
  moreover have "same_datagram (tcp_datagram 1 2 ?s) demo_received"
    by (auto simp: same_datagram_def demo_received_def tcp_datagram_def Let_def
        intro!: exI [of _ "ih_cksum (tcp_ip_header 1 2 ?s)"] exI [of _ "ih_ttl (tcp_ip_header 1 2 ?s)"])
  ultimately obtain seg a' where
    u: "unwrap_tcp_in_ip numeric_gai numeric_gni demo_received (demo_end 2 90 1 80) = Inr (Some seg, a')"
    using unwrap_tcp_datagram [OF numeric_gni_ok numeric_gai_ok fits _ Buffer_ok_of_string, of 1 2 _ _ "demo_end 2 90 1 80"]
    by (fastforce simp: demo_received_def demo_end_def)
  with unwrap_lets_through [OF numeric_gni_ok numeric_gai_ok _ _ u, of 2 90 1 80] show ?thesis by (simp add: demo_end_def)
qed

end
