(* ===== verification/Adapters.thy ===== *)
theory Adapters
  imports Io_Frames Tcp_Over_Ip Network_Interface
begin

text \<open>
  The adapters that connect a \<open>TCPConnection\<close> to the outside: over UDP (\<open>fd_adapter.{hh,cc}\<close>), over IPv4 on
  a TUN device and over Ethernet on a TAP device (\<open>tuntap_adapter.{hh,cc}\<close>), and the one that loses
  segments at random (\<open>lossy_fd_adapter.hh\<close>). An operation takes the adapter and returns it changed; what
  an exception leaves of the adapter is not modelled. A segment to be written is changed in place, so it
  is part of the result.
\<close>

section \<open>TCP over UDP\<close>

record TCPOverUDPSocketAdapter =
  ua_base :: FdAdapterBase
  ua_sock :: FileDescriptor

definition TCPOverUDPSocketAdapter_read ::
    "'k os \<Rightarrow> TCPOverUDPSocketAdapter \<Rightarrow> ('k, TCPSegment option \<times> TCPOverUDPSocketAdapter) io" where
  "TCPOverUDPSocketAdapter_read os a =
     io_bind (UDPSocket_recv os (ua_sock a) 65536)
       (\<lambda>datagram.
          let base = ua_base a
          in if \<not> fa_listen base \<and> \<not> Address_eq (rd_source_address datagram) (fc_destination (fa_cfg base))
             then io_return (None, a)
             else let (result, seg) = TCPSegment_parse (Buffer_of_string (rd_payload datagram)) 0 TCPSegment_new
                  in if NoError \<noteq> result then io_return (None, a)
                     else if fa_listen base
                     then if th_syn (ts_header seg) \<and> \<not> th_rst (ts_header seg)
                          then let base = base\<lparr>fa_cfg := (fa_cfg base)\<lparr>fc_destination := rd_source_address datagram\<rparr>\<rparr>;
                                   base = FdAdapterBase_set_listening False base
                               in io_return (Some seg, a\<lparr>ua_base := base\<rparr>)
                          else io_return (None, a)
                     else io_return (Some seg, a))"

definition TCPOverUDPSocketAdapter_write ::
    "'k os \<Rightarrow> getnameinfo \<Rightarrow> TCPSegment \<Rightarrow> TCPOverUDPSocketAdapter \<Rightarrow> ('k, TCPSegment \<times> TCPOverUDPSocketAdapter) io" where
  "TCPOverUDPSocketAdapter_write os gni seg a =
     (let cfg = fa_cfg (ua_base a)
      in io_bind (io_lift (Address_port gni (fc_source cfg)))
           (\<lambda>sport. io_bind (io_lift (Address_port gni (fc_destination cfg)))
              (\<lambda>dport.
                 let seg = seg\<lparr>ts_header := (ts_header seg)\<lparr>th_sport := sport, th_dport := dport\<rparr>\<rparr>
                 in io_bind (io_lift (TCPSegment_serialize 0 seg))
                      (\<lambda>payload. io_bind (UDPSocket_sendto os (ua_sock a) (fc_destination cfg)
                           (BufferViewList_of_BufferList payload))
                         (\<lambda>_. io_return (seg, a))))))"

section \<open>TCP over IPv4 on a TUN device\<close>

record TCPOverIPv4OverTunFdAdapter =
  ta_base :: FdAdapterBase
  ta_tun :: FileDescriptor

definition size_max :: u64 where "size_max = - 1"

definition TCPOverIPv4OverTunFdAdapter_read ::
    "'k os \<Rightarrow> getaddrinfo \<Rightarrow> getnameinfo \<Rightarrow> TCPOverIPv4OverTunFdAdapter \<Rightarrow>
     ('k, TCPSegment option \<times> TCPOverIPv4OverTunFdAdapter) io" where
  "TCPOverIPv4OverTunFdAdapter_read os gai gni a =
     io_bind (FileDescriptor_read os (ta_tun a) size_max)
       (\<lambda>str.
          let (result, ip_dgram) = IPv4Datagram_parse (Buffer_of_string str) IPv4Datagram_new
          in if result \<noteq> NoError then io_return (None, a)
             else io_bind (io_lift (unwrap_tcp_in_ip gai gni ip_dgram (ta_base a)))
                    (\<lambda>(seg, base). io_return (seg, a\<lparr>ta_base := base\<rparr>)))"

definition TCPOverIPv4OverTunFdAdapter_write ::
    "'k os \<Rightarrow> getnameinfo \<Rightarrow> TCPSegment \<Rightarrow> TCPOverIPv4OverTunFdAdapter \<Rightarrow>
     ('k, TCPSegment \<times> TCPOverIPv4OverTunFdAdapter) io" where
  "TCPOverIPv4OverTunFdAdapter_write os gni seg a =
     io_bind (io_lift (wrap_tcp_in_ip gni seg (ta_base a)))
       (\<lambda>(ip_dgram, seg). io_bind (io_lift (IPv4Datagram_serialize ip_dgram))
          (\<lambda>bufs. io_bind (FileDescriptor_write os (ta_tun a) (BufferViewList_of_BufferList bufs) True)
             (\<lambda>_. io_return (seg, a))))"

section \<open>TCP over IPv4 over Ethernet on a TAP device\<close>

record TCPOverIPv4OverEthernetAdapter =
  ea_base :: FdAdapterBase
  ea_tap :: FileDescriptor
  ea_interface :: NetworkInterface
  ea_next_hop :: Address

primrec send_frames :: "'k os \<Rightarrow> FileDescriptor \<Rightarrow> EthernetFrame list \<Rightarrow> ('k, unit) io" where
  "send_frames os tap [] = io_return ()"
| "send_frames os tap (frame # rest) =
     io_bind (FileDescriptor_write os tap (BufferViewList_of_BufferList (EthernetFrame_serialize frame)) True)
       (\<lambda>_. send_frames os tap rest)"

definition TCPOverIPv4OverEthernetAdapter_send_pending ::
    "'k os \<Rightarrow> TCPOverIPv4OverEthernetAdapter \<Rightarrow> ('k, TCPOverIPv4OverEthernetAdapter) io" where
  "TCPOverIPv4OverEthernetAdapter_send_pending os a =
     io_bind (send_frames os (ea_tap a) (ni_frames_out (ea_interface a)))
       (\<lambda>_. io_return (a\<lparr>ea_interface := (ea_interface a)\<lparr>ni_frames_out := []\<rparr>\<rparr>))"

text \<open>The base class is built with the default configuration.\<close>

definition TCPOverIPv4OverEthernetAdapter_new ::
    "'k os \<Rightarrow> getaddrinfo \<Rightarrow> FileDescriptor \<Rightarrow> EthernetAddress \<Rightarrow> Address \<Rightarrow> Address \<Rightarrow>
     ('k, TCPOverIPv4OverEthernetAdapter) io" where
  "TCPOverIPv4OverEthernetAdapter_new os gai tap eth_address ip_address next_hop =
     io_bind (io_lift (FdAdapterConfig_new gai))
       (\<lambda>cfg. io_bind (FileDescriptor_write os tap
            (BufferViewList_of_BufferList (EthernetFrame_serialize EthernetFrame_new)) True)
          (\<lambda>_. io_return \<lparr>ea_base = \<lparr>fa_cfg = cfg, fa_listen = False\<rparr>, ea_tap = tap,
                 ea_interface = NetworkInterface_new eth_address ip_address, ea_next_hop = next_hop\<rparr>))"

definition TCPOverIPv4OverEthernetAdapter_read ::
    "'k os \<Rightarrow> getaddrinfo \<Rightarrow> getnameinfo \<Rightarrow> TCPOverIPv4OverEthernetAdapter \<Rightarrow>
     ('k, TCPSegment option \<times> TCPOverIPv4OverEthernetAdapter) io" where
  "TCPOverIPv4OverEthernetAdapter_read os gai gni a =
     io_bind (FileDescriptor_read os (ea_tap a) size_max)
       (\<lambda>str.
          let (result, frame) = EthernetFrame_parse (Buffer_of_string str) EthernetFrame_new
          in if result \<noteq> NoError then io_return (None, a)
             else io_bind (io_lift (NetworkInterface_recv_frame frame (ea_interface a)))
               (\<lambda>(ip_dgram, ni). io_bind (TCPOverIPv4OverEthernetAdapter_send_pending os (a\<lparr>ea_interface := ni\<rparr>))
                  (\<lambda>a. case ip_dgram of
                         None \<Rightarrow> io_return (None, a)
                       | Some d \<Rightarrow>
                           io_bind (io_lift (unwrap_tcp_in_ip gai gni d (ea_base a)))
                             (\<lambda>(seg, base). io_return (seg, a\<lparr>ea_base := base\<rparr>)))))"

text \<open>\<open>None\<close> is a tick that does not return.\<close>

definition TCPOverIPv4OverEthernetAdapter_tick ::
    "'k os \<Rightarrow> u64 \<Rightarrow> TCPOverIPv4OverEthernetAdapter \<Rightarrow> 'k world \<Rightarrow>
     (TCPOverIPv4OverEthernetAdapter res \<times> 'k world) option" where
  "TCPOverIPv4OverEthernetAdapter_tick os ms_since_last_tick a w =
     map_option (\<lambda>r. io_bind (io_lift r) (\<lambda>ni. TCPOverIPv4OverEthernetAdapter_send_pending os (a\<lparr>ea_interface := ni\<rparr>)) w)
       (NetworkInterface_tick ms_since_last_tick (ea_interface a))"

definition TCPOverIPv4OverEthernetAdapter_write ::
    "'k os \<Rightarrow> getnameinfo \<Rightarrow> TCPSegment \<Rightarrow> TCPOverIPv4OverEthernetAdapter \<Rightarrow>
     ('k, TCPSegment \<times> TCPOverIPv4OverEthernetAdapter) io" where
  "TCPOverIPv4OverEthernetAdapter_write os gni seg a =
     io_bind (io_lift (wrap_tcp_in_ip gni seg (ea_base a)))
       (\<lambda>(ip_dgram, seg). io_bind (io_lift (NetworkInterface_send_datagram ip_dgram (ea_next_hop a) (ea_interface a)))
          (\<lambda>ni. io_bind (TCPOverIPv4OverEthernetAdapter_send_pending os (a\<lparr>ea_interface := ni\<rparr>))
             (\<lambda>a. io_return (seg, a))))"

section \<open>Losing segments\<close>

text \<open>
  The template is a record over any adapter; \<open>rand\<close> is the random generator, whose state is part of it.
  \<open>config\<close>, \<open>read\<close> and \<open>write\<close> are those of the adapter inside.
\<close>

record ('a, 'r) LossyFdAdapter =
  la_rand :: 'r
  la_adapter :: 'a

definition LossyFdAdapter_should_drop ::
    "('r \<Rightarrow> u32 \<times> 'r) \<Rightarrow> ('a \<Rightarrow> FdAdapterConfig) \<Rightarrow> bool \<Rightarrow> ('a, 'r) LossyFdAdapter \<Rightarrow> bool \<times> ('a, 'r) LossyFdAdapter" where
  "LossyFdAdapter_should_drop rand config uplink l =
     (let cfg = config (la_adapter l);
          loss = (if uplink then fc_loss_rate_up cfg else fc_loss_rate_dn cfg)
      in if loss = 0 then (False, l)
         else let (x, r) = rand (la_rand l) in ((ucast x :: u16) < loss, l\<lparr>la_rand := r\<rparr>))"

definition LossyFdAdapter_read ::
    "('r \<Rightarrow> u32 \<times> 'r) \<Rightarrow> ('a \<Rightarrow> FdAdapterConfig) \<Rightarrow> ('a \<Rightarrow> ('k, TCPSegment option \<times> 'a) io) \<Rightarrow>
     ('a, 'r) LossyFdAdapter \<Rightarrow> ('k, TCPSegment option \<times> ('a, 'r) LossyFdAdapter) io" where
  "LossyFdAdapter_read rand config read l =
     io_bind (read (la_adapter l))
       (\<lambda>(ret, a).
          let (drop, l) = LossyFdAdapter_should_drop rand config False (l\<lparr>la_adapter := a\<rparr>)
          in io_return (if drop then None else ret, l))"

definition LossyFdAdapter_write ::
    "('r \<Rightarrow> u32 \<times> 'r) \<Rightarrow> ('a \<Rightarrow> FdAdapterConfig) \<Rightarrow> (TCPSegment \<Rightarrow> 'a \<Rightarrow> ('k, TCPSegment \<times> 'a) io) \<Rightarrow>
     TCPSegment \<Rightarrow> ('a, 'r) LossyFdAdapter \<Rightarrow> ('k, TCPSegment \<times> ('a, 'r) LossyFdAdapter) io" where
  "LossyFdAdapter_write rand config write seg l =
     (let (drop, l) = LossyFdAdapter_should_drop rand config True l
      in if drop then io_return (seg, l)
         else io_bind (write seg (la_adapter l)) (\<lambda>(seg, a). io_return (seg, l\<lparr>la_adapter := a\<rparr>)))"

section \<open>What a connection relies on\<close>

text \<open>
  The interface of an adapter as \<open>TCPSpongeSocket\<close> uses it: it works on one descriptor, a successful
  read counts as one read of that descriptor, and a write changes nothing else of it than its count of
  writes.
\<close>

locale segment_adapter =
  fixes fd_of :: "'a \<Rightarrow> FileDescriptor"
    and rd :: "'a \<Rightarrow> ('k, TCPSegment option \<times> 'a) io"
    and wr :: "TCPSegment \<Rightarrow> 'a \<Rightarrow> ('k, TCPSegment \<times> 'a) io"
  assumes rd_fd: "rd a w = (Inr (s, a'), w') \<Longrightarrow> fd_of a' = fd_of a"
    and rd_frame: "io_rel (fds_but (fd_of a)) (rd a)"
    and rd_count: "rd a w = (Inr x, w') \<Longrightarrow> fd_of a < length (w_fds w) \<Longrightarrow>
      FileDescriptor_read_count (fd_of a) w' = FileDescriptor_read_count (fd_of a) w + 1"
    and wr_fd: "wr seg a w = (Inr (seg', a'), w') \<Longrightarrow> fd_of a' = fd_of a"
    and wr_frame: "io_rel (fd_written (fd_of a)) (wr seg a)"
begin

lemma rd_but: "rd a w = (r, w') \<Longrightarrow> fds_but (fd_of a) w w'"
  using rd_frame [of a] by (metis io_rel_def snd_conv)

lemma wr_written: "wr seg a w = (r, w') \<Longrightarrow> fd_written (fd_of a) w w'"
  using wr_frame [of a seg] by (metis io_rel_def snd_conv)

end

lemma fd_written_count: "fd_written fd w w' \<Longrightarrow> FileDescriptor_read_count fd w' = FileDescriptor_read_count fd w"
  by (auto simp: fd_written_def FileDescriptor_read_count_def)

lemma fd_written_length: "fd_written fd w w' \<Longrightarrow> length (w_fds w') = length (w_fds w)"
  by (simp add: fd_written_def fds_but_def)

interpretation udp: segment_adapter ua_sock "TCPOverUDPSocketAdapter_read os" "TCPOverUDPSocketAdapter_write os gni"
  for os :: "'k os" and gni
proof unfold_locales
  fix a :: TCPOverUDPSocketAdapter and w w' :: "'k world" and seg
  show "TCPOverUDPSocketAdapter_read os a w = (Inr (s, a'), w') \<Longrightarrow> ua_sock a' = ua_sock a" for s a'
    by (auto simp: TCPOverUDPSocketAdapter_read_def Let_def io_bind_Inr split_beta split: if_splits)
  show "io_rel (fds_but (ua_sock a)) (TCPOverUDPSocketAdapter_read os a)"
    unfolding TCPOverUDPSocketAdapter_read_def by (intro but.rules recv_but)
  show "TCPOverUDPSocketAdapter_read os a w = (Inr x, w') \<Longrightarrow> ua_sock a < length (w_fds w) \<Longrightarrow>
      FileDescriptor_read_count (ua_sock a) w' = FileDescriptor_read_count (ua_sock a) w + 1" for x
    by (auto simp: TCPOverUDPSocketAdapter_read_def Let_def io_bind_Inr split_beta dest!: recv_count split: if_splits)
  show "TCPOverUDPSocketAdapter_write os gni seg a w = (Inr (seg', a'), w') \<Longrightarrow> ua_sock a' = ua_sock a" for seg' a'
    by (auto simp: TCPOverUDPSocketAdapter_write_def Let_def io_bind_Inr)
  show "io_rel (fd_written (ua_sock a)) (TCPOverUDPSocketAdapter_write os gni seg a)"
    unfolding TCPOverUDPSocketAdapter_write_def by (intro written.rules sendto_written)
qed

interpretation tun: segment_adapter ta_tun "TCPOverIPv4OverTunFdAdapter_read os gai gni" "TCPOverIPv4OverTunFdAdapter_write os gni"
  for os :: "'k os" and gai gni
proof unfold_locales
  fix a :: TCPOverIPv4OverTunFdAdapter and w w' :: "'k world" and seg
  show "TCPOverIPv4OverTunFdAdapter_read os gai gni a w = (Inr (s, a'), w') \<Longrightarrow> ta_tun a' = ta_tun a" for s a'
    by (auto simp: TCPOverIPv4OverTunFdAdapter_read_def io_bind_Inr split_beta split: if_splits)
  show "io_rel (fds_but (ta_tun a)) (TCPOverIPv4OverTunFdAdapter_read os gai gni a)"
    unfolding TCPOverIPv4OverTunFdAdapter_read_def by (intro but.rules read_but)
  show "TCPOverIPv4OverTunFdAdapter_read os gai gni a w = (Inr x, w') \<Longrightarrow> ta_tun a < length (w_fds w) \<Longrightarrow>
      FileDescriptor_read_count (ta_tun a) w' = FileDescriptor_read_count (ta_tun a) w + 1" for x
    by (auto simp: TCPOverIPv4OverTunFdAdapter_read_def io_bind_Inr split_beta dest!: read_count_read(1) split: if_splits)
  show "TCPOverIPv4OverTunFdAdapter_write os gni seg a w = (Inr (seg', a'), w') \<Longrightarrow> ta_tun a' = ta_tun a" for seg' a'
    by (auto simp: TCPOverIPv4OverTunFdAdapter_write_def io_bind_Inr split_beta)
  show "io_rel (fd_written (ta_tun a)) (TCPOverIPv4OverTunFdAdapter_write os gni seg a)"
    unfolding TCPOverIPv4OverTunFdAdapter_write_def by (intro written.rules write_written)
qed

lemma send_frames_written: "io_rel (fd_written tap) (send_frames os tap frames)"
proof (induction frames)
  case Nil
  show ?case unfolding send_frames.simps by (rule written.rules)
next
  case (Cons frame frames)
  then show ?case unfolding send_frames.simps by (intro written.rules write_written)
qed

lemma send_pending_written: "io_rel (fd_written (ea_tap a)) (TCPOverIPv4OverEthernetAdapter_send_pending os a)"
  unfolding TCPOverIPv4OverEthernetAdapter_send_pending_def by (intro written.rules send_frames_written)

lemma send_pending_tap: "TCPOverIPv4OverEthernetAdapter_send_pending os a w = (Inr a', w') \<Longrightarrow>
   ea_tap a' = ea_tap a \<and> fd_written (ea_tap a) w w'"
  using send_frames_written [of "ea_tap a" os "ni_frames_out (ea_interface a)", unfolded io_rel_def, rule_format, of w]
  by (auto simp: TCPOverIPv4OverEthernetAdapter_send_pending_def io_bind_Inr)

lemma ethernet_read_Inr:
  assumes "TCPOverIPv4OverEthernetAdapter_read os gai gni a w = (Inr (s, a'), w')"
  shows "ea_tap a' = ea_tap a \<and> (\<exists>str w1. FileDescriptor_read os (ea_tap a) size_max w = (Inr str, w1) \<and> fd_written (ea_tap a) w1 w')"
proof -
  obtain str w1 where 1: "FileDescriptor_read os (ea_tap a) size_max w = (Inr str, w1)"
    using assms by (auto simp: TCPOverIPv4OverEthernetAdapter_read_def io_bind_Inr)
  obtain result frame where p: "EthernetFrame_parse (Buffer_of_string str) EthernetFrame_new = (result, frame)" by force
  show ?thesis
  proof (cases "result = NoError")
    case False
    then show ?thesis using assms 1 p by (simp add: TCPOverIPv4OverEthernetAdapter_read_def io_bind_eq)
  next
    case True
    then obtain d ni a1 w2 where
      "TCPOverIPv4OverEthernetAdapter_send_pending os (a\<lparr>ea_interface := ni\<rparr>) w1 = (Inr a1, w2)"
      and 2: "(case d of None \<Rightarrow> io_return (None, a1)
          | Some d \<Rightarrow> io_bind (io_lift (unwrap_tcp_in_ip gai gni d (ea_base a1))) (\<lambda>(seg, base). io_return (seg, a1\<lparr>ea_base := base\<rparr>))) w2
        = (Inr (s, a'), w')"
      using assms 1 p by (auto simp: TCPOverIPv4OverEthernetAdapter_read_def io_bind_Inr)
    then have "ea_tap a1 = ea_tap a" "fd_written (ea_tap a) w1 w2" using send_pending_tap by fastforce+
    with 2 1 show ?thesis by (auto simp: io_bind_Inr split: option.splits)
  qed
qed

interpretation ethernet: segment_adapter ea_tap "TCPOverIPv4OverEthernetAdapter_read os gai gni" "TCPOverIPv4OverEthernetAdapter_write os gni"
  for os :: "'k os" and gai gni
proof unfold_locales
  fix a :: TCPOverIPv4OverEthernetAdapter and w w' :: "'k world" and seg
  have pending: "io_rel (fd_written (ea_tap a)) (TCPOverIPv4OverEthernetAdapter_send_pending os (a\<lparr>ea_interface := ni\<rparr>))" for ni
    using send_pending_written [of "a\<lparr>ea_interface := ni\<rparr>" os] by simp
  show "TCPOverIPv4OverEthernetAdapter_read os gai gni a w = (Inr (s, a'), w') \<Longrightarrow> ea_tap a' = ea_tap a" for s a'
    using ethernet_read_Inr [of os gai gni a w] by blast
  show "io_rel (fds_but (ea_tap a)) (TCPOverIPv4OverEthernetAdapter_read os gai gni a)"
    unfolding TCPOverIPv4OverEthernetAdapter_read_def
    by (intro but.rules read_but io_rel_mono [OF pending fd_written_but])
  show "TCPOverIPv4OverEthernetAdapter_read os gai gni a w = (Inr x, w') \<Longrightarrow> ea_tap a < length (w_fds w) \<Longrightarrow>
      FileDescriptor_read_count (ea_tap a) w' = FileDescriptor_read_count (ea_tap a) w + 1" for x
    using ethernet_read_Inr [of os gai gni a w "fst x" "snd x" w'] read_count_read(1) [of os "ea_tap a" size_max w] fd_written_count
    by fastforce
  show "TCPOverIPv4OverEthernetAdapter_write os gni seg a w = (Inr (seg', a'), w') \<Longrightarrow> ea_tap a' = ea_tap a" for seg' a'
    by (auto simp: TCPOverIPv4OverEthernetAdapter_write_def io_bind_Inr split_beta dest!: send_pending_tap)
  show "io_rel (fd_written (ea_tap a)) (TCPOverIPv4OverEthernetAdapter_write os gni seg a)"
    unfolding TCPOverIPv4OverEthernetAdapter_write_def by (intro written.rules pending)
qed

text \<open>An adapter that loses segments keeps the contract of the adapter inside.\<close>

locale lossy_adapter = segment_adapter fd_of rd wr
  for fd_of :: "'a \<Rightarrow> FileDescriptor" and rd :: "'a \<Rightarrow> ('k, TCPSegment option \<times> 'a) io" and wr +
  fixes rand :: "'r \<Rightarrow> u32 \<times> 'r" and config :: "'a \<Rightarrow> FdAdapterConfig"
begin

lemma should_drop_adapter: "la_adapter (snd (LossyFdAdapter_should_drop rand config up l)) = la_adapter l"
  by (simp add: LossyFdAdapter_should_drop_def Let_def split_beta)

end

sublocale lossy_adapter \<subseteq> lossy: segment_adapter "\<lambda>l. fd_of (la_adapter l)"
  "LossyFdAdapter_read rand config rd" "LossyFdAdapter_write rand config wr"
proof unfold_locales
  fix a :: "('a, 'r) LossyFdAdapter" and w w' :: "'k world" and seg
  show "LossyFdAdapter_read rand config rd a w = (Inr (s, a'), w') \<Longrightarrow> fd_of (la_adapter a') = fd_of (la_adapter a)" for s a'
    using rd_fd [of "la_adapter a"] by (fastforce simp: LossyFdAdapter_read_def io_bind_Inr split_beta should_drop_adapter)
  show "io_rel (fds_but (fd_of (la_adapter a))) (LossyFdAdapter_read rand config rd a)"
    unfolding LossyFdAdapter_read_def by (intro but.rules rd_frame)
  show "LossyFdAdapter_read rand config rd a w = (Inr x, w') \<Longrightarrow> fd_of (la_adapter a) < length (w_fds w) \<Longrightarrow>
      FileDescriptor_read_count (fd_of (la_adapter a)) w' = FileDescriptor_read_count (fd_of (la_adapter a)) w + 1" for x
    using rd_count [of "la_adapter a" w] by (fastforce simp: LossyFdAdapter_read_def io_bind_Inr split_beta)
  show "LossyFdAdapter_write rand config wr seg a w = (Inr (seg', a'), w') \<Longrightarrow> fd_of (la_adapter a') = fd_of (la_adapter a)" for seg' a'
    using wr_fd [of seg "la_adapter a"] should_drop_adapter [of True a]
    by (fastforce simp: LossyFdAdapter_write_def io_bind_Inr split_beta split: if_splits)
  show "io_rel (fd_written (fd_of (la_adapter a))) (LossyFdAdapter_write rand config wr seg a)"
    unfolding LossyFdAdapter_write_def using wr_frame [of "la_adapter a" seg] should_drop_adapter [of True a]
    by (auto simp: split_beta Let_def intro!: written.rules)
qed

interpretation lossy_udp: lossy_adapter ua_sock "TCPOverUDPSocketAdapter_read os" "TCPOverUDPSocketAdapter_write os gni"
  rand "\<lambda>a. fa_cfg (ua_base a)"
  for os :: "'k os" and gni and rand :: "'r \<Rightarrow> u32 \<times> 'r"
  by unfold_locales

interpretation lossy_tun: lossy_adapter ta_tun "TCPOverIPv4OverTunFdAdapter_read os gai gni" "TCPOverIPv4OverTunFdAdapter_write os gni"
  rand "\<lambda>a. fa_cfg (ta_base a)"
  for os :: "'k os" and gai gni and rand :: "'r \<Rightarrow> u32 \<times> 'r"
  by unfold_locales

end
