(* ===== verification/Event_Loop.thy ===== *)
theory Event_Loop
  imports File_Descriptor
begin

text \<open>
  \<open>libsponge/util/eventloop.{hh,cc}\<close>: rules that wait for a file descriptor, and one turn of the loop.
  The callbacks are functions on the state of the descriptors and of the program that owns the loop;
  they add no rules. \<open>poll(2)\<close> stores one \<open>revents\<close> per entry.
\<close>

section \<open>Model\<close>

datatype Direction = In | Out

definition POLLIN :: int where "POLLIN = 1"
definition POLLOUT :: int where "POLLOUT = 4"
definition POLLERR :: int where "POLLERR = 8"
definition POLLHUP :: int where "POLLHUP = 16"
definition POLLNVAL :: int where "POLLNVAL = 32"
definition EINTR :: int where "EINTR = 4"

primrec Direction_events :: "Direction \<Rightarrow> int" where
  "Direction_events In = POLLIN"
| "Direction_events Out = POLLOUT"

type_synonym ('k, 'u) state = "'k world \<times> 'u"
type_synonym ('k, 'u) action = "('k, 'u) state \<Rightarrow> unit res \<times> ('k, 'u) state"

record ('k, 'u) Rule =
  rl_fd :: FileDescriptor
  rl_direction :: Direction
  rl_callback :: "('k, 'u) action"
  rl_interest :: "('k, 'u) state \<Rightarrow> bool"
  rl_cancel :: "('k, 'u) action"

datatype Result = Success | Timeout | Exit

definition Rule_service_count :: "('k, 'u) Rule \<Rightarrow> ('k, 'u) state \<Rightarrow> u32" where
  "Rule_service_count r st =
     (if rl_direction r = In then FileDescriptor_read_count (rl_fd r) (fst st)
      else FileDescriptor_write_count (rl_fd r) (fst st))"

definition EventLoop_add_rule :: "FileDescriptor \<Rightarrow> Direction \<Rightarrow> ('k, 'u) action \<Rightarrow> (('k, 'u) state \<Rightarrow> bool) \<Rightarrow>
    ('k, 'u) action \<Rightarrow> ('k, 'u) Rule list \<Rightarrow> ('k, 'u) Rule list" where
  "EventLoop_add_rule fd direction callback interest cancel rules =
     rules @ [\<lparr>rl_fd = FileDescriptor_duplicate fd, rl_direction = direction, rl_callback = callback,
               rl_interest = interest, rl_cancel = cancel\<rparr>]"

text \<open>
  The loop that sets up the poll: the rules that stay, what is polled for each of them, and whether
  any of it is of interest. An exception of a cancel callback ends it.
\<close>

primrec EventLoop_setup :: "('k, 'u) Rule list \<Rightarrow> ('k, 'u) state \<Rightarrow>
    (('k, 'u) Rule list \<times> (int \<times> int) list \<times> bool) res \<times> ('k, 'u) state" where
  "EventLoop_setup [] st = (Inr ([], [], False), st)"
| "EventLoop_setup (r # rest) st =
     (if rl_direction r = In \<and> FileDescriptor_eof (rl_fd r) (fst st) \<or> FileDescriptor_closed (rl_fd r) (fst st)
      then (case rl_cancel r st of (Inl e, st) \<Rightarrow> (Inl e, st) | (Inr _, st) \<Rightarrow> EventLoop_setup rest st)
      else let interest = rl_interest r st;
               entry = (FileDescriptor_fd_num (rl_fd r) (fst st), if interest then Direction_events (rl_direction r) else 0)
           in (case EventLoop_setup rest st of
                 (Inl e, st) \<Rightarrow> (Inl e, st)
               | (Inr (rules, pollfds, something_to_poll), st) \<Rightarrow>
                   (Inr (r # rules, entry # pollfds, interest \<or> something_to_poll), st)))"

unbundle bit_operations_syntax

text \<open>The loop over the results: each rule with the events asked for and those reported.\<close>

fun EventLoop_results :: "(('k, 'u) Rule \<times> int \<times> int) list \<Rightarrow> ('k, 'u) state \<Rightarrow>
    ('k, 'u) Rule list res \<times> ('k, 'u) state" where
  "EventLoop_results [] st = (Inr [], st)"
| "EventLoop_results ((r, events, revents) # rest) st =
     (let poll_error = (revents AND (POLLERR OR POLLNVAL) \<noteq> 0);
          poll_ready = (revents AND events \<noteq> 0);
          poll_hup = (revents AND POLLHUP \<noteq> 0)
      in if poll_error then (Inl (Runtime_error ''EventLoop: error on polled file descriptor''), st)
         else if poll_hup \<and> events \<noteq> 0 \<and> \<not> poll_ready
         then (case rl_cancel r st of (Inl e, st) \<Rightarrow> (Inl e, st) | (Inr _, st) \<Rightarrow> EventLoop_results rest st)
         else if poll_ready
         then let count_before = Rule_service_count r st
              in (case rl_callback r st of
                    (Inl e, st) \<Rightarrow> (Inl e, st)
                  | (Inr _, st) \<Rightarrow>
                      if count_before = Rule_service_count r st \<and> rl_interest r st
                      then (Inl (Runtime_error ''EventLoop: busy wait detected: callback did not read/write fd and is still interested''), st)
                      else (case EventLoop_results rest st of
                              (Inl e, st) \<Rightarrow> (Inl e, st) | (Inr rules, st) \<Rightarrow> (Inr (r # rules), st)))
         else (case EventLoop_results rest st of (Inl e, st) \<Rightarrow> (Inl e, st) | (Inr rules, st) \<Rightarrow> (Inr (r # rules), st)))"

text \<open>One \<open>revents\<close> for each entry, zero unless the system stored another value.\<close>

definition poll_revents :: "nat \<Rightarrow> int list \<Rightarrow> int list" where
  "poll_revents n stored = take n (stored @ replicate n 0)"

text \<open>
  The result and the rules that are left. An error of \<open>poll\<close> is caught: \<open>EINTR\<close> ends the turn, any other
  is dropped, and the results are those of a poll that reported nothing.
\<close>

definition EventLoop_wait_next_event :: "'k os \<Rightarrow> int \<Rightarrow> ('k, 'u) Rule list \<Rightarrow> ('k, 'u) state \<Rightarrow>
    (Result \<times> ('k, 'u) Rule list) res \<times> ('k, 'u) state" where
  "EventLoop_wait_next_event os timeout_ms rules st =
     (case EventLoop_setup rules st of
        (Inl e, st) \<Rightarrow> (Inl e, st)
      | (Inr (rules, pollfds, something_to_poll), (w, u)) \<Rightarrow>
          if \<not> something_to_poll then (Inr (Exit, rules), (w, u))
          else let finish = (\<lambda>revents st.
                     case EventLoop_results (zip rules (zip (map snd pollfds) revents)) st of
                       (Inl e, st) \<Rightarrow> (Inl e, st) | (Inr rules, st) \<Rightarrow> (Inr (Success, rules), st))
               in (case io_syscall os ''poll'' (SC_poll pollfds timeout_ms) w of
                     (Inl (Unix_error attempt errno), w) \<Rightarrow>
                       if errno = EINTR then (Inr (Exit, rules), (w, u)) else finish (poll_revents (length pollfds) []) (w, u)
                   | (Inl e, w) \<Rightarrow> (Inl e, (w, u))
                   | (Inr (n, r), w) \<Rightarrow>
                       if n = 0 then (Inr (Timeout, rules), (w, u)) else finish (poll_revents (length pollfds) (sr_ints r)) (w, u)))"

section \<open>Rules that serve their descriptor\<close>

lemma results_idle:
  "list_all (\<lambda>x. snd (snd x) = 0) xs \<Longrightarrow> EventLoop_results xs st = (Inr (map fst xs), st)"
proof (induction xs)
  case (Cons x xs)
  then show ?case by (cases x) simp
qed simp

lemma setup_lengths: "EventLoop_setup rules st = (Inr (rs, pollfds, b), st') \<Longrightarrow> length pollfds = length rs"
  by (induction rules arbitrary: st rs pollfds b st') (fastforce simp: Let_def split: if_splits prod.splits sum.splits)+

text \<open>
  What the rules of a program keep: \<open>P\<close> is its invariant; no callback is found waiting for a descriptor
  that it neither read nor wrote while still interested; \<open>E\<close> are the exceptions the callbacks may throw,
  with the states they leave.
\<close>

locale served_rules =
  fixes os :: "'k os" and P :: "('k, 'u) state \<Rightarrow> bool" and R :: "('k, 'u) Rule set"
    and E :: "exn \<Rightarrow> ('k, 'u) state \<Rightarrow> bool"
  assumes polled: "P (w, u) \<Longrightarrow> os (SC_poll pollfds timeout) (w_os w) = (q, k) \<Longrightarrow> P (w\<lparr>w_os := k\<rparr>, u)"
    and cancel: "r \<in> R \<Longrightarrow> P st \<Longrightarrow> rl_cancel r st = (x, st') \<Longrightarrow> (case x of Inl e \<Rightarrow> E e st' | Inr _ \<Rightarrow> P st')"
    and callback: "r \<in> R \<Longrightarrow> P st \<Longrightarrow> rl_callback r st = (x, st') \<Longrightarrow>
      (case x of
         Inl e \<Rightarrow> E e st'
       | Inr _ \<Rightarrow> P st' \<and> (Rule_service_count r st' \<noteq> Rule_service_count r st \<or> \<not> rl_interest r st'))"
begin

lemma setup_ok:
  "set rules \<subseteq> R \<Longrightarrow> P st \<Longrightarrow> EventLoop_setup rules st = (x, st') \<Longrightarrow>
   (case x of Inl e \<Rightarrow> E e st' | Inr (rs, _) \<Rightarrow> P st' \<and> set rs \<subseteq> set rules)"
proof (induction rules arbitrary: st x st')
  case (Cons r rules)
  have R: "r \<in> R" "set rules \<subseteq> R" using Cons.prems(1) by simp_all
  show ?case
  proof (cases "rl_direction r = In \<and> FileDescriptor_eof (rl_fd r) (fst st) \<or> FileDescriptor_closed (rl_fd r) (fst st)")
    case True
    obtain y st1 where y: "rl_cancel r st = (y, st1)" by (rule prod.exhaust)
    note C = cancel [OF R(1) Cons.prems(2) y]
    show ?thesis
    proof (cases y)
      case (Inl e)
      then show ?thesis using True y Cons.prems(3) C by auto
    next
      case (Inr v)
      then have "EventLoop_setup rules st1 = (x, st')" "P st1" using True y Cons.prems(3) C by auto
      from Cons.IH [OF R(2) this(2,1)] show ?thesis by (cases x) auto
    qed
  next
    case False
    obtain y st1 where y: "EventLoop_setup rules st = (y, st1)" by (rule prod.exhaust)
    note C = Cons.IH [OF R(2) Cons.prems(2) y]
    show ?thesis
    proof (cases y)
      case (Inl e)
      then show ?thesis using False y Cons.prems(3) C by (auto simp: Let_def)
    next
      case (Inr v)
      obtain rs pf b where v: "v = (rs, pf, b)" by (rule prod_cases3)
      then have "\<exists>pf b. x = Inr (r # rs, pf, b)" "st' = st1"
        using False y Inr Cons.prems(3) by (auto simp: Let_def)
      then show ?thesis using C Inr v by auto
    qed
  qed
qed auto

abbreviation poll_failed :: "exn \<Rightarrow> ('k, 'u) state \<Rightarrow> bool" where
  "poll_failed e st \<equiv> E e st \<or> P st \<and> e = Runtime_error ''EventLoop: error on polled file descriptor''"

lemma results_ok:
  "fst ` set xs \<subseteq> R \<Longrightarrow> P st \<Longrightarrow> EventLoop_results xs st = (x, st') \<Longrightarrow>
   (case x of Inl e \<Rightarrow> poll_failed e st' | Inr rs \<Rightarrow> P st' \<and> set rs \<subseteq> fst ` set xs)"
proof (induction xs arbitrary: st x st')
  case (Cons z xs)
  obtain r ev re where z: "z = (r, ev, re)" by (rule prod_cases3)
  have R: "r \<in> R" "fst ` set xs \<subseteq> R" using Cons.prems(1) z by auto
  have keep: "case x of Inl e \<Rightarrow> poll_failed e st' | Inr rs \<Rightarrow> P st' \<and> set rs \<subseteq> fst ` set (z # xs)"
    if "P st1" "(case EventLoop_results xs st1 of (Inl e, st) \<Rightarrow> (Inl e, st) | (Inr rules, st) \<Rightarrow> (Inr (r # rules), st)) = (x, st')" for st1
  proof -
    obtain y st2 where y: "EventLoop_results xs st1 = (y, st2)" by (rule prod.exhaust)
    from Cons.IH [OF R(2) that(1) y] that(2) y z show ?thesis by (cases y) auto
  qed
  consider (error) "re AND (POLLERR OR POLLNVAL) \<noteq> 0"
    | (hup) "re AND (POLLERR OR POLLNVAL) = 0" "re AND POLLHUP \<noteq> 0 \<and> ev \<noteq> 0 \<and> re AND ev = 0"
    | (ready) "re AND (POLLERR OR POLLNVAL) = 0" "\<not> (re AND POLLHUP \<noteq> 0 \<and> ev \<noteq> 0 \<and> re AND ev = 0)" "re AND ev \<noteq> 0"
    | (idle) "re AND (POLLERR OR POLLNVAL) = 0" "\<not> (re AND POLLHUP \<noteq> 0 \<and> ev \<noteq> 0 \<and> re AND ev = 0)" "re AND ev = 0"
    by blast
  then show ?case
  proof cases
    case error
    then show ?thesis using Cons.prems(2,3) z by auto
  next
    case hup
    obtain c st1 where c: "rl_cancel r st = (c, st1)" by (rule prod.exhaust)
    show ?thesis
    proof (cases c)
      case (Inl e)
      then show ?thesis using hup Cons.prems(3) z c cancel [OF R(1) Cons.prems(2) c] by auto
    next
      case (Inr v)
      then have "EventLoop_results xs st1 = (x, st')" "P st1"
        using hup Cons.prems(3) z c cancel [OF R(1) Cons.prems(2) c] by auto
      from Cons.IH [OF R(2) this(2,1)] show ?thesis by (cases x) auto
    qed
  next
    case ready
    obtain c st1 where c: "rl_callback r st = (c, st1)" by (rule prod.exhaust)
    note C = callback [OF R(1) Cons.prems(2) c]
    show ?thesis
    proof (cases c)
      case (Inl e)
      then show ?thesis using ready Cons.prems(3) z c C by auto
    next
      case (Inr v)
      then have "\<not> (Rule_service_count r st = Rule_service_count r st1 \<and> rl_interest r st1)" "P st1" using C by auto
      with ready Cons.prems(3) z c Inr show ?thesis by (intro keep [of st1]) (simp_all add: Let_def)
    qed
  next
    case idle
    then show ?thesis using Cons.prems(2,3) z by (intro keep [of st]) (auto simp: Let_def)
  qed
qed auto

lemma turn:
  assumes "set rules \<subseteq> R" "P st" "EventLoop_wait_next_event os timeout rules st = (x, st')"
  shows "case x of
      Inl e \<Rightarrow> poll_failed e st'
    | Inr (_, rs) \<Rightarrow> P st' \<and> set rs \<subseteq> set rules"
proof -
  obtain y st1 where y: "EventLoop_setup rules st = (y, st1)" by (rule prod.exhaust)
  note S = setup_ok [OF assms(1,2) y]
  show ?thesis
  proof (cases y)
    case (Inl e)
    then show ?thesis using assms(3) y S by (auto simp: EventLoop_wait_next_event_def)
  next
    case (Inr z)
    obtain rs pollfds b w u where z: "z = (rs, pollfds, b)" "st1 = (w, u)" by (metis prod_cases3 surj_pair)
    have len: "length pollfds = length rs" using setup_lengths [of rules st rs pollfds b st1] y Inr z by simp
    have P0: "P (w, u)" using S Inr z by simp
    obtain q k where q: "os (SC_poll pollfds timeout) (w_os w) = (q, k)" by force
    have P: "P (w\<lparr>w_os := k\<rparr>, u)" "set rs \<subseteq> R" "set rs \<subseteq> set rules"
      using S Inr z polled [OF P0 q] assms(1) by auto
    have fin: "case v of Inl e \<Rightarrow> poll_failed e st2 | Inr rs' \<Rightarrow> P st2 \<and> set rs' \<subseteq> set rules"
      if "EventLoop_results (zip rs (zip (map snd pollfds) ev)) (w\<lparr>w_os := k\<rparr>, u) = (v, st2)" for ev v st2
    proof -
      have sub: "fst ` set (zip rs (zip (map snd pollfds) ev)) \<subseteq> set rs" by (auto dest: set_zip_leftD)
      note res = results_ok [OF order_trans [OF sub P(2)] P(1) that]
      show ?thesis
      proof (cases v)
        case (Inr rs')
        then have "P st2" "set rs' \<subseteq> fst ` set (zip rs (zip (map snd pollfds) ev))" using res by simp_all
        then show ?thesis using Inr order_trans [OF _ order_trans [OF sub P(3)]] by simp
      qed (use res in simp)
    qed
    have finish: ?thesis
      if "(case EventLoop_results (zip rs (zip (map snd pollfds) ev)) (w\<lparr>w_os := k\<rparr>, u) of
        (Inl e, st) \<Rightarrow> (Inl e, st) | (Inr rules, st) \<Rightarrow> (Inr (Success, rules), st)) = (x, st')" for ev
    proof -
      obtain v st2 where v: "EventLoop_results (zip rs (zip (map snd pollfds) ev)) (w\<lparr>w_os := k\<rparr>, u) = (v, st2)"
        by (rule prod.exhaust)
      from fin [OF v] that v show ?thesis by (cases v) auto
    qed
    define n where "n = int32 (sr_value q)"
    consider (fail) "io_syscall os ''poll'' (SC_poll pollfds timeout) w = (Inl (Unix_error ''poll'' (sr_errno q)), w\<lparr>w_os := k\<rparr>)"
      | (ok) "io_syscall os ''poll'' (SC_poll pollfds timeout) w = (Inr (n, q), w\<lparr>w_os := k\<rparr>)"
      using q by (cases "0 \<le> n \<or> sr_errno q = 0") (auto simp: io_syscall_def SystemCall_def n_def)
    then show ?thesis
    proof cases
      case fail
      then show ?thesis
        using assms(3) y Inr z P0 P finish by (auto simp: EventLoop_wait_next_event_def Let_def split: if_splits)
    next
      case ok
      then show ?thesis
        using assms(3) y Inr z P0 P finish by (auto simp: EventLoop_wait_next_event_def Let_def split: if_splits)
    qed
  qed
qed

end

section \<open>A poll that fails\<close>

text \<open>
  C34: an error of \<open>poll\<close> other than an interruption goes unnoticed: when nothing is at its end and some
  rule is interested, the turn calls no callback, keeps all rules, throws nothing and reports success.
\<close>

theorem poll_failure_ignored:
  assumes "list_all (\<lambda>r. \<not> FileDescriptor_eof (rl_fd r) w \<and> \<not> FileDescriptor_closed (rl_fd r) w) rules"
    "list_ex (\<lambda>r. rl_interest r (w, u)) rules"
    "io_syscall os ''poll'' (SC_poll (map (\<lambda>r. (FileDescriptor_fd_num (rl_fd r) w,
       if rl_interest r (w, u) then Direction_events (rl_direction r) else 0)) rules) timeout) w
       = (Inl (Unix_error ''poll'' errno), w')" "errno \<noteq> EINTR"
  shows "EventLoop_wait_next_event os timeout rules (w, u) = (Inr (Success, rules), (w', u))"
proof -
  let ?entries = "map (\<lambda>r. (FileDescriptor_fd_num (rl_fd r) w,
       if rl_interest r (w, u) then Direction_events (rl_direction r) else 0)) rules"
  have "EventLoop_setup rules (w, u) = (Inr (rules, ?entries, list_ex (\<lambda>r. rl_interest r (w, u)) rules), (w, u))"
    using assms(1) by (induction rules) (auto simp: Let_def)
  moreover have "EventLoop_results (zip rules (zip (map snd ?entries) (poll_revents (length ?entries) []))) (w', u)
      = (Inr rules, (w', u))"
    by (subst results_idle) (auto simp: poll_revents_def list_all_iff dest!: set_zip_rightD)
  ultimately show ?thesis
    using assms(2-4) by (simp add: EventLoop_wait_next_event_def Let_def comp_def)
qed

definition deaf_os :: "unit os" where
  "deaf_os call k = (\<lparr>sr_value = - 1, sr_errno = 12, sr_data = [], sr_address = [], sr_ints = []\<rparr>, k)"

definition demo_rule :: "(unit, nat) Rule" where
  "demo_rule = \<lparr>rl_fd = 0, rl_direction = In, rl_callback = (\<lambda>(w, n). (Inr (), (w, n + 1))), rl_interest = (\<lambda>_. True),
     rl_cancel = (\<lambda>st. (Inr (), st))\<rparr>"

definition demo_state :: "unit world" where
  "demo_state = \<lparr>w_os = (), w_fds = [\<lparr>fd_fd = 3, fd_eof = False, fd_closed = False, fd_read_count = 0, fd_write_count = 0\<rparr>]\<rparr>"

theorem poll_failure_ignored_witness:
  "EventLoop_wait_next_event deaf_os 10 [demo_rule] (demo_state, 7) = (Inr (Success, [demo_rule]), (demo_state, 7))"
  by (rule poll_failure_ignored [of _ _ _ _ _ 12])
    (simp_all add: demo_rule_def demo_state_def deaf_os_def io_syscall_def SystemCall_def int32_def EINTR_def
      FileDescriptor_eof_def FileDescriptor_closed_def)

end
