(* ===== verification/Tcp_Lifecycle.thy ===== *)
theory Tcp_Lifecycle
  imports Tcp_Connection
begin

text \<open>
  The life of a connection in terms of the states of \<open>tcp_state.hh\<close>: the three-way handshake, the
  retransmissions that end in a reset, and TIME_WAIT.
\<close>

section \<open>Giving up\<close>

lemma sender_state_summary_frame [simp]:
  "sender_state_summary (s\<lparr>sn_segments_out := out\<rparr>) = sender_state_summary s"
  "sender_state_summary (s\<lparr>sn_tick := t\<rparr>) = sender_state_summary s"
  by (simp_all add: sender_state_summary_def TCPSender_next_seqno_absolute_def TCPSender_bytes_in_flight_def)

text \<open>Ticks that each reach the current timeout.\<close>

primrec tc_expire :: "nat \<Rightarrow> TCPConnection \<Rightarrow> TCPConnection" where
  "tc_expire 0 c = c"
| "tc_expire (Suc n) c = tc_expire n (TCPConnection_tick (ucast (sn_rto (tc_sender c))) c)"

lemma in_flight_pos:
  assumes "sn_ok S s" "sn_segments_outstanding s \<noteq> []"
  shows "sn_bytes_in_flight s \<noteq> 0"
proof -
  obtain t q where q: "sn_segments_outstanding s = t # q" using assms(2) by (cases "sn_segments_outstanding s") auto
  obtain base where "chain S (sn_isn s) base (t # q) (unat (sn_next_seqno s))"
      "base + unat (sn_bytes_in_flight s) = unat (sn_next_seqno s)"
    using sn_okD(9) [OF assms(1)] q by auto
  moreover from this(1) have "0 < seg_len t" "base + seg_len t \<le> unat (sn_next_seqno s)" using chain_le by auto
  ultimately have "0 < unat (sn_bytes_in_flight s)" by linarith
  then show ?thesis by auto
qed

lemma tick_expired:
  assumes "tc_ok S T i j c" "tc_active c" "sn_segments_outstanding (tc_sender c) = t # q"
    "sn_receiver_window_size (tc_sender c) \<noteq> 0 \<or> th_syn (ts_header t)" "sn_tick (tc_sender c) = 0"
    "unat (sn_consecutive_retransmissions (tc_sender c)) < 8"
  defines "c' \<equiv> TCPConnection_tick (ucast (sn_rto (tc_sender c))) c"
  shows "tc_active c'" "sn_segments_outstanding (tc_sender c') = t # q"
    "sn_receiver_window_size (tc_sender c') = sn_receiver_window_size (tc_sender c)" "sn_tick (tc_sender c') = 0"
    "unat (sn_consecutive_retransmissions (tc_sender c')) = unat (sn_consecutive_retransmissions (tc_sender c)) + 1"
    "tc_receiver c' = tc_receiver c"
    "tc_segments_out c' = tc_segments_out c @ [stamp (tc_receiver c) False t]"
proof -
  let ?s = "tc_sender c"
  note e = expire_once [OF assms(3-5)]
  define s1 where "s1 = TCPSender_tick (ucast (sn_rto ?s)) ?s"
  have u: "unat (sn_consecutive_retransmissions ?s + 1) = unat (sn_consecutive_retransmissions ?s) + 1"
    using assms(6) by (subst unat_add_less) simp_all
  define c1 where "c1 = c\<lparr>tc_time_since_last_segment_received :=
      tc_time_since_last_segment_received c + ucast (sn_rto ?s), tc_sender := s1\<rparr>"
  have "\<not> TCPSender_consecutive_retransmissions s1 > TCPConfig_MAX_RETX_ATTEMPTS"
    using u assms(6) by (simp add: s1_def e TCPSender_consecutive_retransmissions_def TCPConfig_MAX_RETX_ATTEMPTS_def
        word_less_nat_alt unat_ucast_up)
  then have c': "c' = TCPConnection_clean_shutdown (flushed c1)"
    using assms(2) by (simp add: c'_def TCPConnection_tick_def Let_def c1_def s1_def send_sender_segments_eq)
  have "sn_ok S ?s" using assms(1) by (simp add: tc_ok_def tc_pre_def)
  then have "sn_bytes_in_flight ?s \<noteq> 0" using assms(3) by (intro in_flight_pos) simp_all
  then have "\<not> streams_done (flushed c1)"
    by (simp add: streams_done_def c1_def s1_def e TCPSender_bytes_in_flight_def)
  then show "tc_active c'" using assms(2) by (simp add: c' clean_shutdown_active c1_def)
  show "sn_segments_outstanding (tc_sender c') = t # q"
    "sn_receiver_window_size (tc_sender c') = sn_receiver_window_size ?s" "sn_tick (tc_sender c') = 0"
    "unat (sn_consecutive_retransmissions (tc_sender c')) = unat (sn_consecutive_retransmissions ?s) + 1"
    "tc_receiver c' = tc_receiver c"
    using u assms(3) by (simp_all add: c' c1_def s1_def e)
  show "tc_segments_out c' = tc_segments_out c @ [stamp (tc_receiver c) False t]"
    using assms(1) by (simp add: c' c1_def s1_def e outgoing_def tc_ok_def)
qed

lemma tick_gives_up:
  assumes "tc_active c" "sn_segments_outstanding (tc_sender c) = t # q"
    "sn_receiver_window_size (tc_sender c) \<noteq> 0 \<or> th_syn (ts_header t)" "sn_tick (tc_sender c) = 0"
    "unat (sn_consecutive_retransmissions (tc_sender c)) = 8"
  defines "c' \<equiv> TCPConnection_tick (ucast (sn_rto (tc_sender c))) c"
  shows "TCPConnection_state c' = TCPState_of_State RESET"
    "\<exists>seg q. tc_segments_out c' = tc_segments_out c @ seg # q \<and> th_rst (ts_header seg)"
proof -
  let ?s = "tc_sender c"
  note e = expire_once [OF assms(2-4)]
  define c1 where "c1 = c\<lparr>tc_time_since_last_segment_received :=
      tc_time_since_last_segment_received c + ucast (sn_rto ?s), tc_sender := TCPSender_tick (ucast (sn_rto ?s)) ?s\<rparr>"
  have "sn_consecutive_retransmissions ?s = 8" using assms(5) by (simp add: word_unat_eq_iff)
  then have "TCPSender_consecutive_retransmissions (tc_sender c1) > TCPConfig_MAX_RETX_ATTEMPTS"
    by (simp add: c1_def e TCPSender_consecutive_retransmissions_def TCPConfig_MAX_RETX_ATTEMPTS_def)
  then have c': "c' = TCPConnection_send_sender_segments (TCPConnection_unclean_shutdown True c1)"
    using assms(1) by (simp add: c'_def TCPConnection_tick_def Let_def c1_def)
  let ?u = "TCPConnection_unclean_shutdown True c1"
  note U = unclean_shutdown_result [where rst = True and c = c1]
  have "TCPConnection_state c' = TCPConnection_state ?u"
    using U(2) by (simp add: c' send_sender_segments_eq TCPConnection_state_def TCPState_of_parts_def
        clean_shutdown_active)
  then show "TCPConnection_state c' = TCPState_of_State RESET" using U(1) by simp
  show "\<exists>seg q. tc_segments_out c' = tc_segments_out c @ seg # q \<and> th_rst (ts_header seg)"
    using U(4-6) by (simp add: c' send_sender_segments_eq outgoing_def) (simp add: c1_def)
qed

lemma expires:
  assumes "tc_ok S T i j c" "tc_active c" "sn_segments_outstanding (tc_sender c) = t # q"
    "sn_receiver_window_size (tc_sender c) \<noteq> 0 \<or> th_syn (ts_header t)" "sn_tick (tc_sender c) = 0"
    "unat (sn_consecutive_retransmissions (tc_sender c)) + n \<le> 8"
  shows "tc_active (tc_expire n c) \<and> sn_segments_outstanding (tc_sender (tc_expire n c)) = t # q
    \<and> sn_receiver_window_size (tc_sender (tc_expire n c)) = sn_receiver_window_size (tc_sender c)
    \<and> sn_tick (tc_sender (tc_expire n c)) = 0
    \<and> unat (sn_consecutive_retransmissions (tc_sender (tc_expire n c)))
        = unat (sn_consecutive_retransmissions (tc_sender c)) + n
    \<and> tc_segments_out (tc_expire n c) = tc_segments_out c @ replicate n (stamp (tc_receiver c) False t)"
  using assms
proof (induction n arbitrary: c)
  case (Suc n)
  let ?c' = "TCPConnection_tick (ucast (sn_rto (tc_sender c))) c"
  have "unat (sn_consecutive_retransmissions (tc_sender c)) < 8" using Suc.prems(6) by simp
  note E = tick_expired [OF Suc.prems(1-5) this]
  have "tc_ok S T i j ?c'" by (rule tc_tick_ok [OF Suc.prems(1)])
  from Suc.IH [OF this E(1,2) _ E(4)] Suc.prems(4,6) show ?case by (simp add: E)
qed simp

text \<open>
  C15: giving up on a silent peer. If the oldest outstanding segment is never acknowledged (and the
  window is open, or the segment is the SYN), it is sent again at each of the first eight expiries of
  the timer; the ninth aborts the connection and sends a reset.
\<close>

theorem silent_peer_reset:
  assumes "tc_ok S T i j c" "tc_active c" "sn_segments_outstanding (tc_sender c) = t # q"
    "sn_receiver_window_size (tc_sender c) \<noteq> 0 \<or> th_syn (ts_header t)" "sn_tick (tc_sender c) = 0"
    "sn_consecutive_retransmissions (tc_sender c) = 0"
  shows "(\<forall>n \<le> 8. tc_active (tc_expire n c) \<and>
      tc_segments_out (tc_expire n c) = tc_segments_out c @ replicate n (stamp (tc_receiver c) False t))
    \<and> TCPConnection_state (tc_expire 9 c) = TCPState_of_State RESET
    \<and> (\<exists>seg rest. tc_segments_out (tc_expire 9 c)
        = tc_segments_out c @ replicate 8 (stamp (tc_receiver c) False t) @ seg # rest \<and> th_rst (ts_header seg))"
proof -
  note E = expires [OF assms(1-5)]
  have 8: "tc_expire 9 c = TCPConnection_tick (ucast (sn_rto (tc_sender (tc_expire 8 c)))) (tc_expire 8 c)"
    by (simp add: numeral_eq_Suc)
  from tick_gives_up [of "tc_expire 8 c" t q] E [of 8] assms(4,6) show ?thesis
    unfolding 8 using E assms(6) by auto
qed

lemma demo_client_ok: "tc_ok [] [] 7 20 demo_client"
proof -
  have i: "sn_isn (tc_sender (TCPConnection_new (demo_cfg 7) 0)) = 7"
    by (simp add: TCPConnection_new_def demo_cfg_def TCPSender_new_def)
  have "tc_ok [] [] (sn_isn (tc_sender (TCPConnection_new (demo_cfg 7) 0))) 20 demo_client"
    unfolding demo_client_def
    by (intro connect_ok tc_ok_pre tc_ok_new) (simp_all add: demo_cfg_def TCPConfig_new_def TCPConfig_DEFAULT_CAPACITY_def)
  then show ?thesis unfolding i .
qed

theorem silent_peer_reset_witness:
  "TCPConnection_state (tc_expire 9 demo_client) = TCPState_of_State RESET"
proof -
  have "tc_ok [] [] 7 20 demo_client" by (rule demo_client_ok)
  moreover have "sn_segments_outstanding (tc_sender demo_client) \<noteq> []" by code_simp
  then obtain t q where "sn_segments_outstanding (tc_sender demo_client) = t # q"
    by (auto simp: neq_Nil_conv)
  moreover have "tc_active demo_client" "sn_tick (tc_sender demo_client) = 0"
    "sn_consecutive_retransmissions (tc_sender demo_client) = 0"
    "sn_receiver_window_size (tc_sender demo_client) \<noteq> 0"
    by code_simp+
  ultimately show ?thesis using silent_peer_reset by blast
qed

section \<open>Closing\<close>

lemma time_wait_facts:
  assumes "tc_ok S T i j c" "TCPConnection_state c = TCPState_of_State TIME_WAIT"
  shows "tc_active c" "tc_linger_after_streams_finish c" "streams_done c" "sn_segments_outstanding (tc_sender c) = []"
    "sender_state_summary (tc_sender c) = TCPSenderStateSummary_FIN_ACKED"
    "receiver_state_summary (tc_receiver c) = TCPReceiverStateSummary_FIN_RECV"
proof -
  let ?s = "tc_sender c"
  have st: "sender_state_summary ?s = TCPSenderStateSummary_FIN_ACKED"
    "receiver_state_summary (tc_receiver c) = TCPReceiverStateSummary_FIN_RECV" "tc_active c"
    "tc_linger_after_streams_finish c"
    using assms(2) by (auto simp: TCPConnection_state_def TCPState_of_parts_def TCPState_of_State_def
        TCPState_default_def split: if_splits)
  from st(1) have f: "ByteStream_eof (sn_stream ?s)" "sn_bytes_in_flight ?s = 0"
    "\<not> sn_next_seqno ?s < ByteStream_bytes_written (sn_stream ?s) + 2"
    by (auto simp: sender_state_summary_def summary_defs TCPSender_bytes_in_flight_def
        TCPSender_next_seqno_absolute_def split: if_splits)
  have ok: "sn_ok S ?s" using assms(1) by (simp add: tc_ok_def tc_pre_def)
  note D = sn_okD [OF ok]
  have "sn_fin ?s"
  proof (rule ccontr)
    assume "\<not> sn_fin ?s"
    then have n: "unat (sn_next_seqno ?s) \<le> 1 + unat (bs_read_count (sn_stream ?s))"
      using D(6,7) by (cases "sn_syn ?s") auto
    have w: "unat (bs_write_count (sn_stream ?s)) = sn_written ?s" using sn_written_eq [OF ok] by simp
    have "sn_written ?s < W31" using D(2,3) by (simp add: sn_written_def)
    then have "unat (bs_write_count (sn_stream ?s) + 2) = sn_written ?s + 2"
      using w by (subst unat_add_less) simp_all
    then show False
      using f(3) n by (simp add: word_less_nat_alt ByteStream_bytes_written_def sn_written_def)
  qed
  moreover have "ByteStream_input_ended (TCPReceiver_stream_out (tc_receiver c))"
    using st(2) by (auto simp: receiver_state_summary_def summary_defs split: if_splits)
  ultimately show "streams_done c"
    using f(2) by (simp add: streams_done_def TCPConnection_inbound_stream_def TCPSender_is_fin_def
        TCPSender_bytes_in_flight_def)
  show "sn_segments_outstanding ?s = []" using in_flight_pos [OF ok] f(2) by blast
  show "tc_active c" "tc_linger_after_streams_finish c"
    "sender_state_summary ?s = TCPSenderStateSummary_FIN_ACKED"
    "receiver_state_summary (tc_receiver c) = TCPReceiverStateSummary_FIN_RECV"
    using st by simp_all
qed

text \<open>
  C16: lingering. In TIME_WAIT a tick leaves the connection in TIME_WAIT while fewer than ten
  retransmission timeouts have passed since the last segment arrived, and then makes it CLOSED.
\<close>

theorem time_wait_lingers:
  assumes "tc_ok S T i j c" "TCPConnection_state c = TCPState_of_State TIME_WAIT"
    "TCPSender_consecutive_retransmissions (tc_sender c) \<le> TCPConfig_MAX_RETX_ATTEMPTS"
  shows "TCPConnection_state (TCPConnection_tick ms c) = TCPState_of_State
    (if tc_time_since_last_segment_received c + ms \<ge> 10 * ucast (cfg_rt_timeout (tc_cfg c))
     then CLOSED else TIME_WAIT)"
proof -
  note F = time_wait_facts [OF assms(1,2)]
  define c1 where "c1 = c\<lparr>tc_time_since_last_segment_received := tc_time_since_last_segment_received c + ms,
    tc_sender := (tc_sender c)\<lparr>sn_tick := sn_tick (tc_sender c) + ms\<rparr>\<rparr>"
  have t: "TCPSender_tick ms (tc_sender c) = (tc_sender c)\<lparr>sn_tick := sn_tick (tc_sender c) + ms\<rparr>"
    using F(4) by (simp add: TCPSender_tick_def)
  have "\<not> TCPSender_consecutive_retransmissions (tc_sender c1) > TCPConfig_MAX_RETX_ATTEMPTS"
    using assms(3) by (simp add: c1_def TCPSender_consecutive_retransmissions_def)
  then have tick: "TCPConnection_tick ms c = TCPConnection_clean_shutdown (flushed c1)"
    using F(1) by (simp add: TCPConnection_tick_def Let_def c1_def t send_sender_segments_eq)
  have "streams_done (flushed c1)"
    using F(3) by (simp add: streams_done_def c1_def TCPConnection_inbound_stream_def TCPSender_is_fin_def
        TCPSender_bytes_in_flight_def)
  moreover have "sender_state_summary (tc_sender (flushed c1)) = TCPSenderStateSummary_FIN_ACKED"
    using F(5) by (simp add: c1_def)
  ultimately show ?thesis
    using F(1,2,6)
    by (auto simp: tick TCPConnection_state_def TCPState_of_parts_def clean_shutdown_active clean_shutdown_linger
        lingered_def streams_done_def TCPState_of_State_def TCPState_default_def c1_def)
qed

text \<open>The client of the examples opens the connection, ends its stream, and receives the peer's FIN.\<close>

definition peer_seg :: "u32 \<Rightarrow> bool \<Rightarrow> bool \<Rightarrow> u32 \<Rightarrow> TCPSegment" where
  "peer_seg seqno syn fin ackno =
     TCPSegment_new\<lparr>ts_header := TCPHeader_new\<lparr>th_seqno := seqno, th_syn := syn, th_fin := fin, th_ack := True,
       th_ackno := ackno, th_win := 100\<rparr>\<rparr>"

definition demo_closing :: TCPConnection where
  "demo_closing = TCPConnection_segment_received (peer_seg 21 False True 9)
     (TCPConnection_end_input_stream (TCPConnection_segment_received (peer_seg 20 True False 8) demo_client))"

lemma peer_seg_wire: "syn \<and> \<not> fin \<and> k = 0 \<or> \<not> syn \<and> k = 1 \<Longrightarrow> wire_seg [] 20 (peer_seg (20 + k) syn fin ackno)"
proof -
  assume k: "syn \<and> \<not> fin \<and> k = 0 \<or> \<not> syn \<and> k = 1"
  have "carries [] 20 (ucast k) (peer_seg (20 + k) syn fin ackno)"
    using k by (auto simp: carries_def peer_seg_def wrap_ucast seg_data_def seg_index_def TCPSegment_new_def)
  moreover have "unat (ucast k :: u64) \<le> length ([] :: bytes) + 2" using k by auto
  moreover have "wire_ok (peer_seg (20 + k) syn fin ackno)"
    by (simp add: wire_ok_def segment_sendable_def peer_seg_def TCPSegment_new_def TCPHeader_new_def TCPHeader_LENGTH_def)
  ultimately show ?thesis unfolding wire_seg_def on_wire_def piece_def by blast
qed

lemma demo_closing_ok: "tc_ok [] [] 7 20 demo_closing"
proof -
  let ?c = "TCPConnection_segment_received (peer_seg 20 True False 8) demo_client"
  have "tc_ok [] [] 7 20 ?c"
    using peer_seg_wire [of True False 0] by (intro tc_segment_received_ok demo_client_ok) simp
  moreover from this have "sn_ok [] (tc_sender ?c)" by (simp add: tc_ok_def tc_pre_def)
  then have "tc_written ?c = 0" using sn_okD(3) by (fastforce simp: tc_written_def sn_written_def)
  ultimately have "tc_ok [] [] 7 20 (TCPConnection_end_input_stream ?c)" by (intro tc_end_input_ok) simp_all
  then show ?thesis
    unfolding demo_closing_def using peer_seg_wire [of False True 1] by (intro tc_segment_received_ok) simp_all
qed

theorem time_wait_lingers_witness:
  "TCPConnection_state (TCPConnection_tick 9999 demo_closing) = TCPState_of_State TIME_WAIT
   \<and> TCPConnection_state (TCPConnection_tick 10000 demo_closing) = TCPState_of_State CLOSED"
proof -
  have "TCPConnection_state demo_closing = TCPState_of_State TIME_WAIT"
    "TCPSender_consecutive_retransmissions (tc_sender demo_closing) \<le> TCPConfig_MAX_RETX_ATTEMPTS"
    "tc_time_since_last_segment_received demo_closing = 0" "cfg_rt_timeout (tc_cfg demo_closing) = 1000"
    by code_simp+
  with time_wait_lingers [OF demo_closing_ok, of 9999] time_wait_lingers [OF demo_closing_ok, of 10000]
  show ?thesis by simp
qed

section \<open>Opening\<close>

definition syn_segment :: "u32 \<Rightarrow> TCPSegment" where
  "syn_segment isn = TCPSegment_new\<lparr>ts_header := TCPHeader_new\<lparr>th_syn := True, th_seqno := isn\<rparr>\<rparr>"

lemma fill_window_new:
  fixes cap rto fixed rnd
  defines "s \<equiv> TCPSender_new cap rto fixed rnd"
  shows "TCPSender_fill_window s =
    s\<lparr>sn_syn := True, sn_segments_out := [syn_segment (sn_isn s)], sn_segments_outstanding := [syn_segment (sn_isn s)],
      sn_next_seqno := 1, sn_bytes_in_flight := 1, sn_timer_running := True, sn_rto := ucast rto, sn_tick := 0\<rparr>"
  by (simp add: s_def TCPSender_new_def TCPSender_fill_window_def TCPSender_send_syn_def TCPSender_start_timer_def
     syn_segment_def TCPSegment_new_def TCPSegment_length_in_sequence_space_def TCPHeader_new_def Let_def)

lemma drain_frame:
  "sr_output (snd (StreamReassembler_drain n cur tw sr)) = sr_output sr"
  "sr_eof (snd (StreamReassembler_drain n cur tw sr)) = sr_eof sr"
  by (induction n arbitrary: cur tw sr) (simp_all add: Let_def)

text \<open>A stream that has neither failed nor seen its end.\<close>

definition sr_open :: "StreamReassembler \<Rightarrow> bool" where
  "sr_open sr = (\<not> sr_eof sr \<and> \<not> bs_input_ended_flag (sr_output sr) \<and> \<not> bs_error (sr_output sr))"

lemma push_empty_open: "sr_open sr \<Longrightarrow> sr_open (StreamReassembler_push_substring [] i False sr)"
  using drain_frame [of "unat (sr_unassembled sr)" i "[]" "sr\<lparr>sr_first_unread := ByteStream_bytes_read (sr_output sr)\<rparr>"]
  by (simp add: StreamReassembler_push_substring_def sr_open_def split_beta Let_def)

definition tr_open :: "TCPReceiver \<Rightarrow> bool" where
  "tr_open r = (tr_syn r \<and> \<not> tr_fin r \<and> sr_open (tr_reassembler r))"

lemma tr_open_summary: "tr_open r \<Longrightarrow> receiver_state_summary r = TCPReceiverStateSummary_SYN_RECV"
  by (simp add: tr_open_def sr_open_def receiver_state_summary_def TCPReceiver_ackno_def TCPReceiver_stream_out_def
     ByteStream_input_ended_def)

lemma receive_empty_open:
  assumes "ts_payload seg = Buffer_empty" "\<not> th_fin (ts_header seg)" "sr_open (tr_reassembler r)" "\<not> tr_fin r"
    "th_syn (ts_header seg) \<or> tr_syn r"
  shows "tr_open (TCPReceiver_segment_received seg r)"
  using assms push_empty_open [OF assms(3)]
  by (auto simp: TCPReceiver_segment_received_def Let_def tr_open_def)

lemma receive_syn_ackno:
  fixes seg cap
  assumes "ts_payload seg = Buffer_empty" "\<not> th_fin (ts_header seg)" "th_syn (ts_header seg)"
  defines "r \<equiv> TCPReceiver_segment_received seg (TCPReceiver_new cap)"
  shows "TCPReceiver_ackno r = Some (th_seqno (ts_header seg) + 1)" "tr_open r"
proof -
  let ?isn = "th_seqno (ts_header seg)"
  have ok: "tr_ok [] ?isn (TCPReceiver_new cap)" using unat_u64_lt [of cap] by (intro tr_ok_new) simp
  have c: "carries [] ?isn 0 seg" using assms(1-3) by (simp add: carries_def seg_data_def)
  have n: "near 0 (TCPReceiver_new cap)" by (simp add: near_def seg_index_def TCPReceiver_new_def)
  have "sr_open (StreamReassembler_new cap)" by (simp add: sr_open_def StreamReassembler_new_def ByteStream_new_def)
  then show o: "tr_open r"
    unfolding r_def using assms(1-3) by (intro receive_empty_open) (simp_all add: TCPReceiver_new_def)
  have "tr_ok [] ?isn r" using segment_received_ok [OF ok c n] by (simp add: r_def)
  moreover from this have "sr_first_unassembled (tr_reassembler r) = 0"
    by (simp add: tr_ok_def sr_ok_def Let_def unat_eq_zero)
  ultimately show "TCPReceiver_ackno r = Some (?isn + 1)"
    using o by (simp add: tr_ok_def tr_open_def TCPReceiver_ackno_def wrap_ucast)
qed

definition syn_sent :: "TCPSender \<Rightarrow> bool" where
  "syn_sent s = (sn_syn s \<and> sn_segments_outstanding s = [syn_segment (sn_isn s)] \<and> sn_next_seqno s = 1
     \<and> sn_bytes_in_flight s = 1 \<and> sn_segments_out s = [] \<and> (\<exists>cap. sn_stream s = ByteStream_new cap))"

lemma syn_sent_summary: "syn_sent s \<Longrightarrow> sender_state_summary s = TCPSenderStateSummary_SYN_SENT"
proof -
  have "\<not> bs_error (ByteStream_new cap)" for cap by (simp add: ByteStream_new_def)
  then show "syn_sent s \<Longrightarrow> sender_state_summary s = TCPSenderStateSummary_SYN_SENT"
    by (auto simp: syn_sent_def sender_state_summary_def TCPSender_bytes_in_flight_def TCPSender_next_seqno_absolute_def)
qed

lemma syn_acked:
  assumes "syn_sent s"
  shows "sn_segments_out (TCPSender_ack_received (sn_isn s + 1) win s) = []"
    "sender_state_summary (TCPSender_ack_received (sn_isn s + 1) win s) = TCPSenderStateSummary_SYN_ACKED"
proof -
  have u: "unwrap (sn_isn s + 1) (sn_isn s) 1 = 1" "unwrap (sn_isn s) (sn_isn s) 1 = 0"
    by (rule unwrap_eqI; simp add: wrap_ucast)+
  have l: "TCPSegment_length_in_sequence_space (syn_segment i) = 1" "th_seqno (ts_header (syn_segment i)) = i" for i
    by (simp_all add: TCPSegment_length_in_sequence_space_def syn_segment_def TCPSegment_new_def TCPHeader_new_def)
  obtain cap where S: "sn_syn s" "sn_segments_outstanding s = [syn_segment (sn_isn s)]" "sn_next_seqno s = 1"
     "sn_bytes_in_flight s = 1" "sn_segments_out s = []" "sn_stream s = ByteStream_new cap"
    using assms by (auto simp: syn_sent_def)
  define s1 where "s1 = s\<lparr>sn_receiver_window_size := win, sn_bytes_in_flight := 0, sn_segments_outstanding := [], sn_tick := 0,
    sn_rto := sn_initial_retransmission_timeout s, sn_consecutive_retransmissions := 0, sn_timer_running := False\<rparr>"
  have w: "\<not> 1 + ucast win - 1 + (if win \<noteq> 0 then 0 else 1) < (1 :: u64)"
    by (cases "win = 0") (simp_all add: word_less_nat_alt unat_ucast_up unat_gt_0 Suc_le_eq not_less)
  have "TCPSender_ack_received (sn_isn s + 1) win s = TCPSender_fill_window s1"
    using S w u l by (cases "win = sn_receiver_window_size s") (simp_all add: TCPSender_ack_received_def s1_def)
  also have "\<dots> = s1"
    using S by (simp add: TCPSender_fill_window_def s1_def ByteStream_new_def ByteStream_buffer_size_def ByteStream_eof_def
        BufferList_size_def ByteStream_input_ended_def)
  finally have e: "TCPSender_ack_received (sn_isn s + 1) win s = s1" .
  show "sn_segments_out (TCPSender_ack_received (sn_isn s + 1) win s) = []"
    "sender_state_summary (TCPSender_ack_received (sn_isn s + 1) win s) = TCPSenderStateSummary_SYN_ACKED"
    unfolding e using S by (simp_all add: s1_def sender_state_summary_def TCPSender_next_seqno_absolute_def
     TCPSender_bytes_in_flight_def ByteStream_new_def ByteStream_eof_def ByteStream_input_ended_def)
qed

lemma established_state:
  assumes "tr_open (tc_receiver c)" "sender_state_summary (tc_sender c) = TCPSenderStateSummary_SYN_ACKED"
    "tc_active c" "tc_linger_after_streams_finish c"
  shows "TCPConnection_state c = TCPState_of_State ESTABLISHED"
  using assms tr_open_summary [OF assms(1)]
  by (simp add: TCPConnection_state_def TCPState_of_parts_def TCPState_of_State_def TCPState_default_def)

lemma send_open:
  assumes "tr_open (tc_receiver c)" "\<not> tc_need_send_rst c"
  shows "TCPConnection_send_sender_segments c = flushed c"
  using assms by (simp add: send_sender_segments_eq TCPConnection_clean_shutdown_def tr_open_def sr_open_def
     TCPReceiver_stream_out_def ByteStream_input_ended_def)

definition is_opening :: "TCPConnection \<Rightarrow> bool" where
  "is_opening c = (syn_sent (tc_sender c) \<and> tc_active c \<and> tc_linger_after_streams_finish c \<and> \<not> tc_need_send_rst c)"

lemma connect_open:
  fixes c
  assumes "tc_sender c = TCPSender_new cap rto fixed rnd" "tc_active c" "tc_linger_after_streams_finish c"
    "\<not> tc_need_send_rst c" "tc_segments_out c = []"
    "\<not> bs_input_ended_flag (TCPReceiver_stream_out (tc_receiver c))"
  defines "c' \<equiv> TCPConnection_connect c"
  shows "is_opening c'" "tc_receiver c' = tc_receiver c" "sn_isn (tc_sender c') = sn_isn (tc_sender c)"
    "tc_segments_out c' = [stamp (tc_receiver c) False (syn_segment (sn_isn (tc_sender c)))]"
proof -
  define c1 where "c1 = c\<lparr>tc_sender := TCPSender_fill_window (tc_sender c)\<rparr>"
  have c': "c' = flushed c1"
    using assms(6) by (simp add: c'_def TCPConnection_connect_def send_sender_segments_eq c1_def
        TCPConnection_clean_shutdown_def ByteStream_input_ended_def)
  note F = fill_window_new [of cap rto fixed rnd, folded assms(1)]
  have "sn_stream (tc_sender c) = ByteStream_new cap" by (simp add: assms(1) TCPSender_new_def)
  then show "is_opening c'"
    using assms(2-4) by (simp add: is_opening_def c' c1_def F syn_sent_def) blast
  show "tc_receiver c' = tc_receiver c" "sn_isn (tc_sender c') = sn_isn (tc_sender c)"
    "tc_segments_out c' = [stamp (tc_receiver c) False (syn_segment (sn_isn (tc_sender c)))]"
    using assms(4,5) by (simp_all add: c' c1_def F outgoing_def)
qed

lemma connect_new:
  fixes cfg rnd
  defines "c \<equiv> TCPConnection_connect (TCPConnection_new cfg rnd)"
  shows "is_opening c" "tc_receiver c = TCPReceiver_new (cfg_recv_capacity cfg)"
    "tc_segments_out c = [syn_segment (sn_isn (tc_sender c))]" "TCPConnection_state c = TCPState_of_State SYN_SENT"
proof -
  let ?n = "TCPConnection_new cfg rnd" and ?r = "TCPReceiver_new (cfg_recv_capacity cfg)"
  have r: "\<not> bs_input_ended_flag (TCPReceiver_stream_out ?r)" "TCPReceiver_ackno ?r = None"
     "\<not> bs_error (TCPReceiver_stream_out ?r)"
    by (simp_all add: TCPReceiver_new_def TCPReceiver_stream_out_def StreamReassembler_new_def ByteStream_new_def
       TCPReceiver_ackno_def)
  have "tc_sender ?n = TCPSender_new (cfg_send_capacity cfg) (cfg_rt_timeout cfg) (cfg_fixed_isn cfg) rnd"
    by (simp add: TCPConnection_new_def)
  note C = connect_open [OF this, folded c_def]
  show o: "is_opening c" "tc_receiver c = ?r" "tc_segments_out c = [syn_segment (sn_isn (tc_sender c))]"
    using C r by (simp_all add: TCPConnection_new_def stamp_def)
  show "TCPConnection_state c = TCPState_of_State SYN_SENT"
    using o r syn_sent_summary [of "tc_sender c"] 
    by (simp add: is_opening_def TCPConnection_state_def TCPState_of_parts_def TCPState_of_State_def TCPState_default_def
      receiver_state_summary_def)
qed

lemma listen_syn:
  fixes cfg rnd i
  defines "c \<equiv> TCPConnection_segment_received (syn_segment i) (TCPConnection_new cfg rnd)"
  shows "is_opening c" "tr_open (tc_receiver c)" "TCPReceiver_ackno (tc_receiver c) = Some (i + 1)"
    "tc_segments_out c = [stamp (tc_receiver c) False (syn_segment (sn_isn (tc_sender c)))]"
    "TCPConnection_state c = TCPState_of_State SYN_RCVD"
proof -
  define n where "n = (TCPConnection_new cfg rnd)\<lparr>tc_time_since_last_segment_received := 0,
    tc_receiver := TCPReceiver_segment_received (syn_segment i) (TCPReceiver_new (cfg_recv_capacity cfg))\<rparr>"
  have seg: "ts_payload (syn_segment i) = Buffer_empty" "\<not> th_fin (ts_header (syn_segment i))"
     "th_syn (ts_header (syn_segment i))" "th_seqno (ts_header (syn_segment i)) = i" "\<not> th_rst (ts_header (syn_segment i))"
    by (simp_all add: syn_segment_def TCPSegment_new_def TCPHeader_new_def)
  note R = receive_syn_ackno [OF seg(1-3), of "cfg_recv_capacity cfg"]
  have "in_listen (TCPConnection_new cfg rnd)"
    by (simp add: in_listen_def TCPConnection_new_def TCPSender_next_seqno_absolute_def TCPReceiver_ackno_def
       TCPSender_new_def TCPReceiver_new_def)
  then have c: "c = TCPConnection_connect n"
    using seg by (simp add: c_def TCPConnection_segment_received_def Let_def in_listen_def n_def TCPConnection_new_def)
  have s: "tc_sender n = TCPSender_new (cfg_send_capacity cfg) (cfg_rt_timeout cfg) (cfg_fixed_isn cfg) rnd"
    by (simp add: n_def TCPConnection_new_def)
  have r: "tr_open (tc_receiver n)" "TCPReceiver_ackno (tc_receiver n) = Some (i + 1)"
    using R seg(4) by (simp_all add: n_def)
  then have "\<not> bs_input_ended_flag (TCPReceiver_stream_out (tc_receiver n))"
    by (simp add: tr_open_def sr_open_def TCPReceiver_stream_out_def)
  moreover have "tc_active n" "tc_linger_after_streams_finish n" "\<not> tc_need_send_rst n" "tc_segments_out n = []"
    by (simp_all add: n_def TCPConnection_new_def)
  ultimately have C: "is_opening c" "tc_receiver c = tc_receiver n"
    "tc_segments_out c = [stamp (tc_receiver n) False (syn_segment (sn_isn (tc_sender c)))]"
    using connect_open [OF s, folded c] by simp_all
  then show o: "is_opening c" "tr_open (tc_receiver c)" "TCPReceiver_ackno (tc_receiver c) = Some (i + 1)"
    "tc_segments_out c = [stamp (tc_receiver c) False (syn_segment (sn_isn (tc_sender c)))]"
    using r by simp_all
  show "TCPConnection_state c = TCPState_of_State SYN_RCVD"
    using o(1) tr_open_summary [OF o(2)] syn_sent_summary [of "tc_sender c"]
    by (simp add: is_opening_def TCPConnection_state_def TCPState_of_parts_def TCPState_of_State_def TCPState_default_def)
qed

lemma opening_acked:
  fixes c seg
  assumes o: "is_opening c" and r: "sr_open (tr_reassembler (tc_receiver c))" "\<not> tr_fin (tc_receiver c)"
    and seg: "ts_payload seg = Buffer_empty" "\<not> th_fin (ts_header seg)" "th_syn (ts_header seg) \<or> tr_syn (tc_receiver c)"
      "\<not> th_rst (ts_header seg)" "th_ack (ts_header seg)" "th_ackno (ts_header seg) = sn_isn (tc_sender c) + 1"
  defines "c' \<equiv> TCPConnection_segment_received seg c"
  shows "TCPConnection_state c' = TCPState_of_State ESTABLISHED" 
    "tc_receiver c' = TCPReceiver_segment_received seg (tc_receiver c)"
    "th_syn (ts_header seg) \<Longrightarrow> \<exists>out. tc_segments_out c' = tc_segments_out c @ [stamp (tc_receiver c') False out]
       \<and> ts_payload out = Buffer_empty \<and> \<not> th_fin (ts_header out) \<and> \<not> th_rst (ts_header out)"
proof -
  let ?s = "TCPSender_ack_received (th_ackno (ts_header seg)) (th_win (ts_header seg)) (tc_sender c)"
  let ?l = "TCPSegment_length_in_sequence_space seg > 0"
  define c1 where "c1 = c\<lparr>tc_time_since_last_segment_received := 0,
    tc_receiver := TCPReceiver_segment_received seg (tc_receiver c),
    tc_sender := (if ?l then TCPSender_send_empty_segment ?s else ?s)\<rparr>"
  have s: "syn_sent (tc_sender c)" using o by (simp add: is_opening_def)
  note A = syn_acked [OF s, of "th_win (ts_header seg)", folded seg(6)]
  have "Buffer_size Buffer_empty = 0" by code_simp
  then have "c' = TCPConnection_send_sender_segments c1"
    using o s seg A(1) by (simp add: c'_def TCPConnection_segment_received_def TCPConnection_process_def Let_def c1_def
      is_opening_def syn_sent_def TCPSender_next_seqno_absolute_def TCPSender_bytes_in_flight_def)
  moreover have op: "tr_open (tc_receiver c1)"
    using receive_empty_open [OF seg(1,2) r seg(3)] by (simp add: c1_def)
  ultimately have c': "c' = flushed c1" using o by (simp add: send_open c1_def is_opening_def)
  have "sender_state_summary (TCPSender_send_empty_segment x) = sender_state_summary x" for x
    by (simp add: TCPSender_send_empty_segment_def Let_def)
  then show "TCPConnection_state c' = TCPState_of_State ESTABLISHED"
    using op o A(2) by (intro established_state) (auto simp: c' c1_def is_opening_def)
  show rc: "tc_receiver c' = TCPReceiver_segment_received seg (tc_receiver c)" by (simp add: c' c1_def)
  show "\<exists>out. tc_segments_out c' = tc_segments_out c @ [stamp (tc_receiver c') False out]
       \<and> ts_payload out = Buffer_empty \<and> \<not> th_fin (ts_header out) \<and> \<not> th_rst (ts_header out)" 
    if "th_syn (ts_header seg)"
  proof -
    have "?l" using that seg(1,2) by (simp add: TCPSegment_length_in_sequence_space_def)
    then have t: "tc_sender c1 = TCPSender_send_empty_segment ?s" by (simp add: c1_def)
    obtain out where out: "sn_segments_out (TCPSender_send_empty_segment ?s) = [out]"
        "ts_payload out = Buffer_empty" "\<not> th_fin (ts_header out)" "\<not> th_rst (ts_header out)"
      using A(1) by (simp add: TCPSender_send_empty_segment_def Let_def TCPSegment_new_def TCPHeader_new_def)
    have "\<not> tc_need_send_rst c1" "tc_segments_out c1 = tc_segments_out c" "tc_receiver c1 = tc_receiver c'"
      using o by (simp_all add: c1_def is_opening_def rc)
    then have "tc_segments_out c' = tc_segments_out c @ [stamp (tc_receiver c') False out]"
      using out(1) t by (simp add: c' outgoing_def)
    with out show ?thesis by blast
  qed
qed

text \<open>
  C13: opening. For any two configurations and initial sequence numbers, the three segments of the
  handshake take the active side from SYN_SENT and the passive side from LISTEN through SYN_RCVD to
  ESTABLISHED.
\<close>

theorem three_way_handshake:
  "let client = TCPConnection_connect (TCPConnection_new cfg rnd);
       server = TCPConnection_segment_received (last (tc_segments_out client)) (TCPConnection_new cfg' rnd');
       client' = TCPConnection_segment_received (last (tc_segments_out server)) client;
       server' = TCPConnection_segment_received (last (tc_segments_out client')) server
   in TCPConnection_state client = TCPState_of_State SYN_SENT
      \<and> TCPConnection_state server = TCPState_of_State SYN_RCVD
      \<and> TCPConnection_state client' = TCPState_of_State ESTABLISHED
      \<and> TCPConnection_state server' = TCPState_of_State ESTABLISHED"
proof -
  define c where "c = TCPConnection_connect (TCPConnection_new cfg rnd)"
  note C = connect_new [of cfg rnd, folded c_def]
  let ?i = "sn_isn (tc_sender c)"
  define s where "s = TCPConnection_segment_received (syn_segment ?i) (TCPConnection_new cfg' rnd')"
  note S = listen_syn [of ?i cfg' rnd', folded s_def]
  define synack where "synack = stamp (tc_receiver s) False (syn_segment (sn_isn (tc_sender s)))"
  have seg: "ts_payload synack = Buffer_empty" "\<not> th_fin (ts_header synack)" "th_syn (ts_header synack)"
      "\<not> th_rst (ts_header synack)" "th_seqno (ts_header synack) = sn_isn (tc_sender s)"
    by (simp_all add: synack_def syn_segment_def TCPSegment_new_def TCPHeader_new_def)
  have a: "th_ack (ts_header synack)" "th_ackno (ts_header synack) = ?i + 1"
    using stamp_ack [OF S(3)] by (simp_all add: synack_def)
  have ro: "sr_open (tr_reassembler (tc_receiver c))" "\<not> tr_fin (tc_receiver c)"
    by (simp_all add: C(2) TCPReceiver_new_def sr_open_def StreamReassembler_new_def ByteStream_new_def)
  define c' where "c' = TCPConnection_segment_received synack c"
  note C' = opening_acked [OF C(1) ro seg(1,2) _ seg(4) a, folded c'_def]
  obtain out where out: "tc_segments_out c' = tc_segments_out c @ [stamp (tc_receiver c') False out]"
      "ts_payload out = Buffer_empty" "\<not> th_fin (ts_header out)" "\<not> th_rst (ts_header out)"
    using C'(3) seg(3) by blast
  have "TCPReceiver_ackno (tc_receiver c') = Some (sn_isn (tc_sender s) + 1)"
    using C'(2) receive_syn_ackno(1) [OF seg(1,2,3)] seg(3,5) C(2) by simp
  note a' = stamp_ack [OF this, of False out]
  have "TCPConnection_state (TCPConnection_segment_received (stamp (tc_receiver c') False out) s)
      = TCPState_of_State ESTABLISHED"
    using S(2) out a' by (intro opening_acked [OF S(1)]) (simp_all add: tr_open_def)
  then show ?thesis
    unfolding Let_def c_def [symmetric] using C(3,4) S(4,5) C'(1) out(1) seg(3)
    by (simp add: s_def [symmetric] synack_def [symmetric] c'_def [symmetric])
qed

end
