(* ===== verification/Outbound_Stream.thy ===== *)
theory Outbound_Stream
  imports Tcp_Connection
begin

text \<open>
  What the operations of a \<open>TCPConnection\<close> keep of its sender. The stream it sends from stays
  well-formed under every operation, whatever segments arrive: what the owner of a connection relies on
  when it hands over no more bytes than \<open>remaining_outbound_capacity\<close> reports.
\<close>

definition out_ok :: "TCPSender \<Rightarrow> bool" where
  "out_ok s = bs_ok (sn_stream s)"

lemma out_ok_frame [simp]:
  "out_ok (s\<lparr>sn_receiver_window_size := w\<rparr>) = out_ok s" "out_ok (s\<lparr>sn_timer_running := b\<rparr>) = out_ok s"
  "out_ok (s\<lparr>sn_segments_out := q\<rparr>) = out_ok s" "out_ok (emit seg s) = out_ok s"
  "out_ok (s\<lparr>sn_stream := ByteStream_set_error (sn_stream s)\<rparr>) = out_ok s"
  "out_ok (TCPSender_end_input s) = out_ok s"
  by (simp_all add: out_ok_def TCPSender_end_input_def)

lemma fill_loop_out: "out_ok s \<Longrightarrow> out_ok (snd (TCPSender_fill_loop fuel remain s))"
proof (induction fuel arbitrary: remain s)
  case (Suc fuel)
  obtain r1 s1 where st: "TCPSender_fill_step remain s = (r1, s1)" by fastforce
  then have "out_ok s1"
    using Suc.prems by (auto simp: fill_step_eq Let_def out_ok_def intro: read_result(3))
  with Suc st show ?case by simp
qed simp

text \<open>The fuel of the loop is enough: its condition is false when it stops.\<close>

lemma fill_loop_done:
  "out_ok s \<Longrightarrow> unat (ByteStream_buffer_size (sn_stream s)) \<le> fuel \<Longrightarrow>
   TCPSender_fill_loop fuel remain s = (remain', s') \<Longrightarrow> \<not> (remain' > 0 \<and> ByteStream_buffer_size (sn_stream s') > 0)"
proof (induction fuel arbitrary: remain s)
  case 0
  then show ?case by (simp add: word_less_nat_alt)
next
  case (Suc fuel)
  show ?case
  proof (cases "remain > 0 \<and> ByteStream_buffer_size (sn_stream s) > 0")
    case False
    then show ?thesis using Suc.prems(3) by auto
  next
    case True
    obtain r1 s1 where st: "TCPSender_fill_step remain s = (r1, s1)" by fastforce
    let ?n = "min remain TCPConfig_MAX_PAYLOAD_SIZE"
    have ok: "bs_ok (sn_stream s)" using Suc.prems(1) by (simp add: out_ok_def)
    have s1: "sn_stream s1 = snd (ByteStream_read ?n (sn_stream s))" using st by (auto simp: fill_step_eq Let_def)
    have ok1: "out_ok s1" using read_result(3) [OF ok] by (simp add: out_ok_def s1)
    have "0 < unat ?n" using True by (simp add: min_def TCPConfig_MAX_PAYLOAD_SIZE_def word_less_nat_alt)
    moreover have "0 < length (bs_content (sn_stream s))"
      using True unat_buffer_size [OF ok] by (simp add: ByteStream_buffer_size_def word_less_nat_alt)
    ultimately have "length (bs_content (sn_stream s1)) < length (bs_content (sn_stream s))"
      using read_result(2) [OF ok, of ?n] by (simp add: s1)
    then have "unat (ByteStream_buffer_size (sn_stream s1)) \<le> fuel"
      using Suc.prems(2) unat_buffer_size [OF ok] unat_buffer_size [of "sn_stream s1"] ok1
      by (simp add: ByteStream_buffer_size_def out_ok_def)
    moreover have "TCPSender_fill_loop fuel r1 s1 = (remain', s')" using Suc.prems(3) True st by simp
    ultimately show ?thesis by (rule Suc.IH [OF ok1])
  qed
qed

lemma fill_window_out [simp]: "out_ok s \<Longrightarrow> out_ok (TCPSender_fill_window s)"
proof -
  assume ok: "out_ok s"
  obtain r s1 where l: "TCPSender_fill_loop (unat (ByteStream_buffer_size (sn_stream s)))
      (TCPSender_window_remain s) s = (r, s1)" by fastforce
  moreover have "out_ok (TCPSender_send_syn s)"
    using ok by (simp add: TCPSender_send_syn_def Let_def out_ok_def)
  ultimately show ?thesis
    using fill_loop_out [OF ok, of "unat (ByteStream_buffer_size (sn_stream s))" "TCPSender_window_remain s"]
    by (simp add: TCPSender_fill_window_def send_fin_eq)
qed

lemma pop_acked_out [simp]: "out_ok (TCPSender_pop_acked q k s) = out_ok s"
proof (induction q arbitrary: s)
  case (Cons t q)
  then show ?case by (simp add: Let_def) (simp add: out_ok_def)
qed simp

lemma ack_received_out [simp]: "out_ok s \<Longrightarrow> out_ok (TCPSender_ack_received ackno win s)"
  by (auto simp: TCPSender_ack_received_def Let_def split: list.splits)

lemma sender_tick_out [simp]: "out_ok (TCPSender_tick ms s) = out_ok s"
  by (auto simp: TCPSender_tick_def Let_def out_ok_def split: list.splits)

lemma send_empty_out [simp]: "out_ok (TCPSender_send_empty_segment s) = out_ok s"
  by (simp add: TCPSender_send_empty_segment_def Let_def)

definition outbound_ok :: "TCPConnection \<Rightarrow> bool" where
  "outbound_ok c = out_ok (tc_sender c)"

lemma outbound_new: "outbound_ok (TCPConnection_new cfg random)"
  by (simp add: outbound_ok_def out_ok_def TCPConnection_new_def TCPSender_new_def)

section \<open>What the sender keeps the connection keeps\<close>

text \<open>
  Whatever the operations of the sender keep is kept by those of the connection that do not come from
  its owner.
\<close>

locale sender_kept =
  fixes Q :: "TCPSender \<Rightarrow> bool"
  assumes fill: "Q s \<Longrightarrow> Q (TCPSender_fill_window s)"
    and ack: "Q s \<Longrightarrow> Q (TCPSender_ack_received ackno win s)"
    and tick: "Q s \<Longrightarrow> Q (TCPSender_tick ms s)"
    and send_empty: "Q s \<Longrightarrow> Q (TCPSender_send_empty_segment s)"
    and queue: "Q s \<Longrightarrow> Q (s\<lparr>sn_segments_out := q\<rparr>)"
    and set_error: "Q s \<Longrightarrow> Q (s\<lparr>sn_stream := ByteStream_set_error (sn_stream s)\<rparr>)"
begin

lemma send: "Q (tc_sender c) \<Longrightarrow> Q (tc_sender (TCPConnection_send_sender_segments c))"
  by (simp add: send_sender_segments_eq queue)

lemma unclean: "Q (tc_sender c) \<Longrightarrow> Q (tc_sender (TCPConnection_unclean_shutdown rst c))"
  unfolding TCPConnection_unclean_shutdown_def Let_def by (intro send) (simp add: set_error)

lemma connect: "Q (tc_sender c) \<Longrightarrow> Q (tc_sender (TCPConnection_connect c))"
  unfolding TCPConnection_connect_def by (intro send) (simp add: fill)

lemma process: "Q (tc_sender c) \<Longrightarrow> Q (tc_sender (TCPConnection_process seg c))"
  unfolding TCPConnection_process_def Let_def by (auto intro!: send simp: ack send_empty)

lemma received: "Q (tc_sender c) \<Longrightarrow> Q (tc_sender (TCPConnection_segment_received seg c))"
  unfolding TCPConnection_segment_received_def Let_def
  by (auto intro!: send connect process unclean simp: send_empty)

lemma ticked: "Q (tc_sender c) \<Longrightarrow> Q (tc_sender (TCPConnection_tick ms c))"
  unfolding TCPConnection_tick_def Let_def by (auto intro!: send unclean simp: tick)

lemma destroyed: "Q (tc_sender c) \<Longrightarrow> Q (tc_sender (TCPConnection_destroy c))"
  unfolding TCPConnection_destroy_def by (auto intro: unclean)

end

interpretation out: sender_kept out_ok
  by unfold_locales simp_all

interpretation input: sender_kept "\<lambda>s. sn_input s = k" for k
  by unfold_locales (simp_all, simp add: sn_input_def)

lemma outbound_send [simp]: "outbound_ok (TCPConnection_send_sender_segments c) = outbound_ok c"
  by (simp add: outbound_ok_def send_sender_segments_eq)

lemma outbound_connect: "outbound_ok c \<Longrightarrow> outbound_ok (TCPConnection_connect c)"
  unfolding outbound_ok_def by (rule out.connect)

lemma outbound_segment_received: "outbound_ok c \<Longrightarrow> outbound_ok (TCPConnection_segment_received seg c)"
  unfolding outbound_ok_def by (rule out.received)

lemma outbound_tick: "outbound_ok c \<Longrightarrow> outbound_ok (TCPConnection_tick ms c)"
  unfolding outbound_ok_def by (rule out.ticked)

lemma outbound_end_input: "outbound_ok c \<Longrightarrow> outbound_ok (TCPConnection_end_input_stream c)"
  by (simp add: TCPConnection_end_input_stream_def Let_def) (simp add: outbound_ok_def)

text \<open>What fits into the advertised capacity is taken in full.\<close>

lemma outbound_write:
  assumes "outbound_ok c" "length data \<le> unat (TCPConnection_remaining_outbound_capacity c)"
  shows "fst (TCPConnection_write data c) = ssize data" "outbound_ok (snd (TCPConnection_write data c))"
proof -
  let ?bs = "sn_stream (tc_sender c)"
  have ok: "bs_ok ?bs" using assms(1) by (simp add: outbound_ok_def out_ok_def)
  have len: "length data \<le> unat (bs_capacity ?bs) - length (bs_content ?bs)"
    using assms(2) unat_remaining_capacity [OF ok] by (simp add: TCPConnection_remaining_outbound_capacity_def)
  have "unat (bs_capacity ?bs) < W64" by (rule unat_u64_lt)
  then have len64: "length data < W64" using len by linarith
  note W = write_result [OF ok len64]
  have all: "bs_accepted data ?bs = data" using len by (simp add: bs_accepted_def)
  show "fst (TCPConnection_write data c) = ssize data"
    using W(1) all by (auto simp: TCPConnection_write_def TCPSender_write_def Let_def split_beta)
  show "outbound_ok (snd (TCPConnection_write data c))"
    using W(3) assms(1)
    by (simp add: TCPConnection_write_def TCPSender_write_def Let_def split_beta) (simp add: outbound_ok_def out_ok_def [of "_\<lparr>sn_stream := _\<rparr>"])
qed

end
