(* ===== verification/Sponge_Socket.thy ===== *)
theory Sponge_Socket
  imports Adapters Event_Loop Tcp_Lifecycle Outbound_Stream
begin

text \<open>
  \<open>libsponge/tcp_helpers/tcp_sponge_socket.{hh,cc}\<close>: a \<open>TCPConnection\<close>, an adapter and one end of a socket
  pair, driven by an event loop with four rules. The template parameter \<open>AdaptT\<close> is a record of the
  adapter's operations. The owner's thread is part of the operating system: it has the other end of the
  socket pair and sets the abort flag. What is printed is left out, but for the conversion of the peer's
  address to text, which may throw. \<open>ss_tcp_thread\<close> is whether the connection's thread was started; the wait
  for its end, in \<open>wait_until_closed\<close> and the destructor, is not modelled.
\<close>

section \<open>Model\<close>

record ('k, 'a) AdaptT =
  ad_fd :: "'a \<Rightarrow> FileDescriptor"
  ad_read :: "'a \<Rightarrow> ('k, TCPSegment option \<times> 'a) io"
  ad_write :: "TCPSegment \<Rightarrow> 'a \<Rightarrow> ('k, TCPSegment \<times> 'a) io"
  ad_config :: "'a \<Rightarrow> FdAdapterConfig"
  ad_set_config :: "FdAdapterConfig \<Rightarrow> 'a \<Rightarrow> 'a"
  ad_set_listening :: "bool \<Rightarrow> 'a \<Rightarrow> 'a"
  ad_tick :: "u64 \<Rightarrow> 'a \<Rightarrow> 'k world \<Rightarrow> ('a res \<times> 'k world) option"

record 'a TCPSpongeSocket =
  ss_fd :: FileDescriptor
  ss_thread_data :: FileDescriptor
  ss_datagram_adapter :: 'a
  ss_tcp :: "TCPConnection option"
  ss_tcp_thread :: bool
  ss_inbound_shutdown :: bool
  ss_outbound_shutdown :: bool
  ss_fully_acked :: bool

definition TCP_TICK_MS :: int where "TCP_TICK_MS = 10"

abbreviation tcp_of :: "'a TCPSpongeSocket \<Rightarrow> TCPConnection" where
  "tcp_of s \<equiv> the (ss_tcp s)"

definition set_tcp :: "TCPConnection \<Rightarrow> 'a TCPSpongeSocket \<Rightarrow> 'a TCPSpongeSocket" where
  "set_tcp c s = s\<lparr>ss_tcp := Some c\<rparr>"

text \<open>\<open>_datagram_adapter.config().destination.to_string()\<close> in the messages.\<close>

definition destination_text :: "('k, 'a) AdaptT \<Rightarrow> getnameinfo \<Rightarrow> 'a TCPSpongeSocket \<Rightarrow> string res" where
  "destination_text ad gni s = Address_to_string gni (fc_destination (ad_config ad (ss_datagram_adapter s)))"

subsection \<open>Rule 1: a datagram arrives\<close>

definition rule1_callback :: "('k, 'a) AdaptT \<Rightarrow> getnameinfo \<Rightarrow> ('k, 'a TCPSpongeSocket) action" where
  "rule1_callback ad gni = (\<lambda>(w, s).
     case ad_read ad (ss_datagram_adapter s) w of
       (Inl e, w) \<Rightarrow> (Inl e, (w, s))
     | (Inr (seg, a), w) \<Rightarrow>
         let s = s\<lparr>ss_datagram_adapter := a\<rparr>;
             s = (case seg of None \<Rightarrow> s | Some seg \<Rightarrow> set_tcp (TCPConnection_segment_received seg (tcp_of s)) s)
         in if FileDescriptor_eof (ss_thread_data s) w \<and> TCPConnection_bytes_in_flight (tcp_of s) = 0 \<and> \<not> ss_fully_acked s
            then (case destination_text ad gni s of
                    Inl e \<Rightarrow> (Inl e, (w, s))
                  | Inr _ \<Rightarrow> (Inr (), (w, s\<lparr>ss_fully_acked := True\<rparr>)))
            else (Inr (), (w, s)))"

definition rule1_interest :: "('k, 'a TCPSpongeSocket) state \<Rightarrow> bool" where
  "rule1_interest = (\<lambda>(w, s). tc_active (tcp_of s))"

subsection \<open>Rule 2: the owner has written\<close>

definition rule2_cancel :: "('k, 'a TCPSpongeSocket) action" where
  "rule2_cancel = (\<lambda>(w, s).
     (Inr (), (w, (set_tcp (TCPConnection_end_input_stream (tcp_of s)) s)\<lparr>ss_outbound_shutdown := True\<rparr>)))"

definition rule2_callback :: "'k os \<Rightarrow> ('k, 'a) AdaptT \<Rightarrow> getnameinfo \<Rightarrow> ('k, 'a TCPSpongeSocket) action" where
  "rule2_callback os ad gni = (\<lambda>(w, s).
     case FileDescriptor_read os (ss_thread_data s) (TCPConnection_remaining_outbound_capacity (tcp_of s)) w of
       (Inl e, w) \<Rightarrow> (Inl e, (w, s))
     | (Inr data, w) \<Rightarrow>
         let len = ssize data;
             (amount_written, c) = TCPConnection_write data (tcp_of s);
             s = set_tcp c s
         in if amount_written \<noteq> len
            then (Inl (Runtime_error ''TCPConnection::write() accepted less than advertised length''), (w, s))
            else if FileDescriptor_eof (ss_thread_data s) w
            then let s = (set_tcp (TCPConnection_end_input_stream (tcp_of s)) s)\<lparr>ss_outbound_shutdown := True\<rparr>
                 in (map_sum id (\<lambda>_. ()) (destination_text ad gni s), (w, s))
            else (Inr (), (w, s)))"

definition rule2_interest :: "('k, 'a TCPSpongeSocket) state \<Rightarrow> bool" where
  "rule2_interest = (\<lambda>(w, s). tc_active (tcp_of s) \<and> \<not> ss_outbound_shutdown s
     \<and> TCPConnection_remaining_outbound_capacity (tcp_of s) > 0)"

subsection \<open>Rule 3: bytes for the owner\<close>

definition set_inbound :: "ByteStream \<Rightarrow> TCPConnection \<Rightarrow> TCPConnection" where
  "set_inbound bs c = c\<lparr>tc_receiver := (tc_receiver c)
     \<lparr>tr_reassembler := (tr_reassembler (tc_receiver c))\<lparr>sr_output := bs\<rparr>\<rparr>\<rparr>"

definition rule3_callback :: "'k os \<Rightarrow> ('k, 'a) AdaptT \<Rightarrow> getnameinfo \<Rightarrow> ('k, 'a TCPSpongeSocket) action" where
  "rule3_callback os ad gni = (\<lambda>(w, s).
     let inbound = TCPConnection_inbound_stream (tcp_of s);
         amount_to_write = min 65536 (ByteStream_buffer_size inbound);
         buffer = ByteStream_peek_output amount_to_write inbound
     in case FileDescriptor_write os (ss_thread_data s) (BufferViewList_of_string buffer) False w of
          (Inl e, w) \<Rightarrow> (Inl e, (w, s))
        | (Inr bytes_written, w) \<Rightarrow>
            let inbound = ByteStream_pop_output bytes_written inbound;
                s = set_tcp (set_inbound inbound (tcp_of s)) s
            in if ByteStream_eof inbound \<or> bs_error inbound
               then (case Socket_shutdown os (ss_thread_data s) SHUT_WR w of
                       (Inl e, w) \<Rightarrow> (Inl e, (w, s))
                     | (Inr _, w) \<Rightarrow>
                         let s = s\<lparr>ss_inbound_shutdown := True\<rparr>
                         in (map_sum id (\<lambda>_. ()) (destination_text ad gni s), (w, s)))
               else (Inr (), (w, s)))"

definition rule3_interest :: "('k, 'a TCPSpongeSocket) state \<Rightarrow> bool" where
  "rule3_interest = (\<lambda>(w, s).
     let inbound = TCPConnection_inbound_stream (tcp_of s)
     in \<not> ByteStream_buffer_empty inbound \<or> (ByteStream_eof inbound \<or> bs_error inbound) \<and> \<not> ss_inbound_shutdown s)"

subsection \<open>Rule 4: segments to send\<close>

text \<open>The loop over \<open>segments_out\<close>; what an exception leaves in the queue starts with the segment at hand.\<close>

primrec rule4_send :: "('k, 'a) AdaptT \<Rightarrow> TCPSegment list \<Rightarrow> ('k, 'a TCPSpongeSocket) action" where
  "rule4_send ad [] = (\<lambda>st. (Inr (), st))"
| "rule4_send ad (seg # rest) = (\<lambda>(w, s).
     case ad_write ad seg (ss_datagram_adapter s) w of
       (Inl e, w) \<Rightarrow> (Inl e, (w, s))
     | (Inr (_, a), w) \<Rightarrow>
         rule4_send ad rest (w, set_tcp ((tcp_of s)\<lparr>tc_segments_out := rest\<rparr>) (s\<lparr>ss_datagram_adapter := a\<rparr>)))"

definition rule4_callback :: "('k, 'a) AdaptT \<Rightarrow> ('k, 'a TCPSpongeSocket) action" where
  "rule4_callback ad = (\<lambda>(w, s). rule4_send ad (tc_segments_out (tcp_of s)) (w, s))"

definition rule4_interest :: "('k, 'a TCPSpongeSocket) state \<Rightarrow> bool" where
  "rule4_interest = (\<lambda>(w, s). tc_segments_out (tcp_of s) \<noteq> [])"

subsection \<open>The socket\<close>

definition no_cancel :: "('k, 'u) action" where
  "no_cancel st = (Inr (), st)"

text \<open>\<open>random\<close> is the random initial sequence number.\<close>

definition TCPSpongeSocket_initialize_TCP :: "'k os \<Rightarrow> ('k, 'a) AdaptT \<Rightarrow> getnameinfo \<Rightarrow> TCPConfig \<Rightarrow> WrappingInt32 \<Rightarrow>
    'a TCPSpongeSocket \<Rightarrow> ('k, 'a TCPSpongeSocket) Rule list \<times> 'a TCPSpongeSocket" where
  "TCPSpongeSocket_initialize_TCP os ad gni config random s =
     (let s = set_tcp (TCPConnection_new config random) s;
          rules = [];
          rules = EventLoop_add_rule (ad_fd ad (ss_datagram_adapter s)) In (rule1_callback ad gni) rule1_interest no_cancel rules;
          rules = EventLoop_add_rule (ss_thread_data s) In (rule2_callback os ad gni) rule2_interest rule2_cancel rules;
          rules = EventLoop_add_rule (ss_thread_data s) Out (rule3_callback os ad gni) rule3_interest no_cancel rules;
          rules = EventLoop_add_rule (ad_fd ad (ss_datagram_adapter s)) Out (rule4_callback ad) rule4_interest no_cancel rules
      in (rules, s))"

definition timestamp_ms :: "'k os \<Rightarrow> 'k world \<Rightarrow> u64 \<times> 'k world" where
  "timestamp_ms os w = (let (r, k) = os SC_clock (w_os w) in (of_int (sr_value r), w\<lparr>w_os := k\<rparr>))"

text \<open>The flag \<open>_abort\<close>, which the owner's thread sets.\<close>

definition abort_flag :: "'k os \<Rightarrow> 'k world \<Rightarrow> bool \<times> 'k world" where
  "abort_flag os w = (let (r, k) = os SC_abort_flag (w_os w) in (sr_value r \<noteq> 0, w\<lparr>w_os := k\<rparr>))"

text \<open>
  One turn of \<open>_tcp_loop\<close> behind its condition: whether the loop goes on, the rules and the base time.
  \<open>None\<close> is an adapter whose tick does not return.
\<close>

definition tcp_loop_turn :: "'k os \<Rightarrow> ('k, 'a) AdaptT \<Rightarrow> ('k, 'a TCPSpongeSocket) Rule list \<Rightarrow> u64 \<Rightarrow>
    ('k, 'a TCPSpongeSocket) state \<Rightarrow>
    ((bool \<times> ('k, 'a TCPSpongeSocket) Rule list \<times> u64) res \<times> ('k, 'a TCPSpongeSocket) state) option" where
  "tcp_loop_turn os ad rules base_time st =
     (case EventLoop_wait_next_event os TCP_TICK_MS rules st of
        (Inl e, st) \<Rightarrow> Some (Inl e, st)
      | (Inr (ret, rules), (w, s)) \<Rightarrow>
          let (abort, w) = (if ret = Exit then (True, w) else abort_flag os w)
          in if abort then Some (Inr (False, rules, base_time), (w, s))
             else if \<not> tc_active (tcp_of s) then Some (Inr (True, rules, base_time), (w, s))
             else let (next_time, w) = timestamp_ms os w;
                      ms = next_time - base_time;
                      s = set_tcp (TCPConnection_tick ms (tcp_of s)) s
                  in (case ad_tick ad ms (ss_datagram_adapter s) w of
                        None \<Rightarrow> None
                      | Some (Inl e, w) \<Rightarrow> Some (Inl e, (w, s))
                      | Some (Inr a, w) \<Rightarrow> Some (Inr (True, rules, next_time), (w, s\<lparr>ss_datagram_adapter := a\<rparr>))))"

partial_function (option) tcp_loop_from :: "'k os \<Rightarrow> ('k, 'a) AdaptT \<Rightarrow> (TCPConnection \<Rightarrow> bool) \<Rightarrow>
    ('k, 'a TCPSpongeSocket) Rule list \<Rightarrow> u64 \<Rightarrow> ('k, 'a TCPSpongeSocket) state \<Rightarrow>
    (('k, 'a TCPSpongeSocket) Rule list res \<times> ('k, 'a TCPSpongeSocket) state) option" where
  "tcp_loop_from os ad condition rules base_time st =
     (if condition (tcp_of (snd st))
      then (case tcp_loop_turn os ad rules base_time st of
              None \<Rightarrow> None
            | Some (Inl e, st) \<Rightarrow> Some (Inl e, st)
            | Some (Inr (go_on, rules, base_time), st) \<Rightarrow>
                if go_on then tcp_loop_from os ad condition rules base_time st else Some (Inr rules, st))
      else Some (Inr rules, st))"

definition TCPSpongeSocket_tcp_loop :: "'k os \<Rightarrow> ('k, 'a) AdaptT \<Rightarrow> (TCPConnection \<Rightarrow> bool) \<Rightarrow>
    ('k, 'a TCPSpongeSocket) Rule list \<Rightarrow> ('k, 'a TCPSpongeSocket) state \<Rightarrow>
    (('k, 'a TCPSpongeSocket) Rule list res \<times> ('k, 'a TCPSpongeSocket) state) option" where
  "TCPSpongeSocket_tcp_loop os ad condition rules st =
     (let (base_time, w) = timestamp_ms os (fst st) in tcp_loop_from os ad condition rules base_time (w, snd st))"

subsection \<open>Construction, connecting and the thread\<close>

definition socket_pair_helper :: "'k os \<Rightarrow> int \<Rightarrow> ('k, FileDescriptor \<times> FileDescriptor) io" where
  "socket_pair_helper os type =
     io_bind (io_syscall os ''socketpair'' (SC_socketpair type))
       (\<lambda>(_, r). io_bind (FileDescriptor_new (sr_ints r ! 0))
          (\<lambda>a. io_bind (FileDescriptor_new (sr_ints r ! 1)) (\<lambda>b. io_return (a, b))))"

definition TCPSpongeSocket_of_pair :: "'k os \<Rightarrow> FileDescriptor \<times> FileDescriptor \<Rightarrow> 'a \<Rightarrow> ('k, 'a TCPSpongeSocket) io" where
  "TCPSpongeSocket_of_pair os data_socket_pair datagram_interface =
     io_bind (LocalStreamSocket_of_fd os (fst data_socket_pair))
       (\<lambda>fd. io_bind (LocalStreamSocket_of_fd os (snd data_socket_pair))
          (\<lambda>thread_data. io_bind (FileDescriptor_set_blocking os thread_data False)
             (\<lambda>_. io_return \<lparr>ss_fd = fd, ss_thread_data = thread_data, ss_datagram_adapter = datagram_interface,
                    ss_tcp = None, ss_tcp_thread = False, ss_inbound_shutdown = False, ss_outbound_shutdown = False,
                    ss_fully_acked = False\<rparr>)))"

definition TCPSpongeSocket_new :: "'k os \<Rightarrow> 'a \<Rightarrow> ('k, 'a TCPSpongeSocket) io" where
  "TCPSpongeSocket_new os datagram_interface =
     io_bind (socket_pair_helper os SOCK_STREAM) (\<lambda>p. TCPSpongeSocket_of_pair os p datagram_interface)"

text \<open>
  \<open>connect\<close> and \<open>listen_and_accept\<close> return the rules of the event loop, with which the thread goes on.
  \<open>None\<close> is a loop that does not end. The second conversion of the address to text has the outcome of
  the first one.
\<close>

definition TCPSpongeSocket_connect :: "'k os \<Rightarrow> ('k, 'a) AdaptT \<Rightarrow> getnameinfo \<Rightarrow> WrappingInt32 \<Rightarrow> TCPConfig \<Rightarrow> FdAdapterConfig \<Rightarrow>
    ('k, 'a TCPSpongeSocket) state \<Rightarrow> (('k, 'a TCPSpongeSocket) Rule list res \<times> ('k, 'a TCPSpongeSocket) state) option" where
  "TCPSpongeSocket_connect os ad gni random c_tcp c_ad = (\<lambda>(w, s).
     if ss_tcp s \<noteq> None then Some (Inl (Runtime_error ''connect() with TCPConnection already initialized''), (w, s))
     else let (rules, s) = TCPSpongeSocket_initialize_TCP os ad gni c_tcp random s;
              s = s\<lparr>ss_datagram_adapter := ad_set_config ad c_ad (ss_datagram_adapter s)\<rparr>
          in (case Address_to_string gni (fc_destination c_ad) of
                Inl e \<Rightarrow> Some (Inl e, (w, s))
              | Inr _ \<Rightarrow>
                  let s = set_tcp (TCPConnection_connect (tcp_of s)) s;
                      expected_state = TCPState_of_State SYN_SENT
                  in if TCPConnection_state (tcp_of s) \<noteq> expected_state
                     then Some (Inl (Runtime_error (''After TCPConnection::connect(), state was ''
                            @ TCPState_name (TCPConnection_state (tcp_of s)) @ '' but expected '' @ TCPState_name expected_state)), (w, s))
                     else (case TCPSpongeSocket_tcp_loop os ad (\<lambda>c. TCPConnection_state c = TCPState_of_State SYN_SENT) rules (w, s) of
                             None \<Rightarrow> None
                           | Some (Inl e, st) \<Rightarrow> Some (Inl e, st)
                           | Some (Inr rules, (w, s)) \<Rightarrow> Some (Inr rules, (w, s\<lparr>ss_tcp_thread := True\<rparr>)))))"

definition TCPSpongeSocket_listen_and_accept :: "'k os \<Rightarrow> ('k, 'a) AdaptT \<Rightarrow> getnameinfo \<Rightarrow> WrappingInt32 \<Rightarrow> TCPConfig \<Rightarrow> FdAdapterConfig \<Rightarrow>
    ('k, 'a TCPSpongeSocket) state \<Rightarrow> (('k, 'a TCPSpongeSocket) Rule list res \<times> ('k, 'a TCPSpongeSocket) state) option" where
  "TCPSpongeSocket_listen_and_accept os ad gni random c_tcp c_ad = (\<lambda>(w, s).
     if ss_tcp s \<noteq> None then Some (Inl (Runtime_error ''listen_and_accept() with TCPConnection already initialized''), (w, s))
     else let (rules, s) = TCPSpongeSocket_initialize_TCP os ad gni c_tcp random s;
              s = s\<lparr>ss_datagram_adapter := ad_set_config ad c_ad (ss_datagram_adapter s)\<rparr>;
              s = s\<lparr>ss_datagram_adapter := ad_set_listening ad True (ss_datagram_adapter s)\<rparr>
          in (case TCPSpongeSocket_tcp_loop os ad
                     (\<lambda>c. TCPConnection_state c \<in> TCPState_of_State ` {LISTEN, SYN_RCVD, SYN_SENT}) rules (w, s) of
                None \<Rightarrow> None
              | Some (Inl e, st) \<Rightarrow> Some (Inl e, st)
              | Some (Inr rules, (w, s)) \<Rightarrow>
                  (case destination_text ad gni s of
                     Inl e \<Rightarrow> Some (Inl e, (w, s))
                   | Inr _ \<Rightarrow> Some (Inr rules, (w, s\<lparr>ss_tcp_thread := True\<rparr>)))))"

definition TCPSpongeSocket_tcp_main :: "'k os \<Rightarrow> ('k, 'a) AdaptT \<Rightarrow> ('k, 'a TCPSpongeSocket) Rule list \<Rightarrow>
    ('k, 'a TCPSpongeSocket) state \<Rightarrow> (unit res \<times> ('k, 'a TCPSpongeSocket) state) option" where
  "TCPSpongeSocket_tcp_main os ad rules st =
     (if ss_tcp (snd st) = None then Some (Inl (Runtime_error ''no TCP''), st)
      else (case TCPSpongeSocket_tcp_loop os ad (\<lambda>_. True) rules st of
              None \<Rightarrow> None
            | Some (Inl e, st) \<Rightarrow> Some (Inl e, st)
            | Some (Inr _, (w, s)) \<Rightarrow>
                (case Socket_shutdown os (ss_fd s) SHUT_RDWR w of
                   (Inl e, w) \<Rightarrow> Some (Inl e, (w, s))
                 | (Inr _, w) \<Rightarrow> Some (Inr (), (w, s\<lparr>ss_tcp := None\<rparr>)))))"

section \<open>The adapters as template arguments\<close>

definition FdAdapterBase_tick :: "u64 \<Rightarrow> 'a \<Rightarrow> 'k world \<Rightarrow> ('a res \<times> 'k world) option" where
  "FdAdapterBase_tick ms a w = Some (Inr a, w)"

definition udp_adapter :: "'k os \<Rightarrow> getnameinfo \<Rightarrow> ('k, TCPOverUDPSocketAdapter) AdaptT" where
  "udp_adapter os gni =
     \<lparr>ad_fd = ua_sock, ad_read = TCPOverUDPSocketAdapter_read os, ad_write = TCPOverUDPSocketAdapter_write os gni,
      ad_config = (\<lambda>a. fa_cfg (ua_base a)), ad_set_config = (\<lambda>c a. a\<lparr>ua_base := (ua_base a)\<lparr>fa_cfg := c\<rparr>\<rparr>),
      ad_set_listening = (\<lambda>l a. a\<lparr>ua_base := FdAdapterBase_set_listening l (ua_base a)\<rparr>), ad_tick = FdAdapterBase_tick\<rparr>"

definition tun_adapter :: "'k os \<Rightarrow> getaddrinfo \<Rightarrow> getnameinfo \<Rightarrow> ('k, TCPOverIPv4OverTunFdAdapter) AdaptT" where
  "tun_adapter os gai gni =
     \<lparr>ad_fd = ta_tun, ad_read = TCPOverIPv4OverTunFdAdapter_read os gai gni, ad_write = TCPOverIPv4OverTunFdAdapter_write os gni,
      ad_config = (\<lambda>a. fa_cfg (ta_base a)), ad_set_config = (\<lambda>c a. a\<lparr>ta_base := (ta_base a)\<lparr>fa_cfg := c\<rparr>\<rparr>),
      ad_set_listening = (\<lambda>l a. a\<lparr>ta_base := FdAdapterBase_set_listening l (ta_base a)\<rparr>), ad_tick = FdAdapterBase_tick\<rparr>"

definition ethernet_adapter :: "'k os \<Rightarrow> getaddrinfo \<Rightarrow> getnameinfo \<Rightarrow> ('k, TCPOverIPv4OverEthernetAdapter) AdaptT" where
  "ethernet_adapter os gai gni =
     \<lparr>ad_fd = ea_tap, ad_read = TCPOverIPv4OverEthernetAdapter_read os gai gni,
      ad_write = TCPOverIPv4OverEthernetAdapter_write os gni,
      ad_config = (\<lambda>a. fa_cfg (ea_base a)), ad_set_config = (\<lambda>c a. a\<lparr>ea_base := (ea_base a)\<lparr>fa_cfg := c\<rparr>\<rparr>),
      ad_set_listening = (\<lambda>l a. a\<lparr>ea_base := FdAdapterBase_set_listening l (ea_base a)\<rparr>),
      ad_tick = TCPOverIPv4OverEthernetAdapter_tick os\<rparr>"

definition lossy_over :: "('r \<Rightarrow> u32 \<times> 'r) \<Rightarrow> ('k, 'a) AdaptT \<Rightarrow> ('k, ('a, 'r) LossyFdAdapter) AdaptT" where
  "lossy_over rand ad =
     \<lparr>ad_fd = (\<lambda>l. ad_fd ad (la_adapter l)), ad_read = LossyFdAdapter_read rand (ad_config ad) (ad_read ad),
      ad_write = LossyFdAdapter_write rand (ad_config ad) (ad_write ad), ad_config = (\<lambda>l. ad_config ad (la_adapter l)),
      ad_set_config = (\<lambda>c l. l\<lparr>la_adapter := ad_set_config ad c (la_adapter l)\<rparr>),
      ad_set_listening = (\<lambda>b l. l\<lparr>la_adapter := ad_set_listening ad b (la_adapter l)\<rparr>),
      ad_tick = (\<lambda>ms l w. map_option (\<lambda>(r, w). (map_sum id (\<lambda>a. l\<lparr>la_adapter := a\<rparr>) r, w)) (ad_tick ad ms (la_adapter l) w))\<rparr>"

section \<open>CS144TCPSocket and FullStackSocket\<close>

text \<open>A draw from \<open>std::random_device\<close>.\<close>

definition random_device :: "'k os \<Rightarrow> ('k, u32) io" where
  "random_device os w = (let (r, k) = os SC_random (w_os w) in (Inr (of_int (sr_value r)), w\<lparr>w_os := k\<rparr>))"

definition CS144TCPSocket_new :: "'k os \<Rightarrow> getaddrinfo \<Rightarrow> ('k, TCPOverIPv4OverTunFdAdapter TCPSpongeSocket) io" where
  "CS144TCPSocket_new os gai =
     io_bind (TunFD_new os ''tun144'')
       (\<lambda>tun. io_bind (io_lift (FdAdapterConfig_new gai))
          (\<lambda>cfg. TCPSpongeSocket_new os \<lparr>ta_base = \<lparr>fa_cfg = cfg, fa_listen = False\<rparr>, ta_tun = tun\<rparr>))"

text \<open>The configurations the two sockets connect with; \<open>ip\<close> is the local address.\<close>

definition socket_configs :: "'k os \<Rightarrow> getaddrinfo \<Rightarrow> string \<Rightarrow> Address \<Rightarrow> ('k, TCPConfig \<times> FdAdapterConfig) io" where
  "socket_configs os gai ip address =
     io_bind (io_lift (FdAdapterConfig_new gai))
       (\<lambda>multiplexer_config. io_bind (random_device os)
          (\<lambda>port. io_bind (io_lift (Address_of_host gai ip (dec (unat (ucast port :: u16)))))
             (\<lambda>source. io_return (TCPConfig_new\<lparr>cfg_rt_timeout := 100\<rparr>,
                multiplexer_config\<lparr>fc_source := source, fc_destination := address\<rparr>))))"

definition CS144TCPSocket_connect :: "'k os \<Rightarrow> getaddrinfo \<Rightarrow> getnameinfo \<Rightarrow> WrappingInt32 \<Rightarrow> Address \<Rightarrow>
    ('k, TCPOverIPv4OverTunFdAdapter TCPSpongeSocket) state \<Rightarrow>
    (('k, TCPOverIPv4OverTunFdAdapter TCPSpongeSocket) Rule list res \<times> ('k, TCPOverIPv4OverTunFdAdapter TCPSpongeSocket) state) option" where
  "CS144TCPSocket_connect os gai gni random address = (\<lambda>(w, s).
     case socket_configs os gai ''169.254.144.9'' address w of
       (Inl e, w) \<Rightarrow> Some (Inl e, (w, s))
     | (Inr (tcp_config, multiplexer_config), w) \<Rightarrow>
         TCPSpongeSocket_connect os (tun_adapter os gai gni) gni random tcp_config multiplexer_config (w, s))"

definition LOCAL_TAP_IP_ADDRESS :: string where "LOCAL_TAP_IP_ADDRESS = ''169.254.10.9''"
definition LOCAL_TAP_NEXT_HOP_ADDRESS :: string where "LOCAL_TAP_NEXT_HOP_ADDRESS = ''169.254.10.1''"

primrec random_bytes :: "'k os \<Rightarrow> nat \<Rightarrow> ('k, bytes) io" where
  "random_bytes os 0 = io_return []"
| "random_bytes os (Suc n) =
     io_bind (random_device os) (\<lambda>x. io_bind (random_bytes os n) (\<lambda>rest. io_return (ucast x # rest)))"

definition random_private_ethernet_address :: "'k os \<Rightarrow> ('k, EthernetAddress) io" where
  "random_private_ethernet_address os =
     io_bind (random_bytes os 6)
       (\<lambda>addr. let addr = addr[0 := addr ! 0 OR 0x02];
                   addr = addr[0 := addr ! 0 AND 0xfe]
               in io_return addr)"

text \<open>The arguments of the constructor are evaluated from left to right.\<close>

definition FullStackSocket_new :: "'k os \<Rightarrow> getaddrinfo \<Rightarrow> ('k, TCPOverIPv4OverEthernetAdapter TCPSpongeSocket) io" where
  "FullStackSocket_new os gai =
     io_bind (TapFD_new os ''tap10'')
       (\<lambda>tap. io_bind (random_private_ethernet_address os)
          (\<lambda>eth. io_bind (io_lift (Address_of_host gai LOCAL_TAP_IP_ADDRESS ''0''))
             (\<lambda>ip. io_bind (io_lift (Address_of_host gai LOCAL_TAP_NEXT_HOP_ADDRESS ''0''))
                (\<lambda>next_hop. io_bind (TCPOverIPv4OverEthernetAdapter_new os gai tap eth ip next_hop)
                   (TCPSpongeSocket_new os)))))"

definition FullStackSocket_connect :: "'k os \<Rightarrow> getaddrinfo \<Rightarrow> getnameinfo \<Rightarrow> WrappingInt32 \<Rightarrow> Address \<Rightarrow>
    ('k, TCPOverIPv4OverEthernetAdapter TCPSpongeSocket) state \<Rightarrow>
    (('k, TCPOverIPv4OverEthernetAdapter TCPSpongeSocket) Rule list res \<times> ('k, TCPOverIPv4OverEthernetAdapter TCPSpongeSocket) state) option" where
  "FullStackSocket_connect os gai gni random address = (\<lambda>(w, s).
     case socket_configs os gai LOCAL_TAP_IP_ADDRESS address w of
       (Inl e, w) \<Rightarrow> Some (Inl e, (w, s))
     | (Inr (tcp_config, multiplexer_config), w) \<Rightarrow>
         TCPSpongeSocket_connect os (ethernet_adapter os gai gni) gni random tcp_config multiplexer_config (w, s))"

end
