(* ===== verification/Sponge_Loop.thy ===== *)
theory Sponge_Loop
  imports Sponge_Socket
begin

text \<open>
  The event loop of \<open>TCPSpongeSocket\<close>: its four rules serve their descriptors, so the loop's guard against
  busy waiting never fires, and the connection takes all the bytes it asked the owner for.
\<close>

section \<open>Descriptors\<close>

lemma io_rel_at: "io_rel R m \<Longrightarrow> m w = (r, w') \<Longrightarrow> R w w'"
  by (metis io_rel_def snd_conv)

lemma fds_but_length: "fds_but fd w w' \<Longrightarrow> length (w_fds w') = length (w_fds w)"
  by (simp add: fds_but_def)

lemma register_write_count:
  "fd < length (w_fds w) \<Longrightarrow> register_write fd w = (r, w') \<Longrightarrow>
   FileDescriptor_write_count fd w' = FileDescriptor_write_count fd w + 1 \<and> length (w_fds w') = length (w_fds w)"
  by (auto simp: register_write_def FileDescriptor_write_count_def)

lemma write_once_count:
  assumes "FileDescriptor_write_once os fd buffer w = (Inr x, w')" "fd < length (w_fds w)"
  shows "FileDescriptor_write_count fd w' = FileDescriptor_write_count fd w + 1"
  using assms by (auto simp: FileDescriptor_write_once_def io_bind_Inr FileDescriptor_write_count_def
      register_write_def Let_def dest!: io_syscall_fds split: if_splits)

lemma write_count_write:
  assumes "FileDescriptor_write os fd buffer False w = (Inr n, w')" "fd < length (w_fds w)"
  shows "FileDescriptor_write_count fd w' = FileDescriptor_write_count fd w + 1"
proof -
  obtain r w1 where 1: "FileDescriptor_write_once os fd buffer w = (r, w1)" by (rule prod.exhaust)
  then obtain x where "r = Inr x" "w1 = w'"
    using assms(1) unfolding FileDescriptor_write_def
    by (cases r) (auto simp: FileDescriptor_write_loop.simps [of _ _ False])
  with 1 write_once_count assms(2) show ?thesis by blast
qed

lemma shutdown_write_count:
  assumes "Socket_shutdown os fd SHUT_WR w = (Inr x, w')" "fd < length (w_fds w)"
  shows "FileDescriptor_write_count fd w' = FileDescriptor_write_count fd w + 1 \<and> length (w_fds w') = length (w_fds w)"
  using assms by (auto simp: Socket_shutdown_def io_bind_Inr SHUT_RD_def SHUT_WR_def FileDescriptor_write_count_def
      register_write_def dest!: io_syscall_fds)

lemma map_sum_Inr: "map_sum f g r = Inr y \<longleftrightarrow> (\<exists>x. r = Inr x \<and> y = g x)"
  by (cases r) auto

section \<open>What the socket relies on\<close>

text \<open>
  The adapter of a socket: the contract of \<open>segment_adapter\<close>, and its descriptor also stays the same when
  it is configured and when time passes.
\<close>

context lossy_adapter
begin

lemma lossy_contract: "segment_adapter (\<lambda>l. fd_of (la_adapter l)) (LossyFdAdapter_read rand config rd) (LossyFdAdapter_write rand config wr)"
  by (rule lossy.segment_adapter_axioms)

end

locale socket_adapter = segment_adapter "ad_fd ad" "ad_read ad" "ad_write ad"
  for ad :: "('k, 'a) AdaptT" +
  assumes config_fd: "ad_fd ad (ad_set_config ad c x) = ad_fd ad x"
    and listening_fd: "ad_fd ad (ad_set_listening ad b x) = ad_fd ad x"
    and tick_fd: "ad_tick ad ms x w = Some (Inr x', w') \<Longrightarrow> ad_fd ad x' = ad_fd ad x"
    and tick_length: "ad_tick ad ms x w = Some (r, w') \<Longrightarrow> length (w_fds w') = length (w_fds w)"
begin

lemma lossy: "socket_adapter (lossy_over rand ad)"
proof -
  have "lossy_adapter (ad_fd ad) (ad_read ad) (ad_write ad)" by unfold_locales
  then have "segment_adapter (ad_fd (lossy_over rand ad)) (ad_read (lossy_over rand ad)) (ad_write (lossy_over rand ad))"
    unfolding lossy_over_def AdaptT.simps by (rule lossy_adapter.lossy_contract)
  then show ?thesis
    by (intro socket_adapter.intro socket_adapter_axioms.intro)
      (auto simp: lossy_over_def config_fd listening_fd map_sum_Inr dest: tick_fd tick_length)
qed

end

lemma socket_adapterI:
  assumes "segment_adapter (ad_fd ad) (ad_read ad) (ad_write ad)"
    "\<And>c x. ad_fd ad (ad_set_config ad c x) = ad_fd ad x" "\<And>b x. ad_fd ad (ad_set_listening ad b x) = ad_fd ad x"
    "ad_tick ad = FdAdapterBase_tick"
  shows "socket_adapter ad"
  using assms by (intro socket_adapter.intro socket_adapter_axioms.intro) (auto simp: FdAdapterBase_tick_def)

interpretation udp_socket: socket_adapter "udp_adapter os gni" for os gni
proof (rule socket_adapterI)
  show "segment_adapter (ad_fd (udp_adapter os gni)) (ad_read (udp_adapter os gni)) (ad_write (udp_adapter os gni))"
    by (simp add: udp_adapter_def udp.segment_adapter_axioms)
qed (simp_all add: udp_adapter_def)

interpretation tun_socket: socket_adapter "tun_adapter os gai gni" for os gai gni
proof (rule socket_adapterI)
  show "segment_adapter (ad_fd (tun_adapter os gai gni)) (ad_read (tun_adapter os gai gni)) (ad_write (tun_adapter os gai gni))"
    by (simp add: tun_adapter_def tun.segment_adapter_axioms)
qed (simp_all add: tun_adapter_def)

lemma ethernet_tick:
  assumes "TCPOverIPv4OverEthernetAdapter_tick os ms a w = Some (r, w')"
  shows "length (w_fds w') = length (w_fds w)" "r = Inr a' \<Longrightarrow> ea_tap a' = ea_tap a"
proof -
  obtain x where x: "NetworkInterface_tick ms (ea_interface a) = Some x"
    and r: "io_bind (io_lift x) (\<lambda>ni. TCPOverIPv4OverEthernetAdapter_send_pending os (a\<lparr>ea_interface := ni\<rparr>)) w = (r, w')"
    using assms by (auto simp: TCPOverIPv4OverEthernetAdapter_tick_def)
  show "length (w_fds w') = length (w_fds w)"
  proof (cases x)
    case (Inr ni)
    then have "TCPOverIPv4OverEthernetAdapter_send_pending os (a\<lparr>ea_interface := ni\<rparr>) w = (r, w')"
      using r by (simp add: io_bind_eq)
    from io_rel_at [OF send_pending_written this] show ?thesis by (rule fd_written_length)
  qed (use r in \<open>simp add: io_bind_eq\<close>)
  show "ea_tap a' = ea_tap a" if "r = Inr a'"
  proof (cases x)
    case (Inr ni)
    then have "TCPOverIPv4OverEthernetAdapter_send_pending os (a\<lparr>ea_interface := ni\<rparr>) w = (Inr a', w')"
      using r that by (simp add: io_bind_eq)
    from send_pending_tap [OF this] show ?thesis by simp
  qed (use r that in \<open>simp add: io_bind_eq\<close>)
qed

interpretation ethernet_socket: socket_adapter "ethernet_adapter os gai gni" for os gai gni
proof (intro socket_adapter.intro socket_adapter_axioms.intro)
  show "segment_adapter (ad_fd (ethernet_adapter os gai gni)) (ad_read (ethernet_adapter os gai gni)) (ad_write (ethernet_adapter os gai gni))"
    by (simp add: ethernet_adapter_def ethernet.segment_adapter_axioms)
qed (auto simp: ethernet_adapter_def dest: ethernet_tick)

interpretation lossy_udp_socket: socket_adapter "lossy_over rand (udp_adapter os gni)" for rand os gni
  by (rule udp_socket.lossy)

interpretation lossy_tun_socket: socket_adapter "lossy_over rand (tun_adapter os gai gni)" for rand os gai gni
  by (rule tun_socket.lossy)

section \<open>The four rules\<close>

text \<open>The exceptions that come from the operations below the socket.\<close>

inductive from_below :: "'k os \<Rightarrow> ('k, 'a) AdaptT \<Rightarrow> getnameinfo \<Rightarrow> exn \<Rightarrow> bool"
  for os :: "'k os" and ad :: "('k, 'a) AdaptT" and gni :: getnameinfo where
  below_read: "ad_read ad x w = (Inl e, w') \<Longrightarrow> from_below os ad gni e"
| below_write: "ad_write ad seg x w = (Inl e, w') \<Longrightarrow> from_below os ad gni e"
| below_tick: "ad_tick ad ms x w = Some (Inl e, w') \<Longrightarrow> from_below os ad gni e"
| below_fd_read: "FileDescriptor_read os fd n w = (Inl e, w') \<Longrightarrow> from_below os ad gni e"
| below_fd_write: "FileDescriptor_write os fd b f w = (Inl e, w') \<Longrightarrow> from_below os ad gni e"
| below_shutdown: "Socket_shutdown os fd how w = (Inl e, w') \<Longrightarrow> how = SHUT_WR \<or> how = SHUT_RDWR \<Longrightarrow> from_below os ad gni e"
| below_text: "Address_to_string gni addr = Inl e \<Longrightarrow> from_below os ad gni e"

definition socket_rules :: "'k os \<Rightarrow> ('k, 'a) AdaptT \<Rightarrow> getnameinfo \<Rightarrow> FileDescriptor \<Rightarrow> FileDescriptor \<Rightarrow>
    ('k, 'a TCPSpongeSocket) Rule list" where
  "socket_rules os ad gni t a =
     [\<lparr>rl_fd = a, rl_direction = In, rl_callback = rule1_callback ad gni, rl_interest = rule1_interest, rl_cancel = no_cancel\<rparr>,
      \<lparr>rl_fd = t, rl_direction = In, rl_callback = rule2_callback os ad gni, rl_interest = rule2_interest, rl_cancel = rule2_cancel\<rparr>,
      \<lparr>rl_fd = t, rl_direction = Out, rl_callback = rule3_callback os ad gni, rl_interest = rule3_interest, rl_cancel = no_cancel\<rparr>,
      \<lparr>rl_fd = a, rl_direction = Out, rl_callback = rule4_callback ad, rl_interest = rule4_interest, rl_cancel = no_cancel\<rparr>]"

definition socket_inv :: "('k, 'a) AdaptT \<Rightarrow> FileDescriptor \<Rightarrow> FileDescriptor \<Rightarrow> ('k, 'a TCPSpongeSocket) state \<Rightarrow> bool" where
  "socket_inv ad t a = (\<lambda>(w, s).
     ss_thread_data s = t \<and> ad_fd ad (ss_datagram_adapter s) = a \<and> t < length (w_fds w) \<and> a < length (w_fds w)
     \<and> (\<exists>c. ss_tcp s = Some c \<and> outbound_ok c))"

lemma initialize_rules:
  "TCPSpongeSocket_initialize_TCP os ad gni cfg random s
     = (socket_rules os ad gni (ss_thread_data s) (ad_fd ad (ss_datagram_adapter s)),
        s\<lparr>ss_tcp := Some (TCPConnection_new cfg random)\<rparr>)"
  by (simp add: TCPSpongeSocket_initialize_TCP_def socket_rules_def EventLoop_add_rule_def FileDescriptor_duplicate_def
      set_tcp_def Let_def)

lemma destination_below: "destination_text ad gni s = Inl e \<Longrightarrow> from_below os ad gni e"
  unfolding destination_text_def by (rule below_text)

lemma socket_invD:
  assumes "socket_inv ad t a (w, s)"
  shows "ss_thread_data s = t" "ad_fd ad (ss_datagram_adapter s) = a" "t < length (w_fds w)" "a < length (w_fds w)"
    "outbound_ok (tcp_of s)"
  using assms by (auto simp: socket_inv_def)

lemma socket_inv_intros:
  "socket_inv ad t a (w, s) \<Longrightarrow> outbound_ok c \<Longrightarrow> socket_inv ad t a (w, set_tcp c s)"
  "socket_inv ad t a (w, s) \<Longrightarrow> length (w_fds w') = length (w_fds w) \<Longrightarrow> socket_inv ad t a (w', s)"
  "socket_inv ad t a (w, s) \<Longrightarrow> ad_fd ad b = a \<Longrightarrow> socket_inv ad t a (w, s\<lparr>ss_datagram_adapter := b\<rparr>)"
  by (auto simp: socket_inv_def set_tcp_def)

lemma socket_inv_flags [simp]:
  "socket_inv ad t a (w, s\<lparr>ss_fully_acked := b\<rparr>) = socket_inv ad t a (w, s)"
  "socket_inv ad t a (w, s\<lparr>ss_inbound_shutdown := b\<rparr>) = socket_inv ad t a (w, s)"
  "socket_inv ad t a (w, s\<lparr>ss_outbound_shutdown := b\<rparr>) = socket_inv ad t a (w, s)"
  by (simp_all add: socket_inv_def)

lemma rule1_eq:
  assumes "ad_read ad (ss_datagram_adapter s) w = (Inr (seg, b), w1)" "s0 = s\<lparr>ss_datagram_adapter := b\<rparr>"
    "s1 = (case seg of None \<Rightarrow> s0 | Some seg \<Rightarrow> set_tcp (TCPConnection_segment_received seg (tcp_of s0)) s0)"
  shows "rule1_callback ad gni (w, s) =
    (if FileDescriptor_eof (ss_thread_data s1) w1 \<and> TCPConnection_bytes_in_flight (tcp_of s1) = 0 \<and> \<not> ss_fully_acked s1
     then (case destination_text ad gni s1 of
             Inl e \<Rightarrow> (Inl e, (w1, s1)) | Inr _ \<Rightarrow> (Inr (), (w1, s1\<lparr>ss_fully_acked := True\<rparr>)))
     else (Inr (), (w1, s1)))"
  unfolding rule1_callback_def assms(2,3) prod.case assms(1) sum.case Let_def ..

lemma rule2_eq:
  assumes "FileDescriptor_read os (ss_thread_data s) (TCPConnection_remaining_outbound_capacity (tcp_of s)) w = (Inr data, w1)"
    "TCPConnection_write data (tcp_of s) = (ssize data, c)" "s1 = set_tcp c s"
    "s2 = (set_tcp (TCPConnection_end_input_stream (tcp_of s1)) s1)\<lparr>ss_outbound_shutdown := True\<rparr>"
  shows "rule2_callback os ad gni (w, s) =
    (if FileDescriptor_eof (ss_thread_data s1) w1 then (map_sum id (\<lambda>_. ()) (destination_text ad gni s2), (w1, s2))
     else (Inr (), (w1, s1)))"
  unfolding rule2_callback_def assms(3,4) prod.case assms(1) sum.case Let_def assms(2) by simp

lemma rule3_eq:
  assumes "inbound = TCPConnection_inbound_stream (tcp_of s)"
    "FileDescriptor_write os (ss_thread_data s)
       (BufferViewList_of_string (ByteStream_peek_output (min 65536 (ByteStream_buffer_size inbound)) inbound)) False w = (Inr n, w1)"
    "inbound' = ByteStream_pop_output n inbound" "s1 = set_tcp (set_inbound inbound' (tcp_of s)) s"
  shows "rule3_callback os ad gni (w, s) =
    (if ByteStream_eof inbound' \<or> bs_error inbound'
     then (case Socket_shutdown os (ss_thread_data s1) SHUT_WR w1 of
             (Inl e, w) \<Rightarrow> (Inl e, (w, s1))
           | (Inr _, w) \<Rightarrow> (map_sum id (\<lambda>_. ()) (destination_text ad gni (s1\<lparr>ss_inbound_shutdown := True\<rparr>)),
               (w, s1\<lparr>ss_inbound_shutdown := True\<rparr>)))
     else (Inr (), (w1, s1)))"
  unfolding rule3_callback_def prod.case Let_def assms(1) [symmetric] assms(2) sum.case assms(3,4) ..

lemma below_Inr: "Q \<Longrightarrow> case map_sum id (\<lambda>_. ()) (destination_text ad gni s) of Inl e \<Rightarrow> from_below os ad gni e | Inr _ \<Rightarrow> Q"
  using destination_below by (cases "destination_text ad gni s") auto

context socket_adapter
begin

lemma rule1_serves:
  assumes "socket_inv ad t a (w, s)" "rule1_callback ad gni (w, s) = (x, st')"
  shows "case x of Inl e \<Rightarrow> from_below os ad gni e
    | Inr _ \<Rightarrow> socket_inv ad t a st' \<and> FileDescriptor_read_count a (fst st') = FileDescriptor_read_count a w + 1"
proof -
  note I = socket_invD [OF assms(1)]
  obtain r w1 where r: "ad_read ad (ss_datagram_adapter s) w = (r, w1)" by (rule prod.exhaust)
  show ?thesis
  proof (cases r)
    case (Inl e)
    then have "from_below os ad gni e" using r by (intro below_read) simp
    then show ?thesis using assms(2) r Inl by (auto simp: rule1_callback_def)
  next
    case (Inr y)
    obtain seg b where y: "y = (seg, b)" by (rule prod.exhaust)
    define s0 where "s0 = s\<lparr>ss_datagram_adapter := b\<rparr>"
    define s1 where "s1 = (case seg of None \<Rightarrow> s0 | Some seg \<Rightarrow> set_tcp (TCPConnection_segment_received seg (tcp_of s0)) s0)"
    have fd: "ad_fd ad b = a" using rd_fd [of "ss_datagram_adapter s" w seg b w1] r Inr y I by simp
    have len: "length (w_fds w1) = length (w_fds w)" using fds_but_length [OF rd_but [OF r]] .
    have s0: "socket_inv ad t a (w1, s0)"
      unfolding s0_def by (rule socket_inv_intros(3) [OF socket_inv_intros(2) [OF assms(1) len] fd])
    then have inv: "socket_inv ad t a (w1, s1)"
      unfolding s1_def
      by (cases seg) (simp_all add: socket_inv_intros(1) outbound_segment_received socket_invD(5) [OF s0])
    have n: "FileDescriptor_read_count a w1 = FileDescriptor_read_count a w + 1"
      using rd_count [of "ss_datagram_adapter s" w y w1] r Inr I by simp
    note eq = rule1_eq [OF r [unfolded Inr y] s0_def s1_def, of gni]
    show ?thesis
      using assms(2) inv n destination_below [of ad gni s1] unfolding eq
      by (cases "destination_text ad gni s1") (auto split: if_splits)
  qed
qed

lemma rule2_serves:
  assumes "socket_inv ad t a (w, s)" "rule2_callback os ad gni (w, s) = (x, st')"
  shows "case x of Inl e \<Rightarrow> from_below os ad gni e
    | Inr _ \<Rightarrow> socket_inv ad t a st' \<and> FileDescriptor_read_count t (fst st') = FileDescriptor_read_count t w + 1"
proof -
  note I = socket_invD [OF assms(1)]
  obtain r w1 where r: "FileDescriptor_read os (ss_thread_data s) (TCPConnection_remaining_outbound_capacity (tcp_of s)) w = (r, w1)"
    by (rule prod.exhaust)
  show ?thesis
  proof (cases r)
    case (Inl e)
    then have "from_below os ad gni e" using r by (intro below_fd_read) simp
    then show ?thesis using assms(2) r Inl by (auto simp: rule2_callback_def)
  next
    case (Inr data)
    note n = read_count_read [OF r [unfolded Inr], unfolded I(1), OF I(3)]
    note W = outbound_write [OF I(5) n(2)]
    obtain c where c: "TCPConnection_write data (tcp_of s) = (ssize data, c)" "outbound_ok c"
      using W by (cases "TCPConnection_write data (tcp_of s)") simp
    define s1 where "s1 = set_tcp c s"
    define s2 where "s2 = (set_tcp (TCPConnection_end_input_stream (tcp_of s1)) s1)\<lparr>ss_outbound_shutdown := True\<rparr>"
    have s1: "socket_inv ad t a (w1, s1)" unfolding s1_def
      by (intro socket_inv_intros(1) [OF socket_inv_intros(2) [OF assms(1)]] c fds_but_length [OF io_rel_at [OF read_but r]])
    have s2: "socket_inv ad t a (w1, s2)"
      using socket_inv_intros(1) [OF s1 outbound_end_input [OF socket_invD(5) [OF s1]]] by (simp add: s2_def)
    note eq = rule2_eq [OF r [unfolded Inr] c(1) s1_def s2_def, of ad gni]
    show ?thesis
      using assms(2) s1 s2 n(1) unfolding eq by (auto split: if_splits intro!: below_Inr)
  qed
qed

lemma rule3_serves:
  assumes "socket_inv ad t a (w, s)" "rule3_callback os ad gni (w, s) = (x, st')"
  shows "case x of Inl e \<Rightarrow> from_below os ad gni e
    | Inr _ \<Rightarrow> socket_inv ad t a st' \<and> FileDescriptor_write_count t (fst st') \<noteq> FileDescriptor_write_count t w"
proof -
  note I = socket_invD [OF assms(1)]
  define inbound where "inbound = TCPConnection_inbound_stream (tcp_of s)"
  obtain r w1 where r: "FileDescriptor_write os (ss_thread_data s)
      (BufferViewList_of_string (ByteStream_peek_output (min 65536 (ByteStream_buffer_size inbound)) inbound)) False w = (r, w1)"
    by (rule prod.exhaust)
  show ?thesis
  proof (cases r)
    case (Inl e)
    then have "from_below os ad gni e" using r by (intro below_fd_write) simp
    then show ?thesis using assms(2) r Inl by (auto simp: rule3_callback_def inbound_def Let_def)
  next
    case (Inr n)
    define inbound' where "inbound' = ByteStream_pop_output n inbound"
    define s1 where "s1 = set_tcp (set_inbound inbound' (tcp_of s)) s"
    have n: "FileDescriptor_write_count t w1 = FileDescriptor_write_count t w + 1"
      using write_count_write [OF r [unfolded Inr]] I by simp
    have len: "length (w_fds w1) = length (w_fds w)" using fd_written_length [OF io_rel_at [OF write_written r]] .
    have "outbound_ok (set_inbound inbound' (tcp_of s))" using I(5) by (simp add: set_inbound_def outbound_ok_def)
    then have s1: "socket_inv ad t a (w1, s1)" unfolding s1_def
      by (intro socket_inv_intros(1) [OF socket_inv_intros(2) [OF assms(1) len]])
    note eq = rule3_eq [OF inbound_def r [unfolded Inr] inbound'_def s1_def, of ad gni]
    obtain y w2 where y: "Socket_shutdown os (ss_thread_data s1) SHUT_WR w1 = (y, w2)" by (rule prod.exhaust)
    show ?thesis
    proof (cases "ByteStream_eof inbound' \<or> bs_error inbound'")
      case False
      then show ?thesis using assms(2) s1 n unfolding eq by auto
    next
      case True
      show ?thesis
      proof (cases y)
        case (Inl e)
        then show ?thesis
          using assms(2) True y below_shutdown [of os "ss_thread_data s1" SHUT_WR w1 e w2 ad gni] unfolding eq by auto
      next
        case (Inr u)
        let ?s2 = "s1\<lparr>ss_inbound_shutdown := True\<rparr>"
        have sh: "FileDescriptor_write_count t w2 = FileDescriptor_write_count t w1 + 1" "length (w_fds w2) = length (w_fds w1)"
          using shutdown_write_count [OF y [unfolded Inr]] socket_invD [OF s1] by auto
        have Q: "socket_inv ad t a (w2, ?s2) \<and> FileDescriptor_write_count t w2 \<noteq> FileDescriptor_write_count t w"
          using socket_inv_intros(2) [OF s1 sh(2)] sh(1) n by simp
        then show ?thesis
          using assms(2) True y Inr unfolding eq by (auto intro!: below_Inr)
      qed
    qed
  qed
qed

lemma rule4_send_serves:
  "socket_inv ad t a (w, s) \<Longrightarrow> tc_segments_out (tcp_of s) = segs \<Longrightarrow> rule4_send ad segs (w, s) = (x, st') \<Longrightarrow>
   (case x of Inl e \<Rightarrow> from_below os ad gni e | Inr _ \<Rightarrow> socket_inv ad t a st' \<and> tc_segments_out (tcp_of (snd st')) = [])"
proof (induction segs arbitrary: w s)
  case Nil
  then show ?case by auto
next
  case (Cons seg segs)
  note I = socket_invD [OF Cons.prems(1)]
  obtain r w1 where r: "ad_write ad seg (ss_datagram_adapter s) w = (r, w1)" by (rule prod.exhaust)
  show ?case
  proof (cases r)
    case (Inl e)
    then have "from_below os ad gni e" using r by (intro below_write) simp
    then show ?thesis using Cons.prems(3) r Inl by auto
  next
    case (Inr y)
    obtain seg' b where y: "y = (seg', b)" by (rule prod.exhaust)
    define s1 where "s1 = set_tcp ((tcp_of s)\<lparr>tc_segments_out := segs\<rparr>) (s\<lparr>ss_datagram_adapter := b\<rparr>)"
    have fd: "ad_fd ad b = a" using wr_fd [of seg "ss_datagram_adapter s" w seg' b w1] r Inr y I by simp
    have len: "length (w_fds w1) = length (w_fds w)" using fd_written_length [OF wr_written [OF r]] .
    have "outbound_ok ((tcp_of s)\<lparr>tc_segments_out := segs\<rparr>)" using I(5) by (simp add: outbound_ok_def)
    then have s1: "socket_inv ad t a (w1, s1)" unfolding s1_def
      by (intro socket_inv_intros(1) [OF socket_inv_intros(3) [OF socket_inv_intros(2) [OF Cons.prems(1) len] fd]])
    have "rule4_send ad segs (w1, s1) = (x, st')" using Cons.prems(3) r Inr y by (simp add: s1_def)
    moreover have "tc_segments_out (tcp_of s1) = segs" by (simp add: s1_def set_tcp_def)
    ultimately show ?thesis by (intro Cons.IH [OF s1])
  qed
qed

end

sublocale socket_adapter \<subseteq> served: served_rules os "socket_inv ad t a" "set (socket_rules os ad gni t a)" "\<lambda>e _. from_below os ad gni e"
  for os gni t a
proof
  show "socket_inv ad t a (w, u) \<Longrightarrow> socket_inv ad t a (w\<lparr>w_os := k\<rparr>, u)" for w u k
    by (erule socket_inv_intros(2)) simp
next
  fix r st x st'
  assume r: "r \<in> set (socket_rules os ad gni t a)" and P: "socket_inv ad t a st" and c: "rl_cancel r st = (x, st')"
  obtain w s where st: "st = (w, s)" by (rule prod.exhaust)
  have "socket_inv ad t a (w, set_tcp (TCPConnection_end_input_stream (tcp_of s)) s)"
    using P [unfolded st] by (intro socket_inv_intros(1) outbound_end_input socket_invD(5))
  with r P c show "case x of Inl e \<Rightarrow> from_below os ad gni e | Inr _ \<Rightarrow> socket_inv ad t a st'"
    by (auto simp: socket_rules_def no_cancel_def rule2_cancel_def st)
next
  fix r st x st'
  assume r: "r \<in> set (socket_rules os ad gni t a)" and P: "socket_inv ad t a st" and c: "rl_callback r st = (x, st')"
  obtain w s where st: "st = (w, s)" by (rule prod.exhaust)
  note P = P [unfolded st]
  have 4: "case x of Inl e \<Rightarrow> from_below os ad gni e | Inr _ \<Rightarrow> socket_inv ad t a st' \<and> \<not> rule4_interest st'"
    if "rule4_callback ad (w, s) = (x, st')"
    using rule4_send_serves [OF P refl, of x st' os gni] that
    by (cases x) (auto simp: rule4_callback_def rule4_interest_def split_beta)
  from r c st show "case x of Inl e \<Rightarrow> from_below os ad gni e
      | Inr _ \<Rightarrow> socket_inv ad t a st' \<and> (Rule_service_count r st' \<noteq> Rule_service_count r st \<or> \<not> rl_interest r st')"
    using rule1_serves [OF P, of gni x st' os] rule2_serves [OF P, of os gni x st'] rule3_serves [OF P, of os gni x st'] 4
    by (cases x) (auto simp: socket_rules_def Rule_service_count_def)
qed

section \<open>The loop\<close>

definition socket_started :: "'k os \<Rightarrow> ('k, 'a) AdaptT \<Rightarrow> getnameinfo \<Rightarrow> ('k, 'a TCPSpongeSocket) Rule list \<Rightarrow>
    ('k, 'a TCPSpongeSocket) state \<Rightarrow> bool" where
  "socket_started os ad gni rules st = (\<exists>t a. socket_inv ad t a st \<and> set rules \<subseteq> set (socket_rules os ad gni t a))"

lemma socket_startedI:
  "socket_inv ad t a (w, s) \<Longrightarrow> set rules \<subseteq> set (socket_rules os ad gni t a) \<Longrightarrow>
   socket_started os ad gni rules (w, s\<lparr>ss_tcp_thread := b\<rparr>)"
  unfolding socket_started_def by (rule exI [of _ t], rule exI [of _ a]) (simp add: socket_inv_def)

definition socket_failure :: "'k os \<Rightarrow> ('k, 'a) AdaptT \<Rightarrow> getnameinfo \<Rightarrow> exn \<Rightarrow> bool" where
  "socket_failure os ad gni e = (from_below os ad gni e \<or> e = Runtime_error ''EventLoop: error on polled file descriptor'')"

context socket_adapter
begin

lemma loop_turn:
  assumes "set rules \<subseteq> set (socket_rules os ad gni t a)" "socket_inv ad t a st" "tcp_loop_turn os ad rules base st = Some (x, st')"
  shows "case x of Inl e \<Rightarrow> socket_failure os ad gni e
    | Inr (_, rs, _) \<Rightarrow> socket_inv ad t a st' \<and> set rs \<subseteq> set (socket_rules os ad gni t a)"
proof -
  obtain y st1 where y: "EventLoop_wait_next_event os TCP_TICK_MS rules st = (y, st1)" by (rule prod.exhaust)
  note T = served.turn [OF assms(1,2) y]
  show ?thesis
  proof (cases y)
    case (Inl e)
    then show ?thesis using assms(3) y T by (auto simp: tcp_loop_turn_def socket_failure_def)
  next
    case (Inr z)
    obtain ret rs w s where z: "z = (ret, rs)" "st1 = (w, s)" by (metis prod.exhaust)
    have I: "socket_inv ad t a (w, s)" "set rs \<subseteq> set (socket_rules os ad gni t a)" using T Inr z assms(1) by auto
    obtain abort w1 where w1: "(if ret = Exit then (True, w) else abort_flag os w) = (abort, w1)" by (rule prod.exhaust)
    have "w_fds w1 = w_fds w" using w1 by (auto simp: abort_flag_def Let_def split_beta split: if_splits)
    then have I1: "socket_inv ad t a (w1, s)" using socket_inv_intros(2) [OF I(1), of w1] by simp
    obtain next_time w2 where w2: "timestamp_ms os w1 = (next_time, w2)" by (rule prod.exhaust)
    have "w_fds w2 = w_fds w1" using w2 by (auto simp: timestamp_ms_def Let_def split_beta)
    define s1 where "s1 = set_tcp (TCPConnection_tick (next_time - base) (tcp_of s)) s"
    have I2: "socket_inv ad t a (w2, s1)"
      using socket_inv_intros(2) [OF I1, of w2] \<open>w_fds w2 = w_fds w1\<close> socket_invD(5) [OF I1]
      by (simp add: s1_def socket_inv_intros(1) outbound_tick)
    have eq: "tcp_loop_turn os ad rules base st =
      (if abort then Some (Inr (False, rs, base), (w1, s))
       else if \<not> tc_active (tcp_of s) then Some (Inr (True, rs, base), (w1, s))
       else (case ad_tick ad (next_time - base) (ss_datagram_adapter s1) w2 of
               None \<Rightarrow> None
             | Some (Inl e, w) \<Rightarrow> Some (Inl e, (w, s1))
             | Some (Inr b, w) \<Rightarrow> Some (Inr (True, rs, next_time), (w, s1\<lparr>ss_datagram_adapter := b\<rparr>))))"
      by (simp only: tcp_loop_turn_def y Inr z w1 w2 prod.case sum.case Let_def s1_def)
    show ?thesis
    proof (cases "abort \<or> \<not> tc_active (tcp_of s)")
      case True
      then show ?thesis using assms(3) I1 I(2) unfolding eq by (auto split: if_splits)
    next
      case False
      then obtain v w3 where v: "ad_tick ad (next_time - base) (ss_datagram_adapter s1) w2 = Some (v, w3)"
        using assms(3) unfolding eq by (auto split: option.splits)
      have len: "length (w_fds w3) = length (w_fds w2)" by (rule tick_length [OF v])
      show ?thesis
      proof (cases v)
        case (Inl e)
        then show ?thesis using assms(3) False v below_tick [of ad _ _ _ e w3 os gni] unfolding eq socket_failure_def by auto
      next
        case (Inr b)
        then have "ad_fd ad b = a" using tick_fd [of "next_time - base" "ss_datagram_adapter s1" w2 b w3] v socket_invD(2) [OF I2] by simp
        then have "socket_inv ad t a (w3, s1\<lparr>ss_datagram_adapter := b\<rparr>)"
          by (intro socket_inv_intros(3) [OF socket_inv_intros(2) [OF I2 len]])
        then show ?thesis using assms(3) False v Inr I(2) unfolding eq by auto
      qed
    qed
  qed
qed

lemma loop_from:
  assumes "tcp_loop_from os ad condition rules base st = Some (x, st')"
    "set rules \<subseteq> set (socket_rules os ad gni t a)" "socket_inv ad t a st"
  shows "case x of Inl e \<Rightarrow> socket_failure os ad gni e
    | Inr rs \<Rightarrow> socket_inv ad t a st' \<and> set rs \<subseteq> set (socket_rules os ad gni t a)"
proof -
  let ?ok = "\<lambda>y st'. case y of Inl e \<Rightarrow> socket_failure os ad gni e
    | Inr rs \<Rightarrow> socket_inv ad t a st' \<and> set rs \<subseteq> set (socket_rules os ad gni t a)"
  have "os = os \<longrightarrow> ad = ad \<longrightarrow> set rules \<subseteq> set (socket_rules os ad gni t a) \<longrightarrow> socket_inv ad t a st \<longrightarrow> ?ok (fst (x, st')) (snd (x, st'))"
  proof (rule tcp_loop_from.raw_induct [OF _ assms(1), of "\<lambda>os' ad' _ rules _ st y. os' = os \<longrightarrow> ad' = ad \<longrightarrow>
        set rules \<subseteq> set (socket_rules os ad gni t a) \<longrightarrow> socket_inv ad t a st \<longrightarrow> ?ok (fst y) (snd y)"], intro impI, goal_cases)
    case (1 f os' ad' condition rules base st y)
    note T = loop_turn [OF 1(5,6), of base]
    show ?case
    proof (cases "condition (tcp_of (snd st))")
      case False
      then show ?thesis using 1(2-6) by auto
    next
      case True
      then obtain z st1 where z: "tcp_loop_turn os ad rules base st = Some (z, st1)"
        using 1(2-4) by (auto split: option.splits)
      show ?thesis
      proof (cases z)
        case (Inl e)
        then show ?thesis using 1(2-4) True z T by auto
      next
        case (Inr v)
        obtain go rs base' where v: "v = (go, rs, base')" by (rule prod_cases3)
        have I: "socket_inv ad t a st1" "set rs \<subseteq> set (socket_rules os ad gni t a)" using T [OF z] Inr v by auto
        show ?thesis
        proof (cases go)
          case True
          then have "f os ad condition rs base' st1 = Some y" using 1(2-4) \<open>condition _\<close> z Inr v by simp
          from 1(1) [OF this] I show ?thesis by simp
        next
          case False
          then show ?thesis using 1(2-4) \<open>condition _\<close> z Inr v I by auto
        qed
      qed
    qed
  qed
  then show ?thesis using assms(2,3) by (cases x) simp_all
qed

lemma loop:
  assumes "TCPSpongeSocket_tcp_loop os ad condition rules st = Some (x, st')"
    "set rules \<subseteq> set (socket_rules os ad gni t a)" "socket_inv ad t a st"
  shows "case x of Inl e \<Rightarrow> socket_failure os ad gni e
    | Inr rs \<Rightarrow> socket_inv ad t a st' \<and> set rs \<subseteq> set (socket_rules os ad gni t a)"
proof -
  obtain base w where w: "timestamp_ms os (fst st) = (base, w)" by (rule prod.exhaust)
  then have "w_fds w = w_fds (fst st)" by (auto simp: timestamp_ms_def Let_def split_beta)
  then have "socket_inv ad t a (w, snd st)" using socket_inv_intros(2) [of ad t a "fst st" "snd st" w] assms(3) by simp
  moreover have "tcp_loop_from os ad condition rules base (w, snd st) = Some (x, st')"
    using assms(1) w by (simp add: TCPSpongeSocket_tcp_loop_def)
  ultimately show ?thesis by (intro loop_from [OF _ assms(2)])
qed

text \<open>A socket that was started: the invariant holds and the loop has the four rules.\<close>

lemma initialized:
  assumes "ss_thread_data s < length (w_fds w)" "ad_fd ad (ss_datagram_adapter s) < length (w_fds w)"
    "TCPSpongeSocket_initialize_TCP os ad gni c_tcp random s = (rules, s1)" "ad_fd ad b = ad_fd ad (ss_datagram_adapter s)"
  shows "socket_inv ad (ss_thread_data s) (ad_fd ad (ss_datagram_adapter s)) (w, s1\<lparr>ss_datagram_adapter := b\<rparr>)"
    "rules = socket_rules os ad gni (ss_thread_data s) (ad_fd ad (ss_datagram_adapter s))"
    "ss_datagram_adapter s1 = ss_datagram_adapter s" "ss_tcp s1 = Some (TCPConnection_new c_tcp random)"
  using assms by (auto simp: initialize_rules socket_inv_def outbound_new)

lemma connect_started:
  assumes "ss_tcp s = None" "ss_thread_data s < length (w_fds w)" "ad_fd ad (ss_datagram_adapter s) < length (w_fds w)"
    "TCPSpongeSocket_connect os ad gni random c_tcp c_ad (w, s) = Some (x, st')"
  shows "case x of Inl e \<Rightarrow> socket_failure os ad gni e
    | Inr rs \<Rightarrow> socket_started os ad gni rs st'"
proof -
  obtain rules s1 where init: "TCPSpongeSocket_initialize_TCP os ad gni c_tcp random s = (rules, s1)" by (rule prod.exhaust)
  define s2 where "s2 = s1\<lparr>ss_datagram_adapter := ad_set_config ad c_ad (ss_datagram_adapter s1)\<rparr>"
  define s3 where "s3 = set_tcp (TCPConnection_connect (tcp_of s2)) s2"
  let ?t = "ss_thread_data s" and ?a = "ad_fd ad (ss_datagram_adapter s)"
  have fd: "ad_fd ad (ad_set_config ad c_ad (ss_datagram_adapter s1)) = ?a"
    using initialized(3) [OF assms(2,3) init refl] config_fd by simp
  note I = initialized [OF assms(2,3) init fd, folded s2_def]
  have s3: "socket_inv ad ?t ?a (w, s3)" unfolding s3_def
    by (intro socket_inv_intros(1) I(1) outbound_connect socket_invD(5) [OF I(1)])
  have state: "TCPConnection_state (tcp_of s3) = TCPState_of_State SYN_SENT"
    using connect_new(4) [of c_tcp random] I(4) by (simp add: s3_def s2_def set_tcp_def)
  have eq: "TCPSpongeSocket_connect os ad gni random c_tcp c_ad (w, s) =
    (case Address_to_string gni (fc_destination c_ad) of
       Inl e \<Rightarrow> Some (Inl e, (w, s2))
     | Inr _ \<Rightarrow> (case TCPSpongeSocket_tcp_loop os ad (\<lambda>c. TCPConnection_state c = TCPState_of_State SYN_SENT) rules (w, s3) of
             None \<Rightarrow> None
           | Some (Inl e, st) \<Rightarrow> Some (Inl e, st)
           | Some (Inr rules, (w, s)) \<Rightarrow> Some (Inr rules, (w, s\<lparr>ss_tcp_thread := True\<rparr>))))"
    unfolding TCPSpongeSocket_connect_def prod.case init Let_def s2_def [symmetric] s3_def [symmetric]
    using assms(1) state by simp
  show ?thesis
  proof (cases "Address_to_string gni (fc_destination c_ad)")
    case (Inl e)
    then show ?thesis using assms(4) below_text [OF Inl, of os ad] unfolding eq socket_failure_def by auto
  next
    case (Inr str)
    then obtain y st1 where y: "TCPSpongeSocket_tcp_loop os ad (\<lambda>c. TCPConnection_state c = TCPState_of_State SYN_SENT) rules (w, s3)
        = Some (y, st1)" using assms(4) unfolding eq by (auto split: option.splits)
    have L: "case y of Inl e \<Rightarrow> socket_failure os ad gni e
        | Inr rs \<Rightarrow> socket_inv ad ?t ?a st1 \<and> set rs \<subseteq> set (socket_rules os ad gni ?t ?a)"
      by (rule loop [OF y _ s3]) (simp add: I(2))
    obtain w1 s4 where st1: "st1 = (w1, s4)" by (rule prod.exhaust)
    show ?thesis using L assms(4) y Inr st1 unfolding eq by (cases y) (auto intro: socket_startedI)
  qed
qed

lemma listen_started:
  assumes "ss_tcp s = None" "ss_thread_data s < length (w_fds w)" "ad_fd ad (ss_datagram_adapter s) < length (w_fds w)"
    "TCPSpongeSocket_listen_and_accept os ad gni random c_tcp c_ad (w, s) = Some (x, st')"
  shows "case x of Inl e \<Rightarrow> socket_failure os ad gni e
    | Inr rs \<Rightarrow> socket_started os ad gni rs st'"
proof -
  let ?cond = "\<lambda>c. TCPConnection_state c \<in> TCPState_of_State ` {LISTEN, SYN_RCVD, SYN_SENT}"
  obtain rules s1 where init: "TCPSpongeSocket_initialize_TCP os ad gni c_tcp random s = (rules, s1)" by (rule prod.exhaust)
  define s2 where "s2 = s1\<lparr>ss_datagram_adapter := ad_set_listening ad True (ad_set_config ad c_ad (ss_datagram_adapter s1))\<rparr>"
  let ?t = "ss_thread_data s" and ?a = "ad_fd ad (ss_datagram_adapter s)"
  have fd: "ad_fd ad (ad_set_listening ad True (ad_set_config ad c_ad (ss_datagram_adapter s1))) = ?a"
    using initialized(3) [OF assms(2,3) init refl] config_fd listening_fd by simp
  note I = initialized [OF assms(2,3) init fd, folded s2_def]
  have eq: "TCPSpongeSocket_listen_and_accept os ad gni random c_tcp c_ad (w, s) =
    (case TCPSpongeSocket_tcp_loop os ad ?cond rules (w, s2) of
             None \<Rightarrow> None
           | Some (Inl e, st) \<Rightarrow> Some (Inl e, st)
           | Some (Inr rules, (w, s)) \<Rightarrow> (case destination_text ad gni s of
                     Inl e \<Rightarrow> Some (Inl e, (w, s)) | Inr _ \<Rightarrow> Some (Inr rules, (w, s\<lparr>ss_tcp_thread := True\<rparr>))))"
    using assms(1) by (simp add: TCPSpongeSocket_listen_and_accept_def init s2_def)
  obtain y w1 s4 where y: "TCPSpongeSocket_tcp_loop os ad ?cond rules (w, s2) = Some (y, (w1, s4))"
    using assms(4) unfolding eq by (auto split: option.splits)
  have L: "case y of Inl e \<Rightarrow> socket_failure os ad gni e
      | Inr rs \<Rightarrow> socket_inv ad ?t ?a (w1, s4) \<and> set rs \<subseteq> set (socket_rules os ad gni ?t ?a)"
    by (rule loop [OF y _ I(1)]) (simp add: I(2))
  then show ?thesis
    using assms(4) destination_below [of ad gni s4 _ os] unfolding eq y
    by (cases y; cases "destination_text ad gni s4") (auto simp: socket_failure_def intro: socket_startedI)
qed

lemma main_ends:
  assumes "socket_started os ad gni rules st" "TCPSpongeSocket_tcp_main os ad rules st = Some (x, st')"
  shows "case x of Inl e \<Rightarrow> socket_failure os ad gni e | Inr _ \<Rightarrow> ss_tcp (snd st') = None"
proof -
  obtain t a where I: "socket_inv ad t a st" "set rules \<subseteq> set (socket_rules os ad gni t a)"
    using assms(1) by (auto simp: socket_started_def)
  have tcp: "ss_tcp (snd st) \<noteq> None" using I(1) by (auto simp: socket_inv_def)
  then obtain y w1 s1 where y: "TCPSpongeSocket_tcp_loop os ad (\<lambda>_. True) rules st = Some (y, (w1, s1))"
    using assms(2) by (auto simp: TCPSpongeSocket_tcp_main_def split: option.splits)
  note L = loop [OF y I(2,1)]
  obtain z w2 where z: "Socket_shutdown os (ss_fd s1) SHUT_RDWR w1 = (z, w2)" by (rule prod.exhaust)
  show ?thesis
    using assms(2) tcp y L z below_shutdown [of os "ss_fd s1" SHUT_RDWR w1 _ w2 ad gni]
    by (cases y; cases z) (auto simp: TCPSpongeSocket_tcp_main_def socket_failure_def)
qed

end

text \<open>
  C29: whatever the operating system, the peer and the owner do, an exception that ends \<open>connect\<close>,
  \<open>listen_and_accept\<close> or the thread of the connection was thrown by an operation below the socket, or
  reports an error on a polled descriptor. So neither the guard against busy waiting, nor the check that
  the connection took all the bytes read for it, nor that of the state after \<open>connect\<close> ever fails; and
  when the thread ends without an exception the connection is gone.
\<close>

theorem socket_checks_hold:
  assumes "socket_adapter ad" "ss_tcp s = None" "ss_thread_data s < length (w_fds w)"
    "ad_fd ad (ss_datagram_adapter s) < length (w_fds w)"
  shows "case (if client then TCPSpongeSocket_connect os ad gni random c_tcp c_ad (w, s)
               else TCPSpongeSocket_listen_and_accept os ad gni random c_tcp c_ad (w, s)) of
      None \<Rightarrow> True
    | Some (Inl e, _) \<Rightarrow> socket_failure os ad gni e
    | Some (Inr rules, st) \<Rightarrow>
        (case TCPSpongeSocket_tcp_main os ad rules st of
           None \<Rightarrow> True
         | Some (Inl e, _) \<Rightarrow> socket_failure os ad gni e
         | Some (Inr _, (_, s')) \<Rightarrow> ss_tcp s' = None)"
proof -
  let ?start = "if client then TCPSpongeSocket_connect os ad gni random c_tcp c_ad (w, s)
    else TCPSpongeSocket_listen_and_accept os ad gni random c_tcp c_ad (w, s)"
  have S: "case x of Inl e \<Rightarrow> socket_failure os ad gni e
      | Inr rs \<Rightarrow> socket_started os ad gni rs st"
    if "?start = Some (x, st)" for x st
    using that socket_adapter.connect_started [OF assms] socket_adapter.listen_started [OF assms] by (cases client) auto
  show ?thesis
  proof (cases ?start)
    case (Some p)
    obtain x st where p: "p = (x, st)" by (rule prod.exhaust)
    show ?thesis
    proof (cases x)
      case (Inl e)
      then show ?thesis using S Some p by simp
    next
      case (Inr rules)
      then have "socket_started os ad gni rules st" using S Some p by simp
      note M = socket_adapter.main_ends [OF assms(1) this]
      show ?thesis
      proof (cases "TCPSpongeSocket_tcp_main os ad rules st")
        case None
        then show ?thesis using Some p Inr by simp
      next
        case (Some q)
        obtain y st' where q: "q = (y, st')" by (rule prod.exhaust)
        show ?thesis using \<open>?start = Some p\<close> p Inr Some q M by (cases y; cases st') auto
      qed
    qed
  qed simp
qed

definition demo_adapter_config :: FdAdapterConfig where
  "demo_adapter_config = \<lparr>fc_source = ipv4_address 0x0a000001 80, fc_destination = ipv4_address 0x0a000002 90,
     fc_loss_rate_dn = 0, fc_loss_rate_up = 0\<rparr>"

definition demo_udp_socket :: "TCPOverUDPSocketAdapter TCPSpongeSocket" where
  "demo_udp_socket =
     \<lparr>ss_fd = 0, ss_thread_data = 1,
      ss_datagram_adapter = \<lparr>ua_base = \<lparr>fa_cfg = demo_adapter_config, fa_listen = False\<rparr>, ua_sock = 2\<rparr>,
      ss_tcp = None, ss_tcp_thread = False, ss_inbound_shutdown = False, ss_outbound_shutdown = False, ss_fully_acked = False\<rparr>"

definition demo_fds :: "unit world" where
  "demo_fds = \<lparr>w_os = (), w_fds = map (\<lambda>n. \<lparr>fd_fd = n, fd_eof = False, fd_closed = False, fd_read_count = 0, fd_write_count = 0\<rparr>) [3, 4, 5]\<rparr>"

theorem socket_checks_hold_witness:
  "case TCPSpongeSocket_connect deaf_os (udp_adapter deaf_os numeric_gni) numeric_gni 7 TCPConfig_new demo_adapter_config
          (demo_fds, demo_udp_socket) of
      None \<Rightarrow> True
    | Some (Inl e, _) \<Rightarrow> socket_failure deaf_os (udp_adapter deaf_os numeric_gni) numeric_gni e
    | Some (Inr rules, st) \<Rightarrow>
        (case TCPSpongeSocket_tcp_main deaf_os (udp_adapter deaf_os numeric_gni) rules st of
           None \<Rightarrow> True
         | Some (Inl e, _) \<Rightarrow> socket_failure deaf_os (udp_adapter deaf_os numeric_gni) numeric_gni e
         | Some (Inr _, (_, s')) \<Rightarrow> ss_tcp s' = None)"
  using socket_checks_hold [OF udp_socket.socket_adapter_axioms, where client = True and s = demo_udp_socket and w = demo_fds
      and os = deaf_os and os1 = deaf_os and gni = numeric_gni and gni1 = numeric_gni and random = 7 and c_tcp = TCPConfig_new
      and c_ad = demo_adapter_config]
  by (simp add: demo_udp_socket_def demo_fds_def udp_adapter_def)

section \<open>Bytes for the owner\<close>

lemma write_conserves:
  assumes "stream_sink os out (FileDescriptor_fd_num fd w)" "length data < 9223372036854775808"
    "FileDescriptor_write os fd (BufferViewList_of_string data) False w = (x, w')"
  shows "case x of Inl _ \<Rightarrow> out (w_os w') = out (w_os w)
    | Inr n \<Rightarrow> unat n \<le> length data \<and> out (w_os w') = out (w_os w) @ take (unat n) data"
proof -
  have cat: "concat (BufferViewList_of_string data) = data" by (simp add: BufferViewList_of_string_def)
  obtain r w1 where 1: "FileDescriptor_write_once os fd (BufferViewList_of_string data) w = (r, w1)" by (rule prod.exhaust)
  note S = write_once_sink [OF assms(1) _ 1, unfolded cat, OF assms(2)]
  show ?thesis
  proof (cases r)
    case (Inl e)
    then show ?thesis
      using assms(3) 1 S unfolding FileDescriptor_write_def by (auto simp: FileDescriptor_write_loop.simps [of _ _ False])
  next
    case (Inr y)
    obtain n b where y: "y = (n, b)" by (rule prod.exhaust)
    obtain m where m: "m \<le> length data" "n = of_nat m" "out (w_os w1) = out (w_os w) @ take m data"
      using S Inr y by auto
    have "unat n = m" using m(1,2) assms(2) by (simp add: unat_of_nat_less)
    then show ?thesis
      using assms(3) 1 Inr y m unfolding FileDescriptor_write_def by (auto simp: FileDescriptor_write_loop.simps [of _ _ False])
  qed
qed

lemma inbound_set_tcp: "TCPConnection_inbound_stream (tcp_of (set_tcp (set_inbound bs c) s)) = bs"
  by (simp add: set_tcp_def set_inbound_def TCPConnection_inbound_stream_def TCPReceiver_stream_out_def)

lemma shutdown_os:
  assumes "\<And>n how k. out (snd (os (SC_shutdown n how) k)) = out k" "Socket_shutdown os fd SHUT_WR w = (x, w')"
  shows "out (w_os w') = out (w_os w)"
proof -
  let ?c = "SC_shutdown (FileDescriptor_fd_num fd w) SHUT_WR"
  obtain r w1 where 1: "io_syscall os ''shutdown'' ?c w = (r, w1)" by (rule prod.exhaust)
  then have "w_os w1 = snd (os ?c (w_os w))" by (auto simp: io_syscall_def split_beta)
  moreover have "w_os w' = w_os w1"
    using assms(2) 1 by (cases r) (auto simp: Socket_shutdown_def io_bind_eq SHUT_RD_def SHUT_WR_def register_write_def)
  ultimately show ?thesis using assms(1) by simp
qed

text \<open>
  C31: the callback of the third rule neither loses, repeats nor reorders bytes for the owner, whatever
  part of them the system takes and whatever exception ends it: what the owner's end of the socket pair
  has received, followed by what is left in the inbound stream, stays the same.
\<close>

theorem inbound_bytes_conserved:
  assumes "stream_sink os out (FileDescriptor_fd_num (ss_thread_data s) w)"
    "\<And>n how k. out (snd (os (SC_shutdown n how) k)) = out k"
    "bs_ok (TCPConnection_inbound_stream (tcp_of s))"
    "rule3_callback os ad gni (w, s) = (x, (w', s'))"
  shows "out (w_os w') @ bs_content (TCPConnection_inbound_stream (tcp_of s'))
    = out (w_os w) @ bs_content (TCPConnection_inbound_stream (tcp_of s))"
proof -
  define inbound where "inbound = TCPConnection_inbound_stream (tcp_of s)"
  let ?k = "min 65536 (ByteStream_buffer_size inbound)"
  let ?data = "ByteStream_peek_output ?k inbound"
  have data: "?data = take (unat ?k) (bs_content inbound)" using peek_output_eq assms(3) by (simp add: inbound_def)
  have "unat ?k \<le> 65536" by (simp add: min_def word_le_nat_alt)
  then have len: "length ?data < 9223372036854775808" unfolding data by simp
  obtain r w1 where r: "FileDescriptor_write os (ss_thread_data s) (BufferViewList_of_string ?data) False w = (r, w1)"
    by (rule prod.exhaust)
  note W = write_conserves [OF assms(1) len r]
  show ?thesis
  proof (cases r)
    case (Inl e)
    then show ?thesis using assms(4) r W by (auto simp: rule3_callback_def inbound_def Let_def)
  next
    case (Inr n)
    define inbound' where "inbound' = ByteStream_pop_output n inbound"
    define s1 where "s1 = set_tcp (set_inbound inbound' (tcp_of s)) s"
    have n: "unat n \<le> length ?data" "out (w_os w1) = out (w_os w) @ take (unat n) ?data" using W Inr by auto
    have "take (unat n) ?data = take (unat n) (bs_content inbound)" using n(1) unfolding data take_take by simp
    moreover have "bs_content inbound' = drop (unat n) (bs_content inbound)"
      using pop_output_result(1) assms(3) by (simp add: inbound'_def inbound_def)
    ultimately have moved: "out (w_os w1) @ bs_content inbound' = out (w_os w) @ bs_content inbound" using n(2) by simp
    note eq = rule3_eq [OF inbound_def r [unfolded Inr] inbound'_def s1_def, of ad gni]
    obtain y w2 where y: "Socket_shutdown os (ss_thread_data s1) SHUT_WR w1 = (y, w2)" by (rule prod.exhaust)
    have os: "out (w_os w2) = out (w_os w1)" by (rule shutdown_os [OF assms(2) y])
    have "TCPConnection_inbound_stream (tcp_of s') = inbound'" "out (w_os w') = out (w_os w1)"
      using assms(4) inbound_set_tcp [of inbound' "tcp_of s" s] os y unfolding eq s1_def [symmetric]
      by (cases y; auto split: if_splits)+
    then show ?thesis using moved by (simp add: inbound_def)
  qed
qed

definition demo_receiving :: "TCPOverUDPSocketAdapter TCPSpongeSocket" where
  "demo_receiving = set_tcp (set_inbound (snd (ByteStream_write [1, 2, 3] (ByteStream_new 10))) (TCPConnection_new TCPConfig_new 0))
     (demo_udp_socket\<lparr>ss_thread_data := 0\<rparr>)"

theorem inbound_bytes_conserved_witness:
  "\<exists>x w' s'. rule3_callback slow_os (udp_adapter slow_os numeric_gni) numeric_gni (demo_world, demo_receiving) = (x, (w', s'))
     \<and> w_os w' @ bs_content (TCPConnection_inbound_stream (tcp_of s')) = [1, 2, 3]"
proof -
  obtain x w' s' where r: "rule3_callback slow_os (udp_adapter slow_os numeric_gni) numeric_gni (demo_world, demo_receiving) = (x, (w', s'))"
    by (metis prod.exhaust)
  have inb: "TCPConnection_inbound_stream (tcp_of demo_receiving) = snd (ByteStream_write [1, 2, 3] (ByteStream_new 10))"
    unfolding demo_receiving_def by (rule inbound_set_tcp)
  have "length [1, 2, 3 :: byte] < W64" by simp
  note wr = write_result [OF bs_ok_new this, of 10]
  have cap: "bs_capacity (ByteStream_new 10) = 10" by (simp add: ByteStream_new_def)
  have "w_os w' @ bs_content (TCPConnection_inbound_stream (tcp_of s'))
      = w_os demo_world @ bs_content (TCPConnection_inbound_stream (tcp_of demo_receiving))"
    using inbound_bytes_conserved [OF slow_os_sink _ _ r] wr(3) by (simp add: inb)
  also have "\<dots> = [1, 2, 3]" 
    using wr(2) cap by (simp add: inb demo_world_def bs_accepted_def bs_content_new)
  finally show ?thesis using r by blast
qed

end
