(* ===== verification/Stream_Copy.thy ===== *)
theory Stream_Copy
  imports Sponge_Loop
begin

text \<open>
  \<open>apps/bidirectional_stream_copy.cc\<close>: standard input to a socket and the socket to standard output, each
  through a \<open>ByteStream\<close>, by the four rules of an event loop. The descriptors are not closed at the end, as
  the destructors do.
\<close>

section \<open>Model\<close>

definition max_copy_length :: u64 where "max_copy_length = 65536"
definition buffer_size :: u64 where "buffer_size = 1048576"

record stream_copy =
  cp_outbound :: ByteStream
  cp_inbound :: ByteStream
  cp_outbound_shutdown :: bool
  cp_inbound_shutdown :: bool

text \<open>What the callbacks have in common: reading from \<open>fd\<close> into a stream, and writing from a stream to \<open>fd\<close>.\<close>

definition copy_read :: "'k os \<Rightarrow> FileDescriptor \<Rightarrow> ByteStream \<Rightarrow> ('k, ByteStream) io" where
  "copy_read os fd bs =
     io_bind (FileDescriptor_read os fd (ByteStream_remaining_capacity bs))
       (\<lambda>data w. let bs = snd (ByteStream_write data bs)
                 in (Inr (if FileDescriptor_eof fd w then ByteStream_end_input bs else bs), w))"

definition copy_write :: "'k os \<Rightarrow> FileDescriptor \<Rightarrow> ByteStream \<Rightarrow> ('k, ByteStream) io" where
  "copy_write os fd bs =
     (let bytes_to_write = min max_copy_length (ByteStream_buffer_size bs)
      in io_bind (FileDescriptor_write os fd (BufferViewList_of_string (ByteStream_peek_output bytes_to_write bs)) False)
           (\<lambda>bytes_written. io_return (ByteStream_pop_output bytes_written bs)))"

definition copy1_callback :: "'k os \<Rightarrow> FileDescriptor \<Rightarrow> ('k, stream_copy) action" where
  "copy1_callback os input = (\<lambda>(w, c).
     case copy_read os input (cp_outbound c) w of
       (Inl e, w) \<Rightarrow> (Inl e, (w, c)) | (Inr bs, w) \<Rightarrow> (Inr (), (w, c\<lparr>cp_outbound := bs\<rparr>)))"

definition copy1_interest :: "('k, stream_copy) state \<Rightarrow> bool" where
  "copy1_interest = (\<lambda>(w, c). \<not> bs_error (cp_outbound c) \<and> ByteStream_remaining_capacity (cp_outbound c) > 0
     \<and> \<not> bs_error (cp_inbound c))"

definition end_outbound :: "('k, stream_copy) action" where
  "end_outbound = (\<lambda>(w, c). (Inr (), (w, c\<lparr>cp_outbound := ByteStream_end_input (cp_outbound c)\<rparr>)))"

definition copy2_callback :: "'k os \<Rightarrow> FileDescriptor \<Rightarrow> ('k, stream_copy) action" where
  "copy2_callback os socket = (\<lambda>(w, c).
     case copy_write os socket (cp_outbound c) w of
       (Inl e, w) \<Rightarrow> (Inl e, (w, c))
     | (Inr bs, w) \<Rightarrow>
         let c = c\<lparr>cp_outbound := bs\<rparr>
         in if ByteStream_eof bs
            then (case Socket_shutdown os socket SHUT_WR w of
                    (Inl e, w) \<Rightarrow> (Inl e, (w, c)) | (Inr _, w) \<Rightarrow> (Inr (), (w, c\<lparr>cp_outbound_shutdown := True\<rparr>)))
            else (Inr (), (w, c)))"

definition copy2_interest :: "('k, stream_copy) state \<Rightarrow> bool" where
  "copy2_interest = (\<lambda>(w, c). \<not> ByteStream_buffer_empty (cp_outbound c)
     \<or> ByteStream_eof (cp_outbound c) \<and> \<not> cp_outbound_shutdown c)"

definition copy3_callback :: "'k os \<Rightarrow> FileDescriptor \<Rightarrow> ('k, stream_copy) action" where
  "copy3_callback os socket = (\<lambda>(w, c).
     case copy_read os socket (cp_inbound c) w of
       (Inl e, w) \<Rightarrow> (Inl e, (w, c)) | (Inr bs, w) \<Rightarrow> (Inr (), (w, c\<lparr>cp_inbound := bs\<rparr>)))"

definition copy3_interest :: "('k, stream_copy) state \<Rightarrow> bool" where
  "copy3_interest = (\<lambda>(w, c). \<not> bs_error (cp_inbound c) \<and> ByteStream_remaining_capacity (cp_inbound c) > 0
     \<and> \<not> bs_error (cp_outbound c))"

definition end_inbound :: "('k, stream_copy) action" where
  "end_inbound = (\<lambda>(w, c). (Inr (), (w, c\<lparr>cp_inbound := ByteStream_end_input (cp_inbound c)\<rparr>)))"

definition copy4_callback :: "'k os \<Rightarrow> FileDescriptor \<Rightarrow> ('k, stream_copy) action" where
  "copy4_callback os output = (\<lambda>(w, c).
     case copy_write os output (cp_inbound c) w of
       (Inl e, w) \<Rightarrow> (Inl e, (w, c))
     | (Inr bs, w) \<Rightarrow>
         let c = c\<lparr>cp_inbound := bs\<rparr>
         in if ByteStream_eof bs
            then (case FDWrapper_close os output w of
                    (Inl e, w) \<Rightarrow> (Inl e, (w, c)) | (Inr _, w) \<Rightarrow> (Inr (), (w, c\<lparr>cp_inbound_shutdown := True\<rparr>)))
            else (Inr (), (w, c)))"

definition copy4_interest :: "('k, stream_copy) state \<Rightarrow> bool" where
  "copy4_interest = (\<lambda>(w, c). \<not> ByteStream_buffer_empty (cp_inbound c)
     \<or> ByteStream_eof (cp_inbound c) \<and> \<not> cp_inbound_shutdown c)"

definition copy_rules :: "'k os \<Rightarrow> FileDescriptor \<Rightarrow> FileDescriptor \<Rightarrow> FileDescriptor \<Rightarrow> ('k, stream_copy) Rule list" where
  "copy_rules os input output socket =
     EventLoop_add_rule output Out (copy4_callback os output) copy4_interest end_inbound
       (EventLoop_add_rule socket In (copy3_callback os socket) copy3_interest end_inbound
         (EventLoop_add_rule socket Out (copy2_callback os socket) copy2_interest end_outbound
           (EventLoop_add_rule input In (copy1_callback os input) copy1_interest end_outbound [])))"

definition stream_copy_new :: stream_copy where
  "stream_copy_new = \<lparr>cp_outbound = ByteStream_new buffer_size, cp_inbound = ByteStream_new buffer_size,
     cp_outbound_shutdown = False, cp_inbound_shutdown = False\<rparr>"

text \<open>The loop until completion; \<open>None\<close> is a loop that does not end.\<close>

partial_function (option) copy_loop :: "'k os \<Rightarrow> ('k, stream_copy) Rule list \<Rightarrow> ('k, stream_copy) state \<Rightarrow>
    (unit res \<times> ('k, stream_copy) state) option" where
  "copy_loop os rules st =
     (case EventLoop_wait_next_event os (- 1) rules st of
        (Inl e, st) \<Rightarrow> Some (Inl e, st)
      | (Inr (result, rules), st) \<Rightarrow> if result = Exit then Some (Inr (), st) else copy_loop os rules st)"

definition STDIN_FILENO :: int where "STDIN_FILENO = 0"
definition STDOUT_FILENO :: int where "STDOUT_FILENO = 1"

definition copy_setup :: "'k os \<Rightarrow> FileDescriptor \<Rightarrow> ('k, FileDescriptor \<times> FileDescriptor) io" where
  "copy_setup os socket =
     io_bind (FileDescriptor_new STDIN_FILENO)
       (\<lambda>input. io_bind (FileDescriptor_new STDOUT_FILENO)
          (\<lambda>output. io_bind (FileDescriptor_set_blocking os socket False)
             (\<lambda>_. io_bind (FileDescriptor_set_blocking os input False)
                (\<lambda>_. io_bind (FileDescriptor_set_blocking os output False) (\<lambda>_. io_return (input, output))))))"

definition bidirectional_stream_copy :: "'k os \<Rightarrow> FileDescriptor \<Rightarrow> 'k world \<Rightarrow>
    (unit res \<times> ('k, stream_copy) state) option" where
  "bidirectional_stream_copy os socket w =
     (case copy_setup os socket w of
        (Inl e, w) \<Rightarrow> Some (Inl e, (w, stream_copy_new))
      | (Inr (input, output), w) \<Rightarrow> copy_loop os (copy_rules os input output socket) (w, stream_copy_new))"

section \<open>One system call each\<close>

lemma io_syscall_os: "io_syscall os attempt call w = (r, w') \<Longrightarrow> w_os w' = snd (os call (w_os w))"
  by (auto simp: io_syscall_def split_beta)

lemma read_os:
  assumes "FileDescriptor_read os fd limit w = (x, w')"
  shows "w_os w' = snd (os (SC_read (FileDescriptor_fd_num fd w) (min (1024 * 1024) limit)) (w_os w))"
proof -
  obtain r w1 where 1: "io_syscall os ''read'' (SC_read (FileDescriptor_fd_num fd w) (min (1024 * 1024) limit)) w = (r, w1)"
    by (rule prod.exhaust)
  have "w_os w' = w_os w1"
    using assms 1 by (cases r) (auto simp: FileDescriptor_read_def Let_def io_bind_eq register_read_def split: if_splits prod.splits)
  then show ?thesis using io_syscall_os [OF 1] by simp
qed

lemma write_os:
  assumes "FileDescriptor_write os fd buffer False w = (x, w')"
  shows "w_os w' = snd (os (SC_writev (FileDescriptor_fd_num fd w) (BufferViewList_as_iovecs buffer)) (w_os w))"
proof -
  obtain r w1 where 1: "io_syscall os ''writev'' (SC_writev (FileDescriptor_fd_num fd w) (BufferViewList_as_iovecs buffer)) w = (r, w1)"
    by (rule prod.exhaust)
  obtain y w2 where 2: "FileDescriptor_write_once os fd buffer w = (y, w2)" by (rule prod.exhaust)
  have "w_os w2 = w_os w1"
    using 1 2 by (cases r) (auto simp: FileDescriptor_write_once_def io_bind_eq register_write_def split: if_splits sum.splits prod.splits)
  moreover have "w' = w2"
    using assms 2 unfolding FileDescriptor_write_def by (cases y) (auto simp: FileDescriptor_write_loop.simps [of _ _ False])
  ultimately show ?thesis using io_syscall_os [OF 1] by simp
qed

lemma shutdown_one_call:
  "Socket_shutdown os fd SHUT_WR w = (x, w') \<Longrightarrow> w_os w' = snd (os (SC_shutdown (FileDescriptor_fd_num fd w) SHUT_WR) (w_os w))"
  by (auto simp: Socket_shutdown_def io_bind_eq SHUT_RD_def SHUT_WR_def register_write_def
      dest!: io_syscall_os split: sum.splits prod.splits)

lemma close_one_call:
  "FDWrapper_close os fd w = (x, w') \<Longrightarrow> w_os w' = snd (os (SC_close (FileDescriptor_fd_num fd w)) (w_os w))"
  by (auto simp: FDWrapper_close_def io_bind_eq FileDescriptor_fd_num_def dest!: io_syscall_os split: sum.splits prod.splits)

section \<open>What the system promises\<close>

text \<open>
  What \<open>read(2)\<close> documents for a stream: a call that fails returns -1, reads nothing and sets \<open>errno\<close>; another
  returns the length of what it read, at most what was asked for. \<open>inp\<close> is what has been read from the
  stream so far.
\<close>

definition stream_source :: "'k os \<Rightarrow> ('k \<Rightarrow> bytes) \<Rightarrow> int \<Rightarrow> bool" where
  "stream_source os inp n = (\<forall>len k r k'. os (SC_read n len) k = (r, k') \<longrightarrow>
     (if sr_value r = - 1 then sr_errno r \<noteq> 0 \<and> inp k' = inp k
      else sr_value r = int (length (sr_data r)) \<and> length (sr_data r) \<le> unat len \<and> inp k' = inp k @ sr_data r))"

text \<open>
  Standard input and output and the socket are three such streams, and what has been read from or written to one
  of them changes only when it is read or written.
\<close>

definition copy_streams :: "'k os \<Rightarrow> int \<Rightarrow> ('k \<Rightarrow> bytes) \<Rightarrow> ('k \<Rightarrow> bytes) \<Rightarrow> ('k \<Rightarrow> bytes) \<Rightarrow> ('k \<Rightarrow> bytes) \<Rightarrow> bool" where
  "copy_streams os n stdin stdout received sent =
     (n \<noteq> STDIN_FILENO \<and> n \<noteq> STDOUT_FILENO \<and> stream_source os stdin STDIN_FILENO \<and> stream_sink os stdout STDOUT_FILENO
      \<and> stream_source os received n \<and> stream_sink os sent n
      \<and> (\<forall>call k. ((\<forall>len. call \<noteq> SC_read STDIN_FILENO len) \<longrightarrow> stdin (snd (os call k)) = stdin k)
          \<and> ((\<forall>iov. call \<noteq> SC_writev STDOUT_FILENO iov) \<longrightarrow> stdout (snd (os call k)) = stdout k)
          \<and> ((\<forall>len. call \<noteq> SC_read n len) \<longrightarrow> received (snd (os call k)) = received k)
          \<and> ((\<forall>iov. call \<noteq> SC_writev n iov) \<longrightarrow> sent (snd (os call k)) = sent k)))"

text \<open>What a call of the system, or a poll, makes the copying throw.\<close>

definition copy_failure :: "exn \<Rightarrow> bool" where
  "copy_failure e = (write_failure e \<or> (\<exists>call errno. e = Unix_error call errno)
     \<or> e = Runtime_error ''EventLoop: error on polled file descriptor'')"

lemma read_source:
  assumes source: "stream_source os inp (FileDescriptor_fd_num fd w)" and run: "FileDescriptor_read os fd limit w = (x, w')"
  shows "case x of Inl e \<Rightarrow> copy_failure e \<and> inp (w_os w') = inp (w_os w) | Inr str \<Rightarrow> inp (w_os w') = inp (w_os w) @ str"
proof -
  let ?len = "min (1024 * 1024) limit"
  let ?call = "SC_read (FileDescriptor_fd_num fd w) ?len"
  obtain r k where r: "os ?call (w_os w) = (r, k)" by (rule prod.exhaust)
  have k: "w_os w' = k" using read_os [OF run] r by simp
  have len: "unat ?len \<le> 1048576" by (simp add: min_def word_le_nat_alt)
  from source r have S: "if sr_value r = - 1 then sr_errno r \<noteq> 0 \<and> inp k = inp (w_os w)
      else sr_value r = int (length (sr_data r)) \<and> length (sr_data r) \<le> unat ?len \<and> inp k = inp (w_os w) @ sr_data r"
    unfolding stream_source_def by metis
  show ?thesis
  proof (cases "sr_value r = - 1")
    case True
    then have "io_syscall os ''read'' ?call w = (Inl (Unix_error ''read'' (sr_errno r)), w\<lparr>w_os := k\<rparr>)"
      using r S by (auto simp: io_syscall_def SystemCall_def int32_def)
    then show ?thesis using run k S True by (auto simp: copy_failure_def FileDescriptor_read_def Let_def io_bind_eq)
  next
    case False
    then have v: "sr_value r = int (length (sr_data r))" "length (sr_data r) \<le> unat ?len" using S by auto
    then have "int32 (sr_value r) = int (length (sr_data r))" using len by (simp add: int32_small)
    then have "io_syscall os ''read'' ?call w = (Inr (int (length (sr_data r)), r), w\<lparr>w_os := k\<rparr>)"
      using r by (simp add: io_syscall_def SystemCall_def)
    moreover have "\<not> uint ?len < int (length (sr_data r))"
      using v(2) by (metis not_less of_nat_le_iff uint_nat)
    ultimately have "x = Inr (sr_data r)"
      using run v by (auto simp: FileDescriptor_read_def Let_def io_bind_eq register_read_def string_resize_def split: if_splits)
    then show ?thesis using k S False by simp
  qed
qed

section \<open>Reading into a stream and writing from one\<close>

lemma copy_read_effect:
  assumes source: "stream_source os inp (FileDescriptor_fd_num fd w)" and ok: "bs_ok bs" "fd < length (w_fds w)" and run: "copy_read os fd bs w = (x, w')"
  shows "\<exists>len. w_os w' = snd (os (SC_read (FileDescriptor_fd_num fd w) len) (w_os w))" "fds_but fd w w'"
    "case x of Inl e \<Rightarrow> copy_failure e \<and> inp (w_os w') = inp (w_os w)
     | Inr bs' \<Rightarrow> bs_ok bs' \<and> (\<exists>d. inp (w_os w') = inp (w_os w) @ d \<and> bs_content bs' = bs_content bs @ d)
         \<and> FileDescriptor_read_count fd w' = FileDescriptor_read_count fd w + 1"
proof -
  obtain y w1 where y: "FileDescriptor_read os fd (ByteStream_remaining_capacity bs) w = (y, w1)" by (rule prod.exhaust)
  have w1: "w1 = w'" using run y by (cases y) (auto simp: copy_read_def io_bind_eq Let_def)
  show "\<exists>len. w_os w' = snd (os (SC_read (FileDescriptor_fd_num fd w) len) (w_os w))"
    using read_os [OF y] w1 by blast
  show "fds_but fd w w'" using io_rel_at [OF read_but y] w1 by simp
  show "case x of Inl e \<Rightarrow> copy_failure e \<and> inp (w_os w') = inp (w_os w)
     | Inr bs' \<Rightarrow> bs_ok bs' \<and> (\<exists>d. inp (w_os w') = inp (w_os w) @ d \<and> bs_content bs' = bs_content bs @ d)
         \<and> FileDescriptor_read_count fd w' = FileDescriptor_read_count fd w + 1"
  proof (cases y)
    case (Inl e)
    then show ?thesis using run y w1 read_source [OF source y] by (auto simp: copy_read_def io_bind_eq)
  next
    case (Inr data)
    have len: "length data \<le> unat (bs_capacity bs) - length (bs_content bs)"
      using read_count_read(2) [OF y [unfolded Inr] ok(2)] unat_remaining_capacity [OF ok(1)] by simp
    then have "length data < W64" using unat_u64_lt [of "bs_capacity bs"] by linarith
    note W = write_result [OF ok(1) this]
    have all: "bs_accepted data bs = data" using len by (simp add: bs_accepted_def)
    have "x = Inr (if FileDescriptor_eof fd w' then ByteStream_end_input (snd (ByteStream_write data bs)) else snd (ByteStream_write data bs))"
      using run y w1 Inr by (auto simp: copy_read_def io_bind_eq Let_def)
    then show ?thesis
      using W(2,3) all read_source [OF source y] w1 Inr read_count_read(1) [OF y [unfolded Inr] ok(2)] by auto
  qed
qed

lemma copy_write_effect:
  assumes sink: "stream_sink os out (FileDescriptor_fd_num fd w)" and ok: "bs_ok bs" "fd < length (w_fds w)" and run: "copy_write os fd bs w = (x, w')"
  shows "\<exists>iov. w_os w' = snd (os (SC_writev (FileDescriptor_fd_num fd w) iov) (w_os w))" "fds_but fd w w'"
    "case x of Inl e \<Rightarrow> copy_failure e \<and> out (w_os w') = out (w_os w)
     | Inr bs' \<Rightarrow> bs_ok bs' \<and> out (w_os w') @ bs_content bs' = out (w_os w) @ bs_content bs
         \<and> FileDescriptor_write_count fd w' = FileDescriptor_write_count fd w + 1"
proof -
  define data where "data = ByteStream_peek_output (min max_copy_length (ByteStream_buffer_size bs)) bs"
  obtain y w1 where y: "FileDescriptor_write os fd (BufferViewList_of_string data) False w = (y, w1)" by (rule prod.exhaust)
  have w1: "w1 = w'" using run y by (cases y) (auto simp: copy_write_def io_bind_eq Let_def data_def)
  have data: "data = take (unat (min max_copy_length (ByteStream_buffer_size bs))) (bs_content bs)"
    unfolding data_def by (rule peek_output_eq [OF ok(1)])
  have "unat (min max_copy_length (ByteStream_buffer_size bs)) \<le> 65536" by (simp add: min_def word_le_nat_alt max_copy_length_def)
  then have len: "length data < 9223372036854775808" using data by simp
  note C = write_conserves [OF sink len y]
  show "\<exists>iov. w_os w' = snd (os (SC_writev (FileDescriptor_fd_num fd w) iov) (w_os w))"
    using write_os [OF y] w1 by blast
  show "fds_but fd w w'" using io_rel_at [OF write_written y] w1 by (simp add: fd_written_but)
  show "case x of Inl e \<Rightarrow> copy_failure e \<and> out (w_os w') = out (w_os w)
     | Inr bs' \<Rightarrow> bs_ok bs' \<and> out (w_os w') @ bs_content bs' = out (w_os w) @ bs_content bs
         \<and> FileDescriptor_write_count fd w' = FileDescriptor_write_count fd w + 1"
  proof (cases y)
    case (Inl e)
    then have "write_failure e" using write_loop_sink [OF sink _ y [unfolded FileDescriptor_write_def]] len
      by (auto simp: BufferViewList_of_string_def)
    then show ?thesis using Inl run y w1 C by (auto simp: copy_write_def io_bind_eq data_def copy_failure_def)
  next
    case (Inr n)
    have x: "x = Inr (ByteStream_pop_output n bs)"
      using run y Inr by (auto simp: copy_write_def io_bind_eq data_def)
    have n: "unat n \<le> length data" "out (w_os w') = out (w_os w) @ take (unat n) data" using C Inr w1 by simp_all
    have "unat n \<le> unat (min max_copy_length (ByteStream_buffer_size bs))" using n(1) unfolding data by simp
    then have "take (unat n) data = take (unat n) (bs_content bs)" unfolding data by (simp add: min_absorb1)
    then show ?thesis
      using n x pop_output_result [OF ok(1), of n] write_count_write [OF y [unfolded Inr] ok(2)] w1 by simp
  qed
qed

lemma shutdown_effect:
  assumes "Socket_shutdown os fd SHUT_WR w = (x, w')" "fd < length (w_fds w)"
  shows "\<exists>call. w_os w' = snd (os call (w_os w)) \<and> (\<forall>n len. call \<noteq> SC_read n len) \<and> (\<forall>n iov. call \<noteq> SC_writev n iov)"
    "fds_but fd w w'"
    "case x of Inl e \<Rightarrow> copy_failure e
     | Inr _ \<Rightarrow> FileDescriptor_write_count fd w' = FileDescriptor_write_count fd w + 1"
proof -
  show "\<exists>call. w_os w' = snd (os call (w_os w)) \<and> (\<forall>n len. call \<noteq> SC_read n len) \<and> (\<forall>n iov. call \<noteq> SC_writev n iov)"
    using shutdown_one_call [OF assms(1)] by blast
  show "fds_but fd w w'" using assms
    by (auto simp: Socket_shutdown_def io_bind_eq SHUT_RD_def SHUT_WR_def register_write_def io_syscall_def
        fds_but_def split: sum.splits prod.splits if_splits)
  show "case x of Inl e \<Rightarrow> copy_failure e
     | Inr _ \<Rightarrow> FileDescriptor_write_count fd w' = FileDescriptor_write_count fd w + 1"
  proof (cases x)
    case (Inl e)
    then show ?thesis using assms
      by (auto simp: Socket_shutdown_def io_bind_eq SHUT_RD_def SHUT_WR_def register_write_def io_syscall_def
        SystemCall_def copy_failure_def split: sum.splits prod.splits if_splits)
  qed (use shutdown_write_count assms in auto)
qed

lemma close_effect:
  assumes "FDWrapper_close os fd w = (x, w')" "fd < length (w_fds w)"
  shows "\<exists>call. w_os w' = snd (os call (w_os w)) \<and> (\<forall>n len. call \<noteq> SC_read n len) \<and> (\<forall>n iov. call \<noteq> SC_writev n iov)"
    "fds_but fd w w'"
    "case x of Inl e \<Rightarrow> copy_failure e | Inr _ \<Rightarrow> FileDescriptor_write_count fd w' = FileDescriptor_write_count fd w"
proof -
  show "\<exists>call. w_os w' = snd (os call (w_os w)) \<and> (\<forall>n len. call \<noteq> SC_read n len) \<and> (\<forall>n iov. call \<noteq> SC_writev n iov)"
    using close_one_call [OF assms(1)] by blast
  show "fds_but fd w w'" using assms
    by (auto simp: FDWrapper_close_def io_bind_eq io_syscall_def fds_but_def split: sum.splits prod.splits if_splits)
  show "case x of Inl e \<Rightarrow> copy_failure e | Inr _ \<Rightarrow> FileDescriptor_write_count fd w' = FileDescriptor_write_count fd w"
    using assms
    by (cases x) (auto simp: FDWrapper_close_def io_bind_eq io_syscall_def SystemCall_def copy_failure_def
        FileDescriptor_write_count_def split: sum.splits prod.splits if_splits)
qed

section \<open>The invariant of the loop\<close>

definition copy_inv :: "int \<Rightarrow> ('k \<Rightarrow> bytes) \<Rightarrow> ('k \<Rightarrow> bytes) \<Rightarrow> ('k \<Rightarrow> bytes) \<Rightarrow> ('k \<Rightarrow> bytes) \<Rightarrow>
    FileDescriptor \<Rightarrow> FileDescriptor \<Rightarrow> FileDescriptor \<Rightarrow> ('k, stream_copy) state \<Rightarrow> bool" where
  "copy_inv n stdin stdout received sent input output socket = (\<lambda>(w, c).
     input < length (w_fds w) \<and> output < length (w_fds w) \<and> socket < length (w_fds w)
     \<and> FileDescriptor_fd_num input w = STDIN_FILENO \<and> FileDescriptor_fd_num output w = STDOUT_FILENO
     \<and> FileDescriptor_fd_num socket w = n \<and> bs_ok (cp_outbound c) \<and> bs_ok (cp_inbound c)
     \<and> sent (w_os w) @ bs_content (cp_outbound c) = stdin (w_os w)
     \<and> stdout (w_os w) @ bs_content (cp_inbound c) = received (w_os w))"

lemma fds_but_num: "fds_but fd w w' \<Longrightarrow> FileDescriptor_fd_num i w' = FileDescriptor_fd_num i w"
  by (cases "i = fd") (auto simp: fds_but_def FileDescriptor_fd_num_def)

lemma copy_streams_other:
  assumes "copy_streams os n stdin stdout received sent"
    "\<exists>call. w_os w' = snd (os call (w_os w)) \<and> (\<forall>n len. call \<noteq> SC_read n len) \<and> (\<forall>n iov. call \<noteq> SC_writev n iov)"
  shows "stdin (w_os w') = stdin (w_os w)" "stdout (w_os w') = stdout (w_os w)"
    "received (w_os w') = received (w_os w)" "sent (w_os w') = sent (w_os w)"
  using assms unfolding copy_streams_def by metis+

text \<open>A call that neither reads nor writes, on a descriptor of which the number stays.\<close>

lemma copy_inv_other:
  assumes "copy_streams os n stdin stdout received sent" "copy_inv n stdin stdout received sent input output socket (w, c)"
    "\<exists>call. w_os w' = snd (os call (w_os w)) \<and> (\<forall>n len. call \<noteq> SC_read n len) \<and> (\<forall>n iov. call \<noteq> SC_writev n iov)"
    "fds_but fd w w'"
  shows "copy_inv n stdin stdout received sent input output socket (w', c)"
  using assms(2) copy_streams_other [OF assms(1,3)] fds_but_num [OF assms(4)] fds_but_length [OF assms(4)]
  by (simp add: copy_inv_def)

lemma copy_read_others:
  assumes "copy_streams os n stdin stdout received sent" "\<exists>len. w_os w' = snd (os (SC_read m len) (w_os w))"
  shows "stdout (w_os w') = stdout (w_os w)" "sent (w_os w') = sent (w_os w)"
    "m \<noteq> n \<Longrightarrow> received (w_os w') = received (w_os w)" "m \<noteq> STDIN_FILENO \<Longrightarrow> stdin (w_os w') = stdin (w_os w)"
  using assms unfolding copy_streams_def by (metis syscall.distinct(1) syscall.inject(1))+

lemma copy_write_others:
  assumes "copy_streams os n stdin stdout received sent" "\<exists>iov. w_os w' = snd (os (SC_writev m iov) (w_os w))"
  shows "stdin (w_os w') = stdin (w_os w)" "received (w_os w') = received (w_os w)"
    "m \<noteq> n \<Longrightarrow> sent (w_os w') = sent (w_os w)" "m \<noteq> STDOUT_FILENO \<Longrightarrow> stdout (w_os w') = stdout (w_os w)"
  using assms unfolding copy_streams_def by (metis syscall.distinct(1) syscall.inject(2))+

lemma copy1_ok:
  assumes S: "copy_streams os n stdin stdout received sent"
    and I: "copy_inv n stdin stdout received sent input output socket (w, c)"
    and run: "copy1_callback os input (w, c) = (x, (w', c'))"
  shows "copy_inv n stdin stdout received sent input output socket (w', c')"
    "case x of Inl e \<Rightarrow> copy_failure e
     | Inr _ \<Rightarrow> FileDescriptor_read_count input w' = FileDescriptor_read_count input w + 1"
proof -
  have src: "stream_source os stdin (FileDescriptor_fd_num input w)" and ok: "bs_ok (cp_outbound c)" "input < length (w_fds w)"
    and n: "FileDescriptor_fd_num input w \<noteq> n"
    using S I by (auto simp: copy_streams_def copy_inv_def)
  obtain y w1 where y: "copy_read os input (cp_outbound c) w = (y, w1)" by (rule prod.exhaust)
  note E = copy_read_effect [OF src ok y] and O = copy_read_others [OF S copy_read_effect(1) [OF src ok y]]
  have F: "w' = w1" "case y of Inl e \<Rightarrow> x = Inl e \<and> c' = c | Inr bs \<Rightarrow> x = Inr () \<and> c' = c\<lparr>cp_outbound := bs\<rparr>"
    using run y by (cases y; auto simp: copy1_callback_def)+
  show "copy_inv n stdin stdout received sent input output socket (w', c')"
    using I E(3) F O(1-2) O(3) [OF n] fds_but_num [OF E(2)] fds_but_length [OF E(2)] by (cases y) (auto simp: copy_inv_def)
  show "case x of Inl e \<Rightarrow> copy_failure e
     | Inr _ \<Rightarrow> FileDescriptor_read_count input w' = FileDescriptor_read_count input w + 1"
    using E(3) F by (cases y) auto
qed

lemma copy3_ok:
  assumes S: "copy_streams os n stdin stdout received sent"
    and I: "copy_inv n stdin stdout received sent input output socket (w, c)"
    and run: "copy3_callback os socket (w, c) = (x, (w', c'))"
  shows "copy_inv n stdin stdout received sent input output socket (w', c')"
    "case x of Inl e \<Rightarrow> copy_failure e
     | Inr _ \<Rightarrow> FileDescriptor_read_count socket w' = FileDescriptor_read_count socket w + 1"
proof -
  have src: "stream_source os received (FileDescriptor_fd_num socket w)" and ok: "bs_ok (cp_inbound c)" "socket < length (w_fds w)"
    and n: "FileDescriptor_fd_num socket w \<noteq> STDIN_FILENO"
    using S I by (auto simp: copy_streams_def copy_inv_def)
  obtain y w1 where y: "copy_read os socket (cp_inbound c) w = (y, w1)" by (rule prod.exhaust)
  note E = copy_read_effect [OF src ok y] and O = copy_read_others [OF S copy_read_effect(1) [OF src ok y]]
  have F: "w' = w1" "case y of Inl e \<Rightarrow> x = Inl e \<and> c' = c | Inr bs \<Rightarrow> x = Inr () \<and> c' = c\<lparr>cp_inbound := bs\<rparr>"
    using run y by (cases y; auto simp: copy3_callback_def)+
  show "copy_inv n stdin stdout received sent input output socket (w', c')"
    using I E(3) F O(1-2) O(4) [OF n] fds_but_num [OF E(2)] fds_but_length [OF E(2)] by (cases y) (auto simp: copy_inv_def)
  show "case x of Inl e \<Rightarrow> copy_failure e
     | Inr _ \<Rightarrow> FileDescriptor_read_count socket w' = FileDescriptor_read_count socket w + 1"
    using E(3) F by (cases y) auto
qed

lemma copy2_ok:
  assumes S: "copy_streams os n stdin stdout received sent"
    and I: "copy_inv n stdin stdout received sent input output socket (w, c)"
    and run: "copy2_callback os socket (w, c) = (x, (w', c'))"
  shows "copy_inv n stdin stdout received sent input output socket (w', c')"
    "case x of Inl e \<Rightarrow> copy_failure e
     | Inr _ \<Rightarrow> FileDescriptor_write_count socket w' = FileDescriptor_write_count socket w + 1
         \<or> FileDescriptor_write_count socket w' = FileDescriptor_write_count socket w + 2"
proof -
  have snk: "stream_sink os sent (FileDescriptor_fd_num socket w)" and ok: "bs_ok (cp_outbound c)" "socket < length (w_fds w)"
    and n: "FileDescriptor_fd_num socket w \<noteq> STDOUT_FILENO"
    using S I by (auto simp: copy_streams_def copy_inv_def)
  obtain y w1 where y: "copy_write os socket (cp_outbound c) w = (y, w1)" by (rule prod.exhaust)
  note E = copy_write_effect [OF snk ok y] and O = copy_write_others [OF S copy_write_effect(1) [OF snk ok y]]
  define c1 where "c1 = (case y of Inl e \<Rightarrow> c | Inr bs \<Rightarrow> c\<lparr>cp_outbound := bs\<rparr>)"
  have I1: "copy_inv n stdin stdout received sent input output socket (w1, c1)"
    using I E(3) O(1-2) O(4) [OF n] fds_but_num [OF E(2)] fds_but_length [OF E(2)]
    by (cases y) (auto simp: copy_inv_def c1_def)
  obtain z w2 where z: "Socket_shutdown os socket SHUT_WR w1 = (z, w2)" by (rule prod.exhaust)
  have "socket < length (w_fds w1)" using ok(2) fds_but_length [OF E(2)] by simp
  note Z = shutdown_effect [OF z this]
  have I2: "copy_inv n stdin stdout received sent input output socket (w2, c1)"
    by (rule copy_inv_other [OF S I1 Z(1,2)])
  then have I3: "copy_inv n stdin stdout received sent input output socket (w2, c1\<lparr>cp_outbound_shutdown := True\<rparr>)"
    by (simp add: copy_inv_def)
  show "copy_inv n stdin stdout received sent input output socket (w', c')"
    using run y z I1 I2 I3 by (auto simp: copy2_callback_def c1_def Let_def split: sum.splits if_splits)
  show "case x of Inl e \<Rightarrow> copy_failure e
     | Inr _ \<Rightarrow> FileDescriptor_write_count socket w' = FileDescriptor_write_count socket w + 1
         \<or> FileDescriptor_write_count socket w' = FileDescriptor_write_count socket w + 2"
    using run y z E(3) Z(3) by (auto simp: copy2_callback_def Let_def split: sum.splits if_splits)
qed

lemma copy4_ok:
  assumes S: "copy_streams os n stdin stdout received sent"
    and I: "copy_inv n stdin stdout received sent input output socket (w, c)"
    and run: "copy4_callback os output (w, c) = (x, (w', c'))"
  shows "copy_inv n stdin stdout received sent input output socket (w', c')"
    "case x of Inl e \<Rightarrow> copy_failure e
     | Inr _ \<Rightarrow> FileDescriptor_write_count output w' = FileDescriptor_write_count output w + 1"
proof -
  have snk: "stream_sink os stdout (FileDescriptor_fd_num output w)" and ok: "bs_ok (cp_inbound c)" "output < length (w_fds w)"
    and n: "FileDescriptor_fd_num output w \<noteq> n"
    using S I by (auto simp: copy_streams_def copy_inv_def)
  obtain y w1 where y: "copy_write os output (cp_inbound c) w = (y, w1)" by (rule prod.exhaust)
  note E = copy_write_effect [OF snk ok y] and O = copy_write_others [OF S copy_write_effect(1) [OF snk ok y]]
  define c1 where "c1 = (case y of Inl e \<Rightarrow> c | Inr bs \<Rightarrow> c\<lparr>cp_inbound := bs\<rparr>)"
  have I1: "copy_inv n stdin stdout received sent input output socket (w1, c1)"
    using I E(3) O(1-2) O(3) [OF n] fds_but_num [OF E(2)] fds_but_length [OF E(2)]
    by (cases y) (auto simp: copy_inv_def c1_def)
  obtain z w2 where z: "FDWrapper_close os output w1 = (z, w2)" by (rule prod.exhaust)
  have "output < length (w_fds w1)" using ok(2) fds_but_length [OF E(2)] by simp
  note Z = close_effect [OF z this]
  have I2: "copy_inv n stdin stdout received sent input output socket (w2, c1)"
    by (rule copy_inv_other [OF S I1 Z(1,2)])
  then have I3: "copy_inv n stdin stdout received sent input output socket (w2, c1\<lparr>cp_inbound_shutdown := True\<rparr>)"
    by (simp add: copy_inv_def)
  show "copy_inv n stdin stdout received sent input output socket (w', c')"
    using run y z I1 I2 I3 by (auto simp: copy4_callback_def c1_def Let_def split: sum.splits if_splits)
  show "case x of Inl e \<Rightarrow> copy_failure e
     | Inr _ \<Rightarrow> FileDescriptor_write_count output w' = FileDescriptor_write_count output w + 1"
    using run y z E(3) Z(3) by (auto simp: copy4_callback_def Let_def split: sum.splits if_splits)
qed

lemma copy_inv_end_input:
  "copy_inv n stdin stdout received sent input output socket (w, c\<lparr>cp_outbound := ByteStream_end_input (cp_outbound c)\<rparr>)
     = copy_inv n stdin stdout received sent input output socket (w, c)"
  "copy_inv n stdin stdout received sent input output socket (w, c\<lparr>cp_inbound := ByteStream_end_input (cp_inbound c)\<rparr>)
     = copy_inv n stdin stdout received sent input output socket (w, c)"
  by (simp_all add: copy_inv_def)

lemma copy_served:
  assumes S: "copy_streams os n stdin stdout received sent"
  shows "served_rules os (copy_inv n stdin stdout received sent input output socket) (set (copy_rules os input output socket))
    (\<lambda>e st. copy_inv n stdin stdout received sent input output socket st \<and> copy_failure e)"
proof
  fix w u pollfds timeout q k
  assume I: "copy_inv n stdin stdout received sent input output socket (w, u)" and q: "os (SC_poll pollfds timeout) (w_os w) = (q, k)"
  show "copy_inv n stdin stdout received sent input output socket (w\<lparr>w_os := k\<rparr>, u)"
    by (rule copy_inv_other [OF S I, of _ 0]) (use q in \<open>auto intro!: exI [of _ "SC_poll pollfds timeout"]\<close>)
next
  fix r st x st'
  assume "r \<in> set (copy_rules os input output socket)" "copy_inv n stdin stdout received sent input output socket st"
    "rl_cancel r st = (x, st')"
  then show "case x of Inl e \<Rightarrow> copy_inv n stdin stdout received sent input output socket st' \<and> copy_failure e
      | Inr _ \<Rightarrow> copy_inv n stdin stdout received sent input output socket st'"
    by (cases st) (auto simp: copy_rules_def EventLoop_add_rule_def end_outbound_def end_inbound_def copy_inv_end_input)
next
  fix r :: "('a, stream_copy) Rule" and st x st'
  assume r: "r \<in> set (copy_rules os input output socket)" and I: "copy_inv n stdin stdout received sent input output socket st"
    and run: "rl_callback r st = (x, st')"
  obtain w c w' c' where st: "st = (w, c)" "st' = (w', c')" by (metis surj_pair)
  have "r = \<lparr>rl_fd = input, rl_direction = In, rl_callback = copy1_callback os input, rl_interest = copy1_interest, rl_cancel = end_outbound\<rparr>
      \<or> r = \<lparr>rl_fd = socket, rl_direction = Out, rl_callback = copy2_callback os socket, rl_interest = copy2_interest, rl_cancel = end_outbound\<rparr>
      \<or> r = \<lparr>rl_fd = socket, rl_direction = In, rl_callback = copy3_callback os socket, rl_interest = copy3_interest, rl_cancel = end_inbound\<rparr>
      \<or> r = \<lparr>rl_fd = output, rl_direction = Out, rl_callback = copy4_callback os output, rl_interest = copy4_interest, rl_cancel = end_inbound\<rparr>"
    using r unfolding copy_rules_def EventLoop_add_rule_def FileDescriptor_duplicate_def by (simp only: append.simps set_append set_simps) blast
  then show "case x of Inl e \<Rightarrow> copy_inv n stdin stdout received sent input output socket st' \<and> copy_failure e
      | Inr _ \<Rightarrow> copy_inv n stdin stdout received sent input output socket st'
          \<and> (Rule_service_count r st' \<noteq> Rule_service_count r st \<or> \<not> rl_interest r st')"
  proof (elim disjE)
    assume r: "r = \<lparr>rl_fd = input, rl_direction = In, rl_callback = copy1_callback os input, rl_interest = copy1_interest, rl_cancel = end_outbound\<rparr>"
    show ?thesis using copy1_ok [OF S I [unfolded st]] run unfolding r st by (cases x) (simp_all add: Rule_service_count_def)
  next
    assume r: "r = \<lparr>rl_fd = socket, rl_direction = Out, rl_callback = copy2_callback os socket, rl_interest = copy2_interest, rl_cancel = end_outbound\<rparr>"
    show ?thesis using copy2_ok [OF S I [unfolded st]] run unfolding r st by (cases x) (auto simp: Rule_service_count_def)
  next
    assume r: "r = \<lparr>rl_fd = socket, rl_direction = In, rl_callback = copy3_callback os socket, rl_interest = copy3_interest, rl_cancel = end_inbound\<rparr>"
    show ?thesis using copy3_ok [OF S I [unfolded st]] run unfolding r st by (cases x) (simp_all add: Rule_service_count_def)
  next
    assume r: "r = \<lparr>rl_fd = output, rl_direction = Out, rl_callback = copy4_callback os output, rl_interest = copy4_interest, rl_cancel = end_inbound\<rparr>"
    show ?thesis using copy4_ok [OF S I [unfolded st]] run unfolding r st by (cases x) (simp_all add: Rule_service_count_def)
  qed
qed

lemma copy_loop_ok:
  assumes "copy_loop os rules st = Some (x, st')" "copy_streams os n stdin stdout received sent"
    "set rules \<subseteq> set (copy_rules os input output socket)" "copy_inv n stdin stdout received sent input output socket st"
  shows "copy_inv n stdin stdout received sent input output socket st' \<and> (case x of Inl e \<Rightarrow> copy_failure e | Inr _ \<Rightarrow> True)"
proof -
  let ?I = "copy_inv n stdin stdout received sent input output socket"
  have "os = os \<longrightarrow> set rules \<subseteq> set (copy_rules os input output socket) \<longrightarrow> ?I st \<longrightarrow>
    ?I (snd (x, st')) \<and> (case fst (x, st') of Inl e \<Rightarrow> copy_failure e | Inr _ \<Rightarrow> True)"
  proof (rule copy_loop.raw_induct [OF _ assms(1), of "\<lambda>os' rules st y. os' = os \<longrightarrow>
      set rules \<subseteq> set (copy_rules os input output socket) \<longrightarrow> ?I st \<longrightarrow>
      ?I (snd y) \<and> (case fst y of Inl e \<Rightarrow> copy_failure e | Inr _ \<Rightarrow> True)"], goal_cases)
    case (1 loop os' rules st v)
    show ?case
    proof (intro impI)
      assume A: "os' = os" "set rules \<subseteq> set (copy_rules os input output socket)" "?I st"
      obtain y st1 where y: "EventLoop_wait_next_event os (- 1) rules st = (y, st1)" by (rule prod.exhaust)
      note T = served_rules.turn [OF copy_served [OF assms(2)] A(2,3) y]
      show "?I (snd v) \<and> (case fst v of Inl e \<Rightarrow> copy_failure e | Inr _ \<Rightarrow> True)"
      proof (cases y)
        case (Inl e)
        then have "v = (Inl e, st1)" using 1(2) A(1) y by simp
        then show ?thesis using T Inl by (auto simp: copy_failure_def)
      next
        case (Inr z)
        obtain result rs where z: "z = (result, rs)" by (rule prod.exhaust)
        have T: "?I st1" "set rs \<subseteq> set (copy_rules os input output socket)" using T Inr z A(2) by auto
        show ?thesis
        proof (cases "result = Exit")
          case True
          then have "v = (Inr (), st1)" using 1(2) A(1) y Inr z by simp
          then show ?thesis using T by simp
        next
          case False
          then have "loop os rs st1 = Some v" using 1(2) A(1) y Inr z by simp
          from 1(1) [OF this] T show ?thesis by blast
        qed
      qed
    qed
  qed
  then show ?thesis using assms(3,4) by simp
qed

section \<open>Nothing lost, reordered or made up\<close>

text \<open>The turns of the loop, of a run that ends and of one that does not.\<close>

inductive copy_turns :: "'k os \<Rightarrow> ('k, stream_copy) Rule list \<Rightarrow> ('k, stream_copy) state \<Rightarrow>
    ('k, stream_copy) Rule list \<Rightarrow> ('k, stream_copy) state \<Rightarrow> bool" for os rules st where
  start: "copy_turns os rules st rules st"
| turn: "copy_turns os rules st rules1 st1 \<Longrightarrow>
    EventLoop_wait_next_event os (- 1) rules1 st1 = (Inr (result, rules2), st2) \<Longrightarrow> result \<noteq> Exit \<Longrightarrow>
    copy_turns os rules st rules2 st2"

lemma copy_turns_ok:
  assumes "copy_turns os rules st rules' st'" "copy_streams os n stdin stdout received sent"
    "set rules \<subseteq> set (copy_rules os input output socket)" "copy_inv n stdin stdout received sent input output socket st"
  shows "set rules' \<subseteq> set (copy_rules os input output socket) \<and> copy_inv n stdin stdout received sent input output socket st'"
  using assms(1)
proof induction
  case (turn rules1 st1 result rules2 st2)
  then have I: "set rules1 \<subseteq> set (copy_rules os input output socket)" "copy_inv n stdin stdout received sent input output socket st1"
    by auto
  from served_rules.turn [OF copy_served [OF assms(2)] I turn(2)] show ?case using I by auto
qed (use assms in auto)

lemma set_blocking_effect:
  assumes "FileDescriptor_set_blocking os fd b w = (x, w')" "copy_streams os n stdin stdout received sent"
  shows "w_fds w' = w_fds w" "stdin (w_os w') = stdin (w_os w)" "stdout (w_os w') = stdout (w_os w)"
    "received (w_os w') = received (w_os w)" "sent (w_os w') = sent (w_os w)" "case x of Inl e \<Rightarrow> copy_failure e | Inr _ \<Rightarrow> True"
proof -
  obtain y w1 where y: "io_syscall os ''fcntl'' (SC_getfl (FileDescriptor_fd_num fd w)) w = (y, w1)" by (rule prod.exhaust)
  have fds: "w_fds w1 = w_fds w" by (rule io_syscall_fds [OF y])
  have fail: "copy_failure e" if "io_syscall os attempt call v = (Inl e, v')" for attempt call v e v'
    using that by (auto simp: io_syscall_def SystemCall_def copy_failure_def split_beta split: if_splits)
  have "\<exists>call. w_os w1 = snd (os call (w_os w)) \<and> (\<forall>n len. call \<noteq> SC_read n len) \<and> (\<forall>n iov. call \<noteq> SC_writev n iov)"
    using io_syscall_os [OF y] by blast
  note V1 = copy_streams_other [OF assms(2) this]
  consider (same) e where "y = Inl e" "x = Inl e" "w' = w1"
    | (set) flags z where "io_syscall os ''fcntl'' (SC_setfl (FileDescriptor_fd_num fd w) flags) w1 = (z, w')"
      "case z of Inl e \<Rightarrow> x = Inl e | Inr _ \<Rightarrow> x = Inr ()"
    using assms(1) y by (cases y) (auto simp: FileDescriptor_set_blocking_def io_bind_eq Let_def split: prod.splits sum.splits)
  then have "w_fds w' = w_fds w \<and> stdin (w_os w') = stdin (w_os w) \<and> stdout (w_os w') = stdout (w_os w)
    \<and> received (w_os w') = received (w_os w) \<and> sent (w_os w') = sent (w_os w) \<and> (case x of Inl e \<Rightarrow> copy_failure e | Inr _ \<Rightarrow> True)"
  proof cases
    case same
    then show ?thesis using fds V1 fail y by auto
  next
    case set
    have "\<exists>call. w_os w' = snd (os call (w_os w1)) \<and> (\<forall>n len. call \<noteq> SC_read n len) \<and> (\<forall>n iov. call \<noteq> SC_writev n iov)"
      using io_syscall_os [OF set(1)] by blast
    note V2 = copy_streams_other [OF assms(2) this]
    show ?thesis using fds io_syscall_fds [OF set(1)] V1 V2 set fail by (cases z) auto
  qed
  then show "w_fds w' = w_fds w" "stdin (w_os w') = stdin (w_os w)" "stdout (w_os w') = stdout (w_os w)"
    "received (w_os w') = received (w_os w)" "sent (w_os w') = sent (w_os w)" "case x of Inl e \<Rightarrow> copy_failure e | Inr _ \<Rightarrow> True"
    by auto
qed

lemma copy_setup_ok:
  assumes S: "copy_streams os n stdin stdout received sent" and run: "copy_setup os socket w = (x, w')"
    and w: "socket < length (w_fds w)" "FileDescriptor_fd_num socket w = n" "stdin (w_os w) = []" "stdout (w_os w) = []"
      "received (w_os w) = []" "sent (w_os w) = []"
  shows "case x of
      Inl e \<Rightarrow> copy_failure e \<and> stdin (w_os w') = [] \<and> stdout (w_os w') = [] \<and> received (w_os w') = [] \<and> sent (w_os w') = []
    | Inr (input, output) \<Rightarrow> copy_inv n stdin stdout received sent input output socket (w', stream_copy_new)"
proof -
  define d where "d n = \<lparr>fd_fd = n, fd_eof = False, fd_closed = False, fd_read_count = 0, fd_write_count = 0\<rparr>" for n
  define i where "i = length (w_fds w)"
  define w0 where "w0 = w\<lparr>w_fds := w_fds w @ [d STDIN_FILENO, d STDOUT_FILENO]\<rparr>"
  define v where "v = w\<lparr>w_fds := w_fds w @ [d STDIN_FILENO]\<rparr>"
  have new: "FileDescriptor_new STDIN_FILENO w = (Inr i, v)" "FileDescriptor_new STDOUT_FILENO v = (Inr (Suc i), w0)"
    by (simp_all add: io_bind_eq FileDescriptor_new_def FDWrapper_new_def STDIN_FILENO_def STDOUT_FILENO_def w0_def v_def i_def d_def)
  have run: "io_bind (FileDescriptor_set_blocking os socket False)
      (\<lambda>_. io_bind (FileDescriptor_set_blocking os i False)
         (\<lambda>_. io_bind (FileDescriptor_set_blocking os (Suc i) False) (\<lambda>_. io_return (i, Suc i)))) w0 = (x, w')"
    using run unfolding copy_setup_def io_bind_eq [of "FileDescriptor_new _"] new prod.case sum.case .
  have inv: "copy_inv n stdin stdout received sent i (Suc i) socket (v, stream_copy_new)"
    if "w_fds v = w_fds w0" "stdin (w_os v) = []" "stdout (w_os v) = []" "received (w_os v) = []" "sent (w_os v) = []" for v
    using that w by (simp add: copy_inv_def w0_def i_def d_def stream_copy_new_def FileDescriptor_fd_num_def nth_append)
  obtain x1 w1 where 1: "FileDescriptor_set_blocking os socket False w0 = (x1, w1)" by (rule prod.exhaust)
  obtain x2 w2 where 2: "FileDescriptor_set_blocking os i False w1 = (x2, w2)" by (rule prod.exhaust)
  obtain x3 w3 where 3: "FileDescriptor_set_blocking os (Suc i) False w2 = (x3, w3)" by (rule prod.exhaust)
  have w0: "stdin (w_os w0) = []" "stdout (w_os w0) = []" "received (w_os w0) = []" "sent (w_os w0) = []"
    using w by (simp_all add: w0_def)
  note B = set_blocking_effect [OF 1 S, unfolded w0] set_blocking_effect [OF 2 S] set_blocking_effect [OF 3 S]
  show ?thesis
    using run 1 2 3 B inv [of w3]
    by (cases x1; cases x2; cases x3) (auto simp: io_bind_eq)
qed

text \<open>
  C30: the copying between the standard streams and a socket. At every turn of its loop, and when it ends,
  normally or by an exception, what the socket has taken followed by what the outbound stream holds is
  what was read from standard input, and what standard output has taken followed by what the inbound stream holds is what was
  read from the socket: nothing is lost, repeated, reordered or made up. It throws only when a call of the system fails or a poll
  reports an error; in particular no callback is ever found to wait busily.
\<close>

theorem stream_copy_conserves:
  assumes "copy_streams os n stdin stdout received sent" "socket < length (w_fds w)" "FileDescriptor_fd_num socket w = n"
    "stdin (w_os w) = []" "stdout (w_os w) = []" "received (w_os w) = []" "sent (w_os w) = []"
  shows "(bidirectional_stream_copy os socket w = Some (x, (w', c')) \<longrightarrow>
      sent (w_os w') @ bs_content (cp_outbound c') = stdin (w_os w')
      \<and> stdout (w_os w') @ bs_content (cp_inbound c') = received (w_os w') \<and> (case x of Inl e \<Rightarrow> copy_failure e | Inr _ \<Rightarrow> True))
    \<and> (copy_setup os socket w = (Inr (input, output), w0) \<longrightarrow>
      copy_turns os (copy_rules os input output socket) (w0, stream_copy_new) rules (w1, c1) \<longrightarrow>
      sent (w_os w1) @ bs_content (cp_outbound c1) = stdin (w_os w1)
      \<and> stdout (w_os w1) @ bs_content (cp_inbound c1) = received (w_os w1)
      \<and> (\<forall>e st. EventLoop_wait_next_event os (- 1) rules (w1, c1) = (Inl e, st) \<longrightarrow> copy_failure e))"
proof (intro conjI [where P = "_ \<longrightarrow> _"] impI)
  assume run: "bidirectional_stream_copy os socket w = Some (x, (w', c'))"
  obtain y v where y: "copy_setup os socket w = (y, v)" by (rule prod.exhaust)
  note S = copy_setup_ok [OF assms(1) y assms(2-)]
  show "sent (w_os w') @ bs_content (cp_outbound c') = stdin (w_os w')
      \<and> stdout (w_os w') @ bs_content (cp_inbound c') = received (w_os w') \<and> (case x of Inl e \<Rightarrow> copy_failure e | Inr _ \<Rightarrow> True)"
  proof (cases y)
    case (Inl e)
    then show ?thesis using run y S by (auto simp: bidirectional_stream_copy_def stream_copy_new_def)
  next
    case (Inr z)
    obtain i k where z: "z = (i, k)" by (rule prod.exhaust)
    have "copy_loop os (copy_rules os i k socket) (v, stream_copy_new) = Some (x, (w', c'))"
      using run y Inr z by (simp add: bidirectional_stream_copy_def)
    from copy_loop_ok [OF this assms(1) subset_refl] S show ?thesis using Inr z by (simp add: copy_inv_def)
  qed
next
  assume st: "copy_setup os socket w = (Inr (input, output), w0)"
    and turns: "copy_turns os (copy_rules os input output socket) (w0, stream_copy_new) rules (w1, c1)"
  have "copy_inv n stdin stdout received sent input output socket (w0, stream_copy_new)"
    using copy_setup_ok [OF assms(1) st assms(2-)] by simp
  from copy_turns_ok [OF turns assms(1) subset_refl this]
  have I: "set rules \<subseteq> set (copy_rules os input output socket)" "copy_inv n stdin stdout received sent input output socket (w1, c1)"
    by auto
  then show "sent (w_os w1) @ bs_content (cp_outbound c1) = stdin (w_os w1)
      \<and> stdout (w_os w1) @ bs_content (cp_inbound c1) = received (w_os w1)
      \<and> (\<forall>e st. EventLoop_wait_next_event os (- 1) rules (w1, c1) = (Inl e, st) \<longrightarrow> copy_failure e)"
    using served_rules.turn [OF copy_served [OF assms(1)] I] by (force simp: copy_inv_def copy_failure_def)
qed

text \<open>
  A system in which standard input has two bytes to read, the socket then takes them, and a signal ends the
  loop: how often it was polled, and what each stream has seen.
\<close>

record copy_demo =
  cd_polls :: nat
  cd_stdin :: bytes
  cd_stdout :: bytes
  cd_received :: bytes
  cd_sent :: bytes

definition demo_answer :: "int \<Rightarrow> int \<Rightarrow> bytes \<Rightarrow> int list \<Rightarrow> sysret" where
  "demo_answer v errno data ints = \<lparr>sr_value = v, sr_errno = errno, sr_data = data, sr_address = [], sr_ints = ints\<rparr>"

fun copy_demo_os :: "copy_demo os" where
  "copy_demo_os (SC_read m len) k =
     (let data = take (unat len) (if m = 0 then [104, 105] else [])
      in (demo_answer (int (length data)) 0 data [],
          if m = 0 then k\<lparr>cd_stdin := cd_stdin k @ data\<rparr> else if m = 3 then k\<lparr>cd_received := cd_received k @ data\<rparr> else k))"
| "copy_demo_os (SC_writev m iov) k =
     (let data = take 2 (concat (map fst iov))
      in (demo_answer (int (length data)) 0 [] [],
          if m = 1 then k\<lparr>cd_stdout := cd_stdout k @ data\<rparr> else if m = 3 then k\<lparr>cd_sent := cd_sent k @ data\<rparr> else k))"
| "copy_demo_os (SC_poll entries timeout) k =
     ((if cd_polls k = 0 then demo_answer 1 0 [] [POLLIN, 0, 0, 0]
       else if cd_polls k = 1 then demo_answer 1 0 [] [0, POLLOUT, 0, 0]
       else demo_answer (- 1) EINTR [] []), k\<lparr>cd_polls := cd_polls k + 1\<rparr>)"
| "copy_demo_os _ k = (demo_answer 0 0 [] [], k)"

lemma copy_demo_streams: "copy_streams copy_demo_os 3 cd_stdin cd_stdout cd_received cd_sent"
proof -
  have 1: "stream_source copy_demo_os cd_stdin STDIN_FILENO" "stream_source copy_demo_os cd_received 3"
    by (auto simp: stream_source_def STDIN_FILENO_def Let_def demo_answer_def)
  have m: "take 2 xs = take (min (length xs) 2) xs" for xs :: bytes by (cases "2 \<le> length xs") simp_all
  have 2: "stream_sink copy_demo_os cd_stdout STDOUT_FILENO" "stream_sink copy_demo_os cd_sent 3"
    unfolding stream_sink_def STDOUT_FILENO_def
    by (auto simp: Let_def demo_answer_def intro!: exI [of _ "min (length (concat (map fst iov))) 2" for iov] m)
  have 3: "((\<forall>len. call \<noteq> SC_read STDIN_FILENO len) \<longrightarrow> cd_stdin (snd (copy_demo_os call k)) = cd_stdin k)
      \<and> ((\<forall>iov. call \<noteq> SC_writev STDOUT_FILENO iov) \<longrightarrow> cd_stdout (snd (copy_demo_os call k)) = cd_stdout k)
      \<and> ((\<forall>len. call \<noteq> SC_read 3 len) \<longrightarrow> cd_received (snd (copy_demo_os call k)) = cd_received k)
      \<and> ((\<forall>iov. call \<noteq> SC_writev 3 iov) \<longrightarrow> cd_sent (snd (copy_demo_os call k)) = cd_sent k)" for call k
    by (cases "(call, k)" rule: copy_demo_os.cases) (auto simp: STDIN_FILENO_def STDOUT_FILENO_def Let_def)
  show ?thesis using 1 2 3 by (simp add: copy_streams_def STDIN_FILENO_def STDOUT_FILENO_def)
qed

definition copy_demo_file :: "int \<Rightarrow> u32 \<Rightarrow> u32 \<Rightarrow> FDWrapper" where
  "copy_demo_file n r w = \<lparr>fd_fd = n, fd_eof = False, fd_closed = False, fd_read_count = r, fd_write_count = w\<rparr>"

definition copy_demo_world :: "nat \<Rightarrow> bytes \<Rightarrow> bytes \<Rightarrow> FDWrapper list \<Rightarrow> copy_demo world" where
  "copy_demo_world polls input sent fds =
     \<lparr>w_os = \<lparr>cd_polls = polls, cd_stdin = input, cd_stdout = [], cd_received = [], cd_sent = sent\<rparr>, w_fds = fds\<rparr>"

definition copy_demo_stream :: "BufferList \<Rightarrow> u64 \<Rightarrow> u64 \<Rightarrow> stream_copy" where
  "copy_demo_stream bufs r w = stream_copy_new\<lparr>cp_outbound := \<lparr>bs_buffer = bufs, bs_capacity = 1048576, bs_read_count = r,
     bs_write_count = w, bs_input_ended_flag = False, bs_error = False\<rparr>\<rparr>"

lemmas copy_demo_eval = copy_demo_world_def copy_demo_file_def demo_answer_def FileDescriptor_fd_num_def
  FileDescriptor_eof_def io_syscall_def SystemCall_def int32_def Let_def copy_demo_stream_def
  stream_copy_new_def ByteStream_new_def buffer_size_def ByteStream_accessor_defs
  BufferList_size_def Buffer_size_def Buffer_str_def ssize_def Buffer_of_string_def

lemma copy_demo_read:
  "copy1_callback copy_demo_os 1
     (copy_demo_world (Suc 0) [] [] [copy_demo_file 3 0 0, copy_demo_file 0 0 0, copy_demo_file 1 0 0], stream_copy_new)
   = (Inr (), (copy_demo_world (Suc 0) [104, 105] [] [copy_demo_file 3 0 0, copy_demo_file 0 1 0, copy_demo_file 1 0 0],
       copy_demo_stream [Buffer_of_string [104, 105]] 0 2))"
  by (simp add: copy_demo_eval copy1_callback_def copy_read_def FileDescriptor_read_def io_bind_eq register_read_def
  string_resize_def ByteStream_write_def BufferList_append_def BufferList_of_string_def)

lemma copy_demo_write:
  "copy2_callback copy_demo_os 0
     (copy_demo_world 2 [104, 105] [] [copy_demo_file 3 0 0, copy_demo_file 0 1 0, copy_demo_file 1 0 0],
       copy_demo_stream [Buffer_of_string [104, 105]] 0 2)
   = (Inr (), (copy_demo_world 2 [104, 105] [104, 105] [copy_demo_file 3 0 1, copy_demo_file 0 1 0, copy_demo_file 1 0 0],
       copy_demo_stream [] 2 2))"
proof -
  have peek: "ByteStream_peek_output (min max_copy_length (ByteStream_buffer_size (cp_outbound (copy_demo_stream [Buffer_of_string [104, 105]] 0 2))))
      (cp_outbound (copy_demo_stream [Buffer_of_string [104, 105]] 0 2)) = [104, 105]"
    by (simp add: copy_demo_eval ByteStream_peek_output_def max_copy_length_def BufferList_concatenate_def)
  have pop: "ByteStream_pop_output 2 (cp_outbound (copy_demo_stream [Buffer_of_string [104, 105]] 0 2))
      = cp_outbound (copy_demo_stream [] 2 2)"
    by (simp add: copy_demo_eval ByteStream_pop_output_def)
  have wr: "FileDescriptor_write copy_demo_os 0 (BufferViewList_of_string [104, 105]) False
      (copy_demo_world 2 [104, 105] [] [copy_demo_file 3 0 0, copy_demo_file 0 1 0, copy_demo_file 1 0 0])
    = (Inr 2, copy_demo_world 2 [104, 105] [104, 105] [copy_demo_file 3 0 1, copy_demo_file 0 1 0, copy_demo_file 1 0 0])"
    by (simp add: copy_demo_eval FileDescriptor_write_def FileDescriptor_write_loop.simps [of _ _ False]
  FileDescriptor_write_once_def io_bind_eq register_write_def BufferViewList_of_string_def BufferViewList_as_iovecs_def BufferViewList_size_def)
  have eof: "\<not> ByteStream_eof (cp_outbound (copy_demo_stream [] 2 2))" by (simp add: copy_demo_eval)
  show ?thesis
    using eof by (simp add: copy2_callback_def copy_write_def Let_def peek io_bind_eq wr pop) (simp add: copy_demo_stream_def)
qed

abbreviation copy_demo_rules :: "(copy_demo, stream_copy) Rule list" where
  "copy_demo_rules \<equiv> copy_rules copy_demo_os 1 2 0"

lemma copy_demo_poll:
  fixes c and polls input sent r0 w0 r1 w1 r2 w2
  defines "w \<equiv> copy_demo_world polls input sent [copy_demo_file 3 r0 w0, copy_demo_file 0 r1 w1, copy_demo_file 1 r2 w2]"
  assumes "copy1_interest (w, c)" "copy3_interest (w, c)" "\<not> copy4_interest (w, c)" "copy2_interest (w, c) = b"
  shows "EventLoop_setup copy_demo_rules (w, c)
     = (Inr (copy_demo_rules, [(0, POLLIN), (3, if b then POLLOUT else 0), (3, POLLIN), (1, 0)], True), (w, c))"
proof -
  have "FileDescriptor_fd_num 0 w = 3" "FileDescriptor_fd_num 1 w = 0" "FileDescriptor_fd_num 2 w = 1"
    "\<not> FileDescriptor_eof 1 w" "\<not> FileDescriptor_eof 0 w"
    "\<not> FileDescriptor_closed 0 w" "\<not> FileDescriptor_closed 1 w" "\<not> FileDescriptor_closed 2 w"
    unfolding w_def FileDescriptor_fd_num_def FileDescriptor_eof_def FileDescriptor_closed_def copy_demo_world_def
    by (simp_all add: copy_demo_file_def)
  then show ?thesis
    using assms(2-) unfolding copy_rules_def EventLoop_add_rule_def FileDescriptor_duplicate_def Let_def
    by simp
qed

lemma copy_demo_interest:
  "copy1_interest (w, stream_copy_new)" "copy3_interest (w, stream_copy_new)" "\<not> copy4_interest (w, stream_copy_new)"
  "\<not> copy2_interest (w, stream_copy_new)"
  "copy1_interest (w, copy_demo_stream [Buffer_of_string [104, 105]] 0 2)"
  "copy3_interest (w, copy_demo_stream [Buffer_of_string [104, 105]] 0 2)"
  "\<not> copy4_interest (w, copy_demo_stream [Buffer_of_string [104, 105]] 0 2)"
  "copy2_interest (w, copy_demo_stream [Buffer_of_string [104, 105]] 0 2)"
  "copy1_interest (w, copy_demo_stream [] 2 2)" "copy3_interest (w, copy_demo_stream [] 2 2)"
  "\<not> copy4_interest (w, copy_demo_stream [] 2 2)" "\<not> copy2_interest (w, copy_demo_stream [] 2 2)"
  by (simp_all add: copy1_interest_def copy2_interest_def copy3_interest_def copy4_interest_def copy_demo_eval)

lemma copy_demo_polled:
  "io_syscall copy_demo_os ''poll'' (SC_poll entries timeout) (copy_demo_world 0 input sent fds)
     = (Inr (1, demo_answer 1 0 [] [POLLIN, 0, 0, 0]), copy_demo_world 1 input sent fds)"
  "io_syscall copy_demo_os ''poll'' (SC_poll entries timeout) (copy_demo_world 1 input sent fds)
     = (Inr (1, demo_answer 1 0 [] [0, POLLOUT, 0, 0]), copy_demo_world 2 input sent fds)"
  "io_syscall copy_demo_os ''poll'' (SC_poll entries timeout) (copy_demo_world 2 input sent fds)
     = (Inl (Unix_error ''poll'' EINTR), copy_demo_world 3 input sent fds)"
  by (simp_all add: io_syscall_def SystemCall_def int32_def copy_demo_world_def demo_answer_def EINTR_def)

lemma copy_demo_turn1:
  "EventLoop_wait_next_event copy_demo_os (- 1) copy_demo_rules
     (copy_demo_world 0 [] [] [copy_demo_file 3 0 0, copy_demo_file 0 0 0, copy_demo_file 1 0 0], stream_copy_new)
   = (Inr (Success, copy_demo_rules),
      (copy_demo_world 1 [104, 105] [] [copy_demo_file 3 0 0, copy_demo_file 0 1 0, copy_demo_file 1 0 0],
       copy_demo_stream [Buffer_of_string [104, 105]] 0 2))"
proof -
  have "EventLoop_results (zip copy_demo_rules (zip [POLLIN, 0, POLLIN, 0] [POLLIN, 0, 0, 0]))
     (copy_demo_world 1 [] [] [copy_demo_file 3 0 0, copy_demo_file 0 0 0, copy_demo_file 1 0 0], stream_copy_new)
   = (Inr copy_demo_rules,
      (copy_demo_world 1 [104, 105] [] [copy_demo_file 3 0 0, copy_demo_file 0 1 0, copy_demo_file 1 0 0],
       copy_demo_stream [Buffer_of_string [104, 105]] 0 2))"
    by (simp add: copy_rules_def EventLoop_add_rule_def FileDescriptor_duplicate_def Let_def POLLIN_def POLLERR_def POLLNVAL_def POLLHUP_def
     Rule_service_count_def FileDescriptor_read_count_def copy_demo_read [simplified]) (simp add: copy_demo_world_def copy_demo_file_def)
  then show ?thesis
    unfolding EventLoop_wait_next_event_def copy_demo_poll [OF copy_demo_interest(1-3) refl] prod.case sum.case Let_def copy_demo_polled
    by (simp add: copy_demo_interest(4) poll_revents_def demo_answer_def)
qed

lemma copy_demo_turn2:
  "EventLoop_wait_next_event copy_demo_os (- 1) copy_demo_rules
     (copy_demo_world 1 [104, 105] [] [copy_demo_file 3 0 0, copy_demo_file 0 1 0, copy_demo_file 1 0 0],
       copy_demo_stream [Buffer_of_string [104, 105]] 0 2)
   = (Inr (Success, copy_demo_rules),
      (copy_demo_world 2 [104, 105] [104, 105] [copy_demo_file 3 0 1, copy_demo_file 0 1 0, copy_demo_file 1 0 0],
       copy_demo_stream [] 2 2))"
proof -
  have "EventLoop_results (zip copy_demo_rules (zip [POLLIN, POLLOUT, POLLIN, 0] [0, POLLOUT, 0, 0]))
     (copy_demo_world 2 [104, 105] [] [copy_demo_file 3 0 0, copy_demo_file 0 1 0, copy_demo_file 1 0 0],
       copy_demo_stream [Buffer_of_string [104, 105]] 0 2)
   = (Inr copy_demo_rules,
      (copy_demo_world 2 [104, 105] [104, 105] [copy_demo_file 3 0 1, copy_demo_file 0 1 0, copy_demo_file 1 0 0],
       copy_demo_stream [] 2 2))"
    by (simp add: copy_rules_def EventLoop_add_rule_def FileDescriptor_duplicate_def Let_def POLLIN_def POLLOUT_def POLLERR_def POLLNVAL_def POLLHUP_def
     Rule_service_count_def FileDescriptor_write_count_def copy_demo_write) (simp add: copy_demo_world_def copy_demo_file_def)
  then show ?thesis
    unfolding EventLoop_wait_next_event_def copy_demo_poll [OF copy_demo_interest(5-7) refl] prod.case sum.case Let_def copy_demo_polled
    by (simp add: copy_demo_interest(8) poll_revents_def demo_answer_def)
qed

lemma copy_demo_turn3:
  "EventLoop_wait_next_event copy_demo_os (- 1) copy_demo_rules
     (copy_demo_world 2 [104, 105] [104, 105] [copy_demo_file 3 0 1, copy_demo_file 0 1 0, copy_demo_file 1 0 0],
       copy_demo_stream [] 2 2)
   = (Inr (Exit, copy_demo_rules),
      (copy_demo_world 3 [104, 105] [104, 105] [copy_demo_file 3 0 1, copy_demo_file 0 1 0, copy_demo_file 1 0 0],
       copy_demo_stream [] 2 2))"
  unfolding EventLoop_wait_next_event_def copy_demo_poll [OF copy_demo_interest(9-11) refl] prod.case sum.case Let_def copy_demo_polled
  by simp

lemma copy_demo_run:
  "copy_setup copy_demo_os 0 (copy_demo_world 0 [] [] [copy_demo_file 3 0 0])
     = (Inr (1, 2), copy_demo_world 0 [] [] [copy_demo_file 3 0 0, copy_demo_file 0 0 0, copy_demo_file 1 0 0])"
  "bidirectional_stream_copy copy_demo_os 0 (copy_demo_world 0 [] [] [copy_demo_file 3 0 0])
     = Some (Inr (), (copy_demo_world 3 [104, 105] [104, 105] [copy_demo_file 3 0 1, copy_demo_file 0 1 0, copy_demo_file 1 0 0],
       copy_demo_stream [] 2 2))"
  "copy_turns copy_demo_os copy_demo_rules
     (copy_demo_world 0 [] [] [copy_demo_file 3 0 0, copy_demo_file 0 0 0, copy_demo_file 1 0 0], stream_copy_new) copy_demo_rules
     (copy_demo_world 1 [104, 105] [] [copy_demo_file 3 0 0, copy_demo_file 0 1 0, copy_demo_file 1 0 0],
       copy_demo_stream [Buffer_of_string [104, 105]] 0 2)"
proof -
  show st: "copy_setup copy_demo_os 0 (copy_demo_world 0 [] [] [copy_demo_file 3 0 0])
     = (Inr (1, 2), copy_demo_world 0 [] [] [copy_demo_file 3 0 0, copy_demo_file 0 0 0, copy_demo_file 1 0 0])"
    by (simp add: copy_setup_def io_bind_eq FileDescriptor_new_def FDWrapper_new_def STDIN_FILENO_def STDOUT_FILENO_def
        FileDescriptor_set_blocking_def copy_demo_eval)
  show "bidirectional_stream_copy copy_demo_os 0 (copy_demo_world 0 [] [] [copy_demo_file 3 0 0])
     = Some (Inr (), (copy_demo_world 3 [104, 105] [104, 105] [copy_demo_file 3 0 1, copy_demo_file 0 1 0, copy_demo_file 1 0 0],
       copy_demo_stream [] 2 2))"
    unfolding bidirectional_stream_copy_def st prod.case sum.case
    by (subst copy_loop.simps, unfold copy_demo_turn1 prod.case sum.case,
        subst copy_loop.simps, unfold copy_demo_turn2 prod.case sum.case,
        subst copy_loop.simps, unfold copy_demo_turn3 prod.case sum.case) simp
  show "copy_turns copy_demo_os copy_demo_rules
     (copy_demo_world 0 [] [] [copy_demo_file 3 0 0, copy_demo_file 0 0 0, copy_demo_file 1 0 0], stream_copy_new) copy_demo_rules
     (copy_demo_world 1 [104, 105] [] [copy_demo_file 3 0 0, copy_demo_file 0 1 0, copy_demo_file 1 0 0],
       copy_demo_stream [Buffer_of_string [104, 105]] 0 2)"
    using copy_turns.turn [OF copy_turns.start copy_demo_turn1] by simp
qed

theorem stream_copy_conserves_witness:
  "\<exists>w' c'. bidirectional_stream_copy copy_demo_os 0 (copy_demo_world 0 [] [] [copy_demo_file 3 0 0]) = Some (Inr (), (w', c'))
    \<and> cd_sent (w_os w') @ bs_content (cp_outbound c') = cd_stdin (w_os w') \<and> cd_sent (w_os w') = [104, 105]"
proof -
  note run = copy_demo_run
  have "copy_streams copy_demo_os 3 cd_stdin cd_stdout cd_received cd_sent" by (rule copy_demo_streams)
  from stream_copy_conserves [OF this, of 0 "copy_demo_world 0 [] [] [copy_demo_file 3 0 0]", THEN conjunct1, rule_format, OF _ _ _ _ _ _ run(2)]
  show ?thesis using run(2) by (simp add: copy_demo_world_def copy_demo_file_def FileDescriptor_fd_num_def)
qed

end
