(* ===== verification/Tcp_Network.thy ===== *)
theory Tcp_Network
  imports Outbound_Stream Tcp_Lifecycle "HOL-Library.Sublist"
begin

text \<open>
  Two connections and the network between them. Each endpoint is a \<open>TCPConnection\<close> with the history of
  what its application wrote and read and of the datagrams it sent, which hold serialized segments as
  \<open>TCPOverUDPSocketAdapter\<close> writes and reads them. The network may deliver any datagram that was ever
  sent, at any time and any number of times, and may damage it: any one byte, or any number of them in a
  way that the checksum of the segment shows. It loses, delays, repeats, reorders and corrupts.
\<close>

section \<open>Endpoints and steps\<close>

record endpoint =
  ep_conn :: TCPConnection
  ep_written :: bytes
  ep_read :: bytes
  ep_sent :: "bytes list"

definition endpoint_new :: "TCPConfig \<Rightarrow> WrappingInt32 \<Rightarrow> endpoint" where
  "endpoint_new cfg random =
     \<lparr>ep_conn = TCPConnection_new cfg random, ep_written = [], ep_read = [], ep_sent = []\<rparr>"

text \<open>A segment as the payload of a datagram, with the ports of the connection, and back.\<close>

definition to_wire :: "u16 \<Rightarrow> u16 \<Rightarrow> TCPSegment \<Rightarrow> bytes res" where
  "to_wire sport dport seg =
     map_sum id BufferList_concatenate
       (TCPSegment_serialize 0 (seg\<lparr>ts_header := (ts_header seg)\<lparr>th_sport := sport, th_dport := dport\<rparr>\<rparr>))"

definition from_wire :: "bytes \<Rightarrow> TCPSegment option" where
  "from_wire payload =
     (let (result, seg) = TCPSegment_parse (Buffer_of_string payload) 0 TCPSegment_new
      in if NoError \<noteq> result then None else Some seg)"

text \<open>
  What the network may make of a datagram: leave it intact, change one byte in any way, or replace it by
  anything that fails the checksum. Other damage to several bytes, such as two words that change places,
  is beyond a sixteen-bit sum and excluded.
\<close>

inductive arrives :: "bytes \<Rightarrow> bytes \<Rightarrow> bool" for bs where
  intact: "arrives bs bs"
| damaged: "i < length bs \<Longrightarrow> arrives bs (bs[i := x])"
| garbled: "InternetChecksum_value (InternetChecksum_add bs' (InternetChecksum_new 0)) \<noteq> 0 \<Longrightarrow> arrives bs bs'"

text \<open>One operation of an endpoint; \<open>wire\<close> are the datagrams its peer has sent.\<close>

inductive ep_step :: "bytes list \<Rightarrow> endpoint \<Rightarrow> endpoint \<Rightarrow> bool" for wire where
  step_connect: "ep_step wire e (e\<lparr>ep_conn := TCPConnection_connect (ep_conn e)\<rparr>)"
| step_write: "length data < W64 \<Longrightarrow> \<not> tc_ended (ep_conn e) \<Longrightarrow>
    ep_step wire e (e\<lparr>ep_conn := snd (TCPConnection_write data (ep_conn e)),
                      ep_written := ep_written e @ tc_accepted data (ep_conn e)\<rparr>)"
| step_end: "ep_step wire e (e\<lparr>ep_conn := TCPConnection_end_input_stream (ep_conn e)\<rparr>)"
| step_tick: "ep_step wire e (e\<lparr>ep_conn := TCPConnection_tick ms (ep_conn e)\<rparr>)"
| step_receive: "dgram \<in> set wire \<Longrightarrow> arrives dgram bs \<Longrightarrow> from_wire bs = Some seg \<Longrightarrow>
    ep_step wire e (e\<lparr>ep_conn := TCPConnection_segment_received seg (ep_conn e)\<rparr>)"
| step_drop: "dgram \<in> set wire \<Longrightarrow> arrives dgram bs \<Longrightarrow> from_wire bs = None \<Longrightarrow> ep_step wire e e"
| step_read: "TCPConnection_read n (ep_conn e) = (d, c) \<Longrightarrow>
    ep_step wire e (e\<lparr>ep_conn := c, ep_read := ep_read e @ d\<rparr>)"
| step_send: "TCPConnection_take_segments (ep_conn e) = (segs, c) \<Longrightarrow>
    list_all2 (\<lambda>seg dgram. to_wire sport dport seg = Inr dgram) segs dgrams \<Longrightarrow>
    ep_step wire e (e\<lparr>ep_conn := c, ep_sent := ep_sent e @ dgrams\<rparr>)"
| step_destroy: "ep_step wire e (e\<lparr>ep_conn := TCPConnection_destroy (ep_conn e)\<rparr>)"

inductive net_step :: "endpoint \<times> endpoint \<Rightarrow> endpoint \<times> endpoint \<Rightarrow> bool" where
  net_left: "ep_step (ep_sent b) a a' \<Longrightarrow> net_step (a, b) (a', b)"
| net_right: "ep_step (ep_sent a) b b' \<Longrightarrow> net_step (a, b) (a, b')"

inductive_cases net_stepE: "net_step (a, b) st"

section \<open>The invariant\<close>

text \<open>
  \<open>S\<close> is a stream that the endpoint may still come to write: it starts with what was written, and is all
  of it once the input has ended.
\<close>

definition ep_follows :: "bytes \<Rightarrow> endpoint \<Rightarrow> bool" where
  "ep_follows S e = (prefix (ep_written e) S \<and> (tc_ended (ep_conn e) \<longrightarrow> S = ep_written e) \<and> length S + 3 < W31)"

text \<open>The part of a connection that only its owner changes.\<close>

definition tc_input :: "TCPConnection \<Rightarrow> WrappingInt32 \<times> u64 \<times> bool" where
  "tc_input c = sn_input (tc_sender c)"

lemma tc_input_kept:
  "tc_input (TCPConnection_connect c) = tc_input c" "tc_input (TCPConnection_segment_received seg c) = tc_input c"
  "tc_input (TCPConnection_tick ms c) = tc_input c" "tc_input (TCPConnection_destroy c) = tc_input c"
  "TCPConnection_read n c = (d, c') \<Longrightarrow> tc_input c' = tc_input c"
  "TCPConnection_take_segments c = (segs, c') \<Longrightarrow> tc_input c' = tc_input c"
  unfolding tc_input_def
  by (rule input.connect input.received input.ticked input.destroyed refl)+
    (auto simp: TCPConnection_read_def TCPConnection_take_segments_def split: prod.splits)

lemma tc_input_ended: "tc_input c' = tc_input c \<Longrightarrow> tc_ended c' = tc_ended c"
  by (simp add: tc_input_def sn_input_def tc_ended_def ByteStream_input_ended_def)

lemma tc_ok_written: "tc_ok S T i j c \<Longrightarrow> tc_written c = unat (bs_write_count (sn_stream (tc_sender c)))"
  unfolding tc_ok_def tc_pre_def tc_written_def by (elim conjE) (rule sn_written_eq)

lemma tc_input_written: "tc_ok S T i j c \<Longrightarrow> tc_ok S T i j c' \<Longrightarrow> tc_input c' = tc_input c \<Longrightarrow> tc_written c' = tc_written c"
  by (simp add: tc_ok_written tc_input_def sn_input_def)

text \<open>What the application has read changes only when it reads.\<close>

definition tr_read_count :: "TCPReceiver \<Rightarrow> u64" where
  "tr_read_count r = bs_read_count (TCPReceiver_stream_out r)"

lemma push_byte_output: "sr_output (snd (StreamReassembler_push_byte c cur tw sr)) = sr_output sr"
  by (simp add: StreamReassembler_push_byte_def Let_def)

lemma push_bytes_output: "sr_output (snd (StreamReassembler_push_bytes data cur tw sr)) = sr_output sr"
proof (induction data arbitrary: cur tw sr)
  case (Cons c data)
  obtain tw1 sr1 where 1: "StreamReassembler_push_byte c cur tw sr = (tw1, sr1)" by (rule prod.exhaust)
  then have "sr_output sr1 = sr_output sr" using push_byte_output [of c cur tw sr] by simp
  then show ?case using Cons.IH [of "cur + 1" tw1 sr1] 1 by simp
qed simp

lemma push_substring_read_count:
  "bs_read_count (sr_output (StreamReassembler_push_substring data index eof sr)) = bs_read_count (sr_output sr)"
proof -
  define sr0 where "sr0 = sr\<lparr>sr_first_unread := ByteStream_bytes_read (sr_output sr)\<rparr>"
  obtain tw1 sr1 where 1: "StreamReassembler_push_bytes data index [] sr0 = (tw1, sr1)" by (rule prod.exhaust)
  obtain tw2 sr2 where 2: "StreamReassembler_drain (unat (sr_unassembled sr1)) (index + ssize data) tw1 sr1 = (tw2, sr2)"
    by (rule prod.exhaust)
  have "sr_output sr2 = sr_output sr"
    using push_bytes_output [of data index "[]" sr0] drain_frame(1) [of "unat (sr_unassembled sr1)" "index + ssize data" tw1 sr1] 1 2
    by (simp add: sr0_def)
  then show ?thesis by (simp add: StreamReassembler_push_substring_def sr0_def [symmetric] 1 2 Let_def)
qed

lemma received_read_count: "tr_read_count (TCPReceiver_segment_received seg r) = tr_read_count r"
  unfolding TCPReceiver_segment_received_def Let_def tr_read_count_def TCPReceiver_stream_out_def
  by (auto simp: push_substring_read_count)

definition tc_read_count :: "TCPConnection \<Rightarrow> u64" where
  "tc_read_count c = tr_read_count (tc_receiver c)"

lemma read_count_send: "tc_read_count (TCPConnection_send_sender_segments c) = tc_read_count c"
  by (simp add: tc_read_count_def send_sender_segments_eq)

lemma read_count_unclean: "tc_read_count (TCPConnection_unclean_shutdown rst c) = tc_read_count c"
  unfolding TCPConnection_unclean_shutdown_def Let_def read_count_send
  by (simp add: tc_read_count_def tr_read_count_def TCPReceiver_stream_out_def TCPReceiver_set_error_def)

lemma read_count_connect: "tc_read_count (TCPConnection_connect c) = tc_read_count c"
  unfolding TCPConnection_connect_def read_count_send by (simp add: tc_read_count_def)

lemma read_count_process: "tc_read_count (TCPConnection_process seg c) = tc_read_count c"
  unfolding TCPConnection_process_def Let_def
  by (auto simp: read_count_send) (auto simp: tc_read_count_def received_read_count)

lemma read_count_received: "tc_read_count (TCPConnection_segment_received seg c) = tc_read_count c"
  unfolding TCPConnection_segment_received_def Let_def
  by (auto simp: read_count_send read_count_unclean read_count_connect read_count_process)
    (auto simp: tc_read_count_def received_read_count)

lemma read_count_others:
  "tc_read_count (TCPConnection_tick ms c) = tc_read_count c" "tc_read_count (TCPConnection_destroy c) = tc_read_count c"
  "tc_read_count (TCPConnection_end_input_stream c) = tc_read_count c"
  "tc_read_count (snd (TCPConnection_write data c)) = tc_read_count c"
  "TCPConnection_take_segments c = (segs, c') \<Longrightarrow> tc_read_count c' = tc_read_count c"
proof -
  show "tc_read_count (TCPConnection_tick ms c) = tc_read_count c"
    unfolding TCPConnection_tick_def Let_def read_count_send if_distrib [of tc_read_count] read_count_unclean
    by (simp add: tc_read_count_def)
  show "tc_read_count (TCPConnection_destroy c) = tc_read_count c"
    by (simp add: TCPConnection_destroy_def read_count_unclean)
  show "tc_read_count (TCPConnection_end_input_stream c) = tc_read_count c"
    unfolding TCPConnection_end_input_stream_def Let_def read_count_send by (simp add: tc_read_count_def)
  show "tc_read_count (snd (TCPConnection_write data c)) = tc_read_count c"
    by (simp add: TCPConnection_write_def Let_def split_beta read_count_send) (simp add: tc_read_count_def)
  show "TCPConnection_take_segments c = (segs, c') \<Longrightarrow> tc_read_count c' = tc_read_count c"
    by (auto simp: TCPConnection_take_segments_def tc_read_count_def)
qed

lemmas read_count_frame = read_count_connect read_count_received read_count_others

section \<open>Every step keeps it\<close>

text \<open>The datagrams of a stream, and what comes out of them.\<close>

definition wire_dgram :: "bytes \<Rightarrow> WrappingInt32 \<Rightarrow> bytes \<Rightarrow> bool" where
  "wire_dgram S i dgram = (\<exists>seg. wire_seg S i seg \<and> dgram = segment_bytes 0 seg)"

lemma wire_seg_cong:
  assumes "wire_seg S i seg" "Buffer_str (ts_payload seg') = Buffer_str (ts_payload seg)" "Buffer_ok (ts_payload seg')"
    "th_seqno (ts_header seg') = th_seqno (ts_header seg)" "th_syn (ts_header seg') = th_syn (ts_header seg)"
    "th_fin (ts_header seg') = th_fin (ts_header seg)" "th_rst (ts_header seg') = th_rst (ts_header seg)"
    "th_doff (ts_header seg') = th_doff (ts_header seg)"
  shows "wire_seg S i seg'"
proof -
  have "carries S i a seg' = carries S i a seg" for a using assms by (simp add: carries_def seg_data_def)
  moreover have "wire_ok seg'" "wire_ok seg" using assms by (simp_all add: wire_seg_def wire_ok_def segment_sendable_def)
  ultimately show ?thesis using assms(1,7) by (simp add: wire_seg_def on_wire_def piece_def)
qed

lemma to_wire_ok: "wire_seg S i seg \<Longrightarrow> to_wire sport dport seg = Inr dgram \<Longrightarrow> wire_dgram S i dgram"
proof -
  assume w: "wire_seg S i seg" and d: "to_wire sport dport seg = Inr dgram"
  let ?seg = "seg\<lparr>ts_header := (ts_header seg)\<lparr>th_sport := sport, th_dport := dport\<rparr>\<rparr>"
  have "wire_seg S i ?seg" using w by (rule wire_seg_cong) (use w in \<open>simp_all add: wire_seg_def wire_ok_def\<close>)
  moreover have "5 \<le> th_doff (ts_header ?seg)" using w by (simp add: wire_seg_def wire_ok_def segment_sendable_def)
  from TCPSegment_serialize_eq [OF this, of 0] d have "dgram = segment_bytes 0 ?seg"
    by (simp add: to_wire_def BufferList_concatenate_def segment_bytes_def)
  ultimately show "wire_dgram S i dgram" by (auto simp: wire_dgram_def)
qed

text \<open>Every datagram of an endpoint can be serialized.\<close>

lemma to_wire_total: "wire_seg S i seg \<Longrightarrow> \<exists>dgram. to_wire sport dport seg = Inr dgram"
  using TCPSegment_serialize_eq [of "seg\<lparr>ts_header := (ts_header seg)\<lparr>th_sport := sport, th_dport := dport\<rparr>\<rparr>" 0]
  by (simp add: to_wire_def wire_seg_def wire_ok_def segment_sendable_def)

lemma from_wire_ok:
  assumes "wire_dgram S i dgram" "arrives dgram bs" "from_wire bs = Some seg"
  shows "wire_seg S i seg"
proof -
  obtain seg0 where s: "wire_seg S i seg0" "dgram = segment_bytes 0 seg0" using assms(1) by (auto simp: wire_dgram_def)
  have send: "segment_sendable seg0" using s(1) by (simp add: wire_seg_def wire_ok_def)
  have "bs = dgram"
    using assms(2)
  proof cases
    case (damaged k x)
    then show ?thesis
      using corrupted_bytes_rejected [OF send _ s(2), of k x TCPSegment_new] assms(3)
      by (cases "x = dgram ! k") (simp_all add: from_wire_def list_update_id)
  next
    case garbled
    then show ?thesis using assms(3) by (simp add: from_wire_def TCPSegment_parse_def)
  qed
  moreover have "Buffer_ok (Buffer_of_string dgram)"
    using segment_bytes_length [OF send, of 0] s(2) by (intro Buffer_ok_of_string) simp
  ultimately obtain pl where "seg = \<lparr>ts_header = sealed_header 0 seg0, ts_payload = pl\<rparr>" "Buffer_ok pl"
      "Buffer_str pl = Buffer_str (ts_payload seg0)"
    using segment_parse_serialized [OF send, of 0 "Buffer_of_string dgram" TCPSegment_new] s(2) assms(3)
    by (auto simp: from_wire_def)
  then show ?thesis by (intro wire_seg_cong [OF s(1)]) (simp_all add: sealed_header_def)
qed

definition ep_ok :: "bytes \<Rightarrow> bytes \<Rightarrow> WrappingInt32 \<Rightarrow> WrappingInt32 \<Rightarrow> endpoint \<Rightarrow> bool" where
  "ep_ok S T i j e =
     (tc_ok S T i j (ep_conn e) \<and> tc_written (ep_conn e) = length (ep_written e)
      \<and> ep_read e = take (unat (tc_read_count (ep_conn e))) T
      \<and> list_all (wire_dgram S i) (ep_sent e))"

lemma ep_okD:
  assumes "ep_ok S T i j e"
  shows "tc_ok S T i j (ep_conn e)" "tc_written (ep_conn e) = length (ep_written e)"
    "ep_read e = take (unat (tc_read_count (ep_conn e))) T" "list_all (wire_dgram S i) (ep_sent e)"
  using assms by (simp_all add: ep_ok_def)

lemma ep_ok_conn:
  assumes "ep_ok S T i j e" "tc_ok S T i j c" "tc_input c = tc_input (ep_conn e)" "tc_read_count c = tc_read_count (ep_conn e)"
  shows "ep_ok S T i j (e\<lparr>ep_conn := c\<rparr>)"
  using assms tc_input_written [of S T i j "ep_conn e" c] by (simp add: ep_ok_def)

lemma write_input:
  assumes "tc_ok S T i j c" "length data < W64"
  shows "bs_write_count (sn_stream (tc_sender (snd (TCPConnection_write data c))))
      = bs_write_count (sn_stream (tc_sender c)) + ssize (tc_accepted data c)"
    "tc_ended (snd (TCPConnection_write data c)) = tc_ended c"
proof -
  let ?s = "snd (TCPSender_write data (tc_sender c))"
  have ok: "bs_ok (sn_stream (tc_sender c))" using assms(1) sn_okD(1) unfolding tc_ok_def tc_pre_def by blast
  have in1: "sn_input (tc_sender (snd (TCPConnection_write data c))) = sn_input ?s" if "data \<noteq> []"
    using that input.send [of _ "sn_input ?s"] by (simp add: TCPConnection_write_def Let_def split_beta)
  have "bs_write_count (snd (ByteStream_write data bs)) = bs_write_count bs + fst (ByteStream_write data bs)" for bs
    by (simp add: ByteStream_write_def Let_def)
  then have "sn_input ?s = (sn_isn (tc_sender c), bs_write_count (sn_stream (tc_sender c)) + ssize (tc_accepted data c),
      bs_input_ended_flag (sn_stream (tc_sender c)))"
    using write_result(1) [OF ok assms(2)] by (simp add: TCPSender_write_def sn_input_def tc_accepted_def split_beta)
  with in1 show "bs_write_count (sn_stream (tc_sender (snd (TCPConnection_write data c))))
      = bs_write_count (sn_stream (tc_sender c)) + ssize (tc_accepted data c)"
    "tc_ended (snd (TCPConnection_write data c)) = tc_ended c"
    by (cases "data = []"; simp add: sn_input_def tc_ended_def ByteStream_input_ended_def TCPConnection_write_def
        tc_accepted_def bs_accepted_def)+
qed

lemma end_input_input:
  "bs_write_count (sn_stream (tc_sender (TCPConnection_end_input_stream c))) = bs_write_count (sn_stream (tc_sender c))"
  "tc_ended (TCPConnection_end_input_stream c)"
proof -
  have "sn_input (tc_sender (TCPConnection_end_input_stream c)) = sn_input (TCPSender_end_input (tc_sender c))"
    unfolding TCPConnection_end_input_stream_def Let_def by (rule input.send) simp
  then show "bs_write_count (sn_stream (tc_sender (TCPConnection_end_input_stream c))) = bs_write_count (sn_stream (tc_sender c))"
    "tc_ended (TCPConnection_end_input_stream c)"
    by (simp_all add: sn_input_def TCPSender_end_input_def tc_ended_def ByteStream_input_ended_def end_input_ended)
qed

lemma write_step_ok:
  assumes ok: "ep_ok S T i j e" and d: "length data < W64" "\<not> tc_ended (ep_conn e)"
    and e': "e' = e\<lparr>ep_conn := snd (TCPConnection_write data (ep_conn e)),
                    ep_written := ep_written e @ tc_accepted data (ep_conn e)\<rparr>" "ep_follows S e'"
  shows "ep_ok S T i j e'"
proof -
  note D = ep_okD [OF ok]
  let ?acc = "tc_accepted data (ep_conn e)"
  obtain zs where S: "S = ep_written e @ ?acc @ zs" using e' by (auto simp: ep_follows_def prefix_def)
  have len: "length (ep_written e) + length ?acc < W31" using e'(2) S by (simp add: ep_follows_def)
  have ok': "tc_ok S T i j (snd (TCPConnection_write data (ep_conn e)))"
    by (rule tc_write_ok [OF D(1) d]) (simp_all add: D(2) S)
  have "unat (bs_write_count (sn_stream (tc_sender (ep_conn e))) + ssize ?acc) = length (ep_written e) + length ?acc"
    using D(2) tc_ok_written [OF D(1)] len by (simp add: unat_add_less unat_ssize)
  then have "tc_written (snd (TCPConnection_write data (ep_conn e))) = length (ep_written e) + length ?acc"
    using tc_ok_written [OF ok'] write_input(1) [OF D(1) d(1)] by simp
  then show ?thesis using D ok' by (simp add: ep_ok_def e'(1) read_count_frame)
qed

lemma step_ok:
  assumes "ep_step wire e e'" "ep_ok S T i j e" "list_all (wire_dgram T j) wire" "ep_follows S e'"
  shows "ep_ok S T i j e'"
  using assms(1)
proof cases
  case step_connect
  then show ?thesis
    using ep_okD(1) [OF assms(2)]
    by (auto intro!: ep_ok_conn [OF assms(2)] connect_ok tc_ok_pre simp: tc_input_kept read_count_frame)
next
  case (step_write data)
  then show ?thesis using write_step_ok [OF assms(2)] assms(4) by blast
next
  case step_end
  note D = ep_okD [OF assms(2)]
  have S: "S = ep_written e" using assms(4) end_input_input(2) by (simp add: step_end ep_follows_def)
  then have ok: "tc_ok S T i j (TCPConnection_end_input_stream (ep_conn e))" using D(1,2) by (intro tc_end_input_ok) simp_all
  have "tc_written (TCPConnection_end_input_stream (ep_conn e)) = tc_written (ep_conn e)"
    using tc_ok_written [OF ok] tc_ok_written [OF D(1)] end_input_input(1) by simp
  then show ?thesis using D ok by (simp add: step_end ep_ok_def read_count_frame)
next
  case (step_tick ms)
  then show ?thesis
    using ep_okD(1) [OF assms(2)]
    by (auto intro!: ep_ok_conn [OF assms(2)] tc_tick_ok simp: tc_input_kept read_count_frame)
next
  case (step_receive dgram bs seg)
  then have "wire_seg T j seg" using assms(3) from_wire_ok by (auto simp: list_all_iff)
  with step_receive show ?thesis
    using ep_okD(1) [OF assms(2)]
    by (auto intro!: ep_ok_conn [OF assms(2)] tc_segment_received_ok simp: tc_input_kept read_count_frame)
next
  case step_drop
  then show ?thesis using assms(2) by simp
next
  case (step_read n d c)
  note D = ep_okD [OF assms(2)] and R = tc_read_ok [OF ep_okD(1) [OF assms(2)] step_read(2)]
  have "tc_written c = tc_written (ep_conn e)" using tc_input_written D(1) R tc_input_kept(5) [OF step_read(2)] by blast
  then show ?thesis
    using D R by (simp add: step_read(1) ep_ok_def tc_read_count_def tr_read_count_def TCPConnection_inbound_stream_def)
next
  case (step_send segs c sport dport dgrams)
  note D = ep_okD [OF assms(2)] and R = tc_take_segments_ok [OF ep_okD(1) [OF assms(2)] step_send(2)]
  have "tc_written c = tc_written (ep_conn e)" using tc_input_written D(1) R tc_input_kept(6) [OF step_send(2)] by blast
  moreover have "list_all (wire_dgram S i) dgrams"
    using step_send(3) R unfolding list_all2_conv_all_nth list_all_length by (metis to_wire_ok)
  ultimately show ?thesis
    using D R by (simp add: step_send(1) ep_ok_def read_count_others(5) [OF step_send(2)])
next
  case step_destroy
  then show ?thesis
    using ep_okD(1) [OF assms(2)]
    by (auto intro!: ep_ok_conn [OF assms(2)] tc_destroy_ok simp: tc_input_kept read_count_frame)
qed

text \<open>A stream that can still be written after a step could be written before it.\<close>

lemma follows_back:
  assumes "ep_step wire e e'" "ep_follows S e'"
  shows "ep_follows S e"
  using assms(1)
proof cases
  case (step_write data)
  then show ?thesis using assms(2) by (auto simp: ep_follows_def intro: append_prefixD)
next
  case step_end
  then show ?thesis using assms(2) end_input_input(2) by (auto simp: ep_follows_def)
qed (use assms(2) in \<open>auto simp: ep_follows_def tc_input_ended [OF tc_input_kept(1)] tc_input_ended [OF tc_input_kept(2)]
      tc_input_ended [OF tc_input_kept(3)] tc_input_ended [OF tc_input_kept(4)] dest: tc_input_kept(5,6) [THEN tc_input_ended]\<close>)

section \<open>End to end\<close>

definition net_inv :: "WrappingInt32 \<Rightarrow> WrappingInt32 \<Rightarrow> endpoint \<times> endpoint \<Rightarrow> bool" where
  "net_inv i j = (\<lambda>(a, b). \<forall>S T. ep_follows S a \<longrightarrow> ep_follows T b \<longrightarrow> ep_ok S T i j a \<and> ep_ok T S j i b)"

lemma net_inv_new:
  assumes "unat (cfg_recv_capacity cfg) + W31 \<le> W64" "unat (cfg_recv_capacity cfg') + W31 \<le> W64"
  shows "net_inv (sn_isn (tc_sender (TCPConnection_new cfg random))) (sn_isn (tc_sender (TCPConnection_new cfg' random')))
    (endpoint_new cfg random, endpoint_new cfg' random')"
proof -
  have *: "ep_ok S T (sn_isn (tc_sender (TCPConnection_new cfg random))) j (endpoint_new cfg random)"
    if "length S + 3 < W31" "length T + 3 < W31" "unat (cfg_recv_capacity cfg) + W31 \<le> W64" for S T j cfg random
  proof -
    have "tc_ok S T (sn_isn (tc_sender (TCPConnection_new cfg random))) j (TCPConnection_new cfg random)"
      using that by (intro tc_ok_new) simp_all
    moreover have "bs_write_count (sn_stream (tc_sender (TCPConnection_new cfg random))) = 0"
      by (simp add: TCPConnection_new_def TCPSender_new_def ByteStream_new_def)
    moreover have "tc_read_count (TCPConnection_new cfg random) = 0"
      by (simp add: tc_read_count_def tr_read_count_def TCPConnection_new_def TCPReceiver_new_def TCPReceiver_stream_out_def
          StreamReassembler_new_def ByteStream_new_def)
    ultimately show ?thesis by (simp add: ep_ok_def endpoint_new_def tc_ok_written)
  qed
  show ?thesis using * assms by (simp add: net_inv_def ep_follows_def)
qed

lemma net_inv_step:
  assumes "net_inv i j (a, b)" "net_step (a, b) st"
  shows "net_inv i j st"
  using assms(2)
proof (rule net_stepE)
  fix a' assume st: "st = (a', b)" "ep_step (ep_sent b) a a'"
  show ?thesis unfolding st(1) net_inv_def prod.case
  proof (intro allI impI)
    fix S T assume F: "ep_follows S a'" "ep_follows T b"
    have "ep_ok S T i j a" "ep_ok T S j i b"
      using assms(1) follows_back [OF st(2) F(1)] F(2) by (auto simp: net_inv_def)
    with step_ok [OF st(2) _ _ F(1)] ep_okD(4) show "ep_ok S T i j a' \<and> ep_ok T S j i b" by blast
  qed
next
  fix b' assume st: "st = (a, b')" "ep_step (ep_sent a) b b'"
  show ?thesis unfolding st(1) net_inv_def prod.case
  proof (intro allI impI)
    fix S T assume F: "ep_follows S a" "ep_follows T b'"
    have "ep_ok S T i j a" "ep_ok T S j i b"
      using assms(1) follows_back [OF st(2) F(2)] F(1) by (auto simp: net_inv_def)
    with step_ok [OF st(2) _ _ F(2)] ep_okD(4) show "ep_ok S T i j a \<and> ep_ok T S j i b'" by blast
  qed
qed

lemma net_inv_reachable: "net_step\<^sup>*\<^sup>* st st' \<Longrightarrow> net_inv i j st \<Longrightarrow> net_inv i j st'"
proof (induction rule: rtranclp_induct)
  case (step y z)
  then show ?case using net_inv_step [of i j "fst y" "snd y" z] by simp
qed simp

lemma ep_ok_delivered:
  assumes "ep_ok S T i j e"
  shows "prefix (ep_read e @ bs_content (TCPConnection_inbound_stream (ep_conn e))) T"
proof -
  have "sr_ok T (tr_reassembler (tc_receiver (ep_conn e)))"
    using ep_okD(1) [OF assms] by (simp add: tc_ok_def tc_pre_def tr_ok_def)
  from sr_ok_assembled [OF this] ep_okD(3) [OF assms]
  have "ep_read e @ bs_content (TCPConnection_inbound_stream (ep_conn e))
      = take (unat (sr_first_unassembled (tr_reassembler (tc_receiver (ep_conn e))))) T"
    by (simp add: tc_read_count_def tr_read_count_def TCPConnection_inbound_stream_def TCPReceiver_stream_out_def)
  then show ?thesis by (simp add: take_is_prefix)
qed

text \<open>
  C1: two connections over a network that loses, delays, repeats and reorders datagrams, changes any one
  byte of them or damages them in any way their checksum shows, with any interleaving of writes, reads,
  timeouts, resets and arrivals: as long as each side has written less than 2 GiB (and the receive
  capacities are not within 2 GiB of the largest 64-bit number), what either application has read, with
  what its inbound stream still holds, is a prefix of what the other application has written.
\<close>

theorem tcp_delivers_in_order:
  assumes "net_step\<^sup>*\<^sup>* (endpoint_new cfg random, endpoint_new cfg' random') (a, b)"
    "unat (cfg_recv_capacity cfg) + W31 \<le> W64" "unat (cfg_recv_capacity cfg') + W31 \<le> W64"
    "length (ep_written a) + 3 < W31" "length (ep_written b) + 3 < W31"
  shows "prefix (ep_read a @ bs_content (TCPConnection_inbound_stream (ep_conn a))) (ep_written b)
    \<and> prefix (ep_read b @ bs_content (TCPConnection_inbound_stream (ep_conn b))) (ep_written a)"
proof -
  have "ep_follows (ep_written a) a" "ep_follows (ep_written b) b" using assms(4,5) by (simp_all add: ep_follows_def)
  then have "ep_ok (ep_written a) (ep_written b) (sn_isn (tc_sender (TCPConnection_new cfg random)))
      (sn_isn (tc_sender (TCPConnection_new cfg' random'))) a"
    "ep_ok (ep_written b) (ep_written a) (sn_isn (tc_sender (TCPConnection_new cfg' random')))
      (sn_isn (tc_sender (TCPConnection_new cfg random))) b"
    using net_inv_reachable [OF assms(1) net_inv_new [OF assms(2,3)]] by (auto simp: net_inv_def)
  then show ?thesis using ep_ok_delivered by blast
qed

section \<open>Running a network\<close>

text \<open>
  The operations of an endpoint as data, and a function that performs them; \<open>ORecv k d\<close> takes the datagram
  number \<open>k\<close> of the peer, with a byte replaced if \<open>d\<close> says so.
\<close>

datatype ep_op = OConnect | OWrite bytes | ORecv nat "(nat \<times> byte) option" | ORead u64 | OSend u16 u16

fun ep_do :: "bytes list \<Rightarrow> ep_op \<Rightarrow> endpoint \<Rightarrow> endpoint option" where
  "ep_do wire OConnect e = Some (e\<lparr>ep_conn := TCPConnection_connect (ep_conn e)\<rparr>)"
| "ep_do wire (OWrite data) e =
     (if tc_ended (ep_conn e) \<or> length data > 50 then None
      else Some (e\<lparr>ep_conn := snd (TCPConnection_write data (ep_conn e)),
                   ep_written := ep_written e @ tc_accepted data (ep_conn e)\<rparr>))"
| "ep_do wire (ORecv k d) e =
     (if k < length wire
      then let bs = (case d of None \<Rightarrow> wire ! k | Some (i, x) \<Rightarrow> (wire ! k)[i := x])
           in case from_wire bs of
                None \<Rightarrow> Some e
              | Some seg \<Rightarrow> Some (e\<lparr>ep_conn := TCPConnection_segment_received seg (ep_conn e)\<rparr>)
      else None)"
| "ep_do wire (ORead n) e = (let (d, c) = TCPConnection_read n (ep_conn e) in Some (e\<lparr>ep_conn := c, ep_read := ep_read e @ d\<rparr>))"
| "ep_do wire (OSend sport dport) e =
     (let (segs, c) = TCPConnection_take_segments (ep_conn e);
          dgrams = map (to_wire sport dport) segs
      in if list_all (\<lambda>r. \<not> isl r) dgrams then Some (e\<lparr>ep_conn := c, ep_sent := ep_sent e @ map projr dgrams\<rparr>) else None)"

lemma arrives_changed: "arrives bs (case d of None \<Rightarrow> bs | Some (i, x) \<Rightarrow> bs[i := x])"
proof (cases d)
  case (Some p)
  then show ?thesis
    by (cases "fst p < length bs") (auto intro: arrives.intros simp: list_update_beyond not_less split: prod.splits)
qed (simp add: arrives.intact)

lemma ep_do_step: "ep_do wire x e = Some e' \<Longrightarrow> ep_step wire e e'"
proof (induction wire x e rule: ep_do.induct)
  case (3 wire k d e)
  let ?bs = "case d of None \<Rightarrow> wire ! k | Some (i, x) \<Rightarrow> (wire ! k)[i := x]"
  have "wire ! k \<in> set wire" "arrives (wire ! k) ?bs" using 3 arrives_changed by (auto split: if_splits)
  then show ?case
    using 3 step_drop [of "wire ! k" wire ?bs e] step_receive [of "wire ! k" wire ?bs _ e]
    by (auto simp: Let_def split: if_splits option.splits)
next
  case (4 wire n e)
  then show ?case by (auto simp: Let_def split: prod.splits intro: step_read)
next
  case (5 wire sport dport e)
  obtain segs c where t: "TCPConnection_take_segments (ep_conn e) = (segs, c)" by (rule prod.exhaust)
  have "list_all2 (\<lambda>seg dgram. to_wire sport dport seg = Inr dgram) segs (map (projr \<circ> to_wire sport dport) segs)"
    if "list_all (\<lambda>r. \<not> isl r) (map (to_wire sport dport) segs)"
    using that by (induction segs) (auto simp: isl_def split: sum.splits)
  with 5 t show ?case by (auto simp: Let_def comp_def split: if_splits intro: step_send)
qed (auto split: if_splits intro: ep_step.intros)

text \<open>A run: who acts, and what it does.\<close>

fun net_do :: "(bool \<times> ep_op) list \<Rightarrow> endpoint \<times> endpoint \<Rightarrow> (endpoint \<times> endpoint) option" where
  "net_do [] st = Some st"
| "net_do ((left, x) # xs) (a, b) =
     (case (if left then ep_do (ep_sent b) x a else ep_do (ep_sent a) x b) of
        None \<Rightarrow> None
      | Some e \<Rightarrow> net_do xs (if left then (e, b) else (a, e)))"

lemma net_do_run: "net_do xs st = Some st' \<Longrightarrow> net_step\<^sup>*\<^sup>* st st'"
proof (induction xs st rule: net_do.induct)
  case (2 left x xs a b)
  then obtain e where e: "(if left then ep_do (ep_sent b) x a else ep_do (ep_sent a) x b) = Some e"
      "net_do xs (if left then (e, b) else (a, e)) = Some st'"
    by (auto split: option.splits)
  have "net_step (a, b) (if left then (e, b) else (a, e))"
    using e(1) by (auto intro: net_left net_right ep_do_step split: if_splits)
  then show ?case using 2(1) [OF e] by (rule converse_rtranclp_into_rtranclp)
qed simp

text \<open>
  The handshake, three bytes from the first application to the second, and a damaged copy of their
  datagram that arrives first.
\<close>

definition demo_run :: "(bool \<times> ep_op) list" where
  "demo_run = [(True, OConnect), (True, OSend 1 2), (False, ORecv 0 None), (False, OSend 2 1), (True, ORecv 0 None),
     (True, OSend 1 2), (False, ORecv 1 None), (True, OWrite [1, 2, 3]), (True, OSend 1 2),
     (False, ORecv 2 (Some (21, 7))), (False, ORecv 2 None), (False, ORead 2)]"

definition small_cfg :: "u32 \<Rightarrow> TCPConfig" where
  "small_cfg isn = (demo_cfg isn)\<lparr>cfg_recv_capacity := 8, cfg_send_capacity := 8\<rparr>"

lemma demo_run_result:
  "map_option (\<lambda>(a, b). (ep_written a, ep_written b, ep_read b, bs_content (TCPConnection_inbound_stream (ep_conn b))))
     (net_do demo_run (endpoint_new (small_cfg 7) 0, endpoint_new (small_cfg 20) 0)) = Some ([1, 2, 3], [], [1, 2], [3])"
  by code_simp

theorem tcp_delivers_in_order_witness:
  "\<exists>a b. net_step\<^sup>*\<^sup>* (endpoint_new (small_cfg 7) 0, endpoint_new (small_cfg 20) 0) (a, b) \<and> ep_read b = [1, 2]
   \<and> bs_content (TCPConnection_inbound_stream (ep_conn b)) = [3]
   \<and> prefix (ep_read b @ bs_content (TCPConnection_inbound_stream (ep_conn b))) (ep_written a)"
proof -
  obtain a b where r: "net_do demo_run (endpoint_new (small_cfg 7) 0, endpoint_new (small_cfg 20) 0) = Some (a, b)"
      "ep_written a = [1, 2, 3]" "ep_written b = []" "ep_read b = [1, 2]" "bs_content (TCPConnection_inbound_stream (ep_conn b)) = [3]"
    using demo_run_result by (auto simp del: net_do.simps)
  have cap: "cfg_recv_capacity (small_cfg i) = 8" for i
    by (simp add: small_cfg_def)
  note run = net_do_run [OF r(1)]
  have "prefix (ep_read b @ bs_content (TCPConnection_inbound_stream (ep_conn b))) (ep_written a)"
    using tcp_delivers_in_order [OF run] r(2,3) by (simp add: cap)
  with run r(4,5) show ?thesis by blast
qed

section \<open>Data that completes the handshake\<close>

text \<open>
  An endpoint whose SYN is not acknowledged yet drops every segment with a payload, also when it has
  received the peer's SYN and the segment carries the missing acknowledgment.
\<close>

lemma handshake_data_dropped:
  assumes "tc_active c" "TCPReceiver_ackno (tc_receiver c) \<noteq> None" "TCPSender_next_seqno_absolute (tc_sender c) > 0"
    "TCPSender_bytes_in_flight (tc_sender c) = TCPSender_next_seqno_absolute (tc_sender c)"
    "\<not> th_rst (ts_header seg)" "Buffer_size (ts_payload seg) > 0"
  shows "TCPConnection_segment_received seg c = c\<lparr>tc_time_since_last_segment_received := 0\<rparr>"
  using assms by (auto simp: TCPConnection_segment_received_def Let_def)

end
