(* ===== verification/Tcp_Benchmark.thy ===== *)
theory Tcp_Benchmark
  imports Tcp_Network Text_Format
begin

text \<open>
  \<open>apps/tcp_benchmark.cc\<close>: two connections in one process that pass their segments to each other, in order or
  in reverse, while the first sends a random string to the second. The clock and the printed throughput
  are left out; the values of \<open>rand\<close> are an argument.
\<close>

section \<open>Model\<close>

definition len :: u64 where "len = 100 * 1024 * 1024"

definition move_segments :: "TCPConnection \<Rightarrow> TCPConnection \<Rightarrow> TCPSegment list \<Rightarrow> bool \<Rightarrow>
    TCPConnection \<times> TCPConnection \<times> TCPSegment list" where
  "move_segments x y segments reorder =
     (let (out, x) = TCPConnection_take_segments x;
          segments = segments @ out;
          y = foldl (\<lambda>y seg. TCPConnection_segment_received seg y) y (if reorder then rev segments else segments)
      in (x, y, []))"

record benchmark =
  bm_x :: TCPConnection
  bm_y :: TCPConnection
  bm_bytes_to_send :: Buffer
  bm_x_closed :: bool
  bm_string_received :: bytes

text \<open>The loop that writes input into the first connection; \<open>None\<close> is a loop that does not end.\<close>

partial_function (option) write_input_loop :: "TCPConnection \<Rightarrow> Buffer \<Rightarrow> (TCPConnection \<times> Buffer) res option" where
  "write_input_loop x bytes_to_send =
     (if Buffer_size bytes_to_send \<noteq> 0 \<and> TCPConnection_remaining_outbound_capacity x \<noteq> 0
      then let want = min (TCPConnection_remaining_outbound_capacity x) (Buffer_size bytes_to_send);
               (written, x) = TCPConnection_write (take (unat want) (Buffer_str bytes_to_send)) x
           in if want \<noteq> written
              then Some (Inl (Runtime_error (''want = '' @ dec (unat want) @ '', written = '' @ dec (unat written))))
              else (case Buffer_remove_prefix written bytes_to_send of
                      Inl e \<Rightarrow> Some (Inl e)
                    | Inr bytes_to_send \<Rightarrow> write_input_loop x bytes_to_send)
      else Some (Inr (x, bytes_to_send)))"

definition benchmark_loop :: "bool \<Rightarrow> benchmark \<Rightarrow> benchmark res option" where
  "benchmark_loop reorder b =
     (case write_input_loop (bm_x b) (bm_bytes_to_send b) of
        None \<Rightarrow> None
      | Some (Inl e) \<Rightarrow> Some (Inl e)
      | Some (Inr (x, bytes_to_send)) \<Rightarrow>
          let (x, x_closed) = (if Buffer_size bytes_to_send = 0 \<and> \<not> bm_x_closed b
                               then (TCPConnection_end_input_stream x, True) else (x, bm_x_closed b));
              (x, y, segments) = move_segments x (bm_y b) [] reorder;
              (y, x, segments) = move_segments y x segments False;
              available_output = ByteStream_buffer_size (TCPConnection_inbound_stream y);
              (received, y) = (if available_output > 0 then TCPConnection_read available_output y else ([], y));
              string_received = bm_string_received b @ received;
              x = TCPConnection_tick 1000 x;
              y = TCPConnection_tick 1000 y
          in Some (Inr \<lparr>bm_x = x, bm_y = y, bm_bytes_to_send = bytes_to_send, bm_x_closed = x_closed,
                        bm_string_received = string_received\<rparr>))"

partial_function (option) benchmark_until :: "(benchmark \<Rightarrow> bool) \<Rightarrow> bool \<Rightarrow> benchmark \<Rightarrow> benchmark res option" where
  "benchmark_until stop reorder b =
     (if stop b then Some (Inr b)
      else case benchmark_loop reorder b of
             None \<Rightarrow> None
           | Some (Inl e) \<Rightarrow> Some (Inl e)
           | Some (Inr b) \<Rightarrow> benchmark_until stop reorder b)"

definition benchmark_start :: "bytes \<Rightarrow> WrappingInt32 \<Rightarrow> WrappingInt32 \<Rightarrow> benchmark" where
  "benchmark_start string_to_send random random' =
     \<lparr>bm_x = TCPConnection_connect (TCPConnection_new TCPConfig_new random),
      bm_y = TCPConnection_end_input_stream (TCPConnection_new TCPConfig_new random'),
      bm_bytes_to_send = Buffer_of_string string_to_send, bm_x_closed = False, bm_string_received = []\<rparr>"

definition y_eof :: "benchmark \<Rightarrow> bool" where
  "y_eof b = ByteStream_eof (TCPConnection_inbound_stream (bm_y b))"

definition both_inactive :: "benchmark \<Rightarrow> bool" where
  "both_inactive b = (\<not> (tc_active (bm_x b) \<or> tc_active (bm_y b)))"

definition string_to_send :: "(nat \<Rightarrow> int) \<Rightarrow> bytes" where
  "string_to_send rand = map (\<lambda>n. of_int (rand n)) [0..<unat len]"

definition main_loop :: "bool \<Rightarrow> (nat \<Rightarrow> int) \<Rightarrow> WrappingInt32 \<Rightarrow> WrappingInt32 \<Rightarrow> unit res option" where
  "main_loop reorder rand random random' =
     (case benchmark_until y_eof reorder (benchmark_start (string_to_send rand) random random') of
        None \<Rightarrow> None
      | Some (Inl e) \<Rightarrow> Some (Inl e)
      | Some (Inr b) \<Rightarrow>
          if bm_string_received b \<noteq> string_to_send rand
          then Some (Inl (Runtime_error ''strings sent vs. received don't match''))
          else (case benchmark_until both_inactive reorder b of
                  None \<Rightarrow> None | Some (Inl e) \<Rightarrow> Some (Inl e) | Some (Inr _) \<Rightarrow> Some (Inr ())))"

section \<open>The invariant\<close>

text \<open>
  The first connection sends \<open>S\<close> and the second nothing, the bytes left to send are those that were not
  written yet, and what was received is what the second one has read.
\<close>

definition bench_x_ok :: "bytes \<Rightarrow> WrappingInt32 \<Rightarrow> WrappingInt32 \<Rightarrow> TCPConnection \<Rightarrow> Buffer \<Rightarrow> bool" where
  "bench_x_ok S i j x buf =
     (tc_ok S [] i j x \<and> outbound_ok x \<and> Buffer_ok buf \<and> tc_written x + length (Buffer_str buf) = length S
      \<and> Buffer_str buf = drop (tc_written x) S)"

definition bench_ok :: "bytes \<Rightarrow> WrappingInt32 \<Rightarrow> WrappingInt32 \<Rightarrow> benchmark \<Rightarrow> bool" where
  "bench_ok S i j b =
     (bench_x_ok S i j (bm_x b) (bm_bytes_to_send b) \<and> tc_ok [] S j i (bm_y b)
      \<and> (if bm_x_closed b then Buffer_str (bm_bytes_to_send b) = [] else \<not> tc_ended (bm_x b))
      \<and> bm_string_received b = take (unat (tc_read_count (bm_y b))) S)"

text \<open>Operations that are not the owner's writes.\<close>

lemma bench_x_kept:
  assumes "bench_x_ok S i j x buf" "tc_ok S [] i j x'" "tc_input x' = tc_input x" "outbound_ok x'"
  shows "bench_x_ok S i j x' buf"
  using assms tc_input_written [of S "[]" i j x x'] by (simp add: bench_x_ok_def)

lemma write_input_loop_ok:
  assumes "bench_x_ok S i j x buf" "Buffer_str buf \<noteq> [] \<Longrightarrow> \<not> tc_ended x"
  shows "\<exists>x' buf'. write_input_loop x buf = Some (Inr (x', buf')) \<and> bench_x_ok S i j x' buf' \<and> tc_ended x' = tc_ended x
    \<and> (Buffer_str buf = [] \<longrightarrow> Buffer_str buf' = [])"
  using assms
proof (induction "length (Buffer_str buf)" arbitrary: x buf rule: less_induct)
  case less
  let ?cap = "TCPConnection_remaining_outbound_capacity x"
  have ok: "tc_ok S [] i j x" "outbound_ok x" "Buffer_ok buf" and S: "tc_written x + length (Buffer_str buf) = length S"
    "Buffer_str buf = drop (tc_written x) S"
    using less.prems(1) by (simp_all add: bench_x_ok_def)
  have size: "unat (Buffer_size buf) = length (Buffer_str buf)"
    using Buffer_ok_length [OF ok(3)] by (simp add: Buffer_size_def unat_ssize)
  show ?case
  proof (cases "Buffer_size buf \<noteq> 0 \<and> ?cap \<noteq> 0")
    case False
    then show ?thesis using less.prems(1) by (subst write_input_loop.simps) auto
  next
    case True
    define want where "want = min ?cap (Buffer_size buf)"
    define data where "data = take (unat want) (Buffer_str buf)"
    have w: "unat want \<le> length (Buffer_str buf)" "unat want \<le> unat ?cap"
      unfolding size [symmetric] word_le_nat_alt [symmetric] by (simp_all add: want_def)
    have pos: "0 < unat want" using True by (simp add: want_def min_def unat_gt_0)
    have data: "length data = unat want" "data \<noteq> []" using w(1) pos by (auto simp: data_def)
    then have want: "want = ssize data" by (simp add: ssize_def)
    have small: "length data < W64" using data(1) unat_u64_lt [of want] by simp
    obtain written x1 where x1: "TCPConnection_write data x = (written, x1)" by (rule prod.exhaust)
    note W = outbound_write [OF ok(2), of data, unfolded x1 fst_conv snd_conv]
    have written: "written = want" and out: "outbound_ok x1" using W data(1) w(2) want by simp_all
    have acc: "tc_accepted data x = data"
    proof -
      have "bs_ok (sn_stream (tc_sender x))" using ok(2) by (simp add: outbound_ok_def out_ok_def)
      from unat_remaining_capacity [OF this] w(2) data(1) show ?thesis
        by (simp add: tc_accepted_def bs_accepted_def TCPConnection_remaining_outbound_capacity_def)
    qed
    have ended: "\<not> tc_ended x" using less.prems(2) data(2) data_def by fastforce
    have tc1: "tc_ok S [] i j x1"
      using tc_write_ok [OF ok(1) small ended] acc x1 S data w(1) by (simp add: data_def)
    have S31: "length S < W31" using ok(1) by (simp add: tc_ok_def tc_pre_def sn_ok_def Let_def)
    have "unat (bs_write_count (sn_stream (tc_sender x)) + ssize data) = tc_written x + length data"
      using tc_ok_written [OF ok(1)] S S31 w(1) data(1) by (simp add: unat_add_less unat_ssize)
    then have wr1: "tc_written x1 = tc_written x + length data"
      using tc_ok_written [OF tc1] write_input(1) [OF ok(1) small] acc x1 by simp
    have ended1: "tc_ended x1 = tc_ended x" using write_input(2) [OF ok(1) small] x1 by simp
    obtain buf1 where b: "Buffer_remove_prefix want buf = Inr buf1" "Buffer_ok buf1" "Buffer_str buf1 = drop (unat want) (Buffer_str buf)"
      using Buffer_remove_prefix_le [OF ok(3) w(1)] by blast
    have run: "write_input_loop x buf = write_input_loop x1 buf1"
      using True x1 b(1) written by (subst write_input_loop.simps) (simp add: want_def [symmetric] data_def [symmetric])
    have "bench_x_ok S i j x1 buf1"
      using tc1 out b(2,3) wr1 S w(1) data(1) by (simp add: bench_x_ok_def add.commute)
    moreover have "length (Buffer_str buf1) < length (Buffer_str buf)" using b(3) pos w(1) by simp
    ultimately obtain x2 buf2 where "write_input_loop x1 buf1 = Some (Inr (x2, buf2))" "bench_x_ok S i j x2 buf2" "tc_ended x2 = tc_ended x1"
      using less.hyps [of buf1 x1] ended ended1 by blast
    then show ?thesis using run ended1 data(2) data_def by auto
  qed
qed

section \<open>One turn\<close>

lemma move_segments_kept:
  assumes "move_segments x y segments reorder = (x', y', rest)"
  shows "rest = []" "tc_input x' = tc_input x" "tc_input y' = tc_input y" "tc_read_count x' = tc_read_count x"
    "tc_read_count y' = tc_read_count y" "outbound_ok x \<Longrightarrow> outbound_ok x'" "outbound_ok y \<Longrightarrow> outbound_ok y'"
proof -
  obtain out x1 where t: "TCPConnection_take_segments x = (out, x1)" by (rule prod.exhaust)
  have x: "x' = x1" "rest = []"
    and y: "y' = foldl (\<lambda>y seg. TCPConnection_segment_received seg y) y (if reorder then rev (segments @ out) else segments @ out)"
    using assms t by (auto simp: move_segments_def Let_def)
  have fold: "tc_input (foldl (\<lambda>y seg. TCPConnection_segment_received seg y) y segs) = tc_input y
      \<and> tc_read_count (foldl (\<lambda>y seg. TCPConnection_segment_received seg y) y segs) = tc_read_count y
      \<and> (outbound_ok y \<longrightarrow> outbound_ok (foldl (\<lambda>y seg. TCPConnection_segment_received seg y) y segs))" for segs
    by (induction segs arbitrary: y) (simp_all add: tc_input_kept read_count_frame outbound_segment_received)
  show "rest = []" "tc_input x' = tc_input x" "tc_input y' = tc_input y" "tc_read_count x' = tc_read_count x"
    "tc_read_count y' = tc_read_count y" "outbound_ok y \<Longrightarrow> outbound_ok y'"
    using x y fold tc_input_kept(6) [OF t] read_count_others(5) [OF t] by simp_all
  show "outbound_ok x \<Longrightarrow> outbound_ok x'" using t x by (auto simp: TCPConnection_take_segments_def outbound_ok_def)
qed

lemma move_segments_ok:
  assumes "move_segments x y [] reorder = (x', y', rest)" "tc_ok S T i j x" "tc_ok T S j i y"
  shows "tc_ok S T i j x' \<and> tc_ok T S j i y'"
proof -
  obtain out x1 where t: "TCPConnection_take_segments x = (out, x1)" by (rule prod.exhaust)
  have x: "x' = x1" and y: "y' = foldl (\<lambda>y seg. TCPConnection_segment_received seg y) y (if reorder then rev out else out)"
    using assms(1) t by (auto simp: move_segments_def Let_def)
  have fold: "tc_ok T S j i y \<Longrightarrow> list_all (wire_seg S i) segs \<Longrightarrow>
      tc_ok T S j i (foldl (\<lambda>y seg. TCPConnection_segment_received seg y) y segs)" for segs
    by (induction segs arbitrary: y) (simp_all add: tc_segment_received_ok)
  have "list_all (wire_seg S i) (if reorder then rev out else out)" using tc_take_segments_ok [OF assms(2) t] by simp
  then show ?thesis using fold tc_take_segments_ok [OF assms(2) t] assms(3) x y by simp
qed

lemma benchmark_loop_ok:
  assumes "bench_ok S i j b"
  shows "\<exists>b'. benchmark_loop reorder b = Some (Inr b') \<and> bench_ok S i j b'"
proof -
  have B: "bench_x_ok S i j (bm_x b) (bm_bytes_to_send b)" "tc_ok [] S j i (bm_y b)"
    "if bm_x_closed b then Buffer_str (bm_bytes_to_send b) = [] else \<not> tc_ended (bm_x b)"
    "bm_string_received b = take (unat (tc_read_count (bm_y b))) S"
    using assms by (simp_all add: bench_ok_def)
  obtain x1 buf where 1: "write_input_loop (bm_x b) (bm_bytes_to_send b) = Some (Inr (x1, buf))" "bench_x_ok S i j x1 buf"
    "tc_ended x1 = tc_ended (bm_x b)" "Buffer_str (bm_bytes_to_send b) = [] \<longrightarrow> Buffer_str buf = []"
    using write_input_loop_ok [OF B(1)] B(3) by (auto split: if_splits)
  define fin where "fin = (Buffer_size buf = 0 \<and> \<not> bm_x_closed b)"
  define x2 where "x2 = (if fin then TCPConnection_end_input_stream x1 else x1)"
  define closed where "closed = (fin \<or> bm_x_closed b)"
  have size: "Buffer_size buf = 0 \<longleftrightarrow> Buffer_str buf = []"
    using 1(2) Buffer_ok_length [of buf] by (simp add: bench_x_ok_def Buffer_size_def ssize_eq_0_iff)
  have x1: "tc_ok S [] i j x1" "outbound_ok x1" "tc_written x1 + length (Buffer_str buf) = length S"
    using 1(2) by (simp_all add: bench_x_ok_def)
  have 2: "bench_x_ok S i j x2 buf" "if closed then Buffer_str buf = [] else \<not> tc_ended x2"
  proof -
    show "bench_x_ok S i j x2 buf"
    proof (cases fin)
      case True
      then have all: "tc_written x1 = length S" using x1(3) size by (simp add: fin_def)
      have "tc_ok S [] i j x2" using tc_end_input_ok [OF x1(1) all] True by (simp add: x2_def)
      moreover from tc_ok_written [OF this] tc_ok_written [OF x1(1)] have "tc_written x2 = tc_written x1"
        using True end_input_input(1) by (simp add: x2_def)
      ultimately show ?thesis using 1(2) True x1(2) outbound_end_input by (simp add: bench_x_ok_def x2_def)
    qed (simp add: x2_def 1(2))
    show "if closed then Buffer_str buf = [] else \<not> tc_ended x2"
      using B(3) 1(3,4) size by (auto simp: closed_def fin_def x2_def split: if_splits)
  qed
  obtain x3 y3 r3 where 3: "move_segments x2 (bm_y b) [] reorder = (x3, y3, r3)" by (rule prod_cases3)
  obtain y4 x4 r4 where 4: "move_segments y3 x3 [] False = (y4, x4, r4)" by (rule prod_cases3)
  note K3 = move_segments_kept [OF 3] and K4 = move_segments_kept [OF 4]
  have ok3: "tc_ok S [] i j x3" "tc_ok [] S j i y3"
    using move_segments_ok [OF 3 _ B(2)] 2(1) by (auto simp: bench_x_ok_def)
  have ok4: "tc_ok S [] i j x4" "tc_ok [] S j i y4" using move_segments_ok [OF 4 ok3(2,1)] by auto
  have out4: "outbound_ok x4" using 2(1) K3(6) K4(7) by (simp add: bench_x_ok_def)
  define avail where "avail = ByteStream_buffer_size (TCPConnection_inbound_stream y4)"
  obtain d y5 where 5: "(if avail > 0 then TCPConnection_read avail y4 else ([], y4)) = (d, y5)" by (rule prod.exhaust)
  have R: "tc_ok [] S j i y5" "take (unat (tc_read_count y4)) S @ d = take (unat (tc_read_count y5)) S"
  proof -
    have "tc_ok [] S j i y5 \<and> take (unat (tc_read_count y4)) S @ d = take (unat (tc_read_count y5)) S"
    proof (cases "avail > 0")
      case True
      then show ?thesis
        using 5 tc_read_ok [OF ok4(2), of avail d y5] by (simp add: tc_read_count_def tr_read_count_def TCPConnection_inbound_stream_def)
    qed (use 5 ok4(2) in simp)
    then show "tc_ok [] S j i y5" "take (unat (tc_read_count y4)) S @ d = take (unat (tc_read_count y5)) S" by auto
  qed
  let ?b = "\<lparr>bm_x = TCPConnection_tick 1000 x4, bm_y = TCPConnection_tick 1000 y5, bm_bytes_to_send = buf, bm_x_closed = closed,
    bm_string_received = bm_string_received b @ d\<rparr>"
  have fin: "(if Buffer_size buf = 0 \<and> \<not> bm_x_closed b then (TCPConnection_end_input_stream x1, True) else (x1, bm_x_closed b))
      = (x2, closed)"
    by (auto simp: fin_def x2_def closed_def)
  have run: "benchmark_loop reorder b = Some (Inr ?b)"
    unfolding benchmark_loop_def Let_def 1(1) option.case sum.case prod.case fin 3 K3(1) 4 avail_def [symmetric] 5 ..
  have "tc_input (TCPConnection_tick 1000 x4) = tc_input x2" using tc_input_kept(3) K3(2) K4(3) by simp
  then have "bench_x_ok S i j (TCPConnection_tick 1000 x4) buf" "tc_ended (TCPConnection_tick 1000 x4) = tc_ended x2"
    using bench_x_kept [OF 2(1)] tc_tick_ok [OF ok4(1)] outbound_tick [OF out4] tc_input_ended by blast+
  then have "bench_ok S i j ?b"
    using 2(2) tc_tick_ok [OF R(1)] R(2) B(4) K3(5) K4(4) by (simp add: bench_ok_def read_count_frame)
  with run show ?thesis by blast
qed

lemma bench_ok_start:
  assumes "length S + 3 < W31"
  shows "bench_ok S (sn_isn (tc_sender (TCPConnection_new TCPConfig_new random)))
    (sn_isn (tc_sender (TCPConnection_new TCPConfig_new random'))) (benchmark_start S random random')"
proof -
  let ?x = "TCPConnection_new TCPConfig_new random" and ?y = "TCPConnection_new TCPConfig_new random'"
  let ?i = "sn_isn (tc_sender ?x)" and ?j = "sn_isn (tc_sender ?y)"
  have cap: "cfg_recv_capacity TCPConfig_new = 64000" by (simp add: TCPConfig_new_def TCPConfig_DEFAULT_CAPACITY_def)
  have x: "tc_ok S [] ?i ?j ?x" and y: "tc_ok [] S ?j ?i ?y" using assms by (intro tc_ok_new; simp add: cap)+
  have 0: "bs_write_count (sn_stream (tc_sender (TCPConnection_new cfg r))) = 0" "\<not> tc_ended (TCPConnection_new cfg r)"
    "tc_read_count (TCPConnection_new cfg r) = 0" for cfg r
    by (simp_all add: TCPConnection_new_def TCPSender_new_def ByteStream_new_def tc_ended_def ByteStream_input_ended_def
        tc_read_count_def tr_read_count_def TCPReceiver_new_def TCPReceiver_stream_out_def StreamReassembler_new_def)
  have x': "tc_ok S [] ?i ?j (TCPConnection_connect ?x)" by (rule connect_ok [OF tc_ok_pre [OF x]])
  have w: "tc_written (TCPConnection_connect ?x) = 0" "tc_written ?y = 0"
    using tc_input_written [OF x x' tc_input_kept(1)] tc_ok_written [OF x] tc_ok_written [OF y] 0 by simp_all
  have "tc_ok [] S ?j ?i (TCPConnection_end_input_stream ?y)" by (rule tc_end_input_ok [OF y]) (simp add: w)
  then show ?thesis
    using x' w assms outbound_connect [OF outbound_new] 0 tc_input_ended [OF tc_input_kept(1)]
    by (simp add: benchmark_start_def bench_ok_def bench_x_ok_def read_count_frame)
qed

text \<open>The states of a run, whether it ends or not.\<close>

inductive bench_run :: "bool \<Rightarrow> benchmark \<Rightarrow> benchmark \<Rightarrow> bool" for reorder b where
  start: "bench_run reorder b b"
| turn: "bench_run reorder b b1 \<Longrightarrow> benchmark_loop reorder b1 = Some (Inr b2) \<Longrightarrow> bench_run reorder b b2"

lemma bench_run_ok: "bench_run reorder b b' \<Longrightarrow> bench_ok S i j b \<Longrightarrow> bench_ok S i j b'"
proof (induction rule: bench_run.induct)
  case (turn b1 b2)
  then show ?case using benchmark_loop_ok [of S i j b1 reorder] by auto
qed

lemma bench_ok_delivered:
  assumes "bench_ok S i j b"
  shows "prefix (bm_string_received b @ bs_content (TCPConnection_inbound_stream (bm_y b))) S"
proof -
  have "tc_ok [] S j i (bm_y b)" "bm_string_received b = take (unat (tc_read_count (bm_y b))) S"
    using assms by (simp_all add: bench_ok_def)
  moreover from this have "sr_ok S (tr_reassembler (tc_receiver (bm_y b)))" by (simp add: tc_ok_def tc_pre_def tr_ok_def)
  ultimately have "bm_string_received b @ bs_content (TCPConnection_inbound_stream (bm_y b))
      = take (unat (sr_first_unassembled (tr_reassembler (tc_receiver (bm_y b))))) S"
    using sr_ok_assembled by (simp add: tc_read_count_def tr_read_count_def TCPConnection_inbound_stream_def TCPReceiver_stream_out_def)
  then show ?thesis by (simp add: take_is_prefix)
qed

lemma until_ok:
  assumes "benchmark_until stop reorder b = Some r" "bench_ok S i j b"
  shows "\<exists>b'. r = Inr b' \<and> bench_ok S i j b'"
proof -
  have "bench_ok S i j b \<longrightarrow> (\<exists>b'. r = Inr b' \<and> bench_ok S i j b')"
  proof (rule benchmark_until.raw_induct [OF _ assms(1), of "\<lambda>stop reorder b r. bench_ok S i j b \<longrightarrow> (\<exists>b'. r = Inr b' \<and> bench_ok S i j b')"], goal_cases)
    case (1 until stop reorder b r)
    show ?case
    proof
      assume ok: "bench_ok S i j b"
      from benchmark_loop_ok [OF this] obtain b1 where b1: "benchmark_loop reorder b = Some (Inr b1)" "bench_ok S i j b1" by blast
      show "\<exists>b'. r = Inr b' \<and> bench_ok S i j b'"
      proof (cases "stop b")
        case False
        then have "until stop reorder b1 = Some r" using 1(2) b1(1) by simp
        with 1(1) b1(2) show ?thesis by blast
      qed (use 1(2) ok in auto)
    qed
  qed
  with assms(2) show ?thesis by blast
qed

section \<open>The benchmark as a test\<close>

lemma string_to_send_length: "length (string_to_send rand) = 104857600"
  by (simp add: string_to_send_def len_def)

text \<open>
  C32: in the benchmark, in order or in reverse, every turn of the loop ends without an exception: the loop that
  writes the input ends, and the connection takes as many bytes as it said it would. What was received
  is at every turn a prefix of the string to send. The only exception of the whole run can be the
  one that reports that the strings differ, and then a proper prefix was received.
\<close>

theorem benchmark_delivers:
  assumes "bench_run reorder (benchmark_start (string_to_send rand) random random') b"
  shows "(\<exists>b'. benchmark_loop reorder b = Some (Inr b'))
    \<and> prefix (bm_string_received b @ bs_content (TCPConnection_inbound_stream (bm_y b))) (string_to_send rand)
    \<and> (\<forall>e. main_loop reorder rand random random' = Some (Inl e) \<longrightarrow>
         e = Runtime_error ''strings sent vs. received don't match''
         \<and> (\<exists>b1. benchmark_until y_eof reorder (benchmark_start (string_to_send rand) random random') = Some (Inr b1)
              \<and> strict_prefix (bm_string_received b1) (string_to_send rand)))"
proof (intro conjI allI impI)
  let ?S = "string_to_send rand" and ?start = "benchmark_start (string_to_send rand) random random'"
  obtain i j where start: "bench_ok ?S i j ?start"
    using bench_ok_start [of ?S random random'] by (auto simp: string_to_send_length)
  have ok: "bench_ok ?S i j b" by (rule bench_run_ok [OF assms start])
  show "\<exists>b'. benchmark_loop reorder b = Some (Inr b')" using benchmark_loop_ok [OF ok] by blast
  show "prefix (bm_string_received b @ bs_content (TCPConnection_inbound_stream (bm_y b))) ?S" by (rule bench_ok_delivered [OF ok])
  fix e assume run: "main_loop reorder rand random random' = Some (Inl e)"
  then obtain r where r: "benchmark_until y_eof reorder ?start = Some r" by (auto simp: main_loop_def split: option.splits)
  then obtain b1 where b1: "r = Inr b1" "bench_ok ?S i j b1" using until_ok [OF _ start] by blast
  have "bm_string_received b1 \<noteq> ?S"
  proof
    assume "bm_string_received b1 = ?S"
    with run r b1(1) have "benchmark_until both_inactive reorder b1 = Some (Inl e)"
      by (auto simp: main_loop_def split: option.splits sum.splits)
    with until_ok [OF _ b1(2)] show False by blast
  qed
  moreover have "prefix (bm_string_received b1) ?S" using bench_ok_delivered [OF b1(2)] by (rule append_prefixD)
  ultimately have "strict_prefix (bm_string_received b1) ?S" by (simp add: strict_prefix_def)
  then show "\<exists>b1. benchmark_until y_eof reorder ?start = Some (Inr b1) \<and> strict_prefix (bm_string_received b1) ?S"
    using r b1(1) by blast
  show "e = Runtime_error ''strings sent vs. received don't match''"
    using run r b1(1) \<open>bm_string_received b1 \<noteq> ?S\<close> by (simp add: main_loop_def)
qed

theorem benchmark_delivers_witness:
  "\<exists>b. benchmark_loop True (benchmark_start (string_to_send (\<lambda>n. 120)) 7 20) = Some (Inr b)
    \<and> prefix (bm_string_received b @ bs_content (TCPConnection_inbound_stream (bm_y b))) (string_to_send (\<lambda>n. 120))"
proof -
  let ?b = "benchmark_start (string_to_send (\<lambda>n. 120)) 7 20"
  from benchmark_delivers [OF bench_run.start, of True "\<lambda>n. 120" 7 20]
  obtain b where b: "benchmark_loop True ?b = Some (Inr b)" by blast
  from benchmark_delivers [OF bench_run.turn [OF bench_run.start b]] b show ?thesis by blast
qed

end
