(* ===== verification/Udp_Tcpdump.thy ===== *)
theory Udp_Tcpdump
  imports Tcp_Segment Text_Format
begin

text \<open>
  The capture tool \<open>apps/udp_tcpdump.cc\<close>: the arguments, the link layer, the IPv4 or IPv6 header with
  its extension headers, and the TCP segment in the UDP payload. The capture library and \<open>inet_ntop\<close> are
  arguments. A read outside the captured bytes has no defined result: such a step gives \<open>None\<close>. The
  lemmas say exactly when that happens and that otherwise the payload shown is the one of the packet.
\<close>

section \<open>Model\<close>

type_synonym inet_ntop = "int \<Rightarrow> bytes \<Rightarrow> string option"

definition AF_INET_ntop :: int where "AF_INET_ntop = 2"
definition AF_INET6_ntop :: int where "AF_INET6_ntop = 10"

text \<open>Reading through a pointer to the bytes of a packet.\<close>

definition read_at :: "bytes \<Rightarrow> int \<Rightarrow> u8 option" where
  "read_at data i = (if 0 \<le> i \<and> i < int (length data) then Some (data ! nat i) else None)"

definition read_many :: "bytes \<Rightarrow> nat \<Rightarrow> nat \<Rightarrow> bytes option" where
  "read_many data i n = (if i + n \<le> length data then Some (take n (drop i data)) else None)"

definition inet4_addr :: "inet_ntop \<Rightarrow> bytes \<Rightarrow> nat \<Rightarrow> string option" where
  "inet4_addr ntop data i =
     Option.bind (read_many data i 4) (\<lambda>addr.
     Some (case ntop AF_INET_ntop addr of None \<Rightarrow> ''unknown'' | Some addrbuf \<Rightarrow> addrbuf))"

definition inet6_addr :: "inet_ntop \<Rightarrow> bytes \<Rightarrow> nat \<Rightarrow> string option" where
  "inet6_addr ntop data i =
     Option.bind (read_many data i 16) (\<lambda>addr.
     Some (case ntop AF_INET6_ntop addr of None \<Rightarrow> ''unknown'' | Some addrbuf \<Rightarrow> addrbuf))"

text \<open>A result of -1, with what was written to \<open>cerr\<close>, or a value.\<close>

datatype 'a parsed = Bad string | Good 'a

text \<open>The loop over the extension headers.\<close>

function ipv6_headers :: "int \<Rightarrow> bytes \<Rightarrow> u8 \<Rightarrow> int \<Rightarrow> int parsed option" where
  "ipv6_headers len data nxt data_offset =
     (if nxt = 0x11 then Some (Good data_offset)
      else if nxt \<noteq> 0 \<and> nxt \<noteq> 43 \<and> nxt \<noteq> 60 then Some (Bad ''Not UDP or fragmented; '')
      else case read_at data data_offset of
             None \<Rightarrow> None
           | Some nxt \<Rightarrow>
               (case read_at data (data_offset + 1) of
                  None \<Rightarrow> None
                | Some n \<Rightarrow>
                    if len < data_offset + 8 * (1 + uint n) + 2 then Some (Bad [])
                    else ipv6_headers len data nxt (data_offset + 8 * (1 + uint n))))"
  by pat_completeness auto

termination
proof (relation "measure (\<lambda>(len, data, nxt, data_offset). nat (len - data_offset))", goal_cases)
  case (2 len data nxt data_offset nxt' n)
  define m where "m = uint n"
  have "0 \<le> m" "data_offset + 8 * m + 10 \<le> len" using 2(5) by (simp_all add: m_def)
  then have "data_offset < len" "- 1 < m" by arith+
  then show ?case by (simp add: m_def)
qed simp

declare ipv6_headers.simps [simp del]

unbundle bit_operations_syntax

definition process_ipv4_ipv6 :: "inet_ntop \<Rightarrow> int \<Rightarrow> bytes \<Rightarrow> (int \<times> string \<times> string) parsed option" where
  "process_ipv4_ipv6 ntop len data =
     (if len < 1 then Some (Bad [])
      else Option.bind (read_at data 0) (\<lambda>d0.
           let pt = d0 AND 0xf0
           in if pt = 0x40
              then let data_offset = uint (d0 AND 0x0f) * 4
                   in if len < data_offset then Some (Bad [])
                      else Option.bind (read_at data 9) (\<lambda>proto.
                           if proto \<noteq> 0x11 then Some (Bad ''Not UDP; '')
                           else Option.bind (inet4_addr ntop data 12) (\<lambda>src_addr.
                                Option.bind (inet4_addr ntop data 16) (\<lambda>dst_addr.
                                Some (Good (data_offset + 8, src_addr, dst_addr)))))
              else if pt = 0x60
              then if len < 42 then Some (Bad [])
                   else Option.bind (read_at data 6) (\<lambda>nxt.
                        Option.bind (ipv6_headers len data nxt 40) (\<lambda>r.
                        case r of
                          Bad msg \<Rightarrow> Some (Bad msg)
                        | Good data_offset \<Rightarrow>
                            Option.bind (inet6_addr ntop data 8) (\<lambda>src_addr.
                            Option.bind (inet6_addr ntop data 24) (\<lambda>dst_addr.
                            Some (Good (data_offset + 8, src_addr, dst_addr))))))
              else Some (Bad [])))"

text \<open>The kinds of link the tool knows, and where the network layer starts in a packet of each.\<close>

datatype dlt = DLT_RAW | DLT_NULL | DLT_EN10MB | DLT_LINUX_SLL | DLT_LINUX_SLL2 | DLT_other int

datatype link = Skip string | Mysterious string | Network_at nat

definition malformed :: link where "malformed = Skip ''[INFO] Skipping malformed packet.\<newline>''"
definition non_ip :: link where "non_ip = Skip ''[INFO] Skipping non-IP packet.\<newline>''"

definition ether_type :: "bytes \<Rightarrow> nat \<Rightarrow> u16 option" where
  "ether_type pkt i =
     Option.bind (read_at pkt (int i)) (\<lambda>hi.
     Option.bind (read_at pkt (int i + 1)) (\<lambda>lo. Some (push_bit 8 (ucast hi) OR ucast lo)))"

definition framed :: "bytes \<Rightarrow> nat \<Rightarrow> nat \<Rightarrow> link option" where
  "framed pkt hdr_off i =
     (if length pkt < hdr_off then Some malformed
      else Option.bind (ether_type pkt i) (\<lambda>pt.
           Some (if pt \<noteq> 0x0800 \<and> pt \<noteq> 0x86dd then non_ip else Network_at hdr_off)))"

definition link_layer :: "dlt \<Rightarrow> bytes \<Rightarrow> link option" where
  "link_layer dl_type pkt =
     (case dl_type of
        DLT_NULL \<Rightarrow>
          if length pkt < 4 then Some malformed
          else Option.bind (read_at pkt 3) (\<lambda>pt.
               Some (if pt \<noteq> 2 \<and> pt \<noteq> 24 \<and> pt \<noteq> 28 \<and> pt \<noteq> 30 then non_ip else Network_at 4))
      | DLT_EN10MB \<Rightarrow> framed pkt 14 12
      | DLT_LINUX_SLL \<Rightarrow> framed pkt 16 14
      | DLT_LINUX_SLL2 \<Rightarrow> framed pkt 20 0
      | DLT_RAW \<Rightarrow> Some (Network_at 0)
      | DLT_other _ \<Rightarrow> Some (Mysterious ''Mysterious datalink type. Giving up.''))"

text \<open>
  What is printed of one packet: \<open>Skipped\<close> with a message on \<open>cerr\<close>, \<open>Printed\<close> on \<open>cout\<close>, an exception
  that nothing catches, or the end of the program.
\<close>

datatype packet_result = Skipped string | Printed string | Thrown exn | Give_up string

text \<open>\<open>string(payload)\<close> for a view of \<open>n\<close> bytes at \<open>i\<close>: a number above the largest size is refused.\<close>

definition string_of_view :: "bytes \<Rightarrow> u64 \<Rightarrow> u64 \<Rightarrow> bytes res option" where
  "string_of_view pkt i n =
     (if n > 0x7fffffffffffffff then Some (Inl (Length_error ''basic_string::_M_create''))
      else map_option Inr (read_many pkt (unat i) (unat n)))"

definition flag_text :: "bool \<Rightarrow> string \<Rightarrow> string" where
  "flag_text b s = (if b then s else [])"

definition segment_text :: "string \<Rightarrow> string \<Rightarrow> u64 \<Rightarrow> ParseResult \<Rightarrow> TCPSegment \<Rightarrow> string" where
  "segment_text src dst payload_len res seg =
     (let tcp_hdr = ts_header seg;
          seqlen = ucast (TCPSegment_length_in_sequence_space seg) :: u32
      in src @ '':'' @ dec (unat (th_sport tcp_hdr)) @ '' > '' @ dst @ '':'' @ dec (unat (th_dport tcp_hdr)) @ [CHR 0x0A] @
         ''    Flags ['' @ flag_text (th_urg tcp_hdr) ''U'' @ flag_text (th_psh tcp_hdr) ''P'' @ flag_text (th_rst tcp_hdr) ''R'' @
         flag_text (th_syn tcp_hdr) ''S'' @ flag_text (th_fin tcp_hdr) ''F'' @ flag_text (th_ack tcp_hdr) ''.'' @
         ''] cksum 0x'' @ pad 4 (CHR ''0'') (hexa (unat (th_cksum tcp_hdr))) @
         (if res = NoError then '' (correct)'' else '' (incorrect!)'') @
         '' seq '' @ dec (unat (th_seqno tcp_hdr)) @
         (if seqlen > 0 then '':'' @ dec (unat (th_seqno tcp_hdr + seqlen)) else []) @
         '' ack '' @ dec (unat (th_ackno tcp_hdr)) @ '' win '' @ dec (unat (th_win tcp_hdr)) @
         '' length '' @ dec (unat payload_len) @ [CHR 0x0A])"

definition payload_text :: "string \<Rightarrow> string \<Rightarrow> u64 \<Rightarrow> bytes \<Rightarrow> string" where
  "payload_text src dst payload_len payload =
     (let (res, seg) = TCPSegment_parse (Buffer_of_string payload) 0 TCPSegment_new
      in (if res \<noteq> NoError \<and> res \<noteq> BadChecksum
          then ''(did not recognize TCP header) src: '' @ src @ '' dst: '' @ dst @ [CHR 0x0A]
          else segment_text src dst payload_len res seg) @
         hexdump payload 8)"

definition dump_packet :: "inet_ntop \<Rightarrow> dlt \<Rightarrow> bytes \<Rightarrow> packet_result option" where
  "dump_packet ntop dl_type pkt =
     Option.bind (link_layer dl_type pkt) (\<lambda>l.
     case l of
       Skip msg \<Rightarrow> Some (Skipped msg)
     | Mysterious msg \<Rightarrow> Some (Give_up msg)
     | Network_at hdr_off \<Rightarrow>
         Option.bind (process_ipv4_ipv6 ntop (int (length pkt - hdr_off)) (drop hdr_off pkt)) (\<lambda>r.
         case r of
           Bad msg \<Rightarrow> Some (Skipped (msg @ ''Error parsing IPv4/IPv6 packet. Skipping.'' @ [CHR 0x0A]))
         | Good (start_off, src, dst) \<Rightarrow>
             let payload_off = of_nat hdr_off + of_int start_off :: u64;
                 payload_len = ssize pkt - payload_off
             in Option.bind (string_of_view pkt payload_off payload_len) (\<lambda>s.
                case s of
                  Inl e \<Rightarrow> Some (Thrown e)
                | Inr payload \<Rightarrow> Some (Printed (payload_text src dst payload_len payload)))))"

text \<open>The arguments of the program; \<open>Exit_with\<close> is a call of \<open>exit\<close> after printing.\<close>

datatype 'a exiting = Exit_with int string | Continue 'a

abbreviation nl :: string where "nl \<equiv> [CHR 0x0A]"

definition show_usage :: "string \<Rightarrow> string option \<Rightarrow> string" where
  "show_usage arg0 errmsg =
     ''Usage: '' @ arg0 @ '' [-i <intf>] [-F <file>] [-h|--help] <expression>'' @ nl @ nl @
     ''  -i <intf>    only capture packets from <intf> (default: all)'' @ nl @ nl @
     ''  -F <file>    reads in a filter expression from <file>'' @ nl @
     ''               <expression> is ignored if -F is supplied.'' @ nl @ nl @
     ''  -h, --help   show this message'' @ nl @ nl @
     ''  <expression> a filter expression in pcap-filter(7) syntax'' @ nl @
     (case errmsg of None \<Rightarrow> [] | Some m \<Rightarrow> nl @ m) @ nl"

function parse_arguments :: "string list \<Rightarrow> nat \<Rightarrow> string option \<Rightarrow> (nat \<times> string option) exiting" where
  "parse_arguments argv cur dev =
     (if cur < length argv
      then if argv ! cur = ''-i''
           then if cur + 1 \<ge> length argv then Exit_with 1 (show_usage (argv ! 0) (Some ''ERROR: -i requires an argument''))
                else parse_arguments argv (cur + 2) (Some (argv ! (cur + 1)))
           else if argv ! cur = ''-h'' \<or> argv ! cur = ''--help'' then Exit_with 0 (show_usage (argv ! 0) None)
           else Continue (cur, dev)
      else Continue (cur, dev))"
  by pat_completeness auto

termination
  by (relation "measure (\<lambda>(argv, cur, dev). length argv - cur)") auto

declare parse_arguments.simps [simp del]

text \<open>
  What the program uses of the capture library: opening a device, its kind of link and the kind's name,
  compiling and setting a filter, the text of the last error, and the next packet.
\<close>

record ('p, 'f) pcap =
  pc_open_live :: "string option \<Rightarrow> string + 'p"
  pc_datalink :: "'p \<Rightarrow> dlt"
  pc_datalink_val_to_description :: "dlt \<Rightarrow> string"
  pc_compile :: "string \<Rightarrow> 'p \<Rightarrow> 'f option \<times> 'p"
  pc_setfilter :: "'f \<Rightarrow> 'p \<Rightarrow> bool \<times> 'p"
  pc_geterr :: "'p \<Rightarrow> string"
  pc_next_ex :: "'p \<Rightarrow> int \<times> bytes \<times> 'p"

text \<open>How the program ends: its status with the text printed, an exception, or a step without a defined result.\<close>

datatype outcome = Exited int string | Uncaught exn string | Undefined string

definition EXIT_FAILURE :: int where "EXIT_FAILURE = 1"
definition EXIT_SUCCESS :: int where "EXIT_SUCCESS = 0"

partial_function (option) dump_loop :: "('p, 'f) pcap \<Rightarrow> inet_ntop \<Rightarrow> dlt \<Rightarrow> 'p \<Rightarrow> string \<Rightarrow> (int \<times> 'p \<times> outcome option \<times> string) option" where
  "dump_loop pc ntop dl_type p out =
     (case pc_next_ex pc p of
        (next_ret, pkt, p) \<Rightarrow>
          if next_ret < 0 then Some (next_ret, p, None, out)
          else if next_ret = 0 then dump_loop pc ntop dl_type p out
          else (case dump_packet ntop dl_type pkt of
                  None \<Rightarrow> Some (next_ret, p, Some (Undefined out), out)
                | Some r \<Rightarrow>
                    (case r of
                       Skipped msg \<Rightarrow> dump_loop pc ntop dl_type p out
                     | Printed text \<Rightarrow> dump_loop pc ntop dl_type p (out @ text)
                     | Thrown e \<Rightarrow> Some (next_ret, p, Some (Uncaught e out), out)
                     | Give_up msg \<Rightarrow> Some (next_ret, p, Some (Exited EXIT_FAILURE out), out))))"

definition supported_link :: "dlt \<Rightarrow> bool" where
  "supported_link dlt =
     (dlt = DLT_RAW \<or> dlt = DLT_NULL \<or> dlt = DLT_EN10MB \<or> dlt = DLT_LINUX_SLL \<or> dlt = DLT_LINUX_SLL2)"

definition open_capture :: "('p, 'f) pcap \<Rightarrow> string option \<Rightarrow> (dlt \<times> 'p \<times> string) exiting" where
  "open_capture pc dev =
     (let out = (case dev of Some d \<Rightarrow> ''Capturing on interface '' @ d | None \<Rightarrow> ''Capturing on all interfaces'')
      in case pc_open_live pc dev of
           Inl errbuf \<Rightarrow> Exit_with 1 (out @ nl @ ''Error initiating capture: '' @ errbuf @ nl)
         | Inr p_hdl \<Rightarrow>
             let dlt = pc_datalink pc p_hdl
             in if \<not> supported_link dlt
                then Exit_with 1 (out @ nl @ ''Error: unsupported datalink type '' @ pc_datalink_val_to_description pc dlt @ nl)
                else Continue (dlt, p_hdl, out @ '' (type: '' @ pc_datalink_val_to_description pc dlt @ '')'' @ nl))"

definition filter_expression :: "string list \<Rightarrow> nat \<Rightarrow> string" where
  "filter_expression argv exp_start = concat (map (\<lambda>a. a @ '' '') (drop exp_start argv))"

definition install_filter :: "('p, 'f) pcap \<Rightarrow> string \<Rightarrow> 'p \<Rightarrow> string \<Rightarrow> ('p \<times> string) exiting" where
  "install_filter pc expression p_hdl out =
     (let out = out @ ''Using filter expression: '' @ expression @ nl
      in case pc_compile pc expression p_hdl of
           (None, p_hdl) \<Rightarrow> Exit_with EXIT_FAILURE (out @ ''Error compiling filter expression: '' @ pc_geterr pc p_hdl @ nl)
         | (Some p_flt, p_hdl) \<Rightarrow>
             (case pc_setfilter pc p_flt p_hdl of
                (False, p_hdl) \<Rightarrow> Exit_with EXIT_FAILURE (out @ ''Error configuring packet filter: '' @ pc_geterr pc p_hdl @ nl)
              | (True, p_hdl) \<Rightarrow> Continue (p_hdl, out)))"

text \<open>At the end the handle is closed first and then asked for its last error, which has no defined result.\<close>

definition udp_tcpdump_main :: "('p, 'f) pcap \<Rightarrow> inet_ntop \<Rightarrow> string list \<Rightarrow> outcome option" where
  "udp_tcpdump_main pc ntop argv =
     (case parse_arguments argv 1 None of
        Exit_with status out \<Rightarrow> Some (Exited status out)
      | Continue (exp_start, dev) \<Rightarrow>
          (case open_capture pc dev of
             Exit_with status out \<Rightarrow> Some (Exited status out)
           | Continue (dl_type, p_hdl, out) \<Rightarrow>
               (case install_filter pc (filter_expression argv exp_start) p_hdl out of
                  Exit_with status out \<Rightarrow> Some (Exited status out)
                | Continue (p_hdl, out) \<Rightarrow>
                    Option.bind (dump_loop pc ntop dl_type p_hdl out) (\<lambda>(next_ret, p_hdl, ended, out).
                    Some (case ended of
                            Some o' \<Rightarrow> o'
                          | None \<Rightarrow> if next_ret = - 1 then Undefined out else Exited EXIT_SUCCESS out)))))"

section \<open>Which bytes are read\<close>

lemma read_at_in: "0 \<le> i \<Longrightarrow> i < int (length data) \<Longrightarrow> read_at data i = Some (data ! nat i)"
  by (simp add: read_at_def)

lemma read_many_in: "i + n \<le> length data \<Longrightarrow> read_many data i n = Some (take n (drop i data))"
  by (simp add: read_many_def)

lemma ipv6_headers_step:
  assumes "nxt = 0 \<or> nxt = 43 \<or> nxt = 60" "read_at data off = Some nxt'" "read_at data (off + 1) = Some n"
    "off' = off + 8 * (1 + uint n)" "\<not> len < off' + 2"
  shows "ipv6_headers len data nxt off = ipv6_headers len data nxt' off'"
  using assms by (subst ipv6_headers.simps) auto

text \<open>The walk over the extension headers stays inside the packet, and two bytes are left where it ends.\<close>

lemma ipv6_headers_safe:
  assumes "len = int (length data)" "0 \<le> off" "off + 2 \<le> len"
  shows "\<exists>r. ipv6_headers len data nxt off = Some r \<and> (\<forall>off'. r = Good off' \<longrightarrow> off \<le> off' \<and> off' + 2 \<le> len)"
  using assms
proof (induction len data nxt off rule: ipv6_headers.induct)
  case (1 len data nxt off)
  have a: "read_at data off = Some (data ! nat off)" "read_at data (off + 1) = Some (data ! nat (off + 1))"
    using "1.prems" by (simp_all add: read_at_def)
  define m where "m = uint (data ! nat (off + 1))"
  have m: "0 \<le> m" by (simp add: m_def)
  consider "nxt = 0x11" | "nxt \<noteq> 0x11" "nxt \<noteq> 0 \<and> nxt \<noteq> 43 \<and> nxt \<noteq> 60"
    | "nxt \<noteq> 0x11" "\<not> (nxt \<noteq> 0 \<and> nxt \<noteq> 43 \<and> nxt \<noteq> 60)" "len < off + 8 * (1 + m) + 2"
    | "nxt \<noteq> 0x11" "\<not> (nxt \<noteq> 0 \<and> nxt \<noteq> 43 \<and> nxt \<noteq> 60)" "\<not> len < off + 8 * (1 + m) + 2" by blast
  then show ?case
  proof cases
    case 1
    then show ?thesis using "1.prems" by (subst ipv6_headers.simps) simp
  next
    case 2
    then show ?thesis by (simp add: ipv6_headers.simps [of len data nxt off])
  next
    case 3
    then show ?thesis using a "1.prems" by (subst ipv6_headers.simps) (simp add: m_def)
  next
    case 4
    have s: "ipv6_headers len data nxt off = ipv6_headers len data (data ! nat off) (off + 8 * (1 + m))"
      by (rule ipv6_headers_step [OF _ a]) (use 4 in \<open>auto simp: m_def\<close>)
    have "0 \<le> off + 8 * (1 + m)" "off + 8 * (1 + m) + 2 \<le> len" using 4(3) "1.prems" m by simp_all
    from "1.IH" [OF 4(1,2) a, folded m_def, OF 4(3) "1.prems"(1) this]
    obtain r where "ipv6_headers len data (data ! nat off) (off + 8 * (1 + m)) = Some r"
        "\<And>off'. r = Good off' \<Longrightarrow> off + 8 * (1 + m) \<le> off' \<and> off' + 2 \<le> len" by blast
    then show ?thesis using s m by (intro exI [of _ r]) auto
  qed
qed

definition ipv4_overread :: "bytes \<Rightarrow> bool" where
  "ipv4_overread data =
     (data \<noteq> [] \<and> data ! 0 AND 0xf0 = 0x40 \<and> 4 * unat (data ! 0 AND 0x0f) \<le> length data
      \<and> (length data < 10 \<or> data ! 9 = 0x11 \<and> length data < 20))"

lemma read_at_None: "0 \<le> i \<Longrightarrow> read_at data i = None \<longleftrightarrow> int (length data) \<le> i"
  by (simp add: read_at_def not_less)

lemma inet_addr_None:
  "inet4_addr ntop data i = None \<longleftrightarrow> length data < i + 4" "inet6_addr ntop data i = None \<longleftrightarrow> length data < i + 16"
  by (simp_all add: inet4_addr_def inet6_addr_def read_many_def bind_eq_None_conv not_le)

lemma process_v4_eq:
  assumes "data \<noteq> []" "data ! 0 AND 0xf0 = 0x40"
  shows "process_ipv4_ipv6 ntop (int (length data)) data =
     (if length data < 4 * unat (data ! 0 AND 0x0f) then Some (Bad [])
      else Option.bind (read_at data 9) (\<lambda>proto.
           if proto \<noteq> 0x11 then Some (Bad ''Not UDP; '')
           else Option.bind (inet4_addr ntop data 12) (\<lambda>src_addr.
                Option.bind (inet4_addr ntop data 16) (\<lambda>dst_addr.
                Some (Good (int (4 * unat (data ! 0 AND 0x0f)) + 8, src_addr, dst_addr))))))"
proof -
  have u: "uint (data ! 0 AND 0x0f) * 4 = int (4 * unat (data ! 0 AND 0x0f))" unfolding uint_nat by simp
  have v: "int (length data) < uint (data ! 0 AND 0x0f) * 4 \<longleftrightarrow> length data < 4 * unat (data ! 0 AND 0x0f)"
    unfolding uint_nat by linarith
  show ?thesis unfolding u [symmetric] using assms by (simp add: process_ipv4_ipv6_def read_at_in v Let_def)
qed

lemma process_v4:
  assumes "data \<noteq> []" "data ! 0 AND 0xf0 = 0x40"
  shows "process_ipv4_ipv6 ntop (int (length data)) data = None \<longleftrightarrow> ipv4_overread data"
    "process_ipv4_ipv6 ntop (int (length data)) data = Some (Good (off, src, dst)) \<Longrightarrow> 8 \<le> off \<and> off \<le> int (length data) + 8"
proof -
  note p = process_v4_eq [OF assms, of ntop]
  show "process_ipv4_ipv6 ntop (int (length data)) data = None \<longleftrightarrow> ipv4_overread data"
  proof (cases "length data < 10")
    case True
    then show ?thesis using assms by (simp add: p ipv4_overread_def read_at_def not_less)
  next
    case False
    then show ?thesis using assms inet_addr_None(1) [of ntop data 12] inet_addr_None(1) [of ntop data 16]
      by (auto simp: p ipv4_overread_def read_at_def not_less bind_eq_None_conv)
  qed
  show "process_ipv4_ipv6 ntop (int (length data)) data = Some (Good (off, src, dst)) \<Longrightarrow> 8 \<le> off \<and> off \<le> int (length data) + 8"
    unfolding p by (auto simp: bind_eq_Some_conv simp del: of_nat_mult split: if_splits)
qed

lemma process_v6_eq:
  assumes "data \<noteq> []" "data ! 0 AND 0xf0 = 0x60"
  shows "process_ipv4_ipv6 ntop (int (length data)) data =
     (if length data < 42 then Some (Bad [])
      else Option.bind (read_at data 6) (\<lambda>nxt.
           Option.bind (ipv6_headers (int (length data)) data nxt 40) (\<lambda>r.
           case r of
             Bad msg \<Rightarrow> Some (Bad msg)
           | Good data_offset \<Rightarrow>
               Option.bind (inet6_addr ntop data 8) (\<lambda>src_addr.
               Option.bind (inet6_addr ntop data 24) (\<lambda>dst_addr.
               Some (Good (data_offset + 8, src_addr, dst_addr)))))))"
  using assms by (simp add: process_ipv4_ipv6_def read_at_in Let_def)

lemma process_v6:
  assumes "data \<noteq> []" "data ! 0 AND 0xf0 = 0x60"
  shows "process_ipv4_ipv6 ntop (int (length data)) data \<noteq> None"
    "process_ipv4_ipv6 ntop (int (length data)) data = Some (Good (off, src, dst)) \<Longrightarrow> 48 \<le> off \<and> off \<le> int (length data) + 6"
proof -
  note p = process_v6_eq [OF assms, of ntop]
  have "process_ipv4_ipv6 ntop (int (length data)) data \<noteq> None
    \<and> (process_ipv4_ipv6 ntop (int (length data)) data = Some (Good (off, src, dst)) \<longrightarrow> 48 \<le> off \<and> off \<le> int (length data) + 6)"
  proof (cases "length data < 42")
    case False
    obtain r where "ipv6_headers (int (length data)) data (data ! 6) 40 = Some r"
      "\<And>off'. r = Good off' \<Longrightarrow> 40 \<le> off' \<and> off' + 2 \<le> int (length data)"
      using ipv6_headers_safe [of "int (length data)" data 40 "data ! 6"] False by auto
    then show ?thesis
      using False by (auto simp: p read_at_in inet6_addr_def read_many_in split: parsed.splits)
  qed (simp add: p)
  then show "process_ipv4_ipv6 ntop (int (length data)) data \<noteq> None"
    "process_ipv4_ipv6 ntop (int (length data)) data = Some (Good (off, src, dst)) \<Longrightarrow> 48 \<le> off \<and> off \<le> int (length data) + 6"
    by blast+
qed

lemma process_other:
  assumes "data = [] \<or> data ! 0 AND 0xf0 \<noteq> 0x40 \<and> data ! 0 AND 0xf0 \<noteq> 0x60"
  shows "process_ipv4_ipv6 ntop (int (length data)) data = Some (Bad [])"
  using assms by (cases "data = []") (auto simp: process_ipv4_ipv6_def read_at_in Let_def)

lemma process_bounds:
  "process_ipv4_ipv6 ntop (int (length data)) data = None \<longleftrightarrow> ipv4_overread data"
  "process_ipv4_ipv6 ntop (int (length data)) data = Some (Good (off, src, dst)) \<Longrightarrow> 8 \<le> off \<and> off \<le> int (length data) + 8"
proof -
  consider "data \<noteq> []" "data ! 0 AND 0xf0 = 0x40" | "data \<noteq> []" "data ! 0 AND 0xf0 = 0x60"
    | "data = [] \<or> data ! 0 AND 0xf0 \<noteq> 0x40 \<and> data ! 0 AND 0xf0 \<noteq> 0x60" by blast
  then have "(process_ipv4_ipv6 ntop (int (length data)) data = None \<longleftrightarrow> ipv4_overread data)
    \<and> (process_ipv4_ipv6 ntop (int (length data)) data = Some (Good (off, src, dst)) \<longrightarrow> 8 \<le> off \<and> off \<le> int (length data) + 8)"
  proof cases
    case 1
    from process_v4 [OF this, of ntop] show ?thesis by auto
  next
    case 2
    then have "\<not> ipv4_overread data" by (simp add: ipv4_overread_def)
    with process_v6 [OF 2, of ntop] show ?thesis by auto
  next
    case 3
    then have "\<not> ipv4_overread data" by (auto simp: ipv4_overread_def)
    with process_other [OF 3, of ntop] show ?thesis by simp
  qed
  then show "process_ipv4_ipv6 ntop (int (length data)) data = None \<longleftrightarrow> ipv4_overread data"
    "process_ipv4_ipv6 ntop (int (length data)) data = Some (Good (off, src, dst)) \<Longrightarrow> 8 \<le> off \<and> off \<le> int (length data) + 8"
    by blast+
qed

lemma framed_in: "i + 2 \<le> h \<Longrightarrow> framed pkt h i = Some malformed \<or> framed pkt h i = Some non_ip \<or> framed pkt h i = Some (Network_at h) \<and> h \<le> length pkt"
  by (simp add: framed_def ether_type_def read_at_in not_less)

lemma link_layer_in:
  "link_layer dl pkt \<noteq> None" "link_layer dl pkt = Some (Network_at h) \<Longrightarrow> h \<le> length pkt \<and> h \<le> 20"
proof -
  have "link_layer dl pkt \<noteq> None \<and> (link_layer dl pkt = Some (Network_at h) \<longrightarrow> h \<le> length pkt \<and> h \<le> 20)"
  proof (cases dl)
    case DLT_NULL
    then show ?thesis by (auto simp: link_layer_def malformed_def non_ip_def read_at_in)
  next
    case DLT_EN10MB
    then show ?thesis using framed_in [of 12 14 pkt] by (auto simp: link_layer_def malformed_def non_ip_def)
  next
    case DLT_LINUX_SLL
    then show ?thesis using framed_in [of 14 16 pkt] by (auto simp: link_layer_def malformed_def non_ip_def)
  next
    case DLT_LINUX_SLL2
    then show ?thesis using framed_in [of 0 20 pkt] by (auto simp: link_layer_def malformed_def non_ip_def)
  qed (auto simp: link_layer_def)
  then show "link_layer dl pkt \<noteq> None" "link_layer dl pkt = Some (Network_at h) \<Longrightarrow> h \<le> length pkt \<and> h \<le> 20" by blast+
qed

text \<open>Where the network layer starts: behind a complete link header that names IPv4 or IPv6.\<close>

definition names_ip :: "bytes \<Rightarrow> bool" where
  "names_ip bs = (bs = [0x08, 0x00] \<or> bs = [0x86, 0xdd])"

fun network_at :: "dlt \<Rightarrow> bytes \<Rightarrow> nat \<Rightarrow> bool" where
  "network_at DLT_RAW pkt h = (h = 0)"
| "network_at DLT_NULL pkt h = (h = 4 \<and> 4 \<le> length pkt \<and> pkt ! 3 \<in> {2, 24, 28, 30})"
| "network_at DLT_EN10MB pkt h = (h = 14 \<and> 14 \<le> length pkt \<and> names_ip (take 2 (drop 12 pkt)))"
| "network_at DLT_LINUX_SLL pkt h = (h = 16 \<and> 16 \<le> length pkt \<and> names_ip (take 2 (drop 14 pkt)))"
| "network_at DLT_LINUX_SLL2 pkt h = (h = 20 \<and> 20 \<le> length pkt \<and> names_ip (take 2 pkt))"
| "network_at (DLT_other n) pkt h = False"

lemma two_bytes: "(push_bit 8 (ucast hi) OR ucast lo :: u16) = w \<longleftrightarrow> hi = ucast (drop_bit 8 w) \<and> lo = ucast w" for hi lo :: u8
proof
  assume w: "(push_bit 8 (ucast hi) OR ucast lo :: u16) = w"
  have "hi = ucast (drop_bit 8 w)" unfolding w [symmetric]
    by (rule bit_word_eqI) (auto simp: bit_simps dest: bit_imp_le_length)
  moreover have "lo = ucast w" unfolding w [symmetric] by (rule bit_word_eqI) (auto simp: bit_simps)
  ultimately show "hi = ucast (drop_bit 8 w) \<and> lo = ucast w" by simp
next
  assume "hi = ucast (drop_bit 8 w) \<and> lo = ucast w"
  then show "(push_bit 8 (ucast hi) OR ucast lo :: u16) = w"
    by (intro bit_word_eqI) (auto simp: bit_simps)
qed

lemma ether_type_names:
  assumes "i + 2 \<le> length pkt"
  shows "\<exists>pt. ether_type pkt i = Some pt \<and> (pt = 0x0800 \<or> pt = 0x86dd \<longleftrightarrow> names_ip (take 2 (drop i pkt)))"
proof -
  have n: "(ucast (drop_bit 8 (0x0800 :: u16)) :: u8) = 0x08" "(ucast (0x0800 :: u16) :: u8) = 0x00"
    "(ucast (drop_bit 8 (0x86dd :: u16)) :: u8) = 0x86" "(ucast (0x86dd :: u16) :: u8) = 0xdd" by code_simp+
  have "take 2 (drop i pkt) = [pkt ! i, pkt ! (i + 1)]"
    using assms by (simp add: numeral_2_eq_2 take_Suc_conv_app_nth)
  moreover have "ether_type pkt i = Some (push_bit 8 (ucast (pkt ! i)) OR ucast (pkt ! (i + 1)))"
    using assms by (simp add: ether_type_def read_at_def nat_add_distrib)
  moreover have "(push_bit 8 (ucast (pkt ! i)) OR ucast (pkt ! (i + 1)) :: u16) = 0x0800 \<longleftrightarrow> pkt ! i = 0x08 \<and> pkt ! (i + 1) = 0x00"
    "(push_bit 8 (ucast (pkt ! i)) OR ucast (pkt ! (i + 1)) :: u16) = 0x86dd \<longleftrightarrow> pkt ! i = 0x86 \<and> pkt ! (i + 1) = 0xdd"
    unfolding two_bytes n by (rule refl)+
  ultimately show ?thesis by (simp add: names_ip_def)
qed

lemma framed_network: "i + 2 \<le> h \<Longrightarrow> framed pkt h i = Some (Network_at k) \<longleftrightarrow> k = h \<and> h \<le> length pkt \<and> names_ip (take 2 (drop i pkt))"
  using ether_type_names [of i pkt] by (cases "length pkt < h") (auto simp: framed_def malformed_def non_ip_def)

lemma link_layer_network: "link_layer dl pkt = Some (Network_at h) \<longleftrightarrow> network_at dl pkt h"
  using framed_network [of 12 14 pkt h] framed_network [of 14 16 pkt h] framed_network [of 0 20 pkt h]
  by (cases dl) (auto simp: link_layer_def malformed_def non_ip_def read_at_def)

lemma view_cut:
  assumes "length pkt < W32" "i \<le> length pkt + 8"
  shows "string_of_view pkt (of_nat i) (ssize pkt - of_nat i) =
    (if i \<le> length pkt then Some (Inr (drop i pkt)) else Some (Inl (Length_error ''basic_string::_M_create'')))"
proof (cases "i \<le> length pkt")
  case True
  have "ssize pkt - of_nat i = of_nat (length pkt - i)" using True by (simp add: ssize_def of_nat_diff)
  moreover have "unat (of_nat (length pkt - i) :: u64) = length pkt - i" "unat (of_nat i :: u64) = i"
    using assms True by (intro unat_of_nat_less; simp)+
  ultimately show ?thesis using True assms(1) by (simp add: string_of_view_def word_less_nat_alt read_many_def)
next
  case False
  define n where "n = i - length pkt"
  have n: "1 \<le> n" "n \<le> 8" "i = length pkt + n" using False assms(2) by (simp_all add: n_def)
  have "of_nat (W64 - n) = (of_nat W64 - of_nat n :: u64)" using n(2) by (intro of_nat_diff) simp
  then have "ssize pkt - of_nat i = of_nat (W64 - n)" using n(3) by (simp add: ssize_def)
  moreover have "unat (of_nat (W64 - n) :: u64) = W64 - n" using n(1) by (intro unat_of_nat_less) simp
  ultimately have "ssize pkt - of_nat i > (0x7fffffffffffffff :: u64)" using n(2) by (simp add: word_less_nat_alt)
  then show ?thesis using False by (simp add: string_of_view_def)
qed

text \<open>What becomes of a packet once the link layer and the addresses have been read.\<close>

lemma dump_good:
  assumes "length pkt < W32" "link_layer dl pkt = Some (Network_at h)"
    "process_ipv4_ipv6 ntop (int (length pkt - h)) (drop h pkt) = Some (Good (off, src, dst))"
  shows "dump_packet ntop dl pkt =
    (if int h + off \<le> int (length pkt) then Some (Printed (payload_text src dst (ssize (drop (h + nat off) pkt)) (drop (h + nat off) pkt)))
     else Some (Thrown (Length_error ''basic_string::_M_create'')))"
proof -
  have h: "h \<le> length pkt" "h \<le> 20" using link_layer_in(2) [OF assms(2)] by simp_all
  have off: "8 \<le> off" "off \<le> int (length pkt - h) + 8" using process_bounds(2) [of ntop "drop h pkt" off src dst] assms(3) by simp_all
  let ?i = "h + nat off"
  have i: "of_nat h + of_int off = (of_nat ?i :: u64)" using off(1) by simp
  have iff: "int h + off \<le> int (length pkt) \<longleftrightarrow> ?i \<le> length pkt" using off(1) by linarith
  have le: "?i \<le> length pkt + 8" using off h by linarith
  have "ssize pkt - of_nat ?i = ssize (drop ?i pkt)" if "?i \<le> length pkt" using that by (simp add: ssize_def of_nat_diff)
  then show ?thesis
    using assms(2,3) view_cut [OF assms(1) le] unfolding iff by (simp add: dump_packet_def i Let_def del: of_nat_add)
qed

section \<open>Well-formed packets\<close>

text \<open>Extension headers: the type, the length in units of eight bytes behind the first, and the other bytes.\<close>

type_synonym ext = "u8 \<times> u8 \<times> bytes"

fun first_type :: "ext list \<Rightarrow> u8" where
  "first_type [] = 0x11"
| "first_type ((t, n, body) # rest) = t"

fun ext_bytes :: "ext list \<Rightarrow> bytes" where
  "ext_bytes [] = []"
| "ext_bytes ((t, n, body) # rest) = first_type rest # n # body @ ext_bytes rest"

fun ext_ok :: "ext \<Rightarrow> bool" where
  "ext_ok (t, n, body) = ((t = 0 \<or> t = 43 \<or> t = 60) \<and> length body = 8 * unat n + 6)"

lemma ipv6_headers_walk:
  assumes "list_all ext_ok exts" "2 \<le> length rest" "data = pre @ ext_bytes exts @ rest"
  shows "ipv6_headers (int (length data)) data (first_type exts) (int (length pre)) = Some (Good (int (length pre + length (ext_bytes exts))))"
  using assms
proof (induction exts arbitrary: pre)
  case Nil
  then show ?case by (subst ipv6_headers.simps) simp
next
  case (Cons e exts)
  obtain t n body where e: "e = (t, n, body)" by (rule prod_cases3)
  let ?pre = "pre @ first_type exts # n # body"
  have t: "t = 0 \<or> t = 43 \<or> t = 60" and b: "length body = 8 * unat n + 6" using Cons.prems(1) e by simp_all
  have d: "data = ?pre @ ext_bytes exts @ rest" using Cons.prems(3) e by simp
  have r: "read_at data (int (length pre)) = Some (first_type exts)" "read_at data (int (length pre) + 1) = Some n"
    unfolding d by (simp_all add: read_at_def nth_append nat_add_distrib)
  have "int (length body) = 8 * uint n + 6" unfolding b uint_nat by simp
  then have l: "int (length pre) + 8 * (1 + uint n) = int (length ?pre)" by simp
  have "\<not> int (length data) < int (length ?pre) + 2" using Cons.prems(2) d by simp
  then have "ipv6_headers (int (length data)) data (first_type (e # exts)) (int (length pre))
      = ipv6_headers (int (length data)) data (first_type exts) (int (length ?pre))"
    using t by (intro ipv6_headers_step [OF _ r l [symmetric]]) (simp_all add: e)
  also have "\<dots> = Some (Good (int (length ?pre + length (ext_bytes exts))))"
    using Cons.IH [OF _ Cons.prems(2) d] Cons.prems(1) by simp
  finally show ?case using e by simp
qed

text \<open>Conversely, where the walk ends there was such a chain.\<close>

lemma ipv6_headers_found:
  assumes "ipv6_headers (int (length data)) data nxt (int k) = Some (Good off)" "k + 2 \<le> length data"
  shows "\<exists>exts rest. drop k data = ext_bytes exts @ rest \<and> first_type exts = nxt \<and> list_all ext_ok exts
    \<and> 2 \<le> length rest \<and> off = int (k + length (ext_bytes exts))"
  using assms
proof (induction "length data - k" arbitrary: k nxt rule: less_induct)
  case less
  define n where "n = data ! (k + 1)"
  have r: "read_at data (int k) = Some (data ! k)" "read_at data (int k + 1) = Some n"
    using less.prems(2) by (simp_all add: read_at_def n_def nat_add_distrib)
  consider "nxt = 0x11" | "nxt \<noteq> 0x11" "nxt \<noteq> 0 \<and> nxt \<noteq> 43 \<and> nxt \<noteq> 60" | "nxt = 0 \<or> nxt = 43 \<or> nxt = 60" by blast
  then show ?case
  proof cases
    case 1
    then have "off = int k" using less.prems(1) by (subst (asm) ipv6_headers.simps) simp
    then show ?thesis using 1 less.prems(2) by (intro exI [of _ "[]"] exI [of _ "drop k data"]) simp
  next
    case 2
    then show ?thesis using less.prems(1) by (subst (asm) ipv6_headers.simps) simp
  next
    case 3
    let ?k = "k + 8 * (1 + unat n)"
    have u: "int k + 8 * (1 + uint n) = int ?k" unfolding uint_nat by simp
    have fits: "\<not> int (length data) < int ?k + 2"
    proof
      assume "int (length data) < int ?k + 2"
      then have "ipv6_headers (int (length data)) data nxt (int k) = Some (Bad [])"
        using 3 r u by (subst ipv6_headers.simps) auto
      with less.prems(1) show False by simp
    qed
    then have "ipv6_headers (int (length data)) data (data ! k) (int ?k) = Some (Good off)"
      using ipv6_headers_step [OF 3 r u [symmetric]] less.prems(1) by simp
    moreover have room: "?k + 2 \<le> length data" using fits by linarith
    moreover have "length data - ?k < length data - k" using calculation(2) by (simp add: diff_less_mono2)
    ultimately obtain exts rest where e: "drop ?k data = ext_bytes exts @ rest" "first_type exts = data ! k"
        "list_all ext_ok exts" "2 \<le> length rest" "off = int (?k + length (ext_bytes exts))"
      using less.hyps [of ?k "data ! k"] by blast
    define body where "body = take (8 * unat n + 6) (drop (k + 2) data)"
    have b: "length body = 8 * unat n + 6" using room by (simp add: body_def)
    have "drop k data = data ! k # n # drop (k + 2) data"
      using less.prems(2) by (simp add: n_def Cons_nth_drop_Suc)
    also have "drop (k + 2) data = body @ drop (8 * unat n + 6) (drop (k + 2) data)" by (simp only: body_def append_take_drop_id)
    also have "drop (8 * unat n + 6) (drop (k + 2) data) = drop ?k data" by (simp add: algebra_simps)
    finally have "drop k data = ext_bytes ((nxt, n, body) # exts) @ rest" using e(1,2) by simp
    moreover have "list_all ext_ok ((nxt, n, body) # exts)" using 3 b e(3) by simp
    ultimately show ?thesis
      using e(4,5) b by (intro exI [of _ "(nxt, n, body) # exts"] exI [of _ rest]) simp
  qed
qed

text \<open>
  Where the payload of a UDP packet starts, with the family and the addresses: eight bytes behind an
  IPv4 header of the length it declares, or eight bytes behind an IPv6 header of forty bytes and its
  extension headers.
\<close>

inductive udp_found :: "bytes \<Rightarrow> int \<Rightarrow> bytes \<Rightarrow> bytes \<Rightarrow> nat \<Rightarrow> bool" where
  found4: "20 \<le> length data \<Longrightarrow> data ! 0 AND 0xf0 = 0x40 \<Longrightarrow> 4 * unat (data ! 0 AND 0x0f) \<le> length data \<Longrightarrow> data ! 9 = 0x11 \<Longrightarrow>
    udp_found data AF_INET_ntop (take 4 (drop 12 data)) (take 4 (drop 16 data)) (4 * unat (data ! 0 AND 0x0f) + 8)"
| found6: "length f = 40 \<Longrightarrow> f ! 0 AND 0xf0 = 0x60 \<Longrightarrow> f ! 6 = first_type exts \<Longrightarrow> list_all ext_ok exts \<Longrightarrow> 2 \<le> length rest \<Longrightarrow>
    udp_found (f @ ext_bytes exts @ rest) AF_INET6_ntop (take 16 (drop 8 f)) (take 16 (drop 24 f)) (40 + length (ext_bytes exts) + 8)"

definition shown :: "inet_ntop \<Rightarrow> int \<Rightarrow> bytes \<Rightarrow> string" where
  "shown ntop af addr = (case ntop af addr of None \<Rightarrow> ''unknown'' | Some text \<Rightarrow> text)"

lemma inet_addr_shown:
  "i + 4 \<le> length data \<Longrightarrow> inet4_addr ntop data i = Some (shown ntop AF_INET_ntop (take 4 (drop i data)))"
  "i + 16 \<le> length data \<Longrightarrow> inet6_addr ntop data i = Some (shown ntop AF_INET6_ntop (take 16 (drop i data)))"
  by (simp_all add: inet4_addr_def inet6_addr_def read_many_def shown_def)

lemma found_process:
  assumes "udp_found data af src dst n"
  shows "process_ipv4_ipv6 ntop (int (length data)) data = Some (Good (int n, shown ntop af src, shown ntop af dst))"
  using assms
proof (induction rule: udp_found.induct)
  case (found4 data)
  then have "data \<noteq> []" "read_at data 9 = Some 0x11" "\<not> length data < 4 * unat (data ! 0 AND 0x0f)"
    by (auto simp: read_at_def)
  with found4 show ?case
    using process_v4_eq [of data ntop] inet_addr_shown(1) [of 12 data ntop] inet_addr_shown(1) [of 16 data ntop]
    by (simp del: of_nat_mult)
next
  case (found6 f exts rest)
  let ?data = "f @ ext_bytes exts @ rest"
  have "ipv6_headers (int (length ?data)) ?data (first_type exts) (int (length f)) = Some (Good (int (length f + length (ext_bytes exts))))"
    by (rule ipv6_headers_walk [OF found6(4,5)]) simp
  moreover have "?data ! 0 = f ! 0" "?data ! 6 = f ! 6" "?data \<noteq> []" using found6(1) by (auto simp: nth_append)
  ultimately show ?case
    using found6 process_v6_eq [of ?data ntop] inet_addr_shown(2) [of 8 ?data ntop] inet_addr_shown(2) [of 24 ?data ntop]
    by (simp add: read_at_def)
qed

lemma process_found:
  assumes "process_ipv4_ipv6 ntop (int (length data)) data = Some (Good (off, s, d))"
  shows "\<exists>af src dst n. udp_found data af src dst n \<and> off = int n \<and> s = shown ntop af src \<and> d = shown ntop af dst"
proof -
  consider "data \<noteq> []" "data ! 0 AND 0xf0 = 0x40" | "data \<noteq> []" "data ! 0 AND 0xf0 = 0x60"
    | "data = [] \<or> data ! 0 AND 0xf0 \<noteq> 0x40 \<and> data ! 0 AND 0xf0 \<noteq> 0x60" by blast
  then show ?thesis
  proof cases
    case 1
    have "\<not> ipv4_overread data" using process_v4(1) [OF 1, of ntop] assms by simp
    moreover have "4 * unat (data ! 0 AND 0x0f) \<le> length data" "read_at data 9 = Some 0x11"
      using assms unfolding process_v4_eq [OF 1] by (auto simp: bind_eq_Some_conv split: if_splits)
    ultimately have "udp_found data AF_INET_ntop (take 4 (drop 12 data)) (take 4 (drop 16 data)) (4 * unat (data ! 0 AND 0x0f) + 8)"
      using 1 by (intro found4) (auto simp: ipv4_overread_def read_at_def split: if_splits)
    then show ?thesis using found_process [of data _ _ _ _ ntop] assms by fastforce
  next
    case 2
    have len: "42 \<le> length data" using assms unfolding process_v6_eq [OF 2] by (auto split: if_splits)
    then have "read_at data 6 = Some (data ! 6)" by (simp add: read_at_def)
    then obtain r where r: "ipv6_headers (int (length data)) data (data ! 6) (int 40) = Some r"
      using assms len unfolding process_v6_eq [OF 2] by (auto simp: bind_eq_Some_conv)
    obtain o' where "r = Good o'"
      using assms len r \<open>read_at data 6 = _\<close> unfolding process_v6_eq [OF 2] by (cases r) simp_all
    then have "ipv6_headers (int (length data)) data (data ! 6) (int 40) = Some (Good o')" using r by simp
    from ipv6_headers_found [OF this] len obtain exts rest where e: "drop 40 data = ext_bytes exts @ rest"
        "first_type exts = data ! 6" "list_all ext_ok exts" "2 \<le> length rest" by auto
    have "data = take 40 data @ ext_bytes exts @ rest" using e(1) by (metis append_take_drop_id)
    then have "udp_found data AF_INET6_ntop (take 16 (drop 8 (take 40 data))) (take 16 (drop 24 (take 40 data))) (40 + length (ext_bytes exts) + 8)"
      using found6 [of "take 40 data" exts rest] len 2 e by simp
    then show ?thesis using found_process [of data _ _ _ _ ntop] assms by fastforce
  next
    case 3
    then show ?thesis using process_other [OF 3, of ntop] assms by simp
  qed
qed

text \<open>The IP headers of a UDP packet, with their source and destination address.\<close>

inductive udp_in_ip :: "bytes \<Rightarrow> int \<Rightarrow> bytes \<Rightarrow> bytes \<Rightarrow> bool" where
  v4: "length h = 4 * unat (h ! 0 AND 0x0f) \<Longrightarrow> 20 \<le> length h \<Longrightarrow> h ! 0 AND 0xf0 = 0x40 \<Longrightarrow> h ! 9 = 0x11 \<Longrightarrow>
    udp_in_ip h AF_INET_ntop (take 4 (drop 12 h)) (take 4 (drop 16 h))"
| v6: "length f = 40 \<Longrightarrow> f ! 0 AND 0xf0 = 0x60 \<Longrightarrow> f ! 6 = first_type exts \<Longrightarrow> list_all ext_ok exts \<Longrightarrow>
    udp_in_ip (f @ ext_bytes exts) AF_INET6_ntop (take 16 (drop 8 f)) (take 16 (drop 24 f))"

lemma process_udp:
  assumes "udp_in_ip ip af src dst" "length udp = 8"
  shows "udp_found (ip @ udp @ payload) af src dst (length ip + 8)"
  using assms
proof (induction rule: udp_in_ip.induct)
  case (v4 h)
  let ?data = "h @ udp @ payload"
  have "?data ! 0 = h ! 0" "?data ! 9 = h ! 9" using v4(2) by (auto simp: nth_append)
  then show ?case using v4 found4 [of ?data] by simp
next
  case (v6 f exts)
  then show ?case using found6 [of f exts "udp @ payload"] by (simp add: add.assoc)
qed

lemma dump_udp:
  assumes "udp_in_ip ip af src dst" "length udp = 8" "link_layer dl (link @ ip @ udp @ payload) = Some (Network_at (length link))"
    "length (link @ ip @ udp @ payload) < W32"
  shows "dump_packet ntop dl (link @ ip @ udp @ payload)
    = Some (Printed (payload_text (shown ntop af src) (shown ntop af dst) (ssize payload) payload))"
  using dump_good [OF assms(4,3)] found_process [OF process_udp [OF assms(1,2), of payload], of ntop] assms(2) by (simp add: nat_add_distrib)

text \<open>The checksum is wrong: the line shows the header of an empty segment, not the one of the packet.\<close>

lemma bad_checksum_shows_zeros:
  assumes "InternetChecksum_value (InternetChecksum_add payload (InternetChecksum_new 0)) \<noteq> 0"
  shows "payload_text src dst n payload = segment_text src dst n BadChecksum TCPSegment_new @ hexdump payload 8"
  using assms by (simp add: payload_text_def TCPSegment_parse_def)

section \<open>The loop\<close>

text \<open>The packets that the capture delivers before it ends without an error.\<close>

inductive captured :: "('p, 'f) pcap \<Rightarrow> 'p \<Rightarrow> bytes list \<Rightarrow> bool" for pc where
  ended: "pc_next_ex pc p = (r, x, p') \<Longrightarrow> r < - 1 \<Longrightarrow> captured pc p []"
| timeout: "pc_next_ex pc p = (0, x, p') \<Longrightarrow> captured pc p' pkts \<Longrightarrow> captured pc p pkts"
| arrived: "pc_next_ex pc p = (r, x, p') \<Longrightarrow> 0 < r \<Longrightarrow> captured pc p' pkts \<Longrightarrow> captured pc p (x # pkts)"

fun printed :: "packet_result option \<Rightarrow> string option" where
  "printed (Some (Printed t)) = Some t"
| "printed (Some (Skipped msg)) = Some []"
| "printed _ = None"

lemma dump_loop_captured:
  assumes "captured pc p pkts" "list_all2 (\<lambda>pkt t. printed (dump_packet ntop dl pkt) = Some t) pkts ts"
  shows "\<exists>r p'. dump_loop pc ntop dl p out = Some (r, p', None, out @ concat ts) \<and> r < - 1"
  using assms
proof (induction arbitrary: out ts rule: captured.induct)
  case (ended p r x p')
  then show ?case by (subst dump_loop.simps) simp
next
  case (timeout p x p' pkts)
  then show ?case by (subst dump_loop.simps) simp
next
  case (arrived p r x p' pkts)
  obtain t us where ts: "ts = t # us" "printed (dump_packet ntop dl x) = Some t"
      "list_all2 (\<lambda>pkt t. printed (dump_packet ntop dl pkt) = Some t) pkts us"
    using arrived.prems by (auto simp: list_all2_Cons1)
  have "dump_loop pc ntop dl p out = dump_loop pc ntop dl p' (out @ t)"
    using arrived.hyps(1,2) ts(2) by (subst dump_loop.simps) (auto elim!: printed.elims)
  with arrived.IH [OF ts(3), of "out @ t"] ts(1) show ?case by simp
qed

text \<open>A UDP packet as captured: link header, IP headers, UDP header and payload, with the addresses.\<close>

record udp_packet =
  up_link :: bytes
  up_ip :: bytes
  up_udp :: bytes
  up_payload :: bytes
  up_family :: int
  up_src :: bytes
  up_dst :: bytes

definition up_bytes :: "udp_packet \<Rightarrow> bytes" where
  "up_bytes u = up_link u @ up_ip u @ up_udp u @ up_payload u"

definition up_ok :: "dlt \<Rightarrow> udp_packet \<Rightarrow> bool" where
  "up_ok dl u =
     (udp_in_ip (up_ip u) (up_family u) (up_src u) (up_dst u) \<and> length (up_udp u) = 8
      \<and> link_layer dl (up_bytes u) = Some (Network_at (length (up_link u))) \<and> length (up_bytes u) < W32)"

definition up_text :: "inet_ntop \<Rightarrow> udp_packet \<Rightarrow> string" where
  "up_text ntop u = payload_text (shown ntop (up_family u) (up_src u)) (shown ntop (up_family u) (up_dst u))
     (ssize (up_payload u)) (up_payload u)"

lemma dump_up: "up_ok dl u \<Longrightarrow> dump_packet ntop dl (up_bytes u) = Some (Printed (up_text ntop u))"
  using dump_udp by (auto simp: up_ok_def up_bytes_def up_text_def)

section \<open>Properties\<close>

text \<open>
  C33: what is read of a captured packet, for every kind of link and whatever its bytes. The network layer
  is looked for behind the link header only if that is complete and names IPv4 or IPv6. There the program
  reads outside the packet exactly when an IPv4 packet is no shorter than its header length field says
  and yet ends before the protocol or, for UDP, before the addresses. For a UDP packet it prints the
  addresses and everything behind the eight bytes of the UDP header, which follow the IPv4 header or the
  IPv6 header and its extension headers; if these eight bytes are cut off, it dies of an exception.
\<close>

theorem udp_tcpdump_bounds:
  assumes "length pkt < W32"
  shows "(dump_packet ntop dl pkt = None \<longleftrightarrow> (\<exists>h. network_at dl pkt h \<and> ipv4_overread (drop h pkt)))
    \<and> (dump_packet ntop dl pkt = Some (Thrown e) \<longleftrightarrow> e = Length_error ''basic_string::_M_create''
        \<and> (\<exists>h af src dst n. network_at dl pkt h \<and> udp_found (drop h pkt) af src dst n \<and> length pkt < h + n))
    \<and> (dump_packet ntop dl pkt = Some (Printed t) \<longleftrightarrow>
        (\<exists>h af src dst n. network_at dl pkt h \<and> udp_found (drop h pkt) af src dst n \<and> h + n \<le> length pkt
           \<and> t = payload_text (shown ntop af src) (shown ntop af dst) (of_nat (length pkt - (h + n))) (drop (h + n) pkt)))"
proof -
  let ?P = "\<lambda>h. process_ipv4_ipv6 ntop (int (length pkt - h)) (drop h pkt)"
  have over: "ipv4_overread (drop h pkt) \<longleftrightarrow> ?P h = None" for h using process_bounds(1) [of ntop "drop h pkt"] by simp
  have found: "udp_found (drop h pkt) af src dst n \<Longrightarrow> ?P h = Some (Good (int n, shown ntop af src, shown ntop af dst))" for h af src dst n
    using found_process [of "drop h pkt" af src dst n ntop] by simp
  obtain l where l: "link_layer dl pkt = Some l" using link_layer_in(1) [of dl pkt] by blast
  note net = link_layer_network [of dl pkt, symmetric]
  show ?thesis
  proof (cases l)
    case (Network_at h)
    note n = l [unfolded Network_at]
    consider "?P h = None" | msg where "?P h = Some (Bad msg)" | off s d where "?P h = Some (Good (off, s, d))"
      by (metis option.exhaust parsed.exhaust prod_cases3)
    then show ?thesis
    proof cases
      case 1
      then have "\<not> udp_found (drop h pkt) af src dst k" for af src dst k using found [of h af src dst k] by auto
      with 1 show ?thesis using n by (simp add: over net dump_packet_def)
    next
      case 2
      then have "\<not> udp_found (drop h pkt) af src dst k" for af src dst k using found [of h af src dst k] by auto
      with 2 show ?thesis using n by (simp add: over net dump_packet_def)
    next
      case (3 off s d)
      obtain af src dst k where f: "udp_found (drop h pkt) af src dst k" "off = int k" "s = shown ntop af src" "d = shown ntop af dst"
        using process_found [of ntop "drop h pkt" off s d] 3 by auto
      have same: "k' = k \<and> shown ntop af' src' = s \<and> shown ntop af' dst' = d" if "udp_found (drop h pkt) af' src' dst' k'" for af' src' dst' k'
        using found [OF that] 3 f(2) by simp
      have at: "network_at dl pkt x \<longleftrightarrow> x = h" for x using n by (auto simp: net)
      have cut: "(\<exists>h af src dst n. network_at dl pkt h \<and> udp_found (drop h pkt) af src dst n \<and> length pkt < h + n) \<longleftrightarrow> length pkt < h + k"
        unfolding at using f(1) same by blast
      have whole: "(\<exists>h af src dst n. network_at dl pkt h \<and> udp_found (drop h pkt) af src dst n \<and> h + n \<le> length pkt
           \<and> t = payload_text (shown ntop af src) (shown ntop af dst) (of_nat (length pkt - (h + n))) (drop (h + n) pkt))
        \<longleftrightarrow> h + k \<le> length pkt \<and> t = payload_text s d (of_nat (length pkt - (h + k))) (drop (h + k) pkt)"
        unfolding at using f same by (metis (no_types))
      have none: "(\<exists>h. network_at dl pkt h \<and> ipv4_overread (drop h pkt)) \<longleftrightarrow> False" unfolding at over using 3 by simp
      have "dump_packet ntop dl pkt = (if h + k \<le> length pkt then Some (Printed (payload_text s d (of_nat (length pkt - (h + k))) (drop (h + k) pkt)))
          else Some (Thrown (Length_error ''basic_string::_M_create'')))"
        using dump_good [OF assms n 3] f(2) by (auto simp: ssize_def)
      then show ?thesis unfolding cut whole none by (cases "h + k \<le> length pkt") (auto simp: not_le)
    qed
  qed (simp_all add: l net dump_packet_def)
qed

definition no_names :: inet_ntop where
  "no_names af addr = None"

theorem udp_tcpdump_bounds_witness:
  "dump_packet no_names DLT_RAW [0x41, 0, 0, 0] = None \<and> dump_packet no_names DLT_RAW [0x46, 0] = Some (Skipped (''Error parsing IPv4/IPv6 packet. Skipping.'' @ nl))"
proof -
  have "network_at DLT_RAW [0x41, 0, 0, 0] 0" by simp
  moreover have "ipv4_overread (drop 0 [0x41, 0, 0, 0])" by (simp add: ipv4_overread_def)
  moreover have "length [0x41, 0, 0, 0 :: u8] < W32" by simp
  ultimately have "dump_packet no_names DLT_RAW [0x41, 0, 0, 0] = None"
    using udp_tcpdump_bounds [THEN conjunct1, of "[0x41, 0, 0, 0]" no_names DLT_RAW] by blast
  moreover have "dump_packet no_names DLT_RAW [0x46, 0] = Some (Skipped (''Error parsing IPv4/IPv6 packet. Skipping.'' @ nl))"
    by (simp add: dump_packet_def link_layer_def process_ipv4_ipv6_def read_at_def)
  ultimately show ?thesis by simp
qed

text \<open>
  C35: the program shows a capture. When the arguments are accepted, the device opens and the filter is
  installed, and the capture delivers UDP packets over IPv4 with any options or over IPv6 with any chain
  of hop-by-hop, routing and destination headers, with timeouts in between, and then ends, the program
  returns with success, having printed the addresses, the segment and the bytes of every payload in
  the order of arrival.
\<close>

theorem udp_tcpdump_prints:
  assumes "parse_arguments argv 1 None = Continue (exp_start, dev)" "open_capture pc dev = Continue (dl, p, out)"
    "install_filter pc (filter_expression argv exp_start) p out = Continue (p', out')"
    "captured pc p' (map up_bytes us)" "list_all (up_ok dl) us"
  shows "udp_tcpdump_main pc ntop argv = Some (Exited EXIT_SUCCESS (out' @ concat (map (up_text ntop) us)))"
proof -
  have "list_all2 (\<lambda>pkt t. printed (dump_packet ntop dl pkt) = Some t) (map up_bytes us) (map (up_text ntop) us)"
    using assms(5) by (simp add: list_all2_map1 list_all2_map2 list.pred_rel eq_onp_def dump_up list_all_iff list_all2_same)
  from dump_loop_captured [OF assms(4) this, of out'] assms(1-3) show ?thesis
    by (auto simp: udp_tcpdump_main_def)
qed

text \<open>A capture file of raw packets: its state is the packets still to come.\<close>

definition file_pcap :: "bytes list \<Rightarrow> (bytes list, string) pcap" where
  "file_pcap pkts =
     \<lparr>pc_open_live = \<lambda>dev. Inr pkts, pc_datalink = \<lambda>p. DLT_RAW, pc_datalink_val_to_description = \<lambda>d. ''Raw IP'',
      pc_compile = \<lambda>s p. (Some s, p), pc_setfilter = \<lambda>f p. (True, p), pc_geterr = \<lambda>p. [],
      pc_next_ex = \<lambda>p. case p of [] \<Rightarrow> (- 2, [], []) | x # xs \<Rightarrow> (1, x, xs)\<rparr>"

lemma captured_file: "captured (file_pcap all) pkts pkts"
proof (induction pkts)
  case Nil
  have "pc_next_ex (file_pcap all) [] = (- 2, [], [])" by (simp add: file_pcap_def)
  then show ?case by (rule captured.ended) linarith
next
  case (Cons x pkts)
  have "pc_next_ex (file_pcap all) (x # pkts) = (1, x, pkts)" by (simp add: file_pcap_def)
  then show ?case by (rule captured.arrived [OF _ _ Cons]) linarith
qed

definition demo_packet :: udp_packet where
  "demo_packet = \<lparr>up_link = [], up_ip = [0x45, 0, 0, 28, 0, 0, 0, 0, 64, 0x11, 0, 0, 10, 0, 0, 1, 10, 0, 0, 2],
     up_udp = [5, 57, 5, 57, 0, 8, 0, 0], up_payload = [], up_family = AF_INET_ntop, up_src = [10, 0, 0, 1], up_dst = [10, 0, 0, 2]\<rparr>"

lemma demo_packet_ok: "up_ok DLT_RAW demo_packet"
proof -
  have "udp_in_ip (up_ip demo_packet) AF_INET_ntop (take 4 (drop 12 (up_ip demo_packet))) (take 4 (drop 16 (up_ip demo_packet)))"
    by (rule udp_in_ip.v4) (simp_all add: demo_packet_def)
  then show ?thesis by (simp add: up_ok_def up_bytes_def demo_packet_def link_layer_def)
qed

theorem udp_tcpdump_prints_witness:
  "udp_tcpdump_main (file_pcap [up_bytes demo_packet]) no_names [''udp_tcpdump'', ''udp''] =
     Some (Exited EXIT_SUCCESS (''Capturing on all interfaces (type: Raw IP)'' @ nl @ ''Using filter expression: udp '' @ nl
       @ payload_text ''unknown'' ''unknown'' 0 []))"
proof -
  have "parse_arguments [''udp_tcpdump'', ''udp''] 1 None = Continue (1, None)" by (subst parse_arguments.simps) simp
  moreover have "open_capture (file_pcap [up_bytes demo_packet]) None
      = Continue (DLT_RAW, [up_bytes demo_packet], ''Capturing on all interfaces (type: Raw IP)'' @ nl)"
    by (simp add: open_capture_def file_pcap_def supported_link_def)
  moreover have "install_filter (file_pcap [up_bytes demo_packet]) (filter_expression [''udp_tcpdump'', ''udp''] 1) [up_bytes demo_packet]
      (''Capturing on all interfaces (type: Raw IP)'' @ nl)
      = Continue ([up_bytes demo_packet], ''Capturing on all interfaces (type: Raw IP)'' @ nl @ ''Using filter expression: udp '' @ nl)"
    by (simp add: install_filter_def file_pcap_def filter_expression_def)
  moreover have "captured (file_pcap [up_bytes demo_packet]) [up_bytes demo_packet] (map up_bytes [demo_packet])"
    using captured_file by simp
  moreover have "list_all (up_ok DLT_RAW) [demo_packet]" using demo_packet_ok by simp
  ultimately have "udp_tcpdump_main (file_pcap [up_bytes demo_packet]) no_names [''udp_tcpdump'', ''udp''] =
    Some (Exited EXIT_SUCCESS ((''Capturing on all interfaces (type: Raw IP)'' @ nl @ ''Using filter expression: udp '' @ nl)
      @ concat (map (up_text no_names) [demo_packet])))"
    by (rule udp_tcpdump_prints)
  moreover have "up_text no_names demo_packet = payload_text ''unknown'' ''unknown'' 0 []"
    by (simp add: up_text_def demo_packet_def shown_def no_names_def ssize_def)
  ultimately show ?thesis by simp
qed

end
