(* ===== verification/Spec2Isabelle.thy ===== *)
theory Spec2Isabelle
  imports Simulator_Tests Stream_Copy Tcp_Benchmark Udp_Tcpdump
begin

text \<open>
  A verification library for the Sponge TCP/IP stack (\<open>src/libsponge\<close>): a TCP implementation in user
  space, from byte streams and sequence numbers up to a socket that an application uses, and some of
  the programs built on it (\<open>src/apps\<close>).

  \<^bold>\<open>Parts and how they fit together.\<close> An application writes into a \<open>ByteStream\<close>; the \<open>TCPSender\<close> cuts it into
  segments, the \<open>TCPReceiver\<close> and its \<open>StreamReassembler\<close> put the peer's segments together again, and a
  \<open>TCPConnection\<close> couples the two and decides when the connection is over. Segments travel in UDP
  payloads, in IPv4 datagrams on a TUN device, or in Ethernet frames on a TAP device, where a
  \<open>NetworkInterface\<close> resolves addresses by ARP; a \<open>Router\<close> forwards datagrams between such interfaces. An
  \<open>EventLoop\<close> in the thread of a \<open>TCPSpongeSocket\<close> drives a connection, its adapter and the socket pair that
  the owner of the socket reads and writes.

  \<^bold>\<open>Theories.\<close> Definitions have the names of the source, with the class in front of a method.

  \<^item> \<open>Prelude\<close>: names of types, machine words and exceptions (\<open>exn\<close>, \<open>res\<close>), shared lemmas.
  \<^item> \<open>Wrapping_Integers\<close> (\<open>wrapping_integers.{hh,cc}\<close>): \<open>wrap\<close> and \<open>unwrap\<close> are inverse near the checkpoint, and
    \<open>unwrap\<close> picks the closest candidate.
  \<^item> \<open>Buffers\<close>, \<open>Byte_Stream\<close> (\<open>util/buffer.{hh,cc}\<close>, \<open>byte_stream.{hh,cc}\<close>): the stream implements a bounded queue
    of bytes (\<open>byte_seq\<close>, \<open>byte_channel\<close>).
  \<^item> \<open>Stream_Reassembler\<close>, \<open>Tcp_Receiver\<close> (\<open>stream_reassembler.{hh,cc}\<close>, \<open>tcp_receiver.{hh,cc}\<close>): pieces in any
    order, repeated and overlapping, give a prefix of the stream; the acknowledgment number counts what
    was assembled.
  \<^item> \<open>Tcp_Sender\<close> (\<open>tcp_sender.{hh,cc}\<close>): the segments sent are pieces of the stream, the outstanding ones are
    consecutive, the window is respected and filled, and the timeout doubles.
  \<^item> \<open>Net_Parser\<close>, \<open>Checksum\<close>, \<open>Tcp_Segment\<close> (\<open>util/parser.{hh,cc}\<close>, \<open>util/util.{hh,cc}\<close>, \<open>tcp_header.{hh,cc}\<close>,
    \<open>tcp_segment.{hh,cc}\<close>): what is serialized is parsed back; any one damaged byte is detected.
  \<^item> \<open>Tcp_State\<close>, \<open>Tcp_Connection\<close>, \<open>Tcp_Lifecycle\<close> (\<open>tcp_state.{hh,cc}\<close>, \<open>tcp_connection.{hh,cc}\<close>): an invariant of
    the connection against a peer's stream, kept by every operation; the handshake, the silent peer,
    TIME_WAIT, resets and replies.
  \<^item> \<open>Outbound_Stream\<close>, \<open>Tcp_Network\<close>: what the connection keeps of its sender, whatever arrives; two connections
    over a network that loses, delays, repeats, reorders and damages datagrams.
  \<^item> \<open>Text_Format\<close>, \<open>Ethernet\<close>, \<open>Ipv4\<close>, \<open>Arp\<close>, \<open>Address\<close> (\<open>ethernet_*\<close>, \<open>ipv4_*\<close>, \<open>arp_message.*\<close>, \<open>util/address.*\<close>):
    headers, their text forms and their round trips.
  \<^item> \<open>Network_Interface\<close>, \<open>Router\<close> (\<open>network_interface.*\<close>, \<open>router.*\<close>): ARP resolution delivers queued datagrams;
    the table is searched for the longest prefix and the queues are emptied.
  \<^item> \<open>Tcp_Over_Ip\<close> (\<open>tcp_over_ip.cc\<close>): a segment wrapped by one end is unwrapped by the other; foreign datagrams
    are dropped.
  \<^item> \<open>File_Descriptor\<close>, \<open>Socket\<close>, \<open>Io_Frames\<close> (\<open>util/file_descriptor.*\<close>, \<open>util/socket.*\<close>, \<open>util/tun.*\<close>): wrappers of
    system calls; a write delivers a prefix of its data, and what each operation leaves alone.
  \<^item> \<open>Adapters\<close> (\<open>fd_adapter.*\<close>, \<open>lossy_fd_adapter.hh\<close>, \<open>tuntap_adapter.*\<close>): the three adapters and the lossy one meet
    the contract \<open>segment_adapter\<close>.
  \<^item> \<open>Event_Loop\<close>, \<open>Sponge_Socket\<close>, \<open>Sponge_Loop\<close> (\<open>util/eventloop.*\<close>, \<open>tcp_sponge_socket.*\<close>): one turn of the loop;
    the four rules of a socket serve their descriptors, so that the checks inside the loop never fail.
  \<^item> \<open>Stream_Copy\<close> (\<open>apps/bidirectional_stream_copy.cc\<close>): no byte is lost, repeated or reordered between the standard
    streams and a socket.
  \<^item> \<open>Tcp_Benchmark\<close> (\<open>apps/tcp_benchmark.cc\<close>): two connections in one process; what is received is a prefix of
    what was sent.
  \<^item> \<open>Network_Simulator\<close>, \<open>Network_Delivery\<close>, \<open>Simulator_Tests\<close> (\<open>apps/network_simulator.cc\<close>): a router, six hosts and
    their wires; how a datagram travels over a wire with and without ARP; every test passes.
  \<^item> \<open>Udp_Tcpdump\<close> (\<open>apps/udp_tcpdump.cc\<close>): which bytes of a captured packet are read, and what is printed of it.

  \<^bold>\<open>Correspondence.\<close> A class is a \<open>record\<close>, an enumeration a \<open>datatype\<close>, an unsigned integer a word of its width. A
  method takes the object last and returns it changed; a method that may throw returns a sum with the
  exception on the left. Code that talks to the system is a function on \<open>world\<close>: the file descriptors
  and the state of an operating system that is an argument (\<open>os\<close>), like \<open>getaddrinfo\<close>, \<open>getnameinfo\<close> and the
  random generators. A lambda expression that an event loop calls is a definition of its own.

  \<^bold>\<open>Fuel and bounds.\<close> \<open>TCPSender_fill_loop\<close> has as much fuel as there are buffered bytes, and \<open>fill_loop_done\<close>
  shows that it is enough; \<open>StreamReassembler_drain\<close> has one step per stored byte, and \<open>drain_loop\<close> shows the
  same. \<open>Network_simulate\<close> runs the 256 rounds of the source. \<open>tcp_loop_from\<close>, \<open>copy_loop\<close>, \<open>benchmark_until\<close>, \<open>dump_loop\<close> and the
  tick of a network interface may not return; there \<open>None\<close> is a result. The
  theorems about a whole stream assume that it is shorter than 2 GiB, since a 32-bit sequence number is
  read within half its range.

  \<^bold>\<open>Not modelled.\<close> Output for debugging, but for the conversions to text that may throw; the waits for the end of
  a thread (\<open>wait_until_closed\<close> and the destructor of \<open>TCPSpongeSocket\<close>); the state that an exception leaves in an
  adapter; the reference counts of shared file descriptors. Of the programs, those that read floating-point
  loss rates from the command line (\<open>tcp_udp\<close>, \<open>tcp_ipv4\<close>, \<open>tcp_ip_ethernet\<close>), that start and join threads
  (\<open>webget\<close>, \<open>lab7\<close>) or that only call what is modelled here (\<open>tcp_native\<close>, \<open>tun\<close>, \<open>bouncer\<close>); the documentation
  examples and the tests.
\<close>

end
